(* ===== verification/Blz_Prelude.thy ===== *)
theory Blz_Prelude
  imports Main "HOL-Library.Word"
begin

text \<open>
  Shared vocabulary of the development: the machine integers of the Rust sources, the
  \<^verbatim>\<open>Result\<close> combinators the code composes with, decimal printing and parsing of
  unsigned integers (\<^verbatim>\<open>to_string\<close>, \<^verbatim>\<open>str::parse\<close>), big-endian byte encodings, and
  the generic facts about powers of two and bit masks that ring buffers and shard routing
  rest on.

  Unsigned integers that the code only stores, compares or masks are \<open>'n word\<close>;
  \<^verbatim>\<open>usize\<close> lengths and indices are \<^typ>\<open>nat\<close>; \<^verbatim>\<open>i64\<close> is \<^typ>\<open>int\<close> with the
  wrap-around of the release profile written out (\<open>wrap_i64\<close>), since the workspace does not
  enable \<^verbatim>\<open>overflow-checks\<close> in its release profile.
\<close>

unbundle bit_operations_syntax

named_theorems blz_wrap \<open>wrap-around and cast facts of the machine integers\<close>
named_theorems blz_res \<open>simplification of the Result combinators\<close>

type_synonym u8 = "8 word"
type_synonym u16 = "16 word"
type_synonym u32 = "32 word"
type_synonym u64 = "64 word"
type_synonym u128 = "128 word"
type_synonym i64 = int
type_synonym usize = nat

section \<open>Results\<close>

type_synonym ('e, 'a) result = "'e + 'a"

definition and_then :: "('e, 'a) result \<Rightarrow> ('a \<Rightarrow> ('e, 'b) result) \<Rightarrow> ('e, 'b) result" where
  "and_then r f = (case r of Inl e \<Rightarrow> Inl e | Inr x \<Rightarrow> f x)"

definition map_err :: "('e \<Rightarrow> 'f) \<Rightarrow> ('e, 'a) result \<Rightarrow> ('f, 'a) result" where
  "map_err f r = (case r of Inl e \<Rightarrow> Inl (f e) | Inr x \<Rightarrow> Inr x)"

definition ok_or :: "'e \<Rightarrow> 'a option \<Rightarrow> ('e, 'a) result" where
  "ok_or e x = (case x of None \<Rightarrow> Inl e | Some y \<Rightarrow> Inr y)"

definition is_err :: "('e, 'a) result \<Rightarrow> bool" where
  "is_err r = (case r of Inl _ \<Rightarrow> True | Inr _ \<Rightarrow> False)"

lemma and_then_simps [simp, blz_res]:
  "and_then (Inl e) f = Inl e" "and_then (Inr x) f = f x"
  by (simp_all add: and_then_def)

lemma map_err_simps [simp, blz_res]:
  "map_err g (Inl e) = Inl (g e)" "map_err g (Inr x) = Inr x"
  by (simp_all add: map_err_def)

lemma ok_or_simps [simp, blz_res]:
  "ok_or e None = Inl e" "ok_or e (Some x) = Inr x"
  by (simp_all add: ok_or_def)

lemma is_err_simps [simp, blz_res]: "is_err (Inl e)" "\<not> is_err (Inr x)"
  by (simp_all add: is_err_def)

lemma and_then_Inr_iff: "and_then r f = Inr y \<longleftrightarrow> (\<exists>x. r = Inr x \<and> f x = Inr y)"
  by (cases r) auto

lemma ok_or_Inr_iff: "ok_or e x = Inr y \<longleftrightarrow> x = Some y"
  by (cases x) auto

section \<open>Signed 64-bit integers and casts\<close>

definition wrap_i64 :: "int \<Rightarrow> i64" where
  "wrap_i64 x = signed_take_bit 63 x"

definition in_i64 :: "int \<Rightarrow> bool" where
  "in_i64 x \<longleftrightarrow> - (2 ^ 63) \<le> x \<and> x < 2 ^ 63"

text \<open>The cast \<^verbatim>\<open>as usize\<close> of an \<^verbatim>\<open>i64\<close> on a 64-bit target keeps the bit pattern.\<close>

definition as_usize :: "i64 \<Rightarrow> usize" where
  "as_usize x = nat (take_bit 64 x)"

lemma wrap_i64_id [simp, blz_wrap]: "in_i64 x \<Longrightarrow> wrap_i64 x = x"
  by (simp add: wrap_i64_def in_i64_def signed_take_bit_int_eq_self_iff)

lemma in_i64_wrap [simp, blz_wrap]: "in_i64 (wrap_i64 x)"
  using signed_take_bit_int_less_exp [of 63 x] signed_take_bit_int_greater_eq_minus_exp [of 63 x]
  by (simp add: in_i64_def wrap_i64_def)

lemma wrap_i64_add [blz_wrap]: "wrap_i64 (wrap_i64 a + b) = wrap_i64 (a + b)"
  using signed_take_bit_add [of 63 "signed_take_bit 63 a" b] signed_take_bit_add [of 63 a b]
  by (simp add: wrap_i64_def)

lemma wrap_i64_diff_add [blz_wrap]: "wrap_i64 (wrap_i64 a - b + c) = wrap_i64 (a - b + c)"
  using wrap_i64_add [of a "c - b"] by (simp add: algebra_simps)

lemma as_usize_nonneg [blz_wrap]: "0 \<le> x \<Longrightarrow> in_i64 x \<Longrightarrow> as_usize x = nat x"
  by (simp add: as_usize_def in_i64_def take_bit_int_eq_self)

section \<open>Powers of two and masks\<close>

fun pow2 :: "nat \<Rightarrow> bool" where
  "pow2 n = (if n = 0 then False else if n = 1 then True else even n \<and> pow2 (n div 2))"

declare pow2.simps [simp del]

lemma pow2_pos: "pow2 n \<Longrightarrow> 0 < n"
  by (cases n) (simp_all add: pow2.simps)

lemma pow2_iff: "pow2 n \<longleftrightarrow> (\<exists>k. n = 2 ^ k)"
proof (induction n rule: pow2.induct)
  case (1 n)
  consider "n = 0" | "n = 1" | "n \<noteq> 0" "n \<noteq> 1" by blast
  then show ?case
  proof cases
    case 1
    then show ?thesis by (simp add: pow2.simps)
  next
    case 2
    then show ?thesis by (auto simp: pow2.simps intro: exI [of _ 0])
  next
    case 3
    have "pow2 n \<longleftrightarrow> even n \<and> (\<exists>k. n div 2 = 2 ^ k)"
      using 3 "1.IH" by (simp add: pow2.simps [of n])
    also have "\<dots> \<longleftrightarrow> (\<exists>k. n = 2 ^ k)"
    proof
      assume "even n \<and> (\<exists>k. n div 2 = 2 ^ k)"
      then obtain k where "even n" "n div 2 = 2 ^ k" by blast
      then have "n = 2 ^ Suc k" by (auto elim!: evenE)
      then show "\<exists>k. n = 2 ^ k" ..
    next
      assume "\<exists>k. n = 2 ^ k"
      then obtain k where k: "n = 2 ^ k" ..
      with 3 obtain j where "k = Suc j" by (cases k) auto
      with k show "even n \<and> (\<exists>k. n div 2 = 2 ^ k)" by auto
    qed
    finally show ?thesis .
  qed
qed

lemma and_pred_zero_iff:
  fixes n :: nat
  assumes "0 < n"
  shows "n AND (n - 1) = 0 \<longleftrightarrow> pow2 n"
  using assms
proof (induction n rule: pow2.induct)
  case (1 n)
  show ?case
  proof (cases "odd n")
    case True
    then obtain m where m: "n = 2 * m + 1" by (blast elim: oddE)
    then have "n AND (n - 1) = 2 * m"
      by (simp add: and_nat_rec [of "Suc (2 * m)" "2 * m"])
    then show ?thesis using m True by (auto simp: pow2.simps [of n] pow2.simps [of "Suc (2 * m)"] pow2.simps [of 1])
  next
    case False
    then obtain m where m: "n = 2 * m" by (blast elim: evenE)
    with "1.prems" have m0: "0 < m" by simp
    have n1: "n - 1 = 2 * (m - 1) + 1" using m m0 by simp
    have "n AND (n - 1) = 2 * (m AND (m - 1))"
      unfolding n1 unfolding m by (subst and_nat_rec) simp
    moreover have "m AND (m - 1) = 0 \<longleftrightarrow> pow2 m"
      using "1.IH" m m0 by simp
    ultimately show ?thesis using m m0 by (simp add: pow2.simps [of "2 * m"])
  qed
qed

lemma and_mask_mod:
  fixes x n :: nat
  assumes "pow2 n"
  shows "x AND (n - 1) = x mod n"
proof -
  from assms obtain k where "n = 2 ^ k" by (auto simp: pow2_iff)
  then show ?thesis
    by (simp add: take_bit_eq_mod [symmetric] take_bit_eq_mask mask_eq_exp_minus_1)
qed

lemma and_pred_less:
  fixes x n :: nat
  assumes "0 < n"
  shows "x AND (n - 1) < n"
proof -
  have "int (x AND (n - 1)) \<le> int (n - 1)"
    by (simp add: of_nat_and_eq)
  then show ?thesis using assms by simp
qed

section \<open>Decimal text\<close>

text \<open>
  \<open>show_nat\<close> is \<^verbatim>\<open>to_string\<close> of an unsigned integer. \<open>parse_uint w\<close> is
  \<^verbatim>\<open>str::parse\<close> at width \<open>w\<close>: an optional leading \<^verbatim>\<open>+\<close>, at least one digit,
  nothing else, and the value must fit.
\<close>

definition digit_char :: "nat \<Rightarrow> char" where
  "digit_char d = char_of (48 + d)"

definition char_digit :: "char \<Rightarrow> nat option" where
  "char_digit c = (let n = of_char c in if 48 \<le> n \<and> n \<le> 57 then Some (n - 48) else None)"

fun show_nat :: "nat \<Rightarrow> string" where
  "show_nat n = (if n < 10 then [digit_char n] else show_nat (n div 10) @ [digit_char (n mod 10)])"

declare show_nat.simps [simp del]

fun parse_digits :: "nat \<Rightarrow> string \<Rightarrow> nat option" where
  "parse_digits acc [] = Some acc"
| "parse_digits acc (c # cs) =
     (case char_digit c of None \<Rightarrow> None | Some d \<Rightarrow> parse_digits (10 * acc + d) cs)"

definition parse_uint :: "nat \<Rightarrow> string \<Rightarrow> nat option" where
  "parse_uint w s =
     (let ds = (case s of [] \<Rightarrow> [] | c # cs \<Rightarrow> if c = CHR ''+'' then cs else s) in
      if ds = [] then None
      else case parse_digits 0 ds of
             None \<Rightarrow> None
           | Some n \<Rightarrow> if n < 2 ^ w then Some n else None)"

lemma char_digit_digit_char [simp]: "d < 10 \<Longrightarrow> char_digit (digit_char d) = Some d"
  by (simp add: char_digit_def digit_char_def)

lemma parse_digits_append:
  "parse_digits a (xs @ ys) =
     (case parse_digits a xs of None \<Rightarrow> None | Some b \<Rightarrow> parse_digits b ys)"
  by (induction xs arbitrary: a) (auto split: option.splits)

lemma parse_digits_show_nat: "parse_digits 0 (show_nat n) = Some n"
proof (induction n rule: show_nat.induct)
  case (1 n)
  then show ?case
    by (auto simp: show_nat.simps [of n] parse_digits_append)
qed

lemma show_nat_nonempty [simp]: "show_nat n \<noteq> []"
  by (subst show_nat.simps) simp

lemma set_show_nat: "set (show_nat n) \<subseteq> digit_char ` {..<10}"
proof (induction n rule: show_nat.induct)
  case (1 n)
  then show ?case by (auto simp: show_nat.simps [of n])
qed

lemma digit_char_not_plus: "d < 10 \<Longrightarrow> digit_char d \<noteq> CHR ''+''"
proof
  assume "d < 10" "digit_char d = CHR ''+''"
  then have "of_char (digit_char d) = (43 :: nat)" by simp
  with \<open>d < 10\<close> show False by (simp add: digit_char_def)
qed

lemma parse_uint_show_nat: "parse_uint w (show_nat n) = (if n < 2 ^ w then Some n else None)"
proof -
  obtain c cs where c: "show_nat n = c # cs" by (cases "show_nat n") auto
  with set_show_nat [of n] have "c \<noteq> CHR ''+''" by (auto simp: digit_char_not_plus)
  with c parse_digits_show_nat [of n] show ?thesis by (simp add: parse_uint_def)
qed

lemma parse_uint_bound: "parse_uint w s = Some n \<Longrightarrow> n < 2 ^ w"
  by (auto simp: parse_uint_def Let_def split: option.splits if_splits list.splits)

lemma show_nat_inject: "show_nat m = show_nat n \<longleftrightarrow> m = n"
  by (metis option.inject parse_digits_show_nat)

text \<open>Zero padding to a minimum width, as in the format specifiers \<^verbatim>\<open>{:02}\<close>.\<close>

definition pad_left :: "nat \<Rightarrow> string \<Rightarrow> string" where
  "pad_left w s = replicate (w - length s) (CHR ''0'') @ s"

lemma parse_digits_replicate_zero:
  "parse_digits a (replicate k (CHR ''0'') @ xs) = parse_digits (a * 10 ^ k) xs"
  by (induction k arbitrary: a) (simp_all add: char_digit_def Let_def ac_simps)

lemma parse_digits_show_nat_from:
  "parse_digits a (show_nat n) = Some (a * 10 ^ length (show_nat n) + n)"
proof (induction n rule: show_nat.induct)
  case (1 n)
  show ?case
  proof (cases "n < 10")
    case True
    then show ?thesis by (simp add: show_nat.simps [of n])
  next
    case False
    with 1 have "parse_digits a (show_nat (n div 10)) =
        Some (a * 10 ^ length (show_nat (n div 10)) + n div 10)" by simp
    with False show ?thesis
      by (simp add: show_nat.simps [of n] parse_digits_append algebra_simps)
  qed
qed

lemma length_show_nat: "n < 10 ^ s \<Longrightarrow> 0 < s \<Longrightarrow> length (show_nat n) \<le> s"
proof (induction n arbitrary: s rule: show_nat.induct)
  case (1 n)
  show ?case
  proof (cases "n < 10")
    case True
    with 1 show ?thesis by (simp add: show_nat.simps [of n])
  next
    case False
    with 1 obtain t where t: "s = Suc t" "0 < t" by (cases s; cases "s - 1") auto
    with 1 have "n div 10 < 10 ^ t" by (simp add: less_mult_imp_div_less mult.commute)
    with 1 False t show ?thesis by (simp add: show_nat.simps [of n])
  qed
qed

lemma parse_digits_padded:
  assumes "r < 10 ^ s" "0 < s"
  shows "parse_digits a (pad_left s (show_nat r)) = Some (a * 10 ^ s + r)"
proof -
  have "length (show_nat r) \<le> s" using assms by (rule length_show_nat)
  then have "a * 10 ^ (s - length (show_nat r)) * 10 ^ length (show_nat r) = a * 10 ^ s"
    by (simp add: mult.assoc flip: power_add)
  then show ?thesis
    by (simp add: pad_left_def parse_digits_replicate_zero parse_digits_show_nat_from)
qed

lemma length_pad_left: "length s \<le> w \<Longrightarrow> length (pad_left w s) = w"
  by (simp add: pad_left_def)

section \<open>Big-endian bytes\<close>

definition to_be_bytes :: "nat \<Rightarrow> nat \<Rightarrow> u8 list" where
  "to_be_bytes w n = map (\<lambda>i. word_of_nat (n div 256 ^ (w - 1 - i))) [0..<w]"

definition from_be_bytes :: "u8 list \<Rightarrow> nat" where
  "from_be_bytes bs = foldl (\<lambda>acc b. 256 * acc + unat b) 0 bs"

lemma length_to_be_bytes [simp]: "length (to_be_bytes w n) = w"
  by (simp add: to_be_bytes_def)

lemma to_be_bytes_Suc: "to_be_bytes (Suc w) n = to_be_bytes w (n div 256) @ [word_of_nat n]"
proof -
  have "n div 256 ^ (w - i) = n div 256 div 256 ^ (w - 1 - i)" if "i < w" for i
  proof -
    have "w - i = Suc (w - 1 - i)" using that by simp
    then show ?thesis by (simp add: div_mult2_eq)
  qed
  then show ?thesis by (simp add: to_be_bytes_def)
qed

lemma from_be_bytes_snoc: "from_be_bytes (bs @ [b]) = 256 * from_be_bytes bs + unat b"
  by (simp add: from_be_bytes_def)

lemma from_to_be_bytes: "n < 256 ^ w \<Longrightarrow> from_be_bytes (to_be_bytes w n) = n"
proof (induction w arbitrary: n)
  case 0
  then show ?case by (simp add: to_be_bytes_def from_be_bytes_def)
next
  case (Suc w)
  then have "n div 256 < 256 ^ w" by (simp add: less_mult_imp_div_less mult.commute)
  from Suc.IH [OF this] show ?case
    by (simp add: to_be_bytes_Suc from_be_bytes_snoc unat_of_nat)
qed

lemma from_be_bytes_bound: "from_be_bytes bs < 256 ^ length bs"
proof (induction bs rule: rev_induct)
  case Nil
  then show ?case by (simp add: from_be_bytes_def)
next
  case (snoc b bs)
  have "unat b < 256" using unsigned_less [of b] by simp
  with snoc show ?case by (simp add: from_be_bytes_snoc)
qed

lemma to_from_be_bytes: "to_be_bytes (length bs) (from_be_bytes bs) = bs"
proof (induction bs rule: rev_induct)
  case Nil
  then show ?case by (simp add: to_be_bytes_def)
next
  case (snoc b bs)
  have b: "unat b < 256" using unsigned_less [of b] by simp
  then have "(256 * from_be_bytes bs + unat b) div 256 = from_be_bytes bs" by simp
  moreover have "(word_of_nat (256 * from_be_bytes bs + unat b) :: u8) = b"
  proof -
    have z: "(256 :: u8) = 0" by simp
    show ?thesis unfolding of_nat_add of_nat_mult of_nat_numeral z by simp
  qed
  ultimately show ?case using snoc by (simp add: to_be_bytes_Suc from_be_bytes_snoc)
qed

section \<open>Strings\<close>

text \<open>\<^verbatim>\<open>str::contains\<close> on a string pattern, and \<^verbatim>\<open>join\<close>.\<close>

fun str_contains :: "string \<Rightarrow> string \<Rightarrow> bool" where
  "str_contains pat [] \<longleftrightarrow> pat = []"
| "str_contains pat (c # cs) \<longleftrightarrow> take (length pat) (c # cs) = pat \<or> str_contains pat cs"

fun str_join :: "string \<Rightarrow> string list \<Rightarrow> string" where
  "str_join sep [] = []"
| "str_join sep [x] = x"
| "str_join sep (x # xs) = x @ sep @ str_join sep xs"

text \<open>\<^verbatim>\<open>str::split\<close> on a character: always at least one piece.\<close>

fun str_split :: "char \<Rightarrow> string \<Rightarrow> string list" where
  "str_split c [] = [[]]"
| "str_split c (x # xs) =
     (if x = c then [] # str_split c xs
      else case str_split c xs of p # ps \<Rightarrow> (x # p) # ps | [] \<Rightarrow> [[x]])"

text \<open>\<^verbatim>\<open>str::trim\<close> for the ASCII white space characters.\<close>

definition is_space :: "char \<Rightarrow> bool" where
  "is_space c \<longleftrightarrow> of_char c \<in> {9, 10, 11, 12, 13, 32 :: nat}"

definition str_trim :: "string \<Rightarrow> string" where
  "str_trim s = rev (dropWhile is_space (rev (dropWhile is_space s)))"

lemma str_contains_append: "str_contains pat (xs @ pat @ ys)"
  by (induction xs) (cases pat; cases ys; simp)+

lemma str_split_nonempty [simp]: "str_split c s \<noteq> []"
  by (induction s) (auto split: list.split)

lemma str_split_join: "str_join [c] (str_split c s) = s"
proof (induction s)
  case (Cons x xs)
  show ?case
    using Cons by (cases "str_split c xs" rule: list.exhaust; cases "tl (str_split c xs)") auto
qed simp

section \<open>Writing into slots\<close>

text \<open>
  A loop that writes \<open>f k i\<close> into slot \<open>i\<close> for the \<open>k\<close>-th element \<open>i\<close> of a list of distinct slot
  numbers sets exactly those slots.
\<close>

fun write_slots :: "(nat \<Rightarrow> nat \<Rightarrow> 'a) \<Rightarrow> nat \<Rightarrow> nat list \<Rightarrow> 'a list \<Rightarrow> 'a list" where
  "write_slots f k [] res = res"
| "write_slots f k (i # is) res = write_slots f (Suc k) is (res[i := f k i])"

lemma length_write_slots [simp]: "length (write_slots f k is res) = length res"
  by (induction f k "is" res rule: write_slots.induct) auto

lemma write_slots_other: "j \<notin> set is \<Longrightarrow> write_slots f k is res ! j = res ! j"
  by (induction f k "is" res rule: write_slots.induct) auto

lemma write_slots_nth:
  "distinct is \<Longrightarrow> \<forall>i\<in>set is. i < length res \<Longrightarrow> p < length is \<Longrightarrow>
   write_slots f k is res ! (is ! p) = f (k + p) (is ! p)"
proof (induction f k "is" res arbitrary: p rule: write_slots.induct)
  case (2 f k i "is" res)
  then show ?case by (cases p) (auto simp: write_slots_other)
qed simp

lemma filter_upt_nth:
  assumes "i < n" "P i"
  shows "length (filter P [0..<i]) < length (filter P [0..<n])"
    "filter P [0..<n] ! length (filter P [0..<i]) = i"
proof -
  have "[0..<n] = [0..<i] @ i # [Suc i..<n]"
    using assms(1) by (metis less_imp_add_positive upt_add_eq_append upt_conv_Cons zero_le less_or_eq_imp_le)
  then show "length (filter P [0..<i]) < length (filter P [0..<n])"
    "filter P [0..<n] ! length (filter P [0..<i]) = i"
    using assms(2) by (simp_all add: nth_append)
qed

end
