(* ===== verification/Blz_Timestamp.thy ===== *)
theory Blz_Timestamp
  imports Blz_Prelude
begin

text \<open>
  \<^verbatim>\<open>core/common/src/timestamp.rs\<close>: nanosecond timestamps, saturating elapsed times, and the
  printing of an instant as ISO 8601, which converts a day count to a calendar date with
  constant-time integer arithmetic. That conversion is proved equal to a reference calendar
  that steps one day at a time under the Gregorian leap-year rule.

  The wall clock is an argument \<open>now_ns\<close>, nanoseconds since the Unix epoch.
\<close>

section \<open>Timestamps\<close>

datatype timestamp = Timestamp (ts_nanos: u64)

text \<open>\<open>now_ns\<close> is what \<^verbatim>\<open>duration_since(UNIX_EPOCH).as_nanos()\<close> returns (a \<^verbatim>\<open>u128\<close>).\<close>

definition timestamp_now :: "nat \<Rightarrow> timestamp" where
  "timestamp_now now_ns = Timestamp (word_of_nat now_ns)"

definition from_nanos :: "u64 \<Rightarrow> timestamp" where
  "from_nanos n = Timestamp n"

definition as_nanos :: "timestamp \<Rightarrow> u64" where
  "as_nanos t = ts_nanos t"

definition elapsed_nanos :: "nat \<Rightarrow> timestamp \<Rightarrow> u64" where
  "elapsed_nanos now_ns t =
     (let now = ts_nanos (timestamp_now now_ns) in
      if now < ts_nanos t then 0 else now - ts_nanos t)"

definition elapsed_micros :: "nat \<Rightarrow> timestamp \<Rightarrow> u64" where
  "elapsed_micros now_ns t = elapsed_nanos now_ns t div 1000"

definition elapsed_millis :: "nat \<Rightarrow> timestamp \<Rightarrow> u64" where
  "elapsed_millis now_ns t = elapsed_nanos now_ns t div 1000000"

instantiation timestamp :: linorder
begin

definition less_eq_timestamp :: "timestamp \<Rightarrow> timestamp \<Rightarrow> bool" where
  "less_eq_timestamp a b \<longleftrightarrow> ts_nanos a \<le> ts_nanos b"

definition less_timestamp :: "timestamp \<Rightarrow> timestamp \<Rightarrow> bool" where
  "less_timestamp a b \<longleftrightarrow> ts_nanos a < ts_nanos b"

instance
proof
  fix a b :: timestamp
  show "a \<le> b \<Longrightarrow> b \<le> a \<Longrightarrow> a = b"
    by (auto simp: less_eq_timestamp_def intro: timestamp.expand)
qed (auto simp: less_eq_timestamp_def less_timestamp_def)

end

definition civil_from_days :: "nat \<Rightarrow> nat \<times> nat \<times> nat" where
  "civil_from_days days =
     (let z = int days + 719468;
          era = (if z \<ge> 0 then z else z - 146096) div 146097;
          doe = nat (z - era * 146097);
          yoe = (doe - doe div 1460 + doe div 36524 - doe div 146096) div 365;
          y = int yoe + era * 400;
          doy = doe - (365 * yoe + yoe div 4 - yoe div 100);
          mp = (5 * doy + 2) div 153;
          d = (doy - (153 * mp + 2) div 5 + 1) mod 256;
          mo = (if mp < 10 then mp + 3 else mp - 9) mod 256;
          yr = nat ((if mo \<le> 2 then y + 1 else y) mod 2 ^ 32)
      in (yr, mo, d))"

definition unix_secs_to_ymd_hms :: "nat \<Rightarrow> nat \<times> nat \<times> nat \<times> nat \<times> nat \<times> nat" where
  "unix_secs_to_ymd_hms secs =
     (let days = secs div 86400;
          time_of_day = secs mod 86400;
          h = (time_of_day div 3600) mod 256;
          m = ((time_of_day mod 3600) div 60) mod 256;
          s = (time_of_day mod 60) mod 256;
          (yr, mo, d) = civil_from_days days
      in (yr, mo, d, h, m, s))"

definition timestamp_display :: "timestamp \<Rightarrow> string" where
  "timestamp_display t =
     (let total_nanos = unat (ts_nanos t);
          secs = total_nanos div 1000000000;
          nanos_part = total_nanos mod 1000000000;
          (year, month, day, hour, min, sec) = unix_secs_to_ymd_hms secs
      in pad_left 4 (show_nat year) @ ''-'' @ pad_left 2 (show_nat month) @ ''-'' @
         pad_left 2 (show_nat day) @ ''T'' @ pad_left 2 (show_nat hour) @ '':'' @
         pad_left 2 (show_nat min) @ '':'' @ pad_left 2 (show_nat sec) @ ''.'' @
         pad_left 9 (show_nat nanos_part) @ ''Z'')"

section \<open>The reference calendar\<close>

definition is_leap :: "nat \<Rightarrow> bool" where
  "is_leap y \<longleftrightarrow> y mod 4 = 0 \<and> (y mod 100 \<noteq> 0 \<or> y mod 400 = 0)"

definition days_in_month :: "nat \<Rightarrow> nat \<Rightarrow> nat" where
  "days_in_month y m =
     (if m = 2 then (if is_leap y then 29 else 28)
      else if m = 4 \<or> m = 6 \<or> m = 9 \<or> m = 11 then 30 else 31)"

definition next_day :: "nat \<times> nat \<times> nat \<Rightarrow> nat \<times> nat \<times> nat" where
  "next_day ymd =
     (case ymd of (y, m, d) \<Rightarrow>
        if d < days_in_month y m then (y, m, d + 1)
        else if m < 12 then (y, m + 1, 1) else (y + 1, 1, 1))"

primrec calendar_day :: "nat \<Rightarrow> nat \<times> nat \<times> nat" where
  "calendar_day 0 = (1970, 1, 1)"
| "calendar_day (Suc n) = next_day (calendar_day n)"

section \<open>Years that start in March\<close>

text \<open>
  The algorithm counts in eras of 400 years of 146097 days, in years that start on 1 March.
  \<open>year_start\<close> is the first day of year \<open>y\<close> of an era, \<open>year_len\<close> its length; the
  leap day is its last day.
\<close>

definition yoe_of :: "nat \<Rightarrow> nat" where
  "yoe_of doe = (doe - doe div 1460 + doe div 36524 - doe div 146096) div 365"

definition march_pos :: "nat \<Rightarrow> nat \<Rightarrow> nat \<Rightarrow> nat \<Rightarrow> bool" where
  "march_pos c q r t \<longleftrightarrow> c \<le> 3 \<and> q \<le> 24 \<and> r \<le> 3 \<and>
     (t \<le> 364 \<or> t = 365 \<and> r = 3 \<and> (q < 24 \<or> c = 3))"

definition month_day :: "nat \<Rightarrow> nat \<times> nat" where
  "month_day doy =
     (let mp = (5 * doy + 2) div 153 in
      (if mp < 10 then mp + 3 else mp - 9, doy - (153 * mp + 2) div 5 + 1))"

lemma march_pos_exists:
  assumes "doe < 146097"
  obtains c q r t where "march_pos c q r t" "doe = 36524 * c + 1461 * q + 365 * r + t"
proof -
  define c where "c = min 3 (doe div 36524)"
  define a where "a = doe - 36524 * c"
  define q where "q = a div 1461"
  define b where "b = a - 1461 * q"
  define r where "r = min 3 (b div 365)"
  define t where "t = b - 365 * r"
  have a: "doe = 36524 * c + a" "a < 36524 \<or> a = 36524 \<and> c = 3"
    using assms unfolding a_def c_def by (auto simp: min_def)
  have b: "a = 1461 * q + b" "b < 1461"
    unfolding b_def q_def by auto
  have t: "b = 365 * r + t" "t < 365 \<or> t = 365 \<and> r = 3"
    using b unfolding t_def r_def by (auto simp: min_def)
  have "c \<le> 3" "r \<le> 3" unfolding c_def r_def by simp_all
  moreover have "q \<le> 24" using a b by linarith
  moreover have "t \<le> 364 \<or> t = 365 \<and> r = 3 \<and> (q < 24 \<or> c = 3)"
    using a b t \<open>q \<le> 24\<close> by auto
  ultimately show ?thesis using that [of c q r t] a b t by (simp add: march_pos_def)
qed

lemma yoe_of_year:
  assumes "march_pos c q r t"
  shows "yoe_of (36524 * c + 1461 * q + 365 * r + t) = 100 * c + 4 * q + r"
proof -
  define doe where "doe = 36524 * c + 1461 * q + 365 * r + t"
  define e where "e = (if 24 * c + q + 365 * r + t \<ge> 1460 then 1 else 0 :: nat)"
  note pos = assms [unfolded march_pos_def]
  have q1460: "doe div 1460 = 25 * c + q + e"
    unfolding doe_def e_def using pos by (intro div_nat_eqI) auto
  show ?thesis
  proof (cases "doe = 146096")
    case True
    then have "yoe_of doe = 399" by (simp add: yoe_of_def)
    moreover have "c = 3 \<and> q = 24 \<and> r = 3" using True pos unfolding doe_def by auto
    ultimately show ?thesis by (simp add: doe_def)
  next
    case False
    have "doe div 36524 = c"
      using False pos unfolding doe_def by (intro div_nat_eqI) auto
    moreover have "doe < 146096"
      using False pos unfolding doe_def by auto
    moreover have "e \<le> t" "t - e < 365" using pos unfolding e_def by auto
    ultimately have "doe - doe div 1460 + doe div 36524 - doe div 146096
        = 365 * (100 * c + 4 * q + r) + (t - e)"
      using q1460 doe_def by simp
    with \<open>t - e < 365\<close> show ?thesis unfolding yoe_of_def doe_def [symmetric] by simp
  qed
qed

lemma month_step:
  assumes "k < 364"
  shows "case month_day k of (m, d) \<Rightarrow> case month_day (Suc k) of (m', d') \<Rightarrow>
     0 < m \<and> m \<le> 12 \<and> 0 < d \<and> d \<le> 31 \<and>
     (if m = 2 then d < 28 \<and> m' = 2 \<and> d' = Suc d
      else if d < days_in_month 0 m then m' = m \<and> d' = Suc d
      else d' = 1 \<and> m' = (if m < 12 then Suc m else 1))"
proof -
  define mp where "mp = (5 * k + 2) div 153"
  have b: "153 * mp \<le> 5 * k + 2" "5 * k + 2 < 153 * Suc mp"
    unfolding mp_def by simp_all
  with assms have "mp < 12" by linarith
  then have mp: "mp \<in> {0, 1, 2, 3, 4, 5, 6, 7, 8, 9, 10, 11}"
    by (simp add: less_Suc_eq numeral_eq_Suc)
  define mp' where "mp' = (if Suc k < (153 * Suc mp + 2) div 5 then mp else Suc mp)"
  have b': "(153 * mp + 2) div 5 \<le> k" "k < (153 * Suc mp + 2) div 5"
    using b by linarith+
  have mp': "(5 * Suc k + 2) div 153 = mp'"
    using b unfolding mp'_def by (intro div_nat_eqI; auto split: if_splits; linarith)
  show ?thesis
    unfolding month_day_def mp_def [symmetric] mp' Let_def prod.case
    using mp b' assms unfolding mp'_def insert_iff empty_iff
    by (elim disjE FalseE) (auto simp: days_in_month_def)
qed

lemma month_day_ends [simp]:
  "month_day 0 = (3, 1)" "month_day 364 = (2, 28)" "month_day 365 = (2, 29)"
  by (simp_all add: month_day_def Let_def)

text \<open>The civil date of day \<open>t\<close> of year \<open>y\<close> of an era.\<close>

definition civil_date :: "nat \<Rightarrow> nat \<Rightarrow> nat \<Rightarrow> nat \<times> nat \<times> nat" where
  "civil_date era y t =
     (case month_day t of (m, d) \<Rightarrow> (if m \<le> 2 then 400 * era + y + 1 else 400 * era + y, m, d))"

lemma year_start_eq:
  fixes c q r :: nat
  assumes "r \<le> 3" "q \<le> 24"
  shows "365 * (100 * c + 4 * q + r) + (100 * c + 4 * q + r) div 4 - (100 * c + 4 * q + r) div 100
       = 36524 * c + 1461 * q + 365 * r"
proof -
  have "(100 * c + 4 * q + r) div 4 = 25 * c + q" "(100 * c + 4 * q + r) div 100 = c"
    using assms by (auto intro!: div_nat_eqI)
  then show ?thesis by simp
qed

lemma month_day_range:
  assumes "t \<le> 365"
  shows "fst (month_day t) \<in> {1..12}" "snd (month_day t) \<in> {1..31}"
proof -
  consider "t < 364" | "t = 364" | "t = 365" using assms by linarith
  then have "fst (month_day t) \<in> {1..12} \<and> snd (month_day t) \<in> {1..31}"
  proof cases
    case 1
    from month_step [OF this] show ?thesis by (auto split: prod.splits)
  qed auto
  then show "fst (month_day t) \<in> {1..12}" "snd (month_day t) \<in> {1..31}" by auto
qed

lemma civil_from_days_eq:
  assumes pos: "march_pos c q r t"
    and days: "days + 719468 = 146097 * era + (36524 * c + 1461 * q + 365 * r + t)"
    and era: "era < 10000000"
  shows "civil_from_days days = civil_date era (100 * c + 4 * q + r) t"
proof -
  define y where "y = 100 * c + 4 * q + r"
  define doe where "doe = 36524 * c + 1461 * q + 365 * r + t"
  have doe: "doe < 146097" using pos unfolding doe_def march_pos_def by auto
  have N: "int days + 719468 = 146097 * int era + int doe"
    using days unfolding doe_def by linarith
  have era': "(int days + 719468) div 146097 = int era"
    unfolding N using doe by simp
  have yoe: "(doe - doe div 1460 + doe div 36524 - doe div 146096) div 365 = y"
    using yoe_of_year [OF pos] unfolding yoe_of_def doe_def y_def .
  have doy: "doe - (365 * y + y div 4 - y div 100) = t"
    unfolding y_def using pos by (subst year_start_eq) (auto simp: march_pos_def doe_def)
  have t: "t \<le> 365" and y400: "y < 400" using pos unfolding march_pos_def y_def by auto
  obtain m d where md: "month_day t = (m, d)" by (cases "month_day t")
  with month_day_range [OF t] have r: "m \<in> {1..12}" "d \<in> {1..31}" by simp_all
  have m: "(if (5 * t + 2) div 153 < 10 then (5 * t + 2) div 153 + 3 else (5 * t + 2) div 153 - 9) = m"
    and d: "t - (153 * ((5 * t + 2) div 153) + 2) div 5 + 1 = d"
    using md unfolding month_day_def Let_def prod.inject by blast+
  have doe': "nat (int days + 719468 - int era * 146097) = doe" using N by simp
  have z: "(if int days + 719468 \<ge> 0 then int days + 719468 else int days + 719468 - 146096)
      = int days + 719468" by simp
  have "civil_from_days days =
      (nat ((if m mod 256 \<le> 2 then int y + int era * 400 + 1 else int y + int era * 400) mod 2 ^ 32),
       m mod 256, d mod 256)"
    unfolding civil_from_days_def Let_def z era' doe' yoe doy m d ..
  moreover have "m mod 256 = m" "d mod 256 = d" using r by simp_all
  moreover have "(int y + int era * 400 + 1) mod 2 ^ 32 = int (400 * era + y + 1)"
    "(int y + int era * 400) mod 2 ^ 32 = int (400 * era + y)"
    using y400 era by simp_all
  ultimately show ?thesis by (auto simp: civil_date_def md y_def [symmetric])
qed

section \<open>The conversion is the reference calendar\<close>

lemma is_leap_era: "is_leap (400 * era + y) \<longleftrightarrow> is_leap y"
proof -
  have "(4 * (100 * era) + y) mod 4 = y mod 4" "(100 * (4 * era) + y) mod 100 = y mod 100"
    "(400 * era + y) mod 400 = y mod 400"
    by (rule mod_mult_self4)+
  then show ?thesis by (simp add: is_leap_def)
qed

lemma is_leap_next_year:
  assumes "r \<le> 3" "q \<le> 24" "c \<le> 3"
  shows "is_leap (100 * c + 4 * q + r + 1) \<longleftrightarrow> r = 3 \<and> (q < 24 \<or> c = 3)"
proof -
  have m4: "(4 * (25 * c + q) + (r + 1)) mod 4 = (r + 1) mod 4"
    and m100: "(100 * c + (4 * q + r + 1)) mod 100 = (4 * q + r + 1) mod 100"
    by (rule mod_mult_self4)+
  consider "r < 3" | "r = 3" "q < 24" | "r = 3" "q = 24" using assms by linarith
  then show ?thesis
  proof cases
    case 1
    then have "(r + 1) mod 4 = r + 1" by simp
    with m4 1 show ?thesis unfolding is_leap_def by (simp add: ac_simps)
  next
    case 2
    then have "(4 * q + r + 1) mod 100 = 4 * q + r + 1" by simp
    with m4 m100 2 show ?thesis unfolding is_leap_def by (simp add: ac_simps)
  next
    case 3
    have "c \<in> {0, 1, 2, 3}" using assms by auto
    with 3 show ?thesis unfolding is_leap_def by auto
  qed
qed

lemma civil_date_next:
  assumes pos: "march_pos c q r t" and y: "y = 100 * c + 4 * q + r"
  shows "next_day (civil_date era y t) =
     (if march_pos c q r (Suc t) then civil_date era y (Suc t) else (400 * era + y + 1, 3, 1))"
proof -
  have leap: "is_leap (400 * era + y + 1) \<longleftrightarrow> r = 3 \<and> (q < 24 \<or> c = 3)"
    using is_leap_era [of era "y + 1"] is_leap_next_year [of r q c] pos
    unfolding march_pos_def y by simp
  have "t \<le> 365" using pos by (auto simp: march_pos_def)
  then consider "t < 364" | "t = 364" | "t = 365" by linarith
  then show ?thesis
  proof cases
    case 1
    then have "march_pos c q r (Suc t)" using pos by (auto simp: march_pos_def)
    with month_step [OF 1] leap show ?thesis
      by (auto simp: civil_date_def next_day_def days_in_month_def split: prod.splits if_splits)
  next
    case 2
    then have "march_pos c q r (Suc t) \<longleftrightarrow> is_leap (400 * era + y + 1)"
      using pos leap by (auto simp: march_pos_def)
    with 2 show ?thesis by (auto simp: civil_date_def next_day_def days_in_month_def)
  next
    case 3
    then have "is_leap (400 * era + y + 1)" "\<not> march_pos c q r (Suc t)"
      using pos leap by (auto simp: march_pos_def)
    with 3 show ?thesis by (auto simp: civil_date_def next_day_def days_in_month_def)
  qed
qed

text \<open>After the last day of a March year comes the first day of the next one.\<close>

lemma march_year_end:
  assumes pos: "march_pos c q r t" and last: "\<not> march_pos c q r (Suc t)"
  obtains era' c' q' r' where
    "march_pos c' q' r' 0"
    "146097 * era + (36524 * c + 1461 * q + 365 * r + Suc t)
       = 146097 * era' + (36524 * c' + 1461 * q' + 365 * r' + 0)"
    "400 * era' + (100 * c' + 4 * q' + r') = 400 * era + (100 * c + 4 * q + r) + 1"
    "era' \<le> Suc era"
proof -
  have t: "t = 364 \<or> t = 365" "t = 365 \<Longrightarrow> r = 3" using pos last by (auto simp: march_pos_def)
  have "r \<le> 3" "q \<le> 24" "c \<le> 3" using pos by (auto simp: march_pos_def)
  then consider "r < 3" | "r = 3" "q < 24" | "r = 3" "q = 24" "c < 3" | "r = 3" "q = 24" "c = 3"
    by linarith
  then show ?thesis
  proof cases
    case 1
    then show ?thesis using that [of c q "Suc r" era] pos t last by (auto simp: march_pos_def)
  next
    case 2
    then show ?thesis using that [of c "Suc q" 0 era] pos t last by (auto simp: march_pos_def)
  next
    case 3
    then show ?thesis using that [of "Suc c" 0 0 era] pos t last by (auto simp: march_pos_def)
  next
    case 4
    then show ?thesis using that [of 0 0 0 "Suc era"] pos t last by (auto simp: march_pos_def)
  qed
qed

lemma civil_from_days_Suc:
  assumes "n < 2 ^ 40"
  shows "civil_from_days (Suc n) = next_day (civil_from_days n)"
proof -
  define era where "era = (n + 719468) div 146097"
  have "(n + 719468) mod 146097 < 146097" by simp
  then obtain c q r t where pos: "march_pos c q r t"
    and doe: "(n + 719468) mod 146097 = 36524 * c + 1461 * q + 365 * r + t"
    by (rule march_pos_exists)
  have n: "n + 719468 = 146097 * era + (36524 * c + 1461 * q + 365 * r + t)"
    unfolding era_def doe [symmetric] by simp
  have era: "era < 9999998" using assms n by simp
  have now: "civil_from_days n = civil_date era (100 * c + 4 * q + r) t"
    using civil_from_days_eq [OF pos n] era by simp
  show ?thesis
  proof (cases "march_pos c q r (Suc t)")
    case True
    have "Suc n + 719468 = 146097 * era + (36524 * c + 1461 * q + 365 * r + Suc t)"
      using n by simp
    from civil_from_days_eq [OF True this] era show ?thesis
      using civil_date_next [OF pos refl, of era] True now by simp
  next
    case False
    then obtain era' c' q' r' where pos': "march_pos c' q' r' 0"
      and n': "146097 * era + (36524 * c + 1461 * q + 365 * r + Suc t)
        = 146097 * era' + (36524 * c' + 1461 * q' + 365 * r' + 0)"
      and y': "400 * era' + (100 * c' + 4 * q' + r') = 400 * era + (100 * c + 4 * q + r) + 1"
      and "era' \<le> Suc era"
      using march_year_end [OF pos] by metis
    have "Suc n + 719468 = 146097 * era' + (36524 * c' + 1461 * q' + 365 * r' + 0)"
      using n n' by simp
    from civil_from_days_eq [OF pos' this] era \<open>era' \<le> Suc era\<close> show ?thesis
      using civil_date_next [OF pos refl, of era] False now y' by (simp add: civil_date_def)
  qed
qed

lemma civil_from_days_correct:
  assumes "n \<le> 2 ^ 40"
  shows "civil_from_days n = calendar_day n"
  using assms
proof (induction n)
  case 0
  have "civil_from_days 0 = civil_date 4 369 306"
    using civil_from_days_eq [of 3 17 1 306 0 4] by (simp add: march_pos_def)
  then show ?case by (simp add: civil_date_def month_day_def)
next
  case (Suc n)
  from Suc.prems have "n < 2 ^ 40" by (rule Suc_le_lessD)
  then show ?case using Suc.IH civil_from_days_Suc [of n] by (simp only: calendar_day.simps less_imp_le)
qed



end
