(* ===== verification/Blz_Common.thy ===== *)
theory Blz_Common
  imports Blz_Prelude
begin

text \<open>
  The crate \<^verbatim>\<open>core/common\<close>: the error type (\<^verbatim>\<open>error.rs\<close>) and the strongly typed
  identifiers (\<^verbatim>\<open>ids.rs\<close>). Timestamps are in \<^verbatim>\<open>Blz_Timestamp\<close>, monetary amounts in
  \<^verbatim>\<open>Blz_Amount\<close>.

  The identifier macros \<^verbatim>\<open>define_u64_id!\<close> and \<^verbatim>\<open>define_id!\<close> are one polymorphic
  datatype each; the phantom type argument plays the role of the generated newtype, so an
  account id cannot be used as a transaction id. A UUID is the 16 bytes it wraps; random
  generation and the textual UUID syntax belong to the \<^verbatim>\<open>uuid\<close> crate and are arguments.
\<close>

section \<open>Errors (error.rs)\<close>

datatype blazer_error =
    InvalidId string
  | CurrencyMismatch (err_expected: string) (err_actual: string)
  | InsufficientFunds (err_available: string) (err_required: string)
  | AmountOverflow
  | InvalidAmountScale nat
  | NegativeAmount
  | InvalidCurrency string
  | ValidationError string
  | Internal string
  | Transport string
  | RingBufferFull (retry_after_ms: u64)
  | Ledger string
  | LedgerTransient string
  | NotFound (err_resource: string) (err_id: string)
  | Duplicate (err_resource: string) (err_id: string)

type_synonym 'a blazer_result = "(blazer_error, 'a) result"

definition is_transient :: "blazer_error \<Rightarrow> bool" where
  "is_transient e = (case e of LedgerTransient _ \<Rightarrow> True | _ \<Rightarrow> False)"

fun blazer_error_display :: "blazer_error \<Rightarrow> string" where
  "blazer_error_display (InvalidId s) = ''Invalid UUID format: '' @ s"
| "blazer_error_display (CurrencyMismatch e a) =
     ''Currency mismatch: expected '' @ e @ '', got '' @ a"
| "blazer_error_display (InsufficientFunds a r) =
     ''Insufficient funds: available '' @ a @ '', required '' @ r"
| "blazer_error_display AmountOverflow = ''Amount overflow: value exceeds maximum allowed''"
| "blazer_error_display (InvalidAmountScale n) =
     ''Invalid amount scale: '' @ show_nat n @ '' decimal places exceeds maximum of 8''"
| "blazer_error_display NegativeAmount = ''Amount cannot be negative''"
| "blazer_error_display (InvalidCurrency s) = ''Invalid currency code: '' @ s"
| "blazer_error_display (ValidationError s) = ''Validation failed: '' @ s"
| "blazer_error_display (Internal s) = ''Internal error: '' @ s"
| "blazer_error_display (Transport s) = ''Transport error: '' @ s"
| "blazer_error_display (RingBufferFull ms) =
     ''Ring buffer full '' @ [CHR 0xE2, CHR 0x80, CHR 0x94] @ '' retry after '' @
     show_nat (unat ms) @ ''ms''"
| "blazer_error_display (Ledger s) = ''Ledger error: '' @ s"
| "blazer_error_display (LedgerTransient s) = ''Ledger transient error (retryable): '' @ s"
| "blazer_error_display (NotFound r i) = ''Not found: '' @ r @ '' with id '' @ i"
| "blazer_error_display (Duplicate r i) =
     ''Duplicate: '' @ r @ '' with id '' @ i @ '' already exists''"

section \<open>Identifiers (ids.rs)\<close>

type_synonym uuid_bytes = "u8 list"

datatype 'k id64 = Id64 (id64_raw: u64)
datatype 'k uuid_id = UuidId (uuid_raw: uuid_bytes)

datatype transaction_tag = TransactionTag
datatype account_tag = AccountTag
datatype transfer_tag = TransferTag
datatype tenant_tag = TenantTag
datatype api_key_tag = ApiKeyTag

type_synonym transaction_id = "transaction_tag id64"
type_synonym account_id = "account_tag id64"
type_synonym transfer_id = "transfer_tag uuid_id"
type_synonym tenant_id = "tenant_tag uuid_id"
type_synonym api_key_id = "api_key_tag uuid_id"

text \<open>\<^verbatim>\<open>Uuid::as_u128\<close> reads the 16 bytes big-endian; \<^verbatim>\<open>as u64\<close> keeps the low half.\<close>

definition uuid_as_u128 :: "uuid_bytes \<Rightarrow> u128" where
  "uuid_as_u128 bs = word_of_nat (from_be_bytes bs)"

definition uuid_is_nil :: "uuid_bytes \<Rightarrow> bool" where
  "uuid_is_nil bs \<longleftrightarrow> (\<forall>b \<in> set bs. b = 0)"

definition id64_new :: "uuid_bytes \<Rightarrow> 'k id64" where
  "id64_new v4 = Id64 (ucast (uuid_as_u128 v4))"

definition as_u64 :: "'k id64 \<Rightarrow> u64" where
  "as_u64 i = id64_raw i"

definition from_u64 :: "u64 \<Rightarrow> 'k id64" where
  "from_u64 v = Id64 v"

definition is_zero :: "'k id64 \<Rightarrow> bool" where
  "is_zero i \<longleftrightarrow> id64_raw i = 0"

definition id64_display :: "'k id64 \<Rightarrow> string" where
  "id64_display i = show_nat (unat (id64_raw i))"

definition id64_from_str :: "(string \<Rightarrow> uuid_bytes option) \<Rightarrow> string \<Rightarrow> 'k id64 blazer_result" where
  "id64_from_str uuid_parse s =
     (case parse_uint 64 s of
        Some v \<Rightarrow> Inr (Id64 (word_of_nat v))
      | None \<Rightarrow>
          (case uuid_parse s of
             Some u \<Rightarrow> Inr (Id64 (ucast (uuid_as_u128 u)))
           | None \<Rightarrow> Inl (InvalidId s)))"

definition id64_serialize :: "'k id64 \<Rightarrow> string" where
  "id64_serialize i = show_nat (unat (id64_raw i))"

definition id64_deserialize :: "string \<Rightarrow> 'k id64 option" where
  "id64_deserialize s = map_option (\<lambda>v. Id64 (word_of_nat v)) (parse_uint 64 s)"

definition uuid_id_new :: "uuid_bytes \<Rightarrow> 'k uuid_id" where
  "uuid_id_new v4 = UuidId v4"

definition as_uuid :: "'k uuid_id \<Rightarrow> uuid_bytes" where
  "as_uuid i = uuid_raw i"

definition from_bytes :: "u8 list \<Rightarrow> 'k uuid_id" where
  "from_bytes bs = UuidId bs"

definition uuid_id_from_str ::
  "(string \<Rightarrow> uuid_bytes option) \<Rightarrow> string \<Rightarrow> 'k uuid_id blazer_result" where
  "uuid_id_from_str uuid_parse s =
     (case uuid_parse s of Some u \<Rightarrow> Inr (UuidId u) | None \<Rightarrow> Inl (InvalidId s))"

datatype ledger_id = LedgerId (ledger_id_value: u32)

definition ledger_id_new :: "u32 \<Rightarrow> ledger_id blazer_result" where
  "ledger_id_new v =
     (if v = 0 then Inl (ValidationError ''LedgerId must not be zero'') else Inr (LedgerId v))"

definition ledger_id_display :: "ledger_id \<Rightarrow> string" where
  "ledger_id_display i = ''LedgerId('' @ show_nat (unat (ledger_id_value i)) @ '')''"

definition LedgerId_USD :: ledger_id where "LedgerId_USD = LedgerId 1"
definition LedgerId_EUR :: ledger_id where "LedgerId_EUR = LedgerId 2"
definition LedgerId_GBP :: ledger_id where "LedgerId_GBP = LedgerId 3"
definition LedgerId_JPY :: ledger_id where "LedgerId_JPY = LedgerId 4"
definition LedgerId_VND :: ledger_id where "LedgerId_VND = LedgerId 5"
definition LedgerId_BTC :: ledger_id where "LedgerId_BTC = LedgerId 6"
definition LedgerId_ETH :: ledger_id where "LedgerId_ETH = LedgerId 7"

section \<open>Textual round trips\<close>

lemma id64_deserialize_serialize: "id64_deserialize (id64_serialize i) = Some i"
proof -
  have "unat (id64_raw i) < 2 ^ 64" using unsigned_less [of "id64_raw i"] by simp
  then show ?thesis
    by (simp add: id64_deserialize_def id64_serialize_def parse_uint_show_nat)
qed

text \<open>
  Printing a 64-bit identifier and parsing the text gives the identifier back, whatever
  the UUID parser of the fallback path does, and the same text survives the serde round trip.
  Text that neither parser accepts is reported back in \<^verbatim>\<open>InvalidId\<close>.
\<close>

theorem id64_text_roundtrip:
  fixes i :: "'k id64"
  shows "id64_from_str uuid_parse (id64_display i) = Inr i \<and>
   id64_deserialize (id64_serialize i) = Some i \<and>
   (parse_uint 64 s = None \<longrightarrow> uuid_parse s = None \<longrightarrow>
     (id64_from_str uuid_parse s :: 'k id64 blazer_result) = Inl (InvalidId s))"
proof -
  have "unat (id64_raw i) < 2 ^ 64" using unsigned_less [of "id64_raw i"] by simp
  then have "id64_from_str uuid_parse (id64_display i) = Inr i"
    by (simp add: id64_from_str_def id64_display_def parse_uint_show_nat)
  moreover have "parse_uint 64 s = None \<longrightarrow> uuid_parse s = None \<longrightarrow>
      (id64_from_str uuid_parse s :: 'k id64 blazer_result) = Inl (InvalidId s)"
    by (simp add: id64_from_str_def)
  ultimately show ?thesis by (simp add: id64_deserialize_serialize)
qed

theorem id64_text_roundtrip_witness:
  "id64_from_str (\<lambda>_. None) ''x1'' = (Inl (InvalidId ''x1'') :: account_id blazer_result)"
proof -
  have "parse_uint 64 ''x1'' = None" by code_simp
  then show ?thesis using id64_text_roundtrip [of "\<lambda>_. None" "Id64 7 :: account_id" "''x1''"] by simp
qed

end
