(* ===== verification/Blz_Decimal.thy ===== *)
theory Blz_Decimal
  imports Blz_Common Complex_Main
begin

text \<open>
  The decimal number type comes from the crate \<^verbatim>\<open>rust_decimal\<close> and the currency type from
  \<^verbatim>\<open>iso_currency\<close>; \<open>u_show\<close> is \<^verbatim>\<open>Uuid::to_string\<close>. None of them is part of the repository, so the operations the code calls are
  the fields of a record \<open>externs\<close> that every definition takes as its first argument. What
  the code relies on is stated as named predicates over that record and a function \<open>val\<close>
  that reads a decimal as a rational number:
  \<^item> \<open>dec_order\<close>: comparison, zero test and the constants;
  \<^item> \<open>dec_arith\<close>: \<^verbatim>\<open>checked_add\<close>, \<^verbatim>\<open>checked_sub\<close>, \<^verbatim>\<open>checked_mul\<close> are exact whenever
    the result fits the documented 96-bit mantissa at the operation's scale, and
    \<^verbatim>\<open>checked_div\<close> of two integers is exact whenever the quotient is a representable decimal;
  \<^item> \<open>dec_conv\<close>: conversion from and to integers, \<^verbatim>\<open>fract\<close>, parsing of integers;
  \<^item> \<open>dec_text\<close>: printing a decimal and parsing it back keeps value and scale;
  \<^item> \<open>cur_laws\<close>: a currency is determined by its code and by its numeric code.
  The second half of the theory gives a concrete record that satisfies all of them.
\<close>

section \<open>The external decimal and currency operations\<close>

record ('d, 'c) externs =
  d_zero :: 'd
  d_half_max :: 'd
  d_lt :: "'d \<Rightarrow> 'd \<Rightarrow> bool"
  d_scale :: "'d \<Rightarrow> nat"
  d_is_zero :: "'d \<Rightarrow> bool"
  d_add :: "'d \<Rightarrow> 'd \<Rightarrow> 'd option"
  d_sub :: "'d \<Rightarrow> 'd \<Rightarrow> 'd option"
  d_mul :: "'d \<Rightarrow> 'd \<Rightarrow> 'd option"
  d_div :: "'d \<Rightarrow> 'd \<Rightarrow> 'd option"
  d_abs :: "'d \<Rightarrow> 'd"
  d_fract :: "'d \<Rightarrow> 'd"
  d_of_u64 :: "u64 \<Rightarrow> 'd"
  d_to_u128 :: "'d \<Rightarrow> nat option"
  d_of_str :: "string \<Rightarrow> 'd option"
  d_show :: "'d \<Rightarrow> string"
  c_code :: "'c \<Rightarrow> string"
  c_from_str :: "string \<Rightarrow> 'c option"
  c_numeric :: "'c \<Rightarrow> u16"
  c_from_numeric :: "u16 \<Rightarrow> 'c option"
  u_show :: "uuid_bytes \<Rightarrow> string"

definition representable :: "rat \<Rightarrow> nat \<Rightarrow> bool" where
  "representable v s \<longleftrightarrow> s \<le> 28 \<and> (\<exists>m::int. \<bar>m\<bar> < 2 ^ 96 \<and> v * 10 ^ s = of_int m)"

definition dec_order :: "('d, 'c) externs \<Rightarrow> ('d \<Rightarrow> rat) \<Rightarrow> bool" where
  "dec_order X val \<longleftrightarrow>
     (\<forall>a b. d_lt X a b \<longleftrightarrow> val a < val b) \<and> (\<forall>a. d_is_zero X a \<longleftrightarrow> val a = 0) \<and>
     val (d_zero X) = 0 \<and> d_scale X (d_zero X) = 0 \<and> 2 ^ 95 - 1 \<le> val (d_half_max X) \<and>
     (\<forall>a. representable (val a) (d_scale X a)) \<and> (\<forall>a. val (d_abs X a) = \<bar>val a\<bar>)"

definition dec_arith :: "('d, 'c) externs \<Rightarrow> ('d \<Rightarrow> rat) \<Rightarrow> bool" where
  "dec_arith X val \<longleftrightarrow>
     (\<forall>a b. representable (val a + val b) (max (d_scale X a) (d_scale X b)) \<longrightarrow>
        (\<exists>c. d_add X a b = Some c \<and> val c = val a + val b \<and>
             d_scale X c \<le> max (d_scale X a) (d_scale X b))) \<and>
     (\<forall>a b. representable (val a - val b) (max (d_scale X a) (d_scale X b)) \<longrightarrow>
        (\<exists>c. d_sub X a b = Some c \<and> val c = val a - val b \<and>
             d_scale X c \<le> max (d_scale X a) (d_scale X b))) \<and>
     (\<forall>a b. representable (val a * val b) (d_scale X a + d_scale X b) \<longrightarrow>
        (\<exists>c. d_mul X a b = Some c \<and> val c = val a * val b)) \<and>
     (\<forall>a b s. d_scale X a = 0 \<longrightarrow> d_scale X b = 0 \<longrightarrow> val b \<noteq> 0 \<longrightarrow>
        representable (val a / val b) s \<longrightarrow>
        (\<exists>c. d_div X a b = Some c \<and> val c = val a / val b \<and> d_scale X c \<le> s))"

definition dec_conv :: "('d, 'c) externs \<Rightarrow> ('d \<Rightarrow> rat) \<Rightarrow> bool" where
  "dec_conv X val \<longleftrightarrow>
     (\<forall>n. val (d_of_u64 X n) = of_nat (unat n) \<and> d_scale X (d_of_u64 X n) = 0) \<and>
     (\<forall>a. d_is_zero X (d_fract X a) \<longleftrightarrow> val a \<in> \<int>) \<and>
     (\<forall>a n. val a = of_nat n \<longrightarrow> d_to_u128 X a = Some n) \<and>
     (\<forall>n. n < 2 ^ 96 \<longrightarrow>
        (\<exists>a. d_of_str X (show_nat n) = Some a \<and> val a = of_nat n \<and> d_scale X a = 0)) \<and>
     (\<forall>n. 2 ^ 96 \<le> n \<longrightarrow> d_of_str X (show_nat n) = None)"

definition dec_text :: "('d, 'c) externs \<Rightarrow> ('d \<Rightarrow> rat) \<Rightarrow> bool" where
  "dec_text X val \<longleftrightarrow>
     (\<forall>a. \<exists>b. d_of_str X (d_show X a) = Some b \<and> val b = val a \<and> d_scale X b = d_scale X a)"

definition cur_laws :: "('d, 'c) externs \<Rightarrow> bool" where
  "cur_laws X \<longleftrightarrow>
     (\<forall>c. c_from_str X (c_code X c) = Some c) \<and>
     (\<forall>s c. c_from_str X s = Some c \<longrightarrow> c_code X c = s) \<and>
     (\<forall>c. c_from_numeric X (c_numeric X c) = Some c)"

text \<open>The laws in the form the proofs use.\<close>

lemma dec_divE:
  assumes "dec_arith X val" "d_scale X a = 0" "d_scale X b = 0" "val b \<noteq> 0"
    "representable (val a / val b) s"
  obtains c where "d_div X a b = Some c" "val c = val a / val b" "d_scale X c \<le> s"
  using assms unfolding dec_arith_def by blast

lemma dec_mulE:
  assumes "dec_arith X val" "representable (val a * val b) (d_scale X a + d_scale X b)"
  obtains c where "d_mul X a b = Some c" "val c = val a * val b"
  using assms unfolding dec_arith_def by blast

lemma val_scaled_int:
  assumes "dec_order X val" "d_scale X v \<le> s"
  shows "val v * 10 ^ s \<in> \<int>"
proof -
  from assms(1) have "representable (val v) (d_scale X v)" by (simp add: dec_order_def)
  then obtain m :: int where m: "val v * 10 ^ d_scale X v = of_int m"
    by (auto simp: representable_def)
  have "val v * 10 ^ s = val v * 10 ^ d_scale X v * 10 ^ (s - d_scale X v)"
    using assms(2) by (simp add: mult.assoc flip: power_add)
  then show ?thesis by (simp add: m)
qed

lemma representable_small:
  assumes "0 \<le> v" "v * 10 ^ 8 < 2 ^ 96" "s \<le> 8" "v * 10 ^ s \<in> \<int>"
  shows "representable v s"
proof -
  from assms(4) obtain m where m: "v * 10 ^ s = of_int m" by (auto elim: Ints_cases)
  have "v * 10 ^ s \<le> v * 10 ^ 8"
    using assms(1,3) by (intro mult_left_mono power_increasing) auto
  then have "(of_int m :: rat) < of_int (2 ^ 96)" using assms(2) by (simp add: m)
  then have "m < 2 ^ 96" by (simp only: of_int_less_iff)
  moreover have "(0 :: rat) \<le> of_int m" unfolding m [symmetric] using assms(1) by simp
  ultimately show ?thesis using assms(3) m by (auto simp: representable_def)
qed

section \<open>A record that satisfies the laws\<close>

text \<open>
  A concrete record of decimal and currency operations that satisfies every law above: a decimal is a mantissa below \<open>2 ^ 96\<close> in magnitude and a scale of at most
  28, as \<^verbatim>\<open>rust_decimal\<close> documents. Concrete evaluations in the other theories use it, and it
  shows that the laws the other theories assume can hold together. It models no code of the
  repository.
\<close>

datatype refdec = RD int nat

fun rd_m :: "refdec \<Rightarrow> int" where
  "rd_m (RD m s) = (if \<bar>m\<bar> < 2 ^ 96 then m else 0)"

fun rd_s :: "refdec \<Rightarrow> nat" where
  "rd_s (RD m s) = min s 28"

definition rd_val :: "refdec \<Rightarrow> rat" where
  "rd_val a = of_int (rd_m a) / 10 ^ rd_s a"

definition rd_mk :: "int \<Rightarrow> nat \<Rightarrow> refdec option" where
  "rd_mk m s = (if \<bar>m\<bar> < 2 ^ 96 \<and> s \<le> 28 then Some (RD m s) else None)"

definition rd_add :: "refdec \<Rightarrow> refdec \<Rightarrow> refdec option" where
  "rd_add a b =
     (let s = max (rd_s a) (rd_s b)
      in rd_mk (rd_m a * 10 ^ (s - rd_s a) + rd_m b * 10 ^ (s - rd_s b)) s)"

definition rd_sub :: "refdec \<Rightarrow> refdec \<Rightarrow> refdec option" where
  "rd_sub a b =
     (let s = max (rd_s a) (rd_s b)
      in rd_mk (rd_m a * 10 ^ (s - rd_s a) - rd_m b * 10 ^ (s - rd_s b)) s)"

definition rd_mul :: "refdec \<Rightarrow> refdec \<Rightarrow> refdec option" where
  "rd_mul a b = rd_mk (rd_m a * rd_m b) (rd_s a + rd_s b)"

definition rd_div :: "refdec \<Rightarrow> refdec \<Rightarrow> refdec option" where
  "rd_div a b =
     (let n = rd_m a * 10 ^ rd_s b; d = rd_m b * 10 ^ rd_s a
      in if d = 0 then None
         else case find (\<lambda>s. d dvd n * 10 ^ s) [0..<29] of
                None \<Rightarrow> None
              | Some s \<Rightarrow> rd_mk (n * 10 ^ s div d) s)"

definition rd_show :: "refdec \<Rightarrow> string" where
  "rd_show a =
     (let n = nat \<bar>rd_m a\<bar>; s = rd_s a
      in (if rd_m a < 0 then ''-'' else []) @
         (if s = 0 then show_nat n
          else show_nat (n div 10 ^ s) @ ''.'' @ pad_left s (show_nat (n mod 10 ^ s))))"

definition rd_parse_abs :: "string \<Rightarrow> (nat \<times> nat) option" where
  "rd_parse_abs t =
     (let a = takeWhile (\<lambda>c. c \<noteq> CHR ''.'') t; b = dropWhile (\<lambda>c. c \<noteq> CHR ''.'') t
      in if a = [] then None
         else map_option (\<lambda>n. (n, length (tl b))) (parse_digits 0 (a @ tl b)))"

definition rd_of_str :: "string \<Rightarrow> refdec option" where
  "rd_of_str t =
     (let neg = (t \<noteq> [] \<and> hd t = CHR ''-'')
      in case rd_parse_abs (if neg then tl t else t) of
           None \<Rightarrow> None
         | Some (n, s) \<Rightarrow> rd_mk (if neg then - int n else int n) s)"

datatype refcur = USD | EUR | GBP | JPY | VND

fun rc_code :: "refcur \<Rightarrow> string" where
  "rc_code USD = ''USD''" | "rc_code EUR = ''EUR''" | "rc_code GBP = ''GBP''"
| "rc_code JPY = ''JPY''" | "rc_code VND = ''VND''"

fun rc_numeric :: "refcur \<Rightarrow> u16" where
  "rc_numeric USD = 840" | "rc_numeric EUR = 978" | "rc_numeric GBP = 826"
| "rc_numeric JPY = 392" | "rc_numeric VND = 704"

definition ref_externs :: "(refdec, refcur) externs" where
  "ref_externs =
     \<lparr>d_zero = RD 0 0, d_half_max = RD (2 ^ 95 - 1) 0,
      d_lt = (\<lambda>a b. rd_m a * 10 ^ rd_s b < rd_m b * 10 ^ rd_s a),
      d_scale = rd_s, d_is_zero = (\<lambda>a. rd_m a = 0),
      d_add = rd_add, d_sub = rd_sub, d_mul = rd_mul, d_div = rd_div,
      d_abs = (\<lambda>a. RD \<bar>rd_m a\<bar> (rd_s a)),
      d_fract = (\<lambda>a. RD (sgn (rd_m a) * (\<bar>rd_m a\<bar> mod 10 ^ rd_s a)) (rd_s a)),
      d_of_u64 = (\<lambda>n. RD (uint n) 0),
      d_to_u128 = (\<lambda>a. if rd_m a < 0 then None else Some (nat (rd_m a div 10 ^ rd_s a))),
      d_of_str = rd_of_str, d_show = rd_show,
      c_code = rc_code,
      c_from_str = (\<lambda>s. find (\<lambda>c. rc_code c = s) [USD, EUR, GBP, JPY, VND]),
      c_numeric = rc_numeric,
      c_from_numeric = (\<lambda>n. find (\<lambda>c. rc_numeric c = n) [USD, EUR, GBP, JPY, VND]),
      u_show = map (\<lambda>b. char_of (unat b))\<rparr>"

lemma ref_externs_sel [simp]:
  "d_zero ref_externs = RD 0 0" "d_half_max ref_externs = RD (2 ^ 95 - 1) 0"
  "d_lt ref_externs a b \<longleftrightarrow> rd_m a * 10 ^ rd_s b < rd_m b * 10 ^ rd_s a"
  "d_scale ref_externs = rd_s" "d_is_zero ref_externs a \<longleftrightarrow> rd_m a = 0"
  "d_add ref_externs = rd_add" "d_sub ref_externs = rd_sub" "d_mul ref_externs = rd_mul"
  "d_div ref_externs = rd_div" "d_abs ref_externs a = RD \<bar>rd_m a\<bar> (rd_s a)"
  "d_fract ref_externs a = RD (sgn (rd_m a) * (\<bar>rd_m a\<bar> mod 10 ^ rd_s a)) (rd_s a)"
  "d_of_u64 ref_externs n = RD (uint n) 0"
  "d_to_u128 ref_externs a = (if rd_m a < 0 then None else Some (nat (rd_m a div 10 ^ rd_s a)))"
  "d_of_str ref_externs = rd_of_str" "d_show ref_externs = rd_show"
  "c_code ref_externs = rc_code"
  "c_from_str ref_externs s = find (\<lambda>c. rc_code c = s) [USD, EUR, GBP, JPY, VND]"
  "c_numeric ref_externs = rc_numeric"
  "c_from_numeric ref_externs k = find (\<lambda>c. rc_numeric c = k) [USD, EUR, GBP, JPY, VND]"
  by (simp_all add: ref_externs_def)

lemma rd_m_bound: "\<bar>rd_m a\<bar> < 2 ^ 96" and rd_s_bound: "rd_s a \<le> 28"
  by (cases a; simp)+

lemma rd_val_scaled: "rd_val a * 10 ^ rd_s a = of_int (rd_m a)"
  by (simp add: rd_val_def)

lemma rd_mk_val:
  assumes "representable v s" "v * 10 ^ s = of_int m"
  shows "\<exists>c. rd_mk m s = Some c \<and> rd_val c = v \<and> rd_s c = s"
proof -
  from assms have "\<bar>m\<bar> < 2 ^ 96" "s \<le> 28"
    by (auto simp: representable_def)
  moreover have "v = of_int m / 10 ^ s" using assms(2) by (simp add: field_simps)
  ultimately show ?thesis by (auto simp: rd_mk_def rd_val_def min_def)
qed

lemma rd_scale_up:
  assumes "rd_s a \<le> s"
  shows "rd_val a * 10 ^ s = of_int (rd_m a * 10 ^ (s - rd_s a))"
proof -
  have "(10 :: rat) ^ s = 10 ^ rd_s a * 10 ^ (s - rd_s a)"
    using assms by (simp flip: power_add)
  then show ?thesis by (simp add: mult.assoc [symmetric] rd_val_scaled)
qed

lemma rd_lt: "rd_m a * 10 ^ rd_s b < rd_m b * 10 ^ rd_s a \<longleftrightarrow> rd_val a < rd_val b"
proof -
  have "rd_val a < rd_val b \<longleftrightarrow>
      (of_int (rd_m a) :: rat) * 10 ^ rd_s b < of_int (rd_m b) * 10 ^ rd_s a"
    by (simp add: rd_val_def divide_simps ac_simps)
  also have "\<dots> \<longleftrightarrow> (of_int (rd_m a * 10 ^ rd_s b) :: rat) < of_int (rd_m b * 10 ^ rd_s a)"
    by simp
  finally show ?thesis by (simp only: of_int_less_iff)
qed

lemma ref_dec_order: "dec_order ref_externs rd_val"
proof -
  have "rd_val (RD \<bar>rd_m a\<bar> (rd_s a)) = \<bar>rd_val a\<bar>" for a
    using rd_m_bound [of a] rd_s_bound [of a] by (simp add: rd_val_def min_def)
  moreover have "representable (rd_val a) (rd_s a)" for a
    using rd_m_bound [of a] rd_s_bound [of a] by (auto simp: representable_def rd_val_scaled)
  moreover have "rd_m a = 0 \<longleftrightarrow> rd_val a = 0" for a by (simp add: rd_val_def)
  ultimately show ?thesis
    unfolding dec_order_def by (auto simp: rd_lt) (simp_all add: rd_val_def)
qed

lemma rd_div_exact:
  assumes "rd_val b \<noteq> 0" and rep: "representable (rd_val a / rd_val b) s"
  shows "\<exists>c. rd_div a b = Some c \<and> rd_val c = rd_val a / rd_val b \<and> rd_s c \<le> s"
proof -
  define n d where "n = rd_m a * 10 ^ rd_s b" and "d = rd_m b * 10 ^ rd_s a"
  have d0: "d \<noteq> 0" using assms(1) by (simp add: d_def rd_val_def)
  have q: "rd_val a / rd_val b = of_int n / of_int d"
    using assms(1) by (simp add: n_def d_def rd_val_def field_simps)
  from rep obtain m :: int where m: "\<bar>m\<bar> < 2 ^ 96" "rd_val a / rd_val b * 10 ^ s = of_int m"
    and s: "s \<le> 28" by (auto simp: representable_def)
  have "(of_int (n * 10 ^ s) :: rat) = of_int (d * m)"
    using m(2) d0 by (simp add: q field_simps)
  then have "n * 10 ^ s = d * m" by (simp only: of_int_eq_iff)
  then have dvd: "d dvd n * 10 ^ s" by simp
  have ex: "find (\<lambda>s. d dvd n * 10 ^ s) [0..<29] \<noteq> None"
    using dvd s unfolding find_None_iff by (auto intro!: exI [of _ s])
  then obtain k where k: "find (\<lambda>s. d dvd n * 10 ^ s) [0..<29] = Some k" by blast
  then obtain i where i: "i < 29" "d dvd n * 10 ^ i" "k = i" "\<forall>j < i. \<not> d dvd n * 10 ^ j"
    by (auto simp: find_Some_iff)
  with dvd have ks: "k \<le> s" by (auto simp: not_less [symmetric])
  have val: "of_int n / of_int d * 10 ^ k = (of_int (n * 10 ^ k div d) :: rat)"
  proof -
    from i obtain j where j: "n * 10 ^ k = d * j" by auto
    then have "(of_int n :: rat) * 10 ^ k = of_int d * of_int j"
      by (metis of_int_mult of_int_numeral of_int_power)
    with j d0 show ?thesis by (simp add: field_simps)
  qed
  have "representable (rd_val a / rd_val b) k"
  proof -
    have "\<bar>rd_val a / rd_val b * 10 ^ k\<bar> \<le> \<bar>rd_val a / rd_val b * 10 ^ s\<bar>"
      unfolding abs_mult using ks by (intro mult_left_mono) (simp_all add: power_increasing)
    then have "\<bar>n * 10 ^ k div d\<bar> \<le> \<bar>m\<bar>"
      unfolding m(2) unfolding q val by (simp flip: of_int_abs)
    then show ?thesis using m(1) val ks s unfolding representable_def q by auto
  qed
  then obtain c where "rd_mk (n * 10 ^ k div d) k = Some c" "rd_val c = rd_val a / rd_val b"
    "rd_s c = k"
    using rd_mk_val val unfolding q by metis
  then show ?thesis using d0 k ks by (auto simp: rd_div_def Let_def n_def d_def)
qed

lemma ref_dec_arith: "dec_arith ref_externs rd_val"
proof -
  have add: "\<exists>c. rd_add a b = Some c \<and> rd_val c = rd_val a + rd_val b \<and> rd_s c = max (rd_s a) (rd_s b)"
    if "representable (rd_val a + rd_val b) (max (rd_s a) (rd_s b))" for a b
    unfolding rd_add_def Let_def
    using that by (rule rd_mk_val) (simp add: distrib_right rd_scale_up)
  have sub: "\<exists>c. rd_sub a b = Some c \<and> rd_val c = rd_val a - rd_val b \<and> rd_s c = max (rd_s a) (rd_s b)"
    if "representable (rd_val a - rd_val b) (max (rd_s a) (rd_s b))" for a b
    unfolding rd_sub_def Let_def
    using that by (rule rd_mk_val) (simp add: left_diff_distrib rd_scale_up)
  have mul: "\<exists>c. rd_mul a b = Some c \<and> rd_val c = rd_val a * rd_val b \<and> rd_s c = rd_s a + rd_s b"
    if "representable (rd_val a * rd_val b) (rd_s a + rd_s b)" for a b
    unfolding rd_mul_def
    using that by (rule rd_mk_val) (simp add: rd_val_def power_add field_simps)
  show ?thesis
    unfolding dec_arith_def by (auto simp: rd_div_exact dest: add sub mul)
qed

lemma rd_fract: "rd_m (RD (sgn (rd_m a) * (\<bar>rd_m a\<bar> mod 10 ^ rd_s a)) (rd_s a)) = 0 \<longleftrightarrow> rd_val a \<in> \<int>"
proof -
  have "\<bar>\<bar>rd_m a\<bar> mod 10 ^ rd_s a\<bar> \<le> \<bar>rd_m a\<bar>"
    by (simp add: zmod_le_nonneg_dividend)
  then have "\<bar>sgn (rd_m a) * (\<bar>rd_m a\<bar> mod 10 ^ rd_s a)\<bar> < 2 ^ 96"
    using rd_m_bound [of a] by (simp add: abs_mult abs_sgn_eq)
  then have "rd_m (RD (sgn (rd_m a) * (\<bar>rd_m a\<bar> mod 10 ^ rd_s a)) (rd_s a)) = 0 \<longleftrightarrow>
      10 ^ rd_s a dvd rd_m a"
    by (auto simp: sgn_0_0 dvd_eq_mod_eq_0 [symmetric])
  also have "\<dots> \<longleftrightarrow> rd_val a \<in> \<int>"
  proof
    assume "10 ^ rd_s a dvd rd_m a"
    then obtain k where "rd_m a = 10 ^ rd_s a * k" by auto
    then show "rd_val a \<in> \<int>" by (simp add: rd_val_def)
  next
    assume "rd_val a \<in> \<int>"
    then obtain k where "rd_val a = of_int k" by (auto elim: Ints_cases)
    then have "(of_int (rd_m a) :: rat) = of_int (10 ^ rd_s a * k)"
      using rd_val_scaled [of a] by (simp add: mult.commute)
    then have "rd_m a = 10 ^ rd_s a * k" by (simp only: of_int_eq_iff)
    then show "10 ^ rd_s a dvd rd_m a" by simp
  qed
  finally show ?thesis .
qed

lemma rd_to_u128:
  assumes "rd_val a = of_nat n"
  shows "\<not> rd_m a < 0 \<and> nat (rd_m a div 10 ^ rd_s a) = n"
proof -
  have "(of_int (rd_m a) :: rat) = of_int (int n * 10 ^ rd_s a)"
    using assms rd_val_scaled [of a] by simp
  then have "rd_m a = int n * 10 ^ rd_s a" by (simp only: of_int_eq_iff)
  then show ?thesis by (simp add: not_less)
qed

lemma show_nat_plain: "c \<in> set (show_nat n) \<Longrightarrow> c \<noteq> CHR ''.'' \<and> c \<noteq> CHR ''-''"
proof -
  assume "c \<in> set (show_nat n)"
  then have "c \<in> digit_char ` {..<10}" using set_show_nat by blast
  moreover have "d < 10 \<Longrightarrow> digit_char d \<noteq> CHR ''.'' \<and> digit_char d \<noteq> CHR ''-''" for d
  proof (intro conjI notI)
    assume d: "d < 10"
    then have c: "of_char (digit_char d) = 48 + d" by (simp add: digit_char_def)
    show False if "digit_char d = CHR ''.''" using c that by simp
    show False if "digit_char d = CHR ''-''" using c that by simp
  qed
  ultimately show ?thesis by auto
qed

lemma rd_parse_abs_show:
  "rd_parse_abs (show_nat n) = Some (n, 0)"
  "0 < s \<Longrightarrow> rd_parse_abs (show_nat (n div 10 ^ s) @ ''.'' @ pad_left s (show_nat (n mod 10 ^ s))) = Some (n, s)"
proof -
  have tw: "takeWhile (\<lambda>c. c \<noteq> CHR ''.'') (show_nat k) = show_nat k"
    "dropWhile (\<lambda>c. c \<noteq> CHR ''.'') (show_nat k) = []" for k
    by (auto simp: show_nat_plain)
  show "rd_parse_abs (show_nat n) = Some (n, 0)"
    unfolding rd_parse_abs_def Let_def tw by (simp add: parse_digits_show_nat)
  assume s: "0 < s"
  have m: "n mod 10 ^ s < 10 ^ s" by simp
  have "length (pad_left s (show_nat (n mod 10 ^ s))) = s"
    by (intro length_pad_left length_show_nat m s)
  moreover have "parse_digits 0 (show_nat (n div 10 ^ s) @ pad_left s (show_nat (n mod 10 ^ s))) = Some n"
    by (simp add: parse_digits_append parse_digits_show_nat parse_digits_padded [OF m s] div_mult_mod_eq)
  ultimately show "rd_parse_abs (show_nat (n div 10 ^ s) @ ''.'' @ pad_left s (show_nat (n mod 10 ^ s))) = Some (n, s)"
    by (simp add: rd_parse_abs_def Let_def show_nat_plain)
qed

lemma show_nat_hd: "hd (show_nat n) \<noteq> CHR ''-''"
  using show_nat_plain hd_in_set show_nat_nonempty by blast

lemma rd_text: "rd_of_str (rd_show a) = Some (RD (rd_m a) (rd_s a))"
proof -
  define n s where "n = nat \<bar>rd_m a\<bar>" and "s = rd_s a"
  define t where "t = (if s = 0 then show_nat n
    else show_nat (n div 10 ^ s) @ ''.'' @ pad_left s (show_nat (n mod 10 ^ s)))"
  have t: "rd_parse_abs t = Some (n, s)"
    unfolding t_def using rd_parse_abs_show [of n] rd_parse_abs_show(2) [of s n] by (cases "s = 0") auto
  have hd: "hd t \<noteq> CHR ''-''" by (simp add: t_def show_nat_hd)
  have "rd_show a = (if rd_m a < 0 then ''-'' else []) @ t"
    by (simp add: rd_show_def Let_def n_def s_def t_def)
  then have "rd_of_str (rd_show a) = rd_mk (rd_m a) s"
    using t hd by (auto simp: rd_of_str_def Let_def n_def)
  then show ?thesis using rd_m_bound [of a] rd_s_bound [of a] by (simp add: rd_mk_def s_def)
qed

lemma rd_of_str_nat: "rd_of_str (show_nat n) = rd_mk (int n) 0"
  by (simp add: rd_of_str_def Let_def show_nat_hd rd_parse_abs_show)

lemma ref_dec_conv: "dec_conv ref_externs rd_val"
proof -
  have "rd_val (RD (uint n) 0) = of_nat (unat n)" for n :: u64
  proof -
    have "uint n < 2 ^ 64" using unsigned_less [of n] by simp
    then show ?thesis by (simp add: rd_val_def)
  qed
  moreover have "\<exists>a. rd_of_str (show_nat n) = Some a \<and> rd_val a = of_nat n \<and> rd_s a = 0"
    if "n < 2 ^ 96" for n
    using that by (simp add: rd_of_str_nat rd_mk_def rd_val_def)
  moreover have "rd_of_str (show_nat n) = None" if "2 ^ 96 \<le> n" for n
    using that by (simp add: rd_of_str_nat rd_mk_def)
  ultimately show ?thesis
    unfolding dec_conv_def ref_externs_sel using rd_to_u128 by (auto simp: rd_fract simp del: rd_m.simps)
qed

lemma ref_dec_text: "dec_text ref_externs rd_val"
  using rd_m_bound rd_s_bound by (simp add: dec_text_def rd_text rd_val_def min_def)

lemma ref_cur_laws: "cur_laws ref_externs"
proof -
  have "find (\<lambda>c'. rc_code c' = rc_code c) [USD, EUR, GBP, JPY, VND] = Some c"
    "find (\<lambda>c'. rc_numeric c' = rc_numeric c) [USD, EUR, GBP, JPY, VND] = Some c" for c
    by (cases c; simp)+
  then show ?thesis
    by (auto simp: cur_laws_def split: if_splits simp del: find.simps) (auto split: if_splits)
qed

end
