(* ===== verification/Blz_Amount.thy ===== *)
theory Blz_Amount
  imports Blz_Decimal
begin

text \<open>
  \<^verbatim>\<open>core/common/src/amount.rs\<close> and \<^verbatim>\<open>currency.rs\<close>: non-negative monetary amounts tied to a
  currency, with checked arithmetic and a textual (serde) form.
  Decimals and currencies are the operations of the record \<open>externs\<close> of \<^verbatim>\<open>Blz_Decimal\<close>.
\<close>

section \<open>Amounts (amount.rs, currency.rs)\<close>

definition parse_currency :: "('d, 'c) externs \<Rightarrow> string \<Rightarrow> 'c blazer_result" where
  "parse_currency X code = ok_or (InvalidCurrency code) (c_from_str X code)"

record ('d, 'c) amount =
  amt_value :: 'd
  amt_currency :: 'c

definition MAX_SCALE :: nat where "MAX_SCALE = 8"

definition amount_new :: "('d, 'c) externs \<Rightarrow> 'd \<Rightarrow> 'c \<Rightarrow> ('d, 'c) amount blazer_result" where
  "amount_new X v c =
     (if d_lt X v (d_zero X) then Inl NegativeAmount
      else if d_scale X v > MAX_SCALE then Inl (InvalidAmountScale (d_scale X v))
      else if \<not> d_lt X v (d_half_max X) then Inl AmountOverflow
      else Inr \<lparr>amt_value = v, amt_currency = c\<rparr>)"

definition amount_zero :: "('d, 'c) externs \<Rightarrow> 'c \<Rightarrow> ('d, 'c) amount" where
  "amount_zero X c = \<lparr>amt_value = d_zero X, amt_currency = c\<rparr>"

definition amount_checked_add ::
  "('d, 'c) externs \<Rightarrow> ('d, 'c) amount \<Rightarrow> ('d, 'c) amount \<Rightarrow> ('d, 'c) amount blazer_result" where
  "amount_checked_add X self other =
     (if amt_currency self \<noteq> amt_currency other
      then Inl (CurrencyMismatch (c_code X (amt_currency self)) (c_code X (amt_currency other)))
      else and_then (ok_or AmountOverflow (d_add X (amt_value self) (amt_value other)))
             (\<lambda>v. Inr \<lparr>amt_value = v, amt_currency = amt_currency self\<rparr>))"

definition amount_checked_sub ::
  "('d, 'c) externs \<Rightarrow> ('d, 'c) amount \<Rightarrow> ('d, 'c) amount \<Rightarrow> ('d, 'c) amount blazer_result" where
  "amount_checked_sub X self other =
     (if amt_currency self \<noteq> amt_currency other
      then Inl (CurrencyMismatch (c_code X (amt_currency self)) (c_code X (amt_currency other)))
      else if d_lt X (amt_value self) (amt_value other)
      then Inl (InsufficientFunds (d_show X (amt_value self)) (d_show X (amt_value other)))
      else and_then (ok_or AmountOverflow (d_sub X (amt_value self) (amt_value other)))
             (\<lambda>v. Inr \<lparr>amt_value = v, amt_currency = amt_currency self\<rparr>))"

definition amount_display :: "('d, 'c) externs \<Rightarrow> ('d, 'c) amount \<Rightarrow> string" where
  "amount_display X a = d_show X (amt_value a) @ '' '' @ c_code X (amt_currency a)"

text \<open>Serde: the two fields of the serialised struct, both strings.\<close>

definition amount_serialize :: "('d, 'c) externs \<Rightarrow> ('d, 'c) amount \<Rightarrow> string \<times> string" where
  "amount_serialize X a = (d_show X (amt_value a), c_code X (amt_currency a))"

definition amount_deserialize ::
  "('d, 'c) externs \<Rightarrow> string \<times> string \<Rightarrow> ('d, 'c) amount option" where
  "amount_deserialize X vc =
     (case d_of_str X (fst vc) of
        None \<Rightarrow> None
      | Some v \<Rightarrow>
          (case parse_currency X (snd vc) of
             Inl _ \<Rightarrow> None
           | Inr c \<Rightarrow> (case amount_new X v c of Inl _ \<Rightarrow> None | Inr a \<Rightarrow> Some a)))"

section \<open>Lemmas on amounts\<close>

text \<open>
  \<open>amount_ok\<close> is the part of the documented invariant that every operation keeps: the value
  is non-negative and has at most eight decimal places.
\<close>

definition amount_ok :: "('d, 'c) externs \<Rightarrow> ('d \<Rightarrow> rat) \<Rightarrow> ('d, 'c) amount \<Rightarrow> bool" where
  "amount_ok X val a \<longleftrightarrow> 0 \<le> val (amt_value a) \<and> d_scale X (amt_value a) \<le> MAX_SCALE"

lemma amount_zero_ok: "dec_order X val \<Longrightarrow> amount_ok X val (amount_zero X c)"
  by (simp add: amount_ok_def amount_zero_def dec_order_def)

lemma amount_new_Inr:
  assumes "dec_order X val"
  shows "amount_new X v c = Inr a \<longleftrightarrow>
    a = \<lparr>amt_value = v, amt_currency = c\<rparr> \<and> 0 \<le> val v \<and> d_scale X v \<le> MAX_SCALE \<and>
    val v < val (d_half_max X)"
  using assms by (auto simp: amount_new_def dec_order_def not_less)

lemma amount_checked_add_exact:
  assumes "dec_arith X val" "amt_currency a = amt_currency b"
    and "representable (val (amt_value a) + val (amt_value b))
           (max (d_scale X (amt_value a)) (d_scale X (amt_value b)))"
  obtains c where "amount_checked_add X a b = Inr c" "amt_currency c = amt_currency a"
    "val (amt_value c) = val (amt_value a) + val (amt_value b)"
    "d_scale X (amt_value c) \<le> max (d_scale X (amt_value a)) (d_scale X (amt_value b))"
proof -
  from assms obtain v where v: "d_add X (amt_value a) (amt_value b) = Some v"
    "val v = val (amt_value a) + val (amt_value b)"
    "d_scale X v \<le> max (d_scale X (amt_value a)) (d_scale X (amt_value b))"
    unfolding dec_arith_def by blast
  then have "amount_checked_add X a b = Inr \<lparr>amt_value = v, amt_currency = amt_currency a\<rparr>"
    using assms by (simp add: amount_checked_add_def)
  then show ?thesis using that v by simp
qed

text \<open>
  Subtraction of a smaller amount is exact whenever the two values have the same scale, since
  the difference cannot need a larger mantissa than the minuend.
\<close>

lemma representable_mono:
  assumes "representable v s" "\<bar>w\<bar> \<le> \<bar>v\<bar>" "w * 10 ^ s \<in> \<int>"
  shows "representable w s"
proof -
  from assms obtain m :: int where m: "\<bar>m\<bar> < 2 ^ 96" "v * 10 ^ s = of_int m" "s \<le> 28"
    by (auto simp: representable_def)
  from assms(3) obtain k where k: "w * 10 ^ s = of_int k" by (auto elim: Ints_cases)
  have "\<bar>w * 10 ^ s\<bar> \<le> \<bar>v * 10 ^ s\<bar>"
    using assms(2) by (simp add: abs_mult)
  then have "\<bar>k\<bar> \<le> \<bar>m\<bar>" unfolding m k by (simp flip: of_int_abs)
  with m k show ?thesis by (auto simp: representable_def)
qed

lemma representable_between:
  assumes "representable v s" "representable v u" "s \<le> t" "t \<le> u"
  shows "representable v t"
proof -
  from assms obtain m k :: int where m: "v * 10 ^ s = of_int m" and k: "\<bar>k\<bar> < 2 ^ 96"
    "v * 10 ^ u = of_int k" and u: "u \<le> 28" by (auto simp: representable_def)
  have "v * 10 ^ t = v * 10 ^ s * 10 ^ (t - s)"
    using assms(3) by (simp add: mult.assoc flip: power_add)
  then obtain j :: int where j: "v * 10 ^ t = of_int j"
    unfolding m by (metis of_int_mult of_int_numeral of_int_power)
  have "\<bar>v * 10 ^ t\<bar> \<le> \<bar>v * 10 ^ u\<bar>"
    unfolding abs_mult using assms(4) by (intro mult_left_mono) (simp_all add: power_increasing)
  then have "\<bar>j\<bar> \<le> \<bar>k\<bar>" unfolding k j by (simp flip: of_int_abs)
  with k u assms(4) j show ?thesis unfolding representable_def by (auto intro!: exI [of _ j])
qed

lemma amount_checked_sub_exact:
  assumes X: "dec_order X val" "dec_arith X val" and cur: "amt_currency a = amt_currency b"
    and le: "val (amt_value b) \<le> val (amt_value a)"
    and nonneg: "0 \<le> val (amt_value b)"
    and rep: "representable (val (amt_value a))
           (max (d_scale X (amt_value a)) (d_scale X (amt_value b)))"
  obtains c where "amount_checked_sub X a b = Inr c" "amt_currency c = amt_currency a"
    "val (amt_value c) = val (amt_value a) - val (amt_value b)"
    "d_scale X (amt_value c) \<le> max (d_scale X (amt_value a)) (d_scale X (amt_value b))"
proof -
  let ?s = "max (d_scale X (amt_value a)) (d_scale X (amt_value b))"
  have "(val (amt_value a) - val (amt_value b)) * 10 ^ ?s \<in> \<int>"
    using val_scaled_int [OF X(1), of "amt_value a" ?s] val_scaled_int [OF X(1), of "amt_value b" ?s]
    by (simp add: left_diff_distrib)
  then have "representable (val (amt_value a) - val (amt_value b)) ?s"
    using le nonneg by (intro representable_mono [OF rep]) auto
  with X(2) obtain v where v: "d_sub X (amt_value a) (amt_value b) = Some v"
    "val v = val (amt_value a) - val (amt_value b)" "d_scale X v \<le> ?s"
    unfolding dec_arith_def by blast
  then have "amount_checked_sub X a b = Inr \<lparr>amt_value = v, amt_currency = amt_currency a\<rparr>"
    using X(1) cur le by (auto simp: amount_checked_sub_def dec_order_def)
  then show ?thesis using that v by simp
qed

text \<open>
  Below \<open>2 ^ 96 / 10 ^ 8\<close> every sum and every difference of well-formed amounts is exact.
\<close>

lemma amount_add_small:
  assumes X: "dec_order X val" "dec_arith X val" and ok: "amount_ok X val a" "amount_ok X val b"
    and cur: "amt_currency a = amt_currency b"
    and small: "(val (amt_value a) + val (amt_value b)) * 10 ^ 8 < 2 ^ 96"
  obtains c where "amount_checked_add X a b = Inr c" "amount_ok X val c"
    "amt_currency c = amt_currency a" "val (amt_value c) = val (amt_value a) + val (amt_value b)"
proof -
  let ?s = "max (d_scale X (amt_value a)) (d_scale X (amt_value b))"
  have s8: "?s \<le> 8" using ok by (simp add: amount_ok_def MAX_SCALE_def)
  have "(val (amt_value a) + val (amt_value b)) * 10 ^ ?s \<in> \<int>"
    using val_scaled_int [OF X(1), of "amt_value a" ?s] val_scaled_int [OF X(1), of "amt_value b" ?s]
    by (simp add: distrib_right)
  then have "representable (val (amt_value a) + val (amt_value b)) ?s"
    using ok small s8 by (intro representable_small) (auto simp: amount_ok_def)
  then obtain c where c: "amount_checked_add X a b = Inr c" "amt_currency c = amt_currency a"
    "val (amt_value c) = val (amt_value a) + val (amt_value b)" "d_scale X (amt_value c) \<le> ?s"
    by (rule amount_checked_add_exact [OF X(2) cur])
  then have "amount_ok X val c" using ok by (auto simp: amount_ok_def)
  with c that show ?thesis by blast
qed

lemma amount_sub_small:
  assumes X: "dec_order X val" "dec_arith X val" and ok: "amount_ok X val a" "amount_ok X val b"
    and cur: "amt_currency a = amt_currency b"
    and small: "val (amt_value a) * 10 ^ 8 < 2 ^ 96"
    and le: "val (amt_value b) \<le> val (amt_value a)"
  obtains c where "amount_checked_sub X a b = Inr c"
    "val (amt_value c) = val (amt_value a) - val (amt_value b)"
proof -
  let ?s = "max (d_scale X (amt_value a)) (d_scale X (amt_value b))"
  have s8: "?s \<le> 8" using ok by (simp add: amount_ok_def MAX_SCALE_def)
  have "representable (val (amt_value a)) ?s"
    using ok small s8 val_scaled_int [OF X(1), of "amt_value a" ?s]
    by (intro representable_small) (auto simp: amount_ok_def)
  moreover have "0 \<le> val (amt_value b)" using ok by (simp add: amount_ok_def)
  ultimately show ?thesis
    using amount_checked_sub_exact [OF X cur le] that by blast
qed

section \<open>Properties of amounts\<close>

lemma ref_laws:
  "dec_order ref_externs rd_val" "dec_arith ref_externs rd_val" "dec_conv ref_externs rd_val"
  "dec_text ref_externs rd_val" "cur_laws ref_externs"
  by (rule ref_dec_order ref_dec_arith ref_dec_conv ref_dec_text ref_cur_laws)+

text \<open>
  Adding an amount and subtracting it again restores the balance: for two well-formed
  amounts of one currency whose sum fits the decimal's 96-bit mantissa at their common scale,
  \<^verbatim>\<open>checked_add\<close> succeeds with exactly the sum, a well-formed amount, and \<^verbatim>\<open>checked_sub\<close> of
  the second summand from it succeeds with exactly the first; for different currencies both
  fail with the mismatch error that names the two codes.
\<close>

theorem amount_add_sub_inverse:
  assumes laws: "dec_order X val" "dec_arith X val"
    and ok: "amount_ok X val a" "amount_ok X val b"
    and fits: "representable (val (amt_value a) + val (amt_value b))
                 (max (d_scale X (amt_value a)) (d_scale X (amt_value b)))"
  shows "if amt_currency a = amt_currency b
    then \<exists>c d. amount_checked_add X a b = Inr c \<and> amount_ok X val c \<and>
           val (amt_value c) = val (amt_value a) + val (amt_value b) \<and>
           amount_checked_sub X c b = Inr d \<and> amount_ok X val d \<and>
           val (amt_value d) = val (amt_value a) \<and> amt_currency d = amt_currency a
    else amount_checked_add X a b =
           Inl (CurrencyMismatch (c_code X (amt_currency a)) (c_code X (amt_currency b))) \<and>
         amount_checked_sub X a b =
           Inl (CurrencyMismatch (c_code X (amt_currency a)) (c_code X (amt_currency b)))"
proof (cases "amt_currency a = amt_currency b")
  case True
  obtain c where c: "amount_checked_add X a b = Inr c" "amt_currency c = amt_currency a"
    "val (amt_value c) = val (amt_value a) + val (amt_value b)"
    "d_scale X (amt_value c) \<le> max (d_scale X (amt_value a)) (d_scale X (amt_value b))"
    using laws(2) True fits by (rule amount_checked_add_exact)
  have c_ok: "amount_ok X val c" using ok c by (auto simp: amount_ok_def)
  have "representable (val (amt_value c)) (d_scale X (amt_value c))"
    using laws(1) by (simp add: dec_order_def)
  then have rep: "representable (val (amt_value c))
      (max (d_scale X (amt_value c)) (d_scale X (amt_value b)))"
    using fits [folded c(3)] by (rule representable_between) (use c(4) in auto)
  obtain d where "amount_checked_sub X c b = Inr d" "amt_currency d = amt_currency c"
    "val (amt_value d) = val (amt_value c) - val (amt_value b)"
    "d_scale X (amt_value d) \<le> max (d_scale X (amt_value c)) (d_scale X (amt_value b))"
    by (rule amount_checked_sub_exact [OF laws _ _ _ rep]) (use c True ok in \<open>simp_all add: amount_ok_def\<close>)
  moreover from this have "amount_ok X val d" using c ok c_ok by (auto simp: amount_ok_def)
  ultimately show ?thesis using True c c_ok by auto
next
  case False
  then show ?thesis by (simp add: amount_checked_add_def amount_checked_sub_def)
qed

theorem amount_add_sub_inverse_witness:
  "\<exists>c d. amount_checked_add ref_externs \<lparr>amt_value = RD 150 2, amt_currency = USD\<rparr>
            \<lparr>amt_value = RD 7 0, amt_currency = USD\<rparr> = Inr c \<and>
         amount_checked_sub ref_externs c \<lparr>amt_value = RD 7 0, amt_currency = USD\<rparr> = Inr d \<and>
         rd_val (amt_value d) = 3 / 2"
proof -
  have "representable (rd_val (RD 150 2) + rd_val (RD 7 0)) 2"
    by (auto simp: representable_def rd_val_def intro!: exI [of _ 850])
  then show ?thesis
    using amount_add_sub_inverse [OF ref_laws(1,2),
        of "\<lparr>amt_value = RD 150 2, amt_currency = USD\<rparr>" "\<lparr>amt_value = RD 7 0, amt_currency = USD\<rparr>"]
    by (auto simp: amount_ok_def MAX_SCALE_def rd_val_def)
qed

text \<open>
  The serde form of an amount reads back: every amount that \<^verbatim>\<open>Amount::new\<close> accepts is
  serialised to a pair of strings that \<^verbatim>\<open>deserialize\<close> accepts, and the amount read back has
  the same value, the same scale and the same currency.
\<close>

theorem amount_serde_roundtrip:
  assumes laws: "dec_order X val" "dec_text X val" "cur_laws X"
    and new: "amount_new X v c = Inr a"
  shows "\<exists>b. amount_deserialize X (amount_serialize X a) = Some b \<and>
    val (amt_value b) = val v \<and> d_scale X (amt_value b) = d_scale X v \<and> amt_currency b = c"
proof -
  from new have a: "a = \<lparr>amt_value = v, amt_currency = c\<rparr>" "0 \<le> val v" "d_scale X v \<le> MAX_SCALE"
    "val v < val (d_half_max X)"
    by (simp_all add: amount_new_Inr [OF laws(1)])
  from laws(2) obtain w where w: "d_of_str X (d_show X v) = Some w" "val w = val v"
    "d_scale X w = d_scale X v" by (auto simp: dec_text_def)
  have "amount_new X w c = Inr \<lparr>amt_value = w, amt_currency = c\<rparr>"
    using a w by (simp add: amount_new_Inr [OF laws(1)])
  moreover have "parse_currency X (c_code X c) = Inr c"
    using laws(3) by (simp add: parse_currency_def cur_laws_def)
  ultimately show ?thesis
    using a w by (simp add: amount_serialize_def amount_deserialize_def)
qed

theorem amount_serde_roundtrip_witness:
  "\<exists>b. amount_deserialize ref_externs
         (amount_serialize ref_externs \<lparr>amt_value = RD 150 2, amt_currency = USD\<rparr>) = Some b \<and>
       rd_val (amt_value b) = rd_val (RD 150 2) \<and> amt_currency b = USD"
proof -
  have "amount_new ref_externs (RD 150 2) USD = Inr \<lparr>amt_value = RD 150 2, amt_currency = USD\<rparr>"
    by (simp add: amount_new_def MAX_SCALE_def)
  from amount_serde_roundtrip [OF ref_laws(1,4,5) this] show ?thesis by auto
qed

end
