(* ===== verification/Blz_Convert.thy ===== *)
theory Blz_Convert
  imports Blz_Amount
begin

text \<open>
  \<^verbatim>\<open>core/ledger/src/convert.rs\<close>: the conversions between the domain types and the integers
  that TigerBeetle stores. A \<^verbatim>\<open>u128\<close> of minor units is a \<^typ>\<open>nat\<close> below \<open>2 ^ 128\<close>, an
  identifier a \<^typ>\<open>u128\<close>.
\<close>

section \<open>Definitions\<close>

definition currency_scale :: "('d, 'c) externs \<Rightarrow> 'c \<Rightarrow> u64" where
  "currency_scale X c =
     (if c_code X c \<in> set [''JPY'', ''VND'', ''KRW'', ''CLP'', ''ISK'', ''PYG'', ''UGX'', ''XOF'',
                            ''GNF'', ''IDR''] then 1
      else if c_code X c \<in> set [''BTC'', ''XBT''] then 100000000
      else if c_code X c = ''ETH'' then 1000000000000000000
      else 100)"

definition amount_to_minor_units :: "('d, 'c) externs \<Rightarrow> ('d, 'c) amount \<Rightarrow> nat blazer_result" where
  "amount_to_minor_units X amount =
     and_then (ok_or AmountOverflow
       (d_mul X (amt_value amount) (d_of_u64 X (currency_scale X (amt_currency amount)))))
       (\<lambda>scaled.
          if \<not> d_is_zero X (d_fract X scaled) then Inl AmountOverflow
          else ok_or AmountOverflow (d_to_u128 X scaled))"

definition minor_units_to_amount ::
  "('d, 'c) externs \<Rightarrow> nat \<Rightarrow> 'c \<Rightarrow> ('d, 'c) amount blazer_result" where
  "minor_units_to_amount X minor_units currency =
     and_then (ok_or AmountOverflow (d_of_str X (show_nat minor_units)))
       (\<lambda>minor_decimal.
          and_then (ok_or AmountOverflow
              (d_div X minor_decimal (d_of_u64 X (currency_scale X currency))))
            (\<lambda>v. amount_new X v currency))"

definition account_id_to_u128 :: "account_id \<Rightarrow> u128" where
  "account_id_to_u128 i = ucast (as_u64 i)"

definition u128_to_account_id :: "u128 \<Rightarrow> account_id" where
  "u128_to_account_id raw = from_u64 (ucast raw)"

definition transfer_id_to_u128 :: "transfer_id \<Rightarrow> u128" where
  "transfer_id_to_u128 i = word_of_nat (from_be_bytes (as_uuid i))"

definition u128_to_transfer_id :: "u128 \<Rightarrow> transfer_id" where
  "u128_to_transfer_id raw = from_bytes (to_be_bytes 16 (unat raw))"

definition ledger_id_to_u32 :: "ledger_id \<Rightarrow> u32" where
  "ledger_id_to_u32 i = ledger_id_value i"

definition ledger_id_to_currency :: "('d, 'c) externs \<Rightarrow> ledger_id \<Rightarrow> 'c blazer_result" where
  "ledger_id_to_currency X i =
     (let v = ledger_id_value i;
          from_code = (\<lambda>code. ok_or (ValidationError (''bad currency code: '' @ code)) (c_from_str X code))
      in if v = 1 then from_code ''USD''
         else if v = 2 then from_code ''EUR''
         else if v = 3 then from_code ''GBP''
         else if v = 4 then from_code ''JPY''
         else if v = 5 then from_code ''VND''
         else if v = 6 then from_code ''BTC''
         else if v = 7 then from_code ''ETH''
         else Inl (ValidationError (''unknown ledger_id: '' @ show_nat (unat v))))"

definition transaction_id_to_u128 :: "transaction_id \<Rightarrow> u128" where
  "transaction_id_to_u128 i = ucast (as_u64 i)"

section \<open>Lemmas\<close>

definition scale_exp :: "('d, 'c) externs \<Rightarrow> 'c \<Rightarrow> nat" where
  "scale_exp X c =
     (let s = currency_scale X c in if s = 1 then 0 else if s = 100 then 2 else if s = 100000000 then 8 else 18)"

lemma currency_scale_exp: "unat (currency_scale X c) = 10 ^ scale_exp X c"
  by (auto simp: currency_scale_def scale_exp_def Let_def)

lemma currency_scale_val:
  assumes "dec_conv X val"
  shows "val (d_of_u64 X (currency_scale X c)) = 10 ^ scale_exp X c"
    "d_scale X (d_of_u64 X (currency_scale X c)) = 0"
proof -
  have "val (d_of_u64 X (currency_scale X c)) = of_nat (unat (currency_scale X c))"
    using assms unfolding dec_conv_def by blast
  then show "val (d_of_u64 X (currency_scale X c)) = 10 ^ scale_exp X c"
    by (simp only: currency_scale_exp of_nat_power of_nat_numeral)
  show "d_scale X (d_of_u64 X (currency_scale X c)) = 0"
    using assms unfolding dec_conv_def by blast
qed

lemma representable_nat_div:
  assumes "n < 2 ^ 96" "e \<le> 28"
  shows "representable (of_nat n / 10 ^ e) e"
  using assms unfolding representable_def by (auto intro!: exI [of _ "int n"])

lemma minor_units_to_amount_exact:
  assumes X: "dec_order X val" "dec_arith X val" "dec_conv X val"
    and c: "scale_exp X c \<le> 8" and n: "n < 2 ^ 95 - 1"
  obtains v where "minor_units_to_amount X n c = Inr \<lparr>amt_value = v, amt_currency = c\<rparr>"
    "val v = of_nat n / 10 ^ scale_exp X c" "d_scale X v \<le> scale_exp X c"
proof -
  let ?k = "d_of_u64 X (currency_scale X c)" and ?e = "scale_exp X c"
  have n': "n < 2 ^ 96" using n by simp
  then obtain m where m: "d_of_str X (show_nat n) = Some m" "val m = of_nat n" "d_scale X m = 0"
    using X(3) unfolding dec_conv_def by blast
  have k: "val ?k = 10 ^ ?e" "d_scale X ?k = 0"
    by (rule currency_scale_val [OF X(3)])+
  have "representable (val m / val ?k) ?e" "val ?k \<noteq> 0"
    using representable_nat_div [OF n', of ?e] c by (simp_all add: m k)
  then obtain v where "d_div X m ?k = Some v" "val v = val m / val ?k" "d_scale X v \<le> ?e"
    using dec_divE [OF X(2) m(3) k(2)] by blast
  then have v: "d_div X m ?k = Some v" "val v = of_nat n / 10 ^ ?e" "d_scale X v \<le> ?e"
    by (simp_all add: m k)
  have "(of_nat n :: rat) / 10 ^ ?e \<le> of_nat n"
    using mult_left_mono [of 1 "10 ^ ?e" "of_nat n :: rat"] by (simp add: divide_le_eq)
  also have "(of_nat n :: rat) < of_nat (2 ^ 95 - 1)" using n by (simp only: of_nat_less_iff)
  also have "\<dots> \<le> val (d_half_max X)" using X(1) by (simp add: dec_order_def)
  finally have "amount_new X v c = Inr \<lparr>amt_value = v, amt_currency = c\<rparr>"
    using v c by (simp add: amount_new_Inr [OF X(1)] MAX_SCALE_def)
  then have "minor_units_to_amount X n c = Inr \<lparr>amt_value = v, amt_currency = c\<rparr>"
    using m v by (simp add: minor_units_to_amount_def)
  then show ?thesis using v that by blast
qed

lemma amount_to_minor_units_exact:
  assumes X: "dec_order X val" "dec_arith X val" "dec_conv X val"
    and c: "val (amt_value a) = of_nat n / 10 ^ scale_exp X (amt_currency a)"
    and d: "d_scale X (amt_value a) \<le> scale_exp X (amt_currency a)"
    and n: "n * 10 ^ 8 < 2 ^ 96" "scale_exp X (amt_currency a) \<le> 8"
  shows "amount_to_minor_units X a = Inr n"
proof -
  let ?k = "d_of_u64 X (currency_scale X (amt_currency a))" and ?e = "scale_exp X (amt_currency a)"
  let ?s = "d_scale X (amt_value a)"
  have k: "val ?k = 10 ^ ?e" "d_scale X ?k = 0"
    by (rule currency_scale_val [OF X(3)])+
  have "n * 10 ^ ?s \<le> n * 10 ^ 8"
    using n(2) d by (intro mult_left_mono power_increasing) auto
  then have "n * 10 ^ ?s < 2 ^ 96" using n(1) by (rule le_less_trans)
  then have "int (n * 10 ^ ?s) < 2 ^ 96" by (metis of_nat_less_iff of_nat_numeral of_nat_power)
  then have "representable (val (amt_value a) * val ?k) (d_scale X (amt_value a) + d_scale X ?k)"
    using n(2) d by (auto simp: representable_def k c intro!: exI [of _ "int (n * 10 ^ ?s)"])
  then obtain w where w: "d_mul X (amt_value a) ?k = Some w" "val w = val (amt_value a) * val ?k"
    by (rule dec_mulE [OF X(2)])
  then have vw: "val w = of_nat n" by (simp add: c k)
  have "d_is_zero X (d_fract X w)" "d_to_u128 X w = Some n"
    using X(3) vw by (auto simp: dec_conv_def)
  then show ?thesis using w by (simp add: amount_to_minor_units_def)
qed

lemma id_roundtrips:
  fixes t :: transfer_id
  shows "u128_to_account_id (account_id_to_u128 a) = a" "unat (account_id_to_u128 a) < 2 ^ 64"
    "length (as_uuid t) = 16 \<Longrightarrow> u128_to_transfer_id (transfer_id_to_u128 t) = t"
    "transfer_id_to_u128 (u128_to_transfer_id raw) = raw"
proof -
  have "ucast (ucast x :: u128) = x" for x :: u64
    by (simp add: unsigned_ucast_eq take_bit_word_eq_self)
  then show "u128_to_account_id (account_id_to_u128 a) = a"
    by (simp add: u128_to_account_id_def account_id_to_u128_def from_u64_def as_u64_def)
  show "unat (account_id_to_u128 a) < 2 ^ 64"
    using unsigned_less [where 'a = nat, of "as_u64 a"]
    by (simp add: account_id_to_u128_def unsigned_ucast_eq take_bit_nat_eq_self)
  show "transfer_id_to_u128 (u128_to_transfer_id raw) = raw"
    using from_to_be_bytes [of "unat raw" 16] unsigned_less [where 'a = nat, of raw]
    by (simp add: u128_to_transfer_id_def transfer_id_to_u128_def from_bytes_def as_uuid_def)
  assume assms: "length (as_uuid t) = 16"
  have "from_be_bytes (as_uuid t) < 2 ^ 128"
    using from_be_bytes_bound [of "as_uuid t"] assms by simp
  then show "u128_to_transfer_id (transfer_id_to_u128 t) = t"
    using to_from_be_bytes [of "as_uuid t"] assms
    by (simp add: u128_to_transfer_id_def transfer_id_to_u128_def from_bytes_def as_uuid_def unat_of_nat)
qed

section \<open>Properties\<close>

text \<open>
  C39. Minor units survive the trip through an amount: for every currency whose scale is at
  most eight places (all ISO 4217 currencies), any count of minor units below \<open>2 ^ 69\<close>, which
  covers every \<^verbatim>\<open>u64\<close>, is converted by \<^verbatim>\<open>minor_units_to_amount\<close> to an amount of exactly
  that value, and \<^verbatim>\<open>amount_to_minor_units\<close> gives the count back.
\<close>

theorem minor_units_roundtrip:
  assumes "dec_order X val" "dec_arith X val" "dec_conv X val"
    and "c_code X c \<noteq> ''ETH''" and "n < 2 ^ 69"
  shows "\<exists>a. minor_units_to_amount X n c = Inr a \<and> amt_currency a = c \<and>
    val (amt_value a) * of_nat (unat (currency_scale X c)) = of_nat n \<and>
    amount_to_minor_units X a = Inr n"
proof -
  have e: "scale_exp X c \<le> 8"
    using assms(4) by (auto simp: scale_exp_def currency_scale_def Let_def)
  obtain v where v: "minor_units_to_amount X n c = Inr \<lparr>amt_value = v, amt_currency = c\<rparr>"
    "val v = of_nat n / 10 ^ scale_exp X c" "d_scale X v \<le> scale_exp X c"
    using minor_units_to_amount_exact [OF assms(1-3) e, of n] assms(5) by auto
  moreover have "amount_to_minor_units X \<lparr>amt_value = v, amt_currency = c\<rparr> = Inr n"
    using amount_to_minor_units_exact [OF assms(1-3), of "\<lparr>amt_value = v, amt_currency = c\<rparr>" n] v e assms(5)
    by auto
  ultimately show ?thesis
    unfolding currency_scale_exp by auto
qed

theorem minor_units_roundtrip_witness:
  "\<exists>a. minor_units_to_amount ref_externs 12345 USD = Inr a \<and>
     rd_val (amt_value a) * 100 = 12345 \<and> amount_to_minor_units ref_externs a = Inr 12345"
  using minor_units_roundtrip [OF ref_laws(1-3), of USD 12345]
  by (auto simp: currency_scale_def)

text \<open>
  The identifiers stored in the ledger lose nothing: account ids and 16-byte transfer ids
  are recovered exactly from their \<^verbatim>\<open>u128\<close> form, every \<^verbatim>\<open>u128\<close> is the form of the transfer id
  it converts to, and account id forms fit in 64 bits.
\<close>

theorem id_conversions_roundtrip:
  fixes t :: transfer_id
  assumes "length (as_uuid t) = 16"
  shows "u128_to_account_id (account_id_to_u128 a) = a \<and> unat (account_id_to_u128 a) < 2 ^ 64 \<and>
    u128_to_transfer_id (transfer_id_to_u128 t) = t \<and>
    transfer_id_to_u128 (u128_to_transfer_id raw) = raw \<and>
    length (as_uuid (u128_to_transfer_id raw)) = 16"
proof -
  have "length (as_uuid (u128_to_transfer_id raw)) = 16"
    by (simp add: u128_to_transfer_id_def from_bytes_def as_uuid_def)
  then show ?thesis using assms id_roundtrips by blast
qed

theorem id_conversions_roundtrip_witness:
  "u128_to_transfer_id (transfer_id_to_u128 (UuidId [1,2,3,4,5,6,7,8,9,10,11,12,13,14,15,16])) =
   UuidId [1,2,3,4,5,6,7,8,9,10,11,12,13,14,15,16]"
  using id_conversions_roundtrip [of "UuidId [1,2,3,4,5,6,7,8,9,10,11,12,13,14,15,16]"]
  by (simp add: as_uuid_def)

end
