(* ===== verification/Blz_Ledger.thy ===== *)
theory Blz_Ledger
  imports Blz_Convert Blz_Timestamp
begin

text \<open>
  The ledger's domain types: \<^verbatim>\<open>core/ledger/src/account.rs\<close>, \<^verbatim>\<open>transfer.rs\<close>,
  \<^verbatim>\<open>double_entry.rs\<close> and the counters of \<^verbatim>\<open>metrics.rs\<close>. A method on \<^verbatim>\<open>&mut self\<close> returns the
  updated record; \<^verbatim>\<open>Timestamp::now()\<close> is the argument \<open>now\<close>.
\<close>

section \<open>Accounts (account.rs)\<close>

record account_flags =
  debits_must_not_exceed_credits :: bool
  credits_must_not_exceed_debits :: bool
  acct_linked :: bool

record ('d, 'c) account =
  acct_id :: account_id
  acct_ledger_id :: ledger_id
  acct_currency :: 'c
  acct_code :: u16
  acct_flags :: account_flags
  debits_posted :: "('d, 'c) amount"
  credits_posted :: "('d, 'c) amount"
  acct_timestamp :: timestamp

definition account_new ::
  "('d, 'c) externs \<Rightarrow> timestamp \<Rightarrow> account_id \<Rightarrow> ledger_id \<Rightarrow> 'c \<Rightarrow> u16 \<Rightarrow> account_flags \<Rightarrow>
   ('d, 'c) account" where
  "account_new X now i ledger currency code flags =
     \<lparr>acct_id = i, acct_ledger_id = ledger, acct_currency = currency, acct_code = code,
      acct_flags = flags, debits_posted = amount_zero X currency,
      credits_posted = amount_zero X currency, acct_timestamp = now\<rparr>"

definition balance :: "('d, 'c) externs \<Rightarrow> ('d, 'c) account \<Rightarrow> ('d, 'c) amount blazer_result" where
  "balance X self =
     map_err (\<lambda>_. AmountOverflow) (amount_checked_sub X (credits_posted self) (debits_posted self))"

definition can_debit :: "('d, 'c) externs \<Rightarrow> ('d, 'c) account \<Rightarrow> ('d, 'c) amount \<Rightarrow> bool" where
  "can_debit X self amount =
     (if debits_must_not_exceed_credits (acct_flags self)
      then (case balance X self of
              Inr bal \<Rightarrow> \<not> d_lt X (amt_value bal) (amt_value amount)
            | Inl _ \<Rightarrow> False)
      else True)"

definition apply_debit ::
  "('d, 'c) externs \<Rightarrow> ('d, 'c) account \<Rightarrow> ('d, 'c) amount \<Rightarrow> ('d, 'c) account blazer_result" where
  "apply_debit X self amount =
     and_then (amount_checked_add X (debits_posted self) amount)
       (\<lambda>v. Inr (self\<lparr>debits_posted := v\<rparr>))"

definition apply_credit ::
  "('d, 'c) externs \<Rightarrow> ('d, 'c) account \<Rightarrow> ('d, 'c) amount \<Rightarrow> ('d, 'c) account blazer_result" where
  "apply_credit X self amount =
     and_then (amount_checked_add X (credits_posted self) amount)
       (\<lambda>v. Inr (self\<lparr>credits_posted := v\<rparr>))"

definition account_validate :: "('d, 'c) account \<Rightarrow> unit blazer_result" where
  "account_validate self =
     (if is_zero (acct_id self) then Inl (ValidationError ''account id must not be zero'')
      else if acct_code self = 0 then Inl (ValidationError ''account code must be greater than 0'')
      else Inr ())"

section \<open>Transfers (transfer.rs)\<close>

record transfer_flags =
  tr_linked :: bool
  tr_pending :: bool
  post_pending_transfer :: bool
  void_pending_transfer :: bool

definition transfer_flags_default :: transfer_flags where
  "transfer_flags_default =
     \<lparr>tr_linked = False, tr_pending = False, post_pending_transfer = False,
      void_pending_transfer = False\<rparr>"

record ('d, 'c) transfer =
  tr_id :: transfer_id
  debit_account_id :: account_id
  credit_account_id :: account_id
  tr_amount :: "('d, 'c) amount"
  tr_ledger_id :: ledger_id
  tr_code :: u16
  tr_flags :: transfer_flags
  pending_id :: "transfer_id option"
  tr_timestamp :: timestamp

definition transfer_validate :: "('d, 'c) externs \<Rightarrow> ('d, 'c) transfer \<Rightarrow> unit blazer_result" where
  "transfer_validate X self =
     (if uuid_is_nil (as_uuid (tr_id self))
      then Inl (ValidationError ''transfer id must not be the nil UUID'')
      else if debit_account_id self = credit_account_id self
      then Inl (ValidationError ''debit and credit accounts must be different (no self-transfers)'')
      else if d_is_zero X (amt_value (tr_amount self))
      then Inl (ValidationError ''transfer amount must be greater than zero'')
      else if d_scale X (amt_value (tr_amount self)) > 8
      then Inl (InvalidAmountScale (d_scale X (amt_value (tr_amount self))))
      else Inr ())"

definition transfer_new_with_flags ::
  "('d, 'c) externs \<Rightarrow> timestamp \<Rightarrow> transfer_id \<Rightarrow> account_id \<Rightarrow> account_id \<Rightarrow> ('d, 'c) amount \<Rightarrow>
   ledger_id \<Rightarrow> u16 \<Rightarrow> transfer_flags \<Rightarrow> transfer_id option \<Rightarrow> ('d, 'c) transfer blazer_result" where
  "transfer_new_with_flags X now i debit credit amount ledger code flags pending =
     (let transfer = \<lparr>tr_id = i, debit_account_id = debit, credit_account_id = credit,
                      tr_amount = amount, tr_ledger_id = ledger, tr_code = code, tr_flags = flags,
                      pending_id = pending, tr_timestamp = now\<rparr>
      in and_then (transfer_validate X transfer) (\<lambda>_. Inr transfer))"

definition transfer_new ::
  "('d, 'c) externs \<Rightarrow> timestamp \<Rightarrow> transfer_id \<Rightarrow> account_id \<Rightarrow> account_id \<Rightarrow> ('d, 'c) amount \<Rightarrow>
   ledger_id \<Rightarrow> u16 \<Rightarrow> ('d, 'c) transfer blazer_result" where
  "transfer_new X now i debit credit amount ledger code =
     (let transfer = \<lparr>tr_id = i, debit_account_id = debit, credit_account_id = credit,
                      tr_amount = amount, tr_ledger_id = ledger, tr_code = code,
                      tr_flags = transfer_flags_default, pending_id = None, tr_timestamp = now\<rparr>
      in and_then (transfer_validate X transfer) (\<lambda>_. Inr transfer))"

definition transfer_from_ledger ::
  "timestamp \<Rightarrow> transfer_id \<Rightarrow> account_id \<Rightarrow> account_id \<Rightarrow> ('d, 'c) amount \<Rightarrow> ledger_id \<Rightarrow> u16 \<Rightarrow>
   transfer_flags \<Rightarrow> ('d, 'c) transfer" where
  "transfer_from_ledger now i debit credit amount ledger code flags =
     \<lparr>tr_id = i, debit_account_id = debit, credit_account_id = credit, tr_amount = amount,
      tr_ledger_id = ledger, tr_code = code, tr_flags = flags, pending_id = None,
      tr_timestamp = now\<rparr>"

section \<open>Double-entry rules (double\_entry.rs)\<close>

definition validate_transfer ::
  "('d, 'c) externs \<Rightarrow> ('d, 'c) transfer \<Rightarrow> ('d, 'c) account \<Rightarrow> ('d, 'c) account \<Rightarrow>
   unit blazer_result" where
  "validate_transfer X transfer debit_account credit_account =
     (let amount = tr_amount transfer
      in if debit_account_id transfer = credit_account_id transfer
         then Inl (ValidationError ''self-transfer not allowed'')
         else if d_is_zero X (amt_value amount) then Inl (ValidationError ''zero amount transfer'')
         else if amt_currency amount \<noteq> acct_currency debit_account
         then Inl (CurrencyMismatch (c_code X (acct_currency debit_account))
                     (c_code X (amt_currency amount)))
         else if amt_currency amount \<noteq> acct_currency credit_account
         then Inl (CurrencyMismatch (c_code X (acct_currency credit_account))
                     (c_code X (amt_currency amount)))
         else if \<not> can_debit X debit_account amount
         then Inl (InsufficientFunds
                     (case balance X debit_account of
                        Inr b \<Rightarrow> d_show X (amt_value b) | Inl _ \<Rightarrow> ''0'')
                     (d_show X (amt_value amount)))
         else Inr ())"

definition validate_account :: "('d, 'c) account \<Rightarrow> unit blazer_result" where
  "validate_account account = account_validate account"

section \<open>Counters (metrics.rs)\<close>

record ledger_metrics =
  accounts_created_total :: u64
  accounts_created_errors :: u64
  account_lookups_total :: u64
  account_lookups_errors :: u64
  transfers_created_total :: u64
  transfers_created_errors :: u64
  transfers_batch_total :: u64
  transfers_batch_partial_failures :: u64
  transfers_batch_transport_errors :: u64
  transfer_lookups_total :: u64
  transfer_lookups_errors :: u64
  batch_account_lookups_total :: u64
  batch_account_lookups_errors :: u64

definition ledger_metrics_new :: ledger_metrics where
  "ledger_metrics_new =
     \<lparr>accounts_created_total = 0, accounts_created_errors = 0, account_lookups_total = 0,
      account_lookups_errors = 0, transfers_created_total = 0, transfers_created_errors = 0,
      transfers_batch_total = 0, transfers_batch_partial_failures = 0,
      transfers_batch_transport_errors = 0, transfer_lookups_total = 0,
      transfer_lookups_errors = 0, batch_account_lookups_total = 0,
      batch_account_lookups_errors = 0\<rparr>"

definition inc_accounts_created :: "ledger_metrics \<Rightarrow> ledger_metrics" where
  "inc_accounts_created m = m\<lparr>accounts_created_total := accounts_created_total m + 1\<rparr>"

definition inc_accounts_created_errors :: "ledger_metrics \<Rightarrow> ledger_metrics" where
  "inc_accounts_created_errors m = m\<lparr>accounts_created_errors := accounts_created_errors m + 1\<rparr>"

definition inc_account_lookups :: "ledger_metrics \<Rightarrow> ledger_metrics" where
  "inc_account_lookups m = m\<lparr>account_lookups_total := account_lookups_total m + 1\<rparr>"

definition inc_account_lookups_errors :: "ledger_metrics \<Rightarrow> ledger_metrics" where
  "inc_account_lookups_errors m = m\<lparr>account_lookups_errors := account_lookups_errors m + 1\<rparr>"

definition inc_transfers_created :: "ledger_metrics \<Rightarrow> ledger_metrics" where
  "inc_transfers_created m = m\<lparr>transfers_created_total := transfers_created_total m + 1\<rparr>"

definition inc_transfers_created_errors :: "ledger_metrics \<Rightarrow> ledger_metrics" where
  "inc_transfers_created_errors m = m\<lparr>transfers_created_errors := transfers_created_errors m + 1\<rparr>"

definition inc_transfers_batch :: "u64 \<Rightarrow> ledger_metrics \<Rightarrow> ledger_metrics" where
  "inc_transfers_batch count m = m\<lparr>transfers_batch_total := transfers_batch_total m + count\<rparr>"

definition inc_transfers_batch_partial_failures :: "ledger_metrics \<Rightarrow> ledger_metrics" where
  "inc_transfers_batch_partial_failures m =
     m\<lparr>transfers_batch_partial_failures := transfers_batch_partial_failures m + 1\<rparr>"

definition inc_transfers_batch_transport_errors :: "ledger_metrics \<Rightarrow> ledger_metrics" where
  "inc_transfers_batch_transport_errors m =
     m\<lparr>transfers_batch_transport_errors := transfers_batch_transport_errors m + 1\<rparr>"

definition inc_transfer_lookups :: "ledger_metrics \<Rightarrow> ledger_metrics" where
  "inc_transfer_lookups m = m\<lparr>transfer_lookups_total := transfer_lookups_total m + 1\<rparr>"

definition inc_transfer_lookups_errors :: "ledger_metrics \<Rightarrow> ledger_metrics" where
  "inc_transfer_lookups_errors m = m\<lparr>transfer_lookups_errors := transfer_lookups_errors m + 1\<rparr>"

definition inc_batch_account_lookups :: "u64 \<Rightarrow> ledger_metrics \<Rightarrow> ledger_metrics" where
  "inc_batch_account_lookups count m =
     m\<lparr>batch_account_lookups_total := batch_account_lookups_total m + count\<rparr>"

definition inc_batch_account_lookups_errors :: "ledger_metrics \<Rightarrow> ledger_metrics" where
  "inc_batch_account_lookups_errors m =
     m\<lparr>batch_account_lookups_errors := batch_account_lookups_errors m + 1\<rparr>"

definition snapshot :: "ledger_metrics \<Rightarrow> (string \<times> u64) list" where
  "snapshot m =
     [(''accounts_created_total'', accounts_created_total m),
      (''accounts_created_errors'', accounts_created_errors m),
      (''account_lookups_total'', account_lookups_total m),
      (''account_lookups_errors'', account_lookups_errors m),
      (''transfers_created_total'', transfers_created_total m),
      (''transfers_created_errors'', transfers_created_errors m),
      (''transfers_batch_total'', transfers_batch_total m),
      (''transfers_batch_partial_failures'', transfers_batch_partial_failures m),
      (''transfers_batch_transport_errors'', transfers_batch_transport_errors m),
      (''transfer_lookups_total'', transfer_lookups_total m),
      (''transfer_lookups_errors'', transfer_lookups_errors m),
      (''batch_account_lookups_total'', batch_account_lookups_total m),
      (''batch_account_lookups_errors'', batch_account_lookups_errors m)]"

end
