(* ===== verification/Blz_InMemory.thy ===== *)
theory Blz_InMemory
  imports Blz_Ledger
begin

text \<open>
  \<^verbatim>\<open>core/ledger/src/client.rs\<close> and \<^verbatim>\<open>mock.rs\<close>: the \<^verbatim>\<open>LedgerClient\<close> interface, its in-memory
  implementation and the fault-injecting wrapper. The two hash maps behind their locks are the
  maps of a record. An operation takes the state and returns the new state with its result; a
  call holds the lock of the account map for its whole effect, so calls are atomic steps.
\<close>

section \<open>The interface (client.rs)\<close>

text \<open>
  The default body of \<^verbatim>\<open>create_transfers_batch\<close> runs \<^verbatim>\<open>create_transfer\<close> on each element in
  order.
\<close>

fun create_transfers_batch_default ::
  "('s \<Rightarrow> 't \<Rightarrow> 's \<times> 'r) \<Rightarrow> 's \<Rightarrow> 't list \<Rightarrow> 's \<times> 'r list" where
  "create_transfers_batch_default create s [] = (s, [])"
| "create_transfers_batch_default create s (t # ts) =
     (let (s1, r) = create s t; (s2, rs) = create_transfers_batch_default create s1 ts
      in (s2, r # rs))"

text \<open>
  What a client of the interface relies on: a batch returns one result per transfer, in the
  order of the input, and a success carries the id of its own transfer.
\<close>

locale ledger_client =
  fixes batch :: "'s \<Rightarrow> ('d, 'c) transfer list \<Rightarrow> 's \<times> transfer_id blazer_result list"
  assumes batch_length: "length (snd (batch s ts)) = length ts"
    and batch_ids: "i < length ts \<Longrightarrow> snd (batch s ts) ! i = Inr t \<Longrightarrow> t = tr_id (ts ! i)"
begin

lemma batch_nth_cases:
  assumes "i < length ts"
  obtains (ok) "snd (batch s ts) ! i = Inr (tr_id (ts ! i))"
  | (err) e where "snd (batch s ts) ! i = Inl e"
  using batch_ids [OF assms] by (cases "snd (batch s ts) ! i") auto

lemma batch_results_zip:
  "list_all2 (\<lambda>t r. is_err r \<or> r = Inr (tr_id t)) ts (snd (batch s ts))"
proof (rule list_all2_all_nthI)
  show "length ts = length (snd (batch s ts))" by (simp add: batch_length)
next
  fix i
  assume "i < length ts"
  then show "is_err (snd (batch s ts) ! i) \<or> snd (batch s ts) ! i = Inr (tr_id (ts ! i))"
    by (cases rule: batch_nth_cases [where s = s]) auto
qed

end

section \<open>The in-memory ledger (mock.rs)\<close>

record ('d, 'c) in_memory =
  im_accounts :: "account_id \<rightharpoonup> ('d, 'c) account"
  im_transfers :: "transfer_id \<rightharpoonup> ('d, 'c) transfer"
  im_unbounded :: bool
  im_metrics :: ledger_metrics

definition in_memory_new :: "('d, 'c) in_memory" where
  "in_memory_new =
     \<lparr>im_accounts = Map.empty, im_transfers = Map.empty, im_unbounded = False,
      im_metrics = ledger_metrics_new\<rparr>"

definition in_memory_new_unbounded :: "('d, 'c) in_memory" where
  "in_memory_new_unbounded =
     \<lparr>im_accounts = Map.empty, im_transfers = Map.empty, im_unbounded = True,
      im_metrics = ledger_metrics_new\<rparr>"

definition account_count :: "('d, 'c) in_memory \<Rightarrow> nat" where
  "account_count L = card (dom (im_accounts L))"

definition transfer_count :: "('d, 'c) in_memory \<Rightarrow> nat" where
  "transfer_count L = card (dom (im_transfers L))"

definition im_count :: "(ledger_metrics \<Rightarrow> ledger_metrics) \<Rightarrow> ('d, 'c) in_memory \<Rightarrow> ('d, 'c) in_memory" where
  "im_count f L = L\<lparr>im_metrics := f (im_metrics L)\<rparr>"

definition im_create_account ::
  "('d, 'c) in_memory \<Rightarrow> ('d, 'c) account \<Rightarrow> ('d, 'c) in_memory \<times> account_id blazer_result" where
  "im_create_account L account =
     (let i = acct_id account
      in if i \<in> dom (im_accounts L)
         then (im_count inc_accounts_created_errors L, Inl (Duplicate ''Account'' (id64_display i)))
         else (im_count inc_accounts_created (L\<lparr>im_accounts := (im_accounts L)(i \<mapsto> account)\<rparr>), Inr i))"

definition im_create_transfer ::
  "('d, 'c) externs \<Rightarrow> ('d, 'c) in_memory \<Rightarrow> ('d, 'c) transfer \<Rightarrow>
   ('d, 'c) in_memory \<times> transfer_id blazer_result" where
  "im_create_transfer X L transfer =
     (let transfer_id = tr_id transfer; debit_id = debit_account_id transfer;
          credit_id = credit_account_id transfer; amount = tr_amount transfer
      in if im_unbounded L then (im_count inc_transfers_created L, Inr transfer_id)
         else case im_accounts L debit_id of
           None \<Rightarrow> (L, Inl (NotFound ''Account'' (id64_display debit_id)))
         | Some debit_account \<Rightarrow>
         (case im_accounts L credit_id of
           None \<Rightarrow> (L, Inl (NotFound ''Account'' (id64_display credit_id)))
         | Some credit_account \<Rightarrow>
         (case validate_transfer X transfer debit_account credit_account of
           Inl e \<Rightarrow> (im_count inc_transfers_created_errors L, Inl e)
         | Inr _ \<Rightarrow>
         (case im_accounts L debit_id of
           None \<Rightarrow> (L, Inl (Internal ''debit account vanished under lock''))
         | Some da \<Rightarrow>
         (case apply_debit X da amount of
           Inl e \<Rightarrow> (im_count inc_transfers_created_errors L, Inl e)
         | Inr da' \<Rightarrow>
         (let L1 = L\<lparr>im_accounts := (im_accounts L)(debit_id \<mapsto> da')\<rparr>
          in case im_accounts L1 credit_id of
           None \<Rightarrow> (L1, Inl (Internal ''credit account vanished under lock''))
         | Some ca \<Rightarrow>
         (case apply_credit X ca amount of
           Inl e \<Rightarrow> (im_count inc_transfers_created_errors L1, Inl e)
         | Inr ca' \<Rightarrow>
             (im_count inc_transfers_created
                (L1\<lparr>im_accounts := (im_accounts L1)(credit_id \<mapsto> ca'),
                    im_transfers := (im_transfers L1)(transfer_id \<mapsto> transfer)\<rparr>),
              Inr transfer_id))))))))"

definition im_get_account ::
  "('d, 'c) in_memory \<Rightarrow> account_id \<Rightarrow> ('d, 'c) in_memory \<times> ('d, 'c) account blazer_result" where
  "im_get_account L i =
     (let r = ok_or (NotFound ''Account'' (id64_display i)) (im_accounts L i);
          L1 = im_count inc_account_lookups L
      in (if is_err r then im_count inc_account_lookups_errors L1 else L1, r))"

definition im_get_transfer ::
  "('d, 'c) externs \<Rightarrow> ('d, 'c) in_memory \<Rightarrow> transfer_id \<Rightarrow>
   ('d, 'c) in_memory \<times> ('d, 'c) transfer blazer_result" where
  "im_get_transfer X L i =
     (let r = ok_or (NotFound ''Transfer'' (u_show X (as_uuid i))) (im_transfers L i);
          L1 = im_count inc_transfer_lookups L
      in (if is_err r then im_count inc_transfer_lookups_errors L1 else L1, r))"

definition im_get_account_balances ::
  "('d, 'c) in_memory \<Rightarrow> account_id list \<Rightarrow> ('d, 'c) in_memory \<times> ('d, 'c) account list blazer_result" where
  "im_get_account_balances L ids =
     (im_count (inc_batch_account_lookups (word_of_nat (length ids))) L,
      Inr (List.map_filter (im_accounts L) ids))"

definition im_batch ::
  "('d, 'c) externs \<Rightarrow> ('d, 'c) in_memory \<Rightarrow> ('d, 'c) transfer list \<Rightarrow>
   ('d, 'c) in_memory \<times> transfer_id blazer_result list" where
  "im_batch X = create_transfers_batch_default (im_create_transfer X)"

section \<open>The fault-injecting wrapper (mock.rs)\<close>

record 's fault_injecting =
  fi_inner :: 's
  remaining_faults :: u32

definition fault_injecting_new :: "'s \<Rightarrow> u32 \<Rightarrow> 's fault_injecting" where
  "fault_injecting_new inner fault_count = \<lparr>fi_inner = inner, remaining_faults = fault_count\<rparr>"

definition fi_create_transfer ::
  "('s \<Rightarrow> 't \<Rightarrow> 's \<times> 'r) \<Rightarrow> 's fault_injecting \<Rightarrow> 't \<Rightarrow> 's fault_injecting \<times> 'r" where
  "fi_create_transfer inner_create F t =
     (let (s, r) = inner_create (fi_inner F) t in (F\<lparr>fi_inner := s\<rparr>, r))"

definition fi_create_account ::
  "('s \<Rightarrow> 'a \<Rightarrow> 's \<times> 'r) \<Rightarrow> 's fault_injecting \<Rightarrow> 'a \<Rightarrow> 's fault_injecting \<times> 'r" where
  "fi_create_account inner_create F a =
     (let (s, r) = inner_create (fi_inner F) a in (F\<lparr>fi_inner := s\<rparr>, r))"

definition fi_get_account ::
  "('s \<Rightarrow> 'i \<Rightarrow> 's \<times> 'r) \<Rightarrow> 's fault_injecting \<Rightarrow> 'i \<Rightarrow> 's fault_injecting \<times> 'r" where
  "fi_get_account inner_get F i =
     (let (s, r) = inner_get (fi_inner F) i in (F\<lparr>fi_inner := s\<rparr>, r))"

definition fi_get_transfer ::
  "('s \<Rightarrow> 'i \<Rightarrow> 's \<times> 'r) \<Rightarrow> 's fault_injecting \<Rightarrow> 'i \<Rightarrow> 's fault_injecting \<times> 'r" where
  "fi_get_transfer inner_get F i =
     (let (s, r) = inner_get (fi_inner F) i in (F\<lparr>fi_inner := s\<rparr>, r))"

definition fi_get_account_balances ::
  "('s \<Rightarrow> 'i list \<Rightarrow> 's \<times> 'r) \<Rightarrow> 's fault_injecting \<Rightarrow> 'i list \<Rightarrow> 's fault_injecting \<times> 'r" where
  "fi_get_account_balances inner_get F is =
     (let (s, r) = inner_get (fi_inner F) is in (F\<lparr>fi_inner := s\<rparr>, r))"

definition fi_batch ::
  "('s \<Rightarrow> ('d, 'c) transfer list \<Rightarrow> 's \<times> transfer_id blazer_result list) \<Rightarrow>
   's fault_injecting \<Rightarrow> ('d, 'c) transfer list \<Rightarrow>
   's fault_injecting \<times> transfer_id blazer_result list" where
  "fi_batch inner_batch F ts =
     (if 0 < remaining_faults F
      then (F\<lparr>remaining_faults := remaining_faults F - 1\<rparr>,
            map (\<lambda>_. Inl (LedgerTransient ''injected transient fault for testing'')) ts)
      else (let (s, rs) = inner_batch (fi_inner F) ts in (F\<lparr>fi_inner := s\<rparr>, rs)))"

section \<open>Lemmas: the interface holds\<close>

lemma batch_default_length:
  "length (snd (create_transfers_batch_default create s ts)) = length ts"
  by (induction ts arbitrary: s) (auto simp: split_beta Let_def)

lemma batch_default_ids:
  assumes "\<And>s t r. snd (create s t) = Inr r \<Longrightarrow> r = f t"
  shows "i < length ts \<Longrightarrow> snd (create_transfers_batch_default create s ts) ! i = Inr r \<Longrightarrow> r = f (ts ! i)"
proof (induction ts arbitrary: s i)
  case (Cons t ts)
  then show ?case
    by (cases i) (auto simp: split_beta Let_def intro: assms)
qed simp

lemma im_create_transfer_id: "snd (im_create_transfer X L t) = Inr r \<Longrightarrow> r = tr_id t"
  by (auto simp: im_create_transfer_def Let_def split: if_splits option.splits sum.splits)

interpretation im: ledger_client "im_batch X" for X
proof
  show "length (snd (im_batch X s ts)) = length ts" for s ts
    by (simp add: im_batch_def batch_default_length)
  show "t = tr_id (ts ! i)" if "i < length ts" "snd (im_batch X s ts) ! i = Inr t" for i ts s t
    using batch_default_ids [OF im_create_transfer_id that [unfolded im_batch_def]] .
qed

context ledger_client
begin

lemma fi_ledger_client: "ledger_client (fi_batch batch)"
proof
  show "length (snd (fi_batch batch s ts)) = length ts" for s ts
    by (simp add: fi_batch_def split_beta Let_def batch_length)
  show "t = tr_id (ts ! i)" if "i < length ts" "snd (fi_batch batch s ts) ! i = Inr t" for i ts s t
    using that batch_ids [of i ts "fi_inner s" t]
    by (auto simp: fi_batch_def split_beta Let_def split: if_splits)
qed

end

interpretation fi: ledger_client "fi_batch (im_batch X)" for X
  by (rule im.fi_ledger_client)

section \<open>Lemmas: double entry is conserved\<close>

text \<open>
  \<open>acct_ok X val B a\<close>: the postings of an account are well-formed amounts of its currency, no
  larger than \<open>B\<close>, and an account that must not be overdrawn is not. \<open>ledger_inv\<close> adds that in
  every currency the debits posted over all accounts equal the credits posted.
\<close>

definition acct_ok :: "('d, 'c) externs \<Rightarrow> ('d \<Rightarrow> rat) \<Rightarrow> rat \<Rightarrow> ('d, 'c) account \<Rightarrow> bool" where
  "acct_ok X val B a \<longleftrightarrow>
     amt_currency (debits_posted a) = acct_currency a \<and>
     amt_currency (credits_posted a) = acct_currency a \<and>
     amount_ok X val (debits_posted a) \<and> amount_ok X val (credits_posted a) \<and>
     val (amt_value (debits_posted a)) \<le> B \<and> val (amt_value (credits_posted a)) \<le> B \<and>
     (debits_must_not_exceed_credits (acct_flags a) \<longrightarrow>
        val (amt_value (debits_posted a)) \<le> val (amt_value (credits_posted a)))"

definition acct_sum :: "('a \<Rightarrow> rat) \<Rightarrow> ('i \<rightharpoonup> 'a) \<Rightarrow> rat" where
  "acct_sum f m = (\<Sum>i\<in>dom m. f (the (m i)))"

definition debits_in :: "('d \<Rightarrow> rat) \<Rightarrow> 'c \<Rightarrow> ('d, 'c) account \<Rightarrow> rat" where
  "debits_in val c a = (if acct_currency a = c then val (amt_value (debits_posted a)) else 0)"

definition credits_in :: "('d \<Rightarrow> rat) \<Rightarrow> 'c \<Rightarrow> ('d, 'c) account \<Rightarrow> rat" where
  "credits_in val c a = (if acct_currency a = c then val (amt_value (credits_posted a)) else 0)"

definition ledger_inv :: "('d, 'c) externs \<Rightarrow> ('d \<Rightarrow> rat) \<Rightarrow> rat \<Rightarrow> ('d, 'c) in_memory \<Rightarrow> bool" where
  "ledger_inv X val B L \<longleftrightarrow>
     finite (dom (im_accounts L)) \<and> (\<forall>i a. im_accounts L i = Some a \<longrightarrow> acct_ok X val B a) \<and>
     (\<forall>c. acct_sum (debits_in val c) (im_accounts L) = acct_sum (credits_in val c) (im_accounts L))"

lemma acct_sum_upd:
  assumes "finite (dom m)" "m i = Some a"
  shows "acct_sum f (m(i \<mapsto> a')) = acct_sum f m - f a + f a'"
proof -
  have i: "i \<in> dom m" using assms(2) by blast
  then have d: "dom (m(i \<mapsto> a')) = dom m" by auto
  have "(\<Sum>j\<in>dom m - {i}. f (the ((m(i \<mapsto> a')) j))) = (\<Sum>j\<in>dom m - {i}. f (the (m j)))"
    by (rule sum.cong) auto
  then show ?thesis
    unfolding acct_sum_def d using assms i by (simp add: sum.remove [OF assms(1) i])
qed

lemma acct_sum_new:
  "finite (dom m) \<Longrightarrow> m i = None \<Longrightarrow> acct_sum f (m(i \<mapsto> a)) = acct_sum f m + f a"
proof -
  assume a: "finite (dom m)" "m i = None"
  then have "i \<notin> dom m" by auto
  moreover have "(\<Sum>j\<in>dom m. f (the ((m(i \<mapsto> a)) j))) = (\<Sum>j\<in>dom m. f (the (m j)))"
    using a by (intro sum.cong) auto
  ultimately show ?thesis using a(1) by (simp add: acct_sum_def)
qed

lemma acct_ok_mono: "acct_ok X val B a \<Longrightarrow> B \<le> B' \<Longrightarrow> acct_ok X val B' a"
  by (auto simp: acct_ok_def)

lemma ledger_inv_mono: "ledger_inv X val B L \<Longrightarrow> B \<le> B' \<Longrightarrow> ledger_inv X val B' L"
  by (auto simp: ledger_inv_def intro: acct_ok_mono)

lemma ledger_inv_accounts:
  "im_accounts L' = im_accounts L \<Longrightarrow> ledger_inv X val B L' = ledger_inv X val B L"
  by (simp add: ledger_inv_def)

lemma im_count_accounts [simp]: "im_accounts (im_count f L) = im_accounts L"
  by (simp add: im_count_def)

lemma can_debit_covers:
  assumes X: "dec_order X val" "dec_arith X val" and a: "acct_ok X val B a"
    and small: "B * 10 ^ 8 < 2 ^ 96"
    and flag: "debits_must_not_exceed_credits (acct_flags a)" and can: "can_debit X a m"
  shows "val (amt_value (debits_posted a)) + val (amt_value m) \<le> val (amt_value (credits_posted a))"
proof -
  have le: "val (amt_value (debits_posted a)) \<le> val (amt_value (credits_posted a))"
    using a flag by (simp add: acct_ok_def)
  have "val (amt_value (credits_posted a)) * 10 ^ 8 \<le> B * 10 ^ 8"
    using a by (intro mult_right_mono) (auto simp: acct_ok_def)
  then have "val (amt_value (credits_posted a)) * 10 ^ 8 < 2 ^ 96" using small by linarith
  moreover have "amount_ok X val (credits_posted a)" "amount_ok X val (debits_posted a)"
    "amt_currency (credits_posted a) = amt_currency (debits_posted a)"
    using a by (auto simp: acct_ok_def)
  ultimately obtain b where "amount_checked_sub X (credits_posted a) (debits_posted a) = Inr b"
    "val (amt_value b) = val (amt_value (credits_posted a)) - val (amt_value (debits_posted a))"
    using amount_sub_small [OF X] le by metis
  then show ?thesis
    using can flag X(1) by (simp add: can_debit_def balance_def dec_order_def not_less)
qed

lemma apply_small:
  assumes X: "dec_order X val" "dec_arith X val" and a: "acct_ok X val B a" and m: "amount_ok X val m"
    and cur: "amt_currency m = acct_currency a"
    and small: "(B + val (amt_value m)) * 10 ^ 8 < 2 ^ 96"
  shows "\<exists>v. apply_debit X a m = Inr (a\<lparr>debits_posted := v\<rparr>) \<and> amount_ok X val v \<and>
           amt_currency v = acct_currency a \<and>
           val (amt_value v) = val (amt_value (debits_posted a)) + val (amt_value m)"
    and "\<exists>v. apply_credit X a m = Inr (a\<lparr>credits_posted := v\<rparr>) \<and> amount_ok X val v \<and>
           amt_currency v = acct_currency a \<and>
           val (amt_value v) = val (amt_value (credits_posted a)) + val (amt_value m)"
proof -
  have sum_small: "(val (amt_value p) + val (amt_value m)) * 10 ^ 8 < 2 ^ 96"
    if "val (amt_value p) \<le> B" for p :: "('a, 'b) amount"
  proof -
    have "(val (amt_value p) + val (amt_value m)) * 10 ^ 8 \<le> (B + val (amt_value m)) * 10 ^ 8"
      using that by (intro mult_right_mono) auto
    then show ?thesis using small by linarith
  qed
  note ok = a [unfolded acct_ok_def]
  obtain v where "amount_checked_add X (debits_posted a) m = Inr v" "amount_ok X val v"
    "amt_currency v = amt_currency (debits_posted a)"
    "val (amt_value v) = val (amt_value (debits_posted a)) + val (amt_value m)"
    by (rule amount_add_small [OF X, of "debits_posted a" m]) (use ok m cur sum_small in auto)
  then show "\<exists>v. apply_debit X a m = Inr (a\<lparr>debits_posted := v\<rparr>) \<and> amount_ok X val v \<and>
           amt_currency v = acct_currency a \<and>
           val (amt_value v) = val (amt_value (debits_posted a)) + val (amt_value m)"
    using ok by (auto simp: apply_debit_def)
  obtain v where "amount_checked_add X (credits_posted a) m = Inr v" "amount_ok X val v"
    "amt_currency v = amt_currency (credits_posted a)"
    "val (amt_value v) = val (amt_value (credits_posted a)) + val (amt_value m)"
    by (rule amount_add_small [OF X, of "credits_posted a" m]) (use ok m cur sum_small in auto)
  then show "\<exists>v. apply_credit X a m = Inr (a\<lparr>credits_posted := v\<rparr>) \<and> amount_ok X val v \<and>
           amt_currency v = acct_currency a \<and>
           val (amt_value v) = val (amt_value (credits_posted a)) + val (amt_value m)"
    using ok by (auto simp: apply_credit_def)
qed

lemma validate_transfer_ok:
  assumes "validate_transfer X t da ca = Inr u"
  shows "debit_account_id t \<noteq> credit_account_id t" "amt_currency (tr_amount t) = acct_currency da"
    "amt_currency (tr_amount t) = acct_currency ca" "can_debit X da (tr_amount t)"
  using assms by (auto simp: validate_transfer_def Let_def split: if_splits)

text \<open>
  Below the headroom bound a transfer either leaves the accounts as they were or posts the same
  amount to the debits of one account and the credits of another.
\<close>

lemma im_create_transfer_cases:
  assumes X: "dec_order X val" "dec_arith X val" and inv: "ledger_inv X val B L"
    and m: "amount_ok X val (tr_amount t)"
    and small: "(B + val (amt_value (tr_amount t))) * 10 ^ 8 < 2 ^ 96"
  obtains (same) "im_accounts (fst (im_create_transfer X L t)) = im_accounts L"
      "im_transfers (fst (im_create_transfer X L t)) = im_transfers L"
      "im_unbounded L \<or> is_err (snd (im_create_transfer X L t))"
  | (posted) da ca v w where
      "im_accounts L (debit_account_id t) = Some da" "im_accounts L (credit_account_id t) = Some ca"
      "debit_account_id t \<noteq> credit_account_id t"
      "acct_currency da = amt_currency (tr_amount t)" "acct_currency ca = amt_currency (tr_amount t)"
      "can_debit X da (tr_amount t)"
      "amount_ok X val v" "amt_currency v = acct_currency da"
      "val (amt_value v) = val (amt_value (debits_posted da)) + val (amt_value (tr_amount t))"
      "amount_ok X val w" "amt_currency w = acct_currency ca"
      "val (amt_value w) = val (amt_value (credits_posted ca)) + val (amt_value (tr_amount t))"
      "im_accounts (fst (im_create_transfer X L t)) =
         (im_accounts L)(debit_account_id t \<mapsto> da\<lparr>debits_posted := v\<rparr>,
                         credit_account_id t \<mapsto> ca\<lparr>credits_posted := w\<rparr>)"
      "snd (im_create_transfer X L t) = Inr (tr_id t)"
proof (cases "im_unbounded L")
  case True
  then show ?thesis by (intro same) (simp_all add: im_create_transfer_def Let_def im_count_def)
next
  case bounded: False
  show ?thesis
  proof (cases "im_accounts L (debit_account_id t)")
    case None
    then show ?thesis using bounded by (intro same) (simp_all add: im_create_transfer_def Let_def)
  next
    case da: (Some da)
    show ?thesis
    proof (cases "im_accounts L (credit_account_id t)")
      case None
      then show ?thesis
        using bounded da by (intro same) (simp_all add: im_create_transfer_def Let_def)
    next
      case ca: (Some ca)
      show ?thesis
      proof (cases "validate_transfer X t da ca")
        case (Inl e)
        then show ?thesis
          using bounded da ca
          by (intro same) (simp_all add: im_create_transfer_def Let_def im_count_def)
      next
        case (Inr u)
        note val = validate_transfer_ok [OF Inr]
        have oks: "acct_ok X val B da" "acct_ok X val B ca"
          using inv da ca by (auto simp: ledger_inv_def)
        obtain v where v: "apply_debit X da (tr_amount t) = Inr (da\<lparr>debits_posted := v\<rparr>)"
          "amount_ok X val v" "amt_currency v = acct_currency da"
          "val (amt_value v) = val (amt_value (debits_posted da)) + val (amt_value (tr_amount t))"
          using apply_small(1) [OF X oks(1) m val(2) small] by blast
        obtain w where w: "apply_credit X ca (tr_amount t) = Inr (ca\<lparr>credits_posted := w\<rparr>)"
          "amount_ok X val w" "amt_currency w = acct_currency ca"
          "val (amt_value w) = val (amt_value (credits_posted ca)) + val (amt_value (tr_amount t))"
          using apply_small(2) [OF X oks(2) m val(3) small] by blast
        show ?thesis
          by (rule posted [OF da ca val(1) val(2,3) [symmetric] val(4) v(2-4) w(2-4)])
             (use bounded da ca Inr v(1) w(1) val(1) in \<open>simp_all add: im_create_transfer_def Let_def\<close>)
      qed
    qed
  qed
qed

lemma im_create_transfer_inv:
  assumes X: "dec_order X val" "dec_arith X val" and inv: "ledger_inv X val B L"
    and m: "amount_ok X val (tr_amount t)"
    and small: "(B + val (amt_value (tr_amount t))) * 10 ^ 8 < 2 ^ 96"
  shows "ledger_inv X val (B + val (amt_value (tr_amount t))) (fst (im_create_transfer X L t))"
  using X inv m small
proof (cases rule: im_create_transfer_cases)
  case same
  moreover have "0 \<le> val (amt_value (tr_amount t))" using m by (simp add: amount_ok_def)
  ultimately show ?thesis
    using ledger_inv_accounts [OF same(1)] ledger_inv_mono [OF inv] by simp
next
  case (posted da ca v w)
  let ?m = "val (amt_value (tr_amount t))"
  let ?da = "da\<lparr>debits_posted := v\<rparr>" and ?ca = "ca\<lparr>credits_posted := w\<rparr>"
  let ?d = "debit_account_id t" and ?c = "credit_account_id t"
  have m0: "0 \<le> ?m" using m by (simp add: amount_ok_def)
  have fin: "finite (dom (im_accounts L))" and oks: "acct_ok X val B da" "acct_ok X val B ca"
    using inv posted by (auto simp: ledger_inv_def)
  have "(0 :: rat) \<le> ?m * 10 ^ 8" using m0 by simp
  then have "B * 10 ^ 8 < 2 ^ 96" using small by (simp add: distrib_right)
  then have da_ok: "acct_ok X val (B + ?m) ?da"
    using oks(1) posted m0 can_debit_covers [OF X oks(1), of "tr_amount t"]
    by (auto simp: acct_ok_def)
  have ca_ok: "acct_ok X val (B + ?m) ?ca"
    using oks(2) posted m0 by (auto simp: acct_ok_def)
  have sum: "acct_sum f ((im_accounts L)(?d \<mapsto> ?da, ?c \<mapsto> ?ca)) =
      acct_sum f (im_accounts L) - f da + f ?da - f ca + f ?ca" for f
    using posted(1-3) fin acct_sum_upd [of "(im_accounts L)(?d \<mapsto> ?da)" ?c ca f ?ca]
      acct_sum_upd [OF fin posted(1), of f ?da] by simp
  have bal: "acct_sum (debits_in val c) (im_accounts L) = acct_sum (credits_in val c) (im_accounts L)" for c
    using inv by (simp add: ledger_inv_def)
  have ok': "acct_ok X val (B + ?m) a"
    if "((im_accounts L)(?d \<mapsto> ?da, ?c \<mapsto> ?ca)) i = Some a" for i a
  proof -
    have "acct_ok X val (B + ?m) a" if "im_accounts L i = Some a"
      using that inv m0 by (auto simp: ledger_inv_def intro: acct_ok_mono [of X val B])
    then show ?thesis using that da_ok ca_ok by (auto split: if_splits)
  qed
  have "acct_sum (debits_in val c) ((im_accounts L)(?d \<mapsto> ?da, ?c \<mapsto> ?ca)) =
      acct_sum (credits_in val c) ((im_accounts L)(?d \<mapsto> ?da, ?c \<mapsto> ?ca))" for c
    unfolding sum using posted(4,5,9,12) bal [of c] by (simp add: debits_in_def credits_in_def)
  then show ?thesis using fin ok' unfolding ledger_inv_def posted(13) by auto
qed

lemma im_create_transfer_err:
  assumes "dec_order X val" "dec_arith X val" "ledger_inv X val B L"
    and "amount_ok X val (tr_amount t)" "(B + val (amt_value (tr_amount t))) * 10 ^ 8 < 2 ^ 96"
    and err: "is_err (snd (im_create_transfer X L t))"
  shows "im_accounts (fst (im_create_transfer X L t)) = im_accounts L \<and>
    im_transfers (fst (im_create_transfer X L t)) = im_transfers L"
  using assms(1-5) by (cases rule: im_create_transfer_cases) (use err in auto)

section \<open>Histories of calls\<close>

text \<open>
  A history is any sequence of calls of the client interface. An account handed to
  \<^verbatim>\<open>create_account\<close> comes from \<^verbatim>\<open>Account::new\<close>, the only public constructor, so its postings
  are zero; an amount comes from the constructors of \<^verbatim>\<open>Amount\<close>.
\<close>

datatype ('d, 'c) ledger_op =
    OpCreateAccount "('d, 'c) account"
  | OpCreateTransfer "('d, 'c) transfer"
  | OpCreateBatch "('d, 'c) transfer list"
  | OpGetAccount account_id
  | OpGetTransfer transfer_id
  | OpGetBalances "account_id list"

fun run_op :: "('d, 'c) externs \<Rightarrow> ('d, 'c) in_memory \<Rightarrow> ('d, 'c) ledger_op \<Rightarrow> ('d, 'c) in_memory" where
  "run_op X L (OpCreateAccount a) = fst (im_create_account L a)"
| "run_op X L (OpCreateTransfer t) = fst (im_create_transfer X L t)"
| "run_op X L (OpCreateBatch ts) = fst (im_batch X L ts)"
| "run_op X L (OpGetAccount i) = fst (im_get_account L i)"
| "run_op X L (OpGetTransfer i) = fst (im_get_transfer X L i)"
| "run_op X L (OpGetBalances ids) = fst (im_get_account_balances L ids)"

definition run_ops :: "('d, 'c) externs \<Rightarrow> ('d, 'c) in_memory \<Rightarrow> ('d, 'c) ledger_op list \<Rightarrow> ('d, 'c) in_memory" where
  "run_ops X = foldl (run_op X)"

fun op_transfers :: "('d, 'c) ledger_op \<Rightarrow> ('d, 'c) transfer list" where
  "op_transfers (OpCreateTransfer t) = [t]"
| "op_transfers (OpCreateBatch ts) = ts"
| "op_transfers _ = []"

definition volume :: "('d \<Rightarrow> rat) \<Rightarrow> ('d, 'c) transfer list \<Rightarrow> rat" where
  "volume val ts = sum_list (map (\<lambda>t. val (amt_value (tr_amount t))) ts)"

fun op_ok :: "('d, 'c) externs \<Rightarrow> ('d \<Rightarrow> rat) \<Rightarrow> ('d, 'c) ledger_op \<Rightarrow> bool" where
  "op_ok X val (OpCreateAccount a) \<longleftrightarrow>
     debits_posted a = amount_zero X (acct_currency a) \<and>
     credits_posted a = amount_zero X (acct_currency a)"
| "op_ok X val (OpCreateTransfer t) \<longleftrightarrow> amount_ok X val (tr_amount t)"
| "op_ok X val (OpCreateBatch ts) \<longleftrightarrow> (\<forall>t\<in>set ts. amount_ok X val (tr_amount t))"
| "op_ok X val _ \<longleftrightarrow> True"

lemma volume_simps [simp]:
  "volume val [] = 0" "volume val (t # ts) = val (amt_value (tr_amount t)) + volume val ts"
  "volume val (ts @ us) = volume val ts + volume val us"
  by (simp_all add: volume_def)

lemma volume_nonneg: "\<forall>t\<in>set ts. amount_ok X val (tr_amount t) \<Longrightarrow> 0 \<le> volume val ts"
  by (induction ts) (auto simp: amount_ok_def)

lemma op_ok_transfers: "op_ok X val p \<Longrightarrow> \<forall>t\<in>set (op_transfers p). amount_ok X val (tr_amount t)"
  by (cases p) auto

lemma small_le: "x \<le> y \<Longrightarrow> y * 10 ^ 8 < 2 ^ 96 \<Longrightarrow> x * 10 ^ 8 < (2 ^ 96 :: rat)"
  by (rule le_less_trans [OF mult_right_mono]) auto

lemma im_batch_inv:
  assumes X: "dec_order X val" "dec_arith X val"
  shows "ledger_inv X val B L \<Longrightarrow> \<forall>t\<in>set ts. amount_ok X val (tr_amount t) \<Longrightarrow>
    (B + volume val ts) * 10 ^ 8 < 2 ^ 96 \<Longrightarrow> ledger_inv X val (B + volume val ts) (fst (im_batch X L ts))"
proof (induction ts arbitrary: L B)
  case Nil
  then show ?case by (simp add: im_batch_def)
next
  case (Cons t ts)
  let ?B = "B + val (amt_value (tr_amount t))"
  have "?B \<le> B + volume val (t # ts)" using Cons.prems(2) volume_nonneg [of ts X val] by simp
  then have "?B * 10 ^ 8 < 2 ^ 96" using Cons.prems(3) by (rule small_le)
  then have "ledger_inv X val ?B (fst (im_create_transfer X L t))"
    using im_create_transfer_inv [OF X Cons.prems(1)] Cons.prems(2) by simp
  then have "ledger_inv X val (?B + volume val ts)
      (fst (im_batch X (fst (im_create_transfer X L t)) ts))"
    using Cons.prems by (intro Cons.IH) (auto simp: add.assoc)
  then show ?case by (simp add: im_batch_def split_beta Let_def add.assoc)
qed

lemma run_op_inv:
  assumes X: "dec_order X val" "dec_arith X val" and inv: "ledger_inv X val B L" and B: "0 \<le> B"
    and p: "op_ok X val p" "(B + volume val (op_transfers p)) * 10 ^ 8 < 2 ^ 96"
  shows "ledger_inv X val (B + volume val (op_transfers p)) (run_op X L p)"
proof (cases p)
  case (OpCreateAccount a)
  have "acct_ok X val B a"
    using p(1) B amount_zero_ok [OF X(1), of "acct_currency a"] X(1) OpCreateAccount
    by (auto simp: acct_ok_def amount_zero_def dec_order_def)
  moreover have "debits_in val c a = 0" "credits_in val c a = 0" for c
    using p(1) X(1) OpCreateAccount
    by (auto simp: debits_in_def credits_in_def amount_zero_def dec_order_def)
  ultimately show ?thesis
    using inv OpCreateAccount
    by (auto simp: ledger_inv_def im_create_account_def Let_def acct_sum_new domIff)
next
  case (OpCreateTransfer t)
  then show ?thesis using im_create_transfer_inv [OF X inv] p by simp
next
  case (OpCreateBatch ts)
  then show ?thesis using im_batch_inv [OF X inv] p by simp
qed (use inv in \<open>simp_all add: ledger_inv_def im_get_account_def im_get_transfer_def
       im_get_account_balances_def Let_def\<close>)

lemma run_ops_inv:
  assumes X: "dec_order X val" "dec_arith X val"
  shows "ledger_inv X val B L \<Longrightarrow> 0 \<le> B \<Longrightarrow> \<forall>p\<in>set ops. op_ok X val p \<Longrightarrow>
    (B + volume val (concat (map op_transfers ops))) * 10 ^ 8 < 2 ^ 96 \<Longrightarrow>
    ledger_inv X val (B + volume val (concat (map op_transfers ops))) (run_ops X L ops)"
proof (induction ops arbitrary: L B)
  case Nil
  then show ?case by (simp add: run_ops_def)
next
  case (Cons p ops)
  let ?V = "volume val (op_transfers p)" and ?W = "volume val (concat (map op_transfers ops))"
  have V: "0 \<le> ?V" using op_ok_transfers Cons.prems(3) by (intro volume_nonneg [of _ X]) auto
  have "0 \<le> ?W" using op_ok_transfers Cons.prems(3) by (intro volume_nonneg [of _ X]) fastforce
  then have "(B + ?V) * 10 ^ 8 < 2 ^ 96"
    using Cons.prems(4) by (intro small_le [of "B + ?V" "B + (?V + ?W)"]) auto
  then have "ledger_inv X val (B + ?V) (run_op X L p)"
    using run_op_inv [OF X Cons.prems(1,2)] Cons.prems(3) by simp
  then have "ledger_inv X val (B + ?V + ?W) (run_ops X (run_op X L p) ops)"
    using Cons.prems V by (intro Cons.IH) (auto simp: add.assoc)
  then show ?case by (simp add: run_ops_def add.assoc)
qed

lemma ledger_inv_new: "ledger_inv X val 0 in_memory_new"
  by (simp add: ledger_inv_def in_memory_new_def acct_sum_def)

section \<open>Properties\<close>

definition ex_account :: "u64 \<Rightarrow> bool \<Rightarrow> (refdec, refcur) account" where
  "ex_account n f =
     account_new ref_externs (Timestamp 0) (Id64 n) LedgerId_USD USD 1
       \<lparr>debits_must_not_exceed_credits = f, credits_must_not_exceed_debits = False,
        acct_linked = False\<rparr>"

definition ex_transfer :: "u8 \<Rightarrow> u64 \<Rightarrow> u64 \<Rightarrow> int \<Rightarrow> (refdec, refcur) transfer" where
  "ex_transfer n d c m =
     \<lparr>tr_id = UuidId (replicate 15 0 @ [n]), debit_account_id = Id64 d, credit_account_id = Id64 c,
      tr_amount = \<lparr>amt_value = RD m 2, amt_currency = USD\<rparr>, tr_ledger_id = LedgerId_USD, tr_code = 1,
      tr_flags = transfer_flags_default, pending_id = None, tr_timestamp = Timestamp 0\<rparr>"

lemmas ex_eval =
  ex_account_def ex_transfer_def account_new_def in_memory_new_def im_create_account_def im_count_def
  im_create_transfer_def validate_transfer_def can_debit_def apply_debit_def apply_credit_def
  amount_zero_def amount_checked_add_def rd_add_def rd_mk_def Let_def

definition ex_ops :: "(refdec, refcur) ledger_op list" where
  "ex_ops = [OpCreateAccount (ex_account 1 False), OpCreateAccount (ex_account 2 True),
             OpCreateBatch [ex_transfer 1 1 2 500, ex_transfer 2 2 1 300, ex_transfer 3 2 1 300]]"

text \<open>
  C1. Double entry is conserved over every history of calls: starting from the empty ledger,
  after any sequence of account creations, transfers, batches and lookups, whether they succeed
  or fail, the debits posted over all accounts equal the credits posted in every currency, and
  no account flagged \<^verbatim>\<open>debits_must_not_exceed_credits\<close> is overdrawn. The volume of all
  transfers of the history must stay below \<open>2 ^ 96 / 10 ^ 8\<close> (about \<open>7.9 * 10 ^ 20\<close>), the
  range in which decimal addition at eight places is exact.
\<close>

theorem double_entry_conserved:
  assumes "dec_order X val" "dec_arith X val" and "\<forall>p\<in>set ops. op_ok X val p"
    and "volume val (concat (map op_transfers ops)) * 10 ^ 8 < 2 ^ 96"
  shows "(\<forall>c. acct_sum (debits_in val c) (im_accounts (run_ops X in_memory_new ops)) =
              acct_sum (credits_in val c) (im_accounts (run_ops X in_memory_new ops))) \<and>
    (\<forall>i a. im_accounts (run_ops X in_memory_new ops) i = Some a \<longrightarrow>
       debits_must_not_exceed_credits (acct_flags a) \<longrightarrow>
       val (amt_value (debits_posted a)) \<le> val (amt_value (credits_posted a)))"
  using run_ops_inv [OF assms(1,2) ledger_inv_new, of ops] assms(3,4)
  by (auto simp: ledger_inv_def acct_ok_def)

theorem double_entry_conserved_witness:
  "acct_sum (debits_in rd_val USD) (im_accounts (run_ops ref_externs in_memory_new ex_ops)) =
   acct_sum (credits_in rd_val USD) (im_accounts (run_ops ref_externs in_memory_new ex_ops))"
proof -
  have "\<forall>p\<in>set ex_ops. op_ok ref_externs rd_val p"
    by (simp add: ex_ops_def ex_account_def ex_transfer_def account_new_def amount_ok_def rd_val_def
        MAX_SCALE_def)
  moreover have "volume rd_val (concat (map op_transfers ex_ops)) * 10 ^ 8 < 2 ^ 96"
    by (simp add: ex_ops_def ex_transfer_def rd_val_def)
  ultimately show ?thesis
    using double_entry_conserved [OF ref_laws(1,2), of ex_ops] by blast
qed

text \<open>
  C33. A rejected transfer leaves no trace: when \<^verbatim>\<open>create_transfer\<close> returns an error on a ledger
  whose postings are exact (all postings plus the amount below \<open>2 ^ 96 / 10 ^ 8\<close>), no account
  and no recorded transfer changes.
\<close>

theorem failed_transfer_no_effect:
  assumes "dec_order X val" "dec_arith X val" "ledger_inv X val B L"
    and "amount_ok X val (tr_amount t)" "(B + val (amt_value (tr_amount t))) * 10 ^ 8 < 2 ^ 96"
    and "is_err (snd (im_create_transfer X L t))"
  shows "im_accounts (fst (im_create_transfer X L t)) = im_accounts L \<and>
    im_transfers (fst (im_create_transfer X L t)) = im_transfers L"
  using assms by (rule im_create_transfer_err)

theorem failed_transfer_no_effect_witness:
  "im_accounts (fst (im_create_transfer ref_externs in_memory_new (ex_transfer 1 1 2 500))) = Map.empty"
proof -
  have "amount_ok ref_externs rd_val (tr_amount (ex_transfer 1 1 2 500))"
    "(0 + rd_val (amt_value (tr_amount (ex_transfer 1 1 2 500)))) * 10 ^ 8 < 2 ^ 96"
    "is_err (snd (im_create_transfer ref_externs in_memory_new (ex_transfer 1 1 2 500)))"
    by (simp_all add: ex_transfer_def amount_ok_def rd_val_def MAX_SCALE_def im_create_transfer_def
        in_memory_new_def)
  from failed_transfer_no_effect [OF ref_laws(1,2) ledger_inv_new this] show ?thesis
    by (simp add: in_memory_new_def)
qed

text \<open>
  A committed transfer is posted exactly: when \<^verbatim>\<open>create_transfer\<close> of a ledger that is not in
  benchmark mode succeeds, the returned id is the transfer's, \<^verbatim>\<open>get_transfer\<close> returns it, the
  debit account's debits and the credit account's credits have grown by exactly the amount,
  nothing else of the two accounts and no other account has changed.
\<close>

theorem committed_transfer_posted:
  assumes laws: "dec_order X val" "dec_arith X val" "ledger_inv X val B L"
    and m: "amount_ok X val (tr_amount t)" "(B + val (amt_value (tr_amount t))) * 10 ^ 8 < 2 ^ 96"
    and bounded: "\<not> im_unbounded L" and ok: "im_create_transfer X L t = (L', Inr i)"
  shows "i = tr_id t \<and> snd (im_get_transfer X L' i) = Inr t \<and>
    (\<exists>da ca v w. im_accounts L (debit_account_id t) = Some da \<and>
       im_accounts L (credit_account_id t) = Some ca \<and>
       im_accounts L' = (im_accounts L)(debit_account_id t \<mapsto> da\<lparr>debits_posted := v\<rparr>,
                                        credit_account_id t \<mapsto> ca\<lparr>credits_posted := w\<rparr>) \<and>
       debit_account_id t \<noteq> credit_account_id t \<and>
       val (amt_value v) = val (amt_value (debits_posted da)) + val (amt_value (tr_amount t)) \<and>
       val (amt_value w) = val (amt_value (credits_posted ca)) + val (amt_value (tr_amount t)))"
proof -
  have tr: "im_transfers L' (tr_id t) = Some t"
    using ok bounded
    by (auto simp: im_create_transfer_def im_count_def Let_def split: option.splits sum.splits if_splits)
  show ?thesis
    using laws m
  proof (cases rule: im_create_transfer_cases [where t = t])
    case same
    then show ?thesis using bounded ok by simp
  next
    case (posted da ca v w)
    then show ?thesis
      using ok tr by (auto simp: im_get_transfer_def Let_def)
  qed
qed

theorem committed_transfer_posted_witness:
  "snd (im_get_transfer ref_externs
          (fst (im_create_transfer ref_externs
             (run_ops ref_externs in_memory_new
                [OpCreateAccount (ex_account 1 False), OpCreateAccount (ex_account 2 True)])
             (ex_transfer 1 1 2 500)))
          (tr_id (ex_transfer 1 1 2 500))) = Inr (ex_transfer 1 1 2 500)"
proof -
  let ?L = "run_ops ref_externs in_memory_new
      [OpCreateAccount (ex_account 1 False), OpCreateAccount (ex_account 2 True)]"
  let ?t = "ex_transfer 1 1 2 500"
  have ok: "\<forall>p\<in>set [OpCreateAccount (ex_account 1 False), OpCreateAccount (ex_account 2 True)].
      op_ok ref_externs rd_val p"
    by (simp add: ex_account_def account_new_def)
  have inv: "ledger_inv ref_externs rd_val 0 ?L"
    using run_ops_inv [OF ref_laws(1,2) ledger_inv_new order_refl ok] by simp
  have m: "amount_ok ref_externs rd_val (tr_amount ?t)" "(0 + rd_val (amt_value (tr_amount ?t))) * 10 ^ 8 < 2 ^ 96"
    by (simp_all add: ex_transfer_def amount_ok_def rd_val_def MAX_SCALE_def)
  have unb: "\<not> im_unbounded ?L"
    by (simp add: run_ops_def ex_eval)
  have "\<exists>L' i. im_create_transfer ref_externs ?L ?t = (L', Inr i)"
    by (simp add: run_ops_def ex_eval)
  then obtain L' i where L': "im_create_transfer ref_externs ?L ?t = (L', Inr i)" by blast
  then have "i = tr_id ?t \<and> snd (im_get_transfer ref_externs L' i) = Inr ?t"
    using committed_transfer_posted [OF ref_laws(1,2) inv m unb] by blast
  then show ?thesis using L' by (elim conjE) simp
qed

text \<open>
  Outside that range a failed transfer is not always without effect: \<^verbatim>\<open>create_transfer\<close> applies
  the debit before it attempts the credit, so when only the credit overflows the call returns
  an error while the debit stays posted.
\<close>

definition ex_full_account :: "(refdec, refcur) account" where
  "ex_full_account =
     (ex_account 2 False)\<lparr>credits_posted := \<lparr>amt_value = RD (2 ^ 96 - 1) 0, amt_currency = USD\<rparr>\<rparr>"

lemma create_transfer_not_atomic:
  "\<exists>L L'. im_create_transfer ref_externs L (ex_transfer 1 1 2 500) = (L', Inl AmountOverflow) \<and>
     map_option (amt_value \<circ> debits_posted) (im_accounts L (Id64 1)) = Some (RD 0 0) \<and>
     map_option (amt_value \<circ> debits_posted) (im_accounts L' (Id64 1)) = Some (RD 500 2)"
  by (rule exI [of _ "in_memory_new\<lparr>im_accounts := [Id64 1 \<mapsto> ex_account 1 False, Id64 2 \<mapsto> ex_full_account]\<rparr>"])
     (simp add: ex_full_account_def ex_eval)

end
