(* ===== verification/Blz_TigerBeetle.thy ===== *)
theory Blz_TigerBeetle
  imports Blz_InMemory
begin

text \<open>
  \<^verbatim>\<open>core/ledger/src/tigerbeetle.rs\<close>: the production ledger client. The TigerBeetle cluster and
  its client library are outside the repository: the calls the code makes are the fields of the
  record \<open>tb_ops\<close>, over an arbitrary cluster state. A TigerBeetle account or transfer is the
  record of the fields the code sets through the builder methods or reads back; a flag word is
  the set of its flags. Amounts are minor units (\<^verbatim>\<open>u128\<close>, below \<open>2 ^ 128\<close>).
\<close>

section \<open>The client library's data and calls\<close>

datatype tb_account_flag =
  TB_A_LINKED | TB_DEBITS_MUST_NOT_EXCEED_CREDITS | TB_CREDITS_MUST_NOT_EXCEED_DEBITS

datatype tb_transfer_flag =
  TB_T_LINKED | TB_PENDING | TB_POST_PENDING_TRANSFER | TB_VOID_PENDING_TRANSFER

record tb_account =
  tba_id :: u128
  tba_ledger :: u32
  tba_code :: u16
  tba_flags :: "tb_account_flag set"
  tba_user_data_32 :: u32
  tba_debits_posted :: nat
  tba_credits_posted :: nat

record tb_transfer =
  tbt_id :: u128
  tbt_debit_account_id :: u128
  tbt_credit_account_id :: u128
  tbt_ledger :: u32
  tbt_code :: u16
  tbt_amount :: nat
  tbt_flags :: "tb_transfer_flag set"
  tbt_user_data_32 :: u32
  tbt_pending_id :: u128

text \<open>
  A \<^verbatim>\<open>create_transfers\<close> call succeeds, reports per-transfer errors (index and the \<^verbatim>\<open>Debug\<close> text
  of the kind), or fails as a whole.
\<close>

datatype tb_create_outcome =
  TbOk | TbApi "(nat \<times> string) list" | TbFailed string

record 's tb_ops =
  op_create_accounts :: "'s \<Rightarrow> tb_account list \<Rightarrow> 's \<times> (string, unit) result"
  op_create_transfers :: "'s \<Rightarrow> tb_transfer list \<Rightarrow> 's \<times> tb_create_outcome"
  op_lookup_accounts :: "'s \<Rightarrow> u128 list \<Rightarrow> 's \<times> (string, tb_account list) result"
  op_lookup_transfers :: "'s \<Rightarrow> u128 list \<Rightarrow> 's \<times> (string, tb_transfer list) result"
  op_show_api :: "(nat \<times> string) list \<Rightarrow> string"

record 's tb_client =
  tbc_inner :: 's
  tbc_address :: string
  tbc_metrics :: ledger_metrics

definition tb_count :: "(ledger_metrics \<Rightarrow> ledger_metrics) \<Rightarrow> 's tb_client \<Rightarrow> 's tb_client" where
  "tb_count f C = C\<lparr>tbc_metrics := f (tbc_metrics C)\<rparr>"

section \<open>Connecting\<close>

text \<open>
  \<open>is_sock s\<close> is \<^verbatim>\<open>s.parse::<SocketAddr>().is_ok()\<close>; \<open>lookup\<close> is \<^verbatim>\<open>tokio::net::lookup_host\<close>: the
  list of resolved addresses in their textual form, or an error text.
\<close>

fun resolve_loop ::
  "(string \<Rightarrow> bool) \<Rightarrow> (string \<Rightarrow> (string, string list) result) \<Rightarrow> string list \<Rightarrow> string list \<Rightarrow>
   string list blazer_result" where
  "resolve_loop is_sock lookup resolved [] = Inr resolved"
| "resolve_loop is_sock lookup resolved (e # es) =
     (let entry = str_trim e
      in if is_sock entry then resolve_loop is_sock lookup (resolved @ [entry]) es
         else case lookup entry of
                Inl err \<Rightarrow> Inl (Ledger (''Failed to resolve TB address '' @ [CHR 0x27] @ entry @ [CHR 0x27] @ '': '' @ err))
              | Inr [] \<Rightarrow> Inl (Ledger (''No DNS result for TB address '' @ [CHR 0x27] @ entry @ [CHR 0x27]))
              | Inr (ip # _) \<Rightarrow> resolve_loop is_sock lookup (resolved @ [ip]) es)"

definition resolve_tb_address ::
  "(string \<Rightarrow> bool) \<Rightarrow> (string \<Rightarrow> (string, string list) result) \<Rightarrow> string \<Rightarrow> string blazer_result" where
  "resolve_tb_address is_sock lookup addr =
     and_then (resolve_loop is_sock lookup [] (str_split (CHR '','') addr))
       (\<lambda>resolved. Inr (str_join '','' resolved))"

definition tb_connect ::
  "(string \<Rightarrow> bool) \<Rightarrow> (string \<Rightarrow> (string, string list) result) \<Rightarrow>
   (u128 \<Rightarrow> string \<Rightarrow> (string, 's) result) \<Rightarrow> string \<Rightarrow> u128 \<Rightarrow> ledger_metrics \<Rightarrow>
   's tb_client blazer_result" where
  "tb_connect is_sock lookup client_new address cluster_id metrics =
     and_then (resolve_tb_address is_sock lookup address)
       (\<lambda>resolved. and_then
          (map_err (\<lambda>e. Ledger (''TigerBeetle connect failed: '' @ e)) (client_new cluster_id resolved))
          (\<lambda>inner. Inr \<lparr>tbc_inner = inner, tbc_address = address, tbc_metrics = metrics\<rparr>))"

definition tb_probe :: "'s tb_ops \<Rightarrow> 's tb_client \<Rightarrow> 's tb_client \<times> unit blazer_result" where
  "tb_probe T C =
     (let (s, r) = op_lookup_accounts T (tbc_inner C) [0]
      in (C\<lparr>tbc_inner := s\<rparr>,
          and_then (map_err (\<lambda>e. Ledger (''TigerBeetle probe failed: '' @ e)) r) (\<lambda>_. Inr ())))"

section \<open>Conversions\<close>

definition domain_transfer_to_tb ::
  "('d, 'c) externs \<Rightarrow> ('d, 'c) transfer \<Rightarrow> tb_transfer blazer_result" where
  "domain_transfer_to_tb X transfer =
     and_then (amount_to_minor_units X (tr_amount transfer))
       (\<lambda>amount.
          let flags = (if tr_linked (tr_flags transfer) then {TB_T_LINKED} else {}) \<union>
                      (if tr_pending (tr_flags transfer) then {TB_PENDING} else {}) \<union>
                      (if post_pending_transfer (tr_flags transfer)
                       then {TB_POST_PENDING_TRANSFER} else {}) \<union>
                      (if void_pending_transfer (tr_flags transfer)
                       then {TB_VOID_PENDING_TRANSFER} else {})
          in Inr \<lparr>tbt_id = transfer_id_to_u128 (tr_id transfer),
                  tbt_debit_account_id = account_id_to_u128 (debit_account_id transfer),
                  tbt_credit_account_id = account_id_to_u128 (credit_account_id transfer),
                  tbt_ledger = ledger_id_to_u32 (tr_ledger_id transfer),
                  tbt_code = tr_code transfer, tbt_amount = amount, tbt_flags = flags,
                  tbt_user_data_32 = ucast (c_numeric X (amt_currency (tr_amount transfer))),
                  tbt_pending_id = (case pending_id transfer of
                                      None \<Rightarrow> 0 | Some p \<Rightarrow> transfer_id_to_u128 p)\<rparr>)"

text \<open>\<^verbatim>\<open>Currency::from_numeric(u16::try_from(numeric).unwrap_or(0))\<close>.\<close>

definition currency_of_user_data :: "('d, 'c) externs \<Rightarrow> u32 \<Rightarrow> 'c blazer_result" where
  "currency_of_user_data X numeric =
     ok_or (InvalidCurrency (''unknown numeric code: '' @ show_nat (unat numeric)))
       (c_from_numeric X (if unat numeric < 2 ^ 16 then ucast numeric else 0))"

definition tb_account_to_blazil ::
  "('d, 'c) externs \<Rightarrow> timestamp \<Rightarrow> tb_account \<Rightarrow> ('d, 'c) account blazer_result" where
  "tb_account_to_blazil X now tb =
     and_then (currency_of_user_data X (tba_user_data_32 tb)) (\<lambda>currency.
     and_then (ledger_id_new (tba_ledger tb)) (\<lambda>ledger_id.
       let flags = \<lparr>debits_must_not_exceed_credits = TB_DEBITS_MUST_NOT_EXCEED_CREDITS \<in> tba_flags tb,
                    credits_must_not_exceed_debits = TB_CREDITS_MUST_NOT_EXCEED_DEBITS \<in> tba_flags tb,
                    acct_linked = TB_A_LINKED \<in> tba_flags tb\<rparr>;
           account = account_new X now (u128_to_account_id (tba_id tb)) ledger_id currency
                       (tba_code tb) flags
       in and_then (if tba_debits_posted tb > 0
                    then and_then (minor_units_to_amount X (tba_debits_posted tb) currency)
                           (apply_debit X account)
                    else Inr account) (\<lambda>account1.
          if tba_credits_posted tb > 0
          then and_then (minor_units_to_amount X (tba_credits_posted tb) currency)
                 (apply_credit X account1)
          else Inr account1)))"

definition tb_transfer_to_blazil ::
  "('d, 'c) externs \<Rightarrow> timestamp \<Rightarrow> tb_transfer \<Rightarrow> ('d, 'c) transfer blazer_result" where
  "tb_transfer_to_blazil X now tb =
     and_then (ledger_id_new (tbt_ledger tb)) (\<lambda>ledger_id.
     and_then (currency_of_user_data X (tbt_user_data_32 tb)) (\<lambda>currency.
     and_then (minor_units_to_amount X (tbt_amount tb) currency) (\<lambda>amount.
       let flags = \<lparr>tr_linked = TB_T_LINKED \<in> tbt_flags tb, tr_pending = TB_PENDING \<in> tbt_flags tb,
                    post_pending_transfer = TB_POST_PENDING_TRANSFER \<in> tbt_flags tb,
                    void_pending_transfer = TB_VOID_PENDING_TRANSFER \<in> tbt_flags tb\<rparr>
       in Inr (transfer_from_ledger now (u128_to_transfer_id (tbt_id tb))
                 (u128_to_account_id (tbt_debit_account_id tb))
                 (u128_to_account_id (tbt_credit_account_id tb)) amount ledger_id (tbt_code tb)
                 flags))))"

section \<open>Single calls\<close>

definition tb_create_account ::
  "('d, 'c) externs \<Rightarrow> 's tb_ops \<Rightarrow> 's tb_client \<Rightarrow> ('d, 'c) account \<Rightarrow>
   's tb_client \<times> account_id blazer_result" where
  "tb_create_account X T C account =
     (let i = acct_id account; C1 = tb_count inc_account_lookups C;
          flags = (if debits_must_not_exceed_credits (acct_flags account)
                   then {TB_DEBITS_MUST_NOT_EXCEED_CREDITS} else {}) \<union>
                  (if credits_must_not_exceed_debits (acct_flags account)
                   then {TB_CREDITS_MUST_NOT_EXCEED_DEBITS} else {}) \<union>
                  (if acct_linked (acct_flags account) then {TB_A_LINKED} else {});
          tb = \<lparr>tba_id = account_id_to_u128 i, tba_ledger = ledger_id_to_u32 (acct_ledger_id account),
                tba_code = acct_code account, tba_flags = flags,
                tba_user_data_32 = ucast (c_numeric X (acct_currency account)),
                tba_debits_posted = 0, tba_credits_posted = 0\<rparr>;
          (s, r) = op_create_accounts T (tbc_inner C1) [tb]; C2 = C1\<lparr>tbc_inner := s\<rparr>
      in case r of
           Inr _ \<Rightarrow> (tb_count inc_accounts_created C2, Inr i)
         | Inl e \<Rightarrow> (tb_count inc_accounts_created_errors C2,
                     Inl (Ledger (''create_accounts failed: '' @ e))))"

definition tb_create_transfer ::
  "('d, 'c) externs \<Rightarrow> 's tb_ops \<Rightarrow> 's tb_client \<Rightarrow> ('d, 'c) transfer \<Rightarrow>
   's tb_client \<times> transfer_id blazer_result" where
  "tb_create_transfer X T C transfer =
     (case domain_transfer_to_tb X transfer of
        Inl e \<Rightarrow> (C, Inl e)
      | Inr tb \<Rightarrow>
          let (s, r) = op_create_transfers T (tbc_inner C) [tb]; C1 = C\<lparr>tbc_inner := s\<rparr>;
              fail = (\<lambda>e. (tb_count inc_transfers_created_errors C1,
                           Inl (Ledger (''create_transfers failed: '' @ e))))
          in case r of
               TbOk \<Rightarrow> (tb_count inc_transfers_created C1, Inr (tr_id transfer))
             | TbApi errs \<Rightarrow> fail (op_show_api T errs)
             | TbFailed e \<Rightarrow> fail e)"

definition tb_get_account ::
  "('d, 'c) externs \<Rightarrow> 's tb_ops \<Rightarrow> timestamp \<Rightarrow> 's tb_client \<Rightarrow> account_id \<Rightarrow>
   's tb_client \<times> ('d, 'c) account blazer_result" where
  "tb_get_account X T now C i =
     (let C1 = tb_count inc_account_lookups C;
          (s, r) = op_lookup_accounts T (tbc_inner C1) [account_id_to_u128 i];
          C2 = C1\<lparr>tbc_inner := s\<rparr>
      in case r of
           Inr results \<Rightarrow>
             (C2, if results = [] then Inl (NotFound ''Account'' (id64_display i))
                  else tb_account_to_blazil X now (last results))
         | Inl e \<Rightarrow> (tb_count inc_account_lookups_errors C2,
                     Inl (Ledger (''lookup_accounts failed: '' @ e))))"

definition tb_get_transfer ::
  "('d, 'c) externs \<Rightarrow> 's tb_ops \<Rightarrow> timestamp \<Rightarrow> 's tb_client \<Rightarrow> transfer_id \<Rightarrow>
   's tb_client \<times> ('d, 'c) transfer blazer_result" where
  "tb_get_transfer X T now C i =
     (let C1 = tb_count inc_transfer_lookups C;
          (s, r) = op_lookup_transfers T (tbc_inner C1) [transfer_id_to_u128 i];
          C2 = C1\<lparr>tbc_inner := s\<rparr>
      in case r of
           Inr results \<Rightarrow>
             (C2, if results = [] then Inl (NotFound ''Transfer'' (u_show X (as_uuid i)))
                  else tb_transfer_to_blazil X now (last results))
         | Inl e \<Rightarrow> (tb_count inc_transfer_lookups_errors C2,
                     Inl (Ledger (''lookup_transfers failed: '' @ e))))"

text \<open>\<^verbatim>\<open>collect::<BlazerResult<Vec<_>>>()\<close>: the first error, or all the values.\<close>

fun collect_results :: "('e, 'a) result list \<Rightarrow> ('e, 'a list) result" where
  "collect_results [] = Inr []"
| "collect_results (r # rs) = and_then r (\<lambda>x. and_then (collect_results rs) (\<lambda>xs. Inr (x # xs)))"

definition tb_get_account_balances ::
  "('d, 'c) externs \<Rightarrow> 's tb_ops \<Rightarrow> timestamp \<Rightarrow> 's tb_client \<Rightarrow> account_id list \<Rightarrow>
   's tb_client \<times> ('d, 'c) account list blazer_result" where
  "tb_get_account_balances X T now C ids =
     (if ids = [] then (C, Inr [])
      else let C1 = tb_count (inc_batch_account_lookups (word_of_nat (length ids))) C;
               (s, r) = op_lookup_accounts T (tbc_inner C1) (map account_id_to_u128 ids);
               C2 = C1\<lparr>tbc_inner := s\<rparr>
           in case r of
                Inr tbs \<Rightarrow> (C2, collect_results (map (tb_account_to_blazil X now) tbs))
              | Inl e \<Rightarrow> (tb_count inc_batch_account_lookups_errors C2,
                          Inl (Ledger (''lookup_accounts (batch) failed: '' @ e))))"

section \<open>Batches\<close>

text \<open>
  The conversion loop fills three vectors: the result slots (an error where a transfer does not
  convert), the converted transfers and, for each of them, its index in the input.
\<close>

fun tb_convert_loop ::
  "('d, 'c) externs \<Rightarrow> nat \<Rightarrow> ('d, 'c) transfer list \<Rightarrow>
   transfer_id blazer_result option list \<times> tb_transfer list \<times> nat list \<Rightarrow>
   transfer_id blazer_result option list \<times> tb_transfer list \<times> nat list" where
  "tb_convert_loop X i [] st = st"
| "tb_convert_loop X i (t # ts) (results, tbs, tb_to_orig) =
     (case domain_transfer_to_tb X t of
        Inr tb \<Rightarrow> tb_convert_loop X (Suc i) ts (results, tbs @ [tb], tb_to_orig @ [i])
      | Inl e \<Rightarrow> tb_convert_loop X (Suc i) ts (results[i := Some (Inl e)], tbs, tb_to_orig))"

definition tb_api_result :: "(nat \<times> string) list \<Rightarrow> nat \<Rightarrow> transfer_id \<Rightarrow> transfer_id blazer_result" where
  "tb_api_result api_err tb_pos i =
     (let error_map = map_of (rev api_err)
      in case error_map tb_pos of
           Some kind_str \<Rightarrow>
             if str_contains ''Exist'' kind_str then Inr i
             else Inl (Ledger (''TB transfer error '' @ kind_str @ '' at batch index '' @ show_nat tb_pos))
         | None \<Rightarrow> Inr i)"

definition tb_batch ::
  "('d, 'c) externs \<Rightarrow> 's tb_ops \<Rightarrow> 's tb_client \<Rightarrow> ('d, 'c) transfer list \<Rightarrow>
   's tb_client \<times> transfer_id blazer_result list" where
  "tb_batch X T C transfers =
     (if transfers = [] then (C, [])
      else
        let n = length transfers;
            (results, tbs, tb_to_orig) = tb_convert_loop X 0 transfers (replicate n None, [], []);
            orig_id = (\<lambda>i. tr_id (transfers ! i));
            (C', results') =
              (if tbs = [] then (C, results)
               else
                 let C1 = tb_count (inc_transfers_batch (word_of_nat (length tbs))) C;
                     (s, outcome) = op_create_transfers T (tbc_inner C1) tbs;
                     C2 = C1\<lparr>tbc_inner := s\<rparr>
                 in case outcome of
                      TbOk \<Rightarrow>
                        (C2, write_slots (\<lambda>_ i. Some (Inr (orig_id i))) 0 tb_to_orig results)
                    | TbApi api_err \<Rightarrow>
                        (tb_count inc_transfers_batch_partial_failures C2,
                         write_slots (\<lambda>k i. Some (tb_api_result api_err k (orig_id i))) 0 tb_to_orig results)
                    | TbFailed e \<Rightarrow>
                        (tb_count inc_transfers_batch_transport_errors C2,
                         write_slots (\<lambda>_ _. Some (Inl (LedgerTransient
                           (''create_transfers transport error (retryable): '' @ e)))) 0 tb_to_orig results))
        in (C', map (\<lambda>opt. case opt of Some r \<Rightarrow> r
                             | None \<Rightarrow> Inl (Ledger ''internal error: transfer result not set'')) results'))"

section \<open>Lemmas\<close>

definition converts :: "('d, 'c) externs \<Rightarrow> ('d, 'c) transfer \<Rightarrow> bool" where
  "converts X t \<longleftrightarrow> \<not> is_err (domain_transfer_to_tb X t)"

definition converted :: "('d, 'c) externs \<Rightarrow> ('d, 'c) transfer list \<Rightarrow> tb_transfer list" where
  "converted X ts = map (\<lambda>t. projr (domain_transfer_to_tb X t)) (filter (converts X) ts)"

text \<open>The verdict of one transfer, read off the cluster's answer at its position in the batch.\<close>

fun tb_verdict :: "tb_create_outcome \<Rightarrow> nat \<Rightarrow> transfer_id \<Rightarrow> transfer_id blazer_result" where
  "tb_verdict TbOk k i = Inr i"
| "tb_verdict (TbApi errs) k i = tb_api_result errs k i"
| "tb_verdict (TbFailed e) k i =
     Inl (LedgerTransient (''create_transfers transport error (retryable): '' @ e))"

lemma tb_convert_loop_spec:
  "tb_convert_loop X (length done) ts
     (map (\<lambda>t. if converts X t then None else Some (Inl (projl (domain_transfer_to_tb X t)))) done
        @ replicate (length ts) None,
      converted X done, filter (\<lambda>i. converts X (done ! i)) [0..<length done]) =
   (map (\<lambda>t. if converts X t then None else Some (Inl (projl (domain_transfer_to_tb X t)))) (done @ ts),
    converted X (done @ ts), filter (\<lambda>i. converts X ((done @ ts) ! i)) [0..<length (done @ ts)])"
proof (induction ts arbitrary: "done")
  case (Cons t ts)
  have f: "filter (\<lambda>i. converts X ((done @ [t]) ! i)) [0..<length (done @ [t])] =
      filter (\<lambda>i. converts X (done ! i)) [0..<length done] @ (if converts X t then [length done] else [])"
    by (auto simp: nth_append intro!: filter_cong)
  show ?case
    using Cons [of "done @ [t]"] unfolding f
    by (cases "domain_transfer_to_tb X t")
       (simp_all add: converts_def converted_def list_update_append)
qed simp

definition tb_slots :: "('d, 'c) externs \<Rightarrow> ('d, 'c) transfer list \<Rightarrow> transfer_id blazer_result option list" where
  "tb_slots X ts =
     map (\<lambda>t. if converts X t then None else Some (Inl (projl (domain_transfer_to_tb X t)))) ts"

definition tb_origs :: "('d, 'c) externs \<Rightarrow> ('d, 'c) transfer list \<Rightarrow> nat list" where
  "tb_origs X ts = filter (\<lambda>i. converts X (ts ! i)) [0..<length ts]"

lemma tb_convert_loop_start:
  "tb_convert_loop X 0 ts (replicate (length ts) None, [], []) =
   (tb_slots X ts, converted X ts, tb_origs X ts)"
  using tb_convert_loop_spec [of X "[]" ts] by (simp add: converted_def tb_slots_def tb_origs_def)

lemma tb_batch_results:
  assumes "ts \<noteq> []"
  shows "snd (tb_batch X T C ts) =
    map (\<lambda>opt. case opt of Some r \<Rightarrow> r | None \<Rightarrow> Inl (Ledger ''internal error: transfer result not set''))
      (if converted X ts = [] then tb_slots X ts
       else write_slots
              (\<lambda>k i. Some (tb_verdict (snd (op_create_transfers T (tbc_inner C) (converted X ts))) k
                 (tr_id (ts ! i))))
              0 (tb_origs X ts) (tb_slots X ts))"
proof (cases "op_create_transfers T (tbc_inner C) (converted X ts)")
  case (Pair st outcome)
  then show ?thesis
    using assms by (cases outcome) (simp_all add: tb_batch_def tb_convert_loop_start tb_count_def)
qed

lemma length_tb_origs: "length (tb_origs X ts) = length (converted X ts)"
proof -
  have "filter (converts X) ts = filter (converts X) (map ((!) ts) [0..<length ts])"
    by (simp add: map_nth)
  then show ?thesis by (simp add: tb_origs_def converted_def filter_map o_def)
qed

lemma tb_batch_nth:
  assumes i: "i < length ts"
  shows "snd (tb_batch X T C ts) ! i =
    (case domain_transfer_to_tb X (ts ! i) of
       Inl e \<Rightarrow> Inl e
     | Inr _ \<Rightarrow> tb_verdict (snd (op_create_transfers T (tbc_inner C) (converted X ts)))
                 (length (filter (converts X) (take i ts))) (tr_id (ts ! i)))"
proof -
  have ne: "ts \<noteq> []" using i by auto
  let ?k = "length (filter (\<lambda>j. converts X (ts ! j)) [0..<i])"
  have "take i ts = map ((!) ts) [0..<i]" using i by (auto intro!: nth_equalityI)
  then have k: "length (filter (converts X) (take i ts)) = ?k"
    by (simp add: filter_map o_def)
  show ?thesis
  proof (cases "converts X (ts ! i)")
    case True
    then have mem: "?k < length (tb_origs X ts)" "tb_origs X ts ! ?k = i"
      using filter_upt_nth [where P = "\<lambda>j. converts X (ts ! j)", OF i] by (simp_all add: tb_origs_def)
    then have c: "converted X ts \<noteq> []" using length_tb_origs [of X ts] by auto
    have "distinct (tb_origs X ts)" "\<forall>j\<in>set (tb_origs X ts). j < length (tb_slots X ts)"
      by (auto simp: tb_origs_def tb_slots_def)
    from write_slots_nth [OF this mem(1)] True show ?thesis
      using i c mem(2) by (auto simp: tb_batch_results [OF ne] k tb_slots_def converts_def split: sum.split)
  next
    case False
    then have "i \<notin> set (tb_origs X ts)" by (simp add: tb_origs_def)
    with False show ?thesis
      using i by (auto simp: tb_batch_results [OF ne] tb_slots_def converts_def write_slots_other split: sum.split)
  qed
qed

lemma tb_batch_length: "length (snd (tb_batch X T C ts)) = length ts"
  by (cases "ts = []") (simp_all add: tb_batch_results tb_slots_def, simp add: tb_batch_def)

interpretation tbc: ledger_client "tb_batch X T" for X T
proof
  show "length (snd (tb_batch X T s ts)) = length ts" for s ts
    by (rule tb_batch_length)
  show "t = tr_id (ts ! i)" if "i < length ts" "snd (tb_batch X T s ts) ! i = Inr t" for i ts s t
    using that(2) unfolding tb_batch_nth [OF that(1)]
    by (cases "snd (op_create_transfers T (tbc_inner s) (converted X ts))")
       (auto simp: tb_api_result_def Let_def split: sum.splits option.splits if_splits)
qed

lemma flags_roundtrip [simp]:
  "TB_T_LINKED \<in> (if a then {TB_T_LINKED} else {}) \<union> (if b then {TB_PENDING} else {}) \<union>
     (if c then {TB_POST_PENDING_TRANSFER} else {}) \<union> (if d then {TB_VOID_PENDING_TRANSFER} else {}) \<longleftrightarrow> a"
  "TB_PENDING \<in> (if a then {TB_T_LINKED} else {}) \<union> (if b then {TB_PENDING} else {}) \<union>
     (if c then {TB_POST_PENDING_TRANSFER} else {}) \<union> (if d then {TB_VOID_PENDING_TRANSFER} else {}) \<longleftrightarrow> b"
  "TB_POST_PENDING_TRANSFER \<in> (if a then {TB_T_LINKED} else {}) \<union> (if b then {TB_PENDING} else {}) \<union>
     (if c then {TB_POST_PENDING_TRANSFER} else {}) \<union> (if d then {TB_VOID_PENDING_TRANSFER} else {}) \<longleftrightarrow> c"
  "TB_VOID_PENDING_TRANSFER \<in> (if a then {TB_T_LINKED} else {}) \<union> (if b then {TB_PENDING} else {}) \<union>
     (if c then {TB_POST_PENDING_TRANSFER} else {}) \<union> (if d then {TB_VOID_PENDING_TRANSFER} else {}) \<longleftrightarrow> d"
  by auto

lemma currency_of_user_data_numeric:
  "cur_laws X \<Longrightarrow> currency_of_user_data X (ucast (c_numeric X c)) = Inr c"
proof -
  assume X: "cur_laws X"
  have "unat (ucast (c_numeric X c) :: u32) < 2 ^ 16"
    using unsigned_less [where 'a = nat, of "c_numeric X c"]
    by (simp add: unsigned_ucast_eq take_bit_nat_eq_self)
  moreover have "ucast (ucast (c_numeric X c) :: u32) = c_numeric X c"
    by (simp add: unsigned_ucast_eq take_bit_word_eq_self)
  ultimately show ?thesis using X by (simp add: currency_of_user_data_def cur_laws_def)
qed

section \<open>Properties\<close>


text \<open>
  A transfer survives the trip to TigerBeetle and back: for a transfer with a 16-byte id, a
  non-zero ledger id and an amount of \<open>n\<close> minor units below \<open>2 ^ 69\<close>, converting it to the
  TigerBeetle form succeeds, and reading that form back gives the same id, accounts, ledger,
  code, flags and currency and an amount of the same value.
\<close>

theorem tb_transfer_roundtrip:
  fixes t :: "('d, 'c) transfer"
  assumes laws: "dec_order X val" "dec_arith X val" "dec_conv X val" "cur_laws X"
    and i: "length (as_uuid (tr_id t)) = 16" and l: "ledger_id_value (tr_ledger_id t) \<noteq> 0"
    and c: "c_code X (amt_currency (tr_amount t)) \<noteq> ''ETH''"
    and v: "val (amt_value (tr_amount t)) * of_nat (unat (currency_scale X (amt_currency (tr_amount t)))) = of_nat n"
    and s: "d_scale X (amt_value (tr_amount t)) \<le> scale_exp X (amt_currency (tr_amount t))"
    and n: "n < 2 ^ 69"
  shows "\<exists>tb t'. domain_transfer_to_tb X t = Inr tb \<and> tbt_amount tb = n \<and>
    tb_transfer_to_blazil X now tb = Inr t' \<and> tr_id t' = tr_id t \<and>
    debit_account_id t' = debit_account_id t \<and> credit_account_id t' = credit_account_id t \<and>
    tr_ledger_id t' = tr_ledger_id t \<and> tr_code t' = tr_code t \<and> tr_flags t' = tr_flags t \<and>
    amt_currency (tr_amount t') = amt_currency (tr_amount t) \<and>
    val (amt_value (tr_amount t')) = val (amt_value (tr_amount t))"
proof -
  let ?c = "amt_currency (tr_amount t)"
  have e: "scale_exp X ?c \<le> 8" using c by (auto simp: scale_exp_def currency_scale_def Let_def)
  have val: "val (amt_value (tr_amount t)) = of_nat n / 10 ^ scale_exp X ?c"
    using v unfolding currency_scale_exp by (simp add: field_simps)
  have "n * 10 ^ 8 < 2 ^ 96" "n < 2 ^ 95 - 1" using n by simp_all
  then have a: "amount_to_minor_units X (tr_amount t) = Inr n"
    using amount_to_minor_units_exact [OF laws(1-3) val s] e by blast
  obtain w where w: "minor_units_to_amount X n ?c = Inr \<lparr>amt_value = w, amt_currency = ?c\<rparr>"
    "val w = of_nat n / 10 ^ scale_exp X ?c"
    using minor_units_to_amount_exact [OF laws(1-3) e \<open>n < 2 ^ 95 - 1\<close>] by blast
  have "ledger_id_new (ledger_id_to_u32 (tr_ledger_id t)) = Inr (tr_ledger_id t)"
    using l by (simp add: ledger_id_new_def ledger_id_to_u32_def)
  then show ?thesis
    using a w val i currency_of_user_data_numeric [OF laws(4)]
    by (simp add: domain_transfer_to_tb_def tb_transfer_to_blazil_def Let_def transfer_from_ledger_def
        id_roundtrips)
qed

theorem tb_transfer_roundtrip_witness:
  "\<exists>tb t'. domain_transfer_to_tb ref_externs (ex_transfer 7 1 2 500) = Inr tb \<and> tbt_amount tb = 500 \<and>
     tb_transfer_to_blazil ref_externs (Timestamp 0) tb = Inr t' \<and>
     tr_id t' = UuidId (replicate 15 0 @ [7]) \<and> rd_val (amt_value (tr_amount t')) = 5"
proof -
  let ?t = "ex_transfer 7 1 2 500"
  have scale: "currency_scale ref_externs USD = 100" by (simp add: currency_scale_def)
  have t: "length (as_uuid (tr_id ?t)) = 16" "ledger_id_value (tr_ledger_id ?t) \<noteq> 0"
    "c_code ref_externs (amt_currency (tr_amount ?t)) \<noteq> ''ETH''"
    "rd_val (amt_value (tr_amount ?t)) *
       of_nat (unat (currency_scale ref_externs (amt_currency (tr_amount ?t)))) = of_nat 500"
    "d_scale ref_externs (amt_value (tr_amount ?t)) \<le> scale_exp ref_externs (amt_currency (tr_amount ?t))"
    "(500 :: nat) < 2 ^ 69"
    by (simp_all add: ex_transfer_def as_uuid_def LedgerId_USD_def scale scale_exp_def rd_val_def)
  from tb_transfer_roundtrip [OF ref_laws(1-3,5) t, of "Timestamp 0"] show ?thesis
    by (auto simp: ex_transfer_def rd_val_def)
qed

text \<open>
  The test for ``already committed'' is a substring test on the \<^verbatim>\<open>Debug\<close> text of the error kind,
  so the kinds by which TigerBeetle reports that a different transfer has the id are accepted
  as successes as well.
\<close>

lemma tb_exists_with_different_amount_ok:
  "tb_api_result [(0, ''ExistsWithDifferentAmount'')] 0 i = Inr i"
  by (simp add: tb_api_result_def)

end
