(* ===== verification/Blz_Event.thy ===== *)
theory Blz_Event
  imports Blz_Ledger
begin

text \<open>
  \<^verbatim>\<open>core/engine/src/event.rs\<close>: the event that flows through the pipeline, its flag byte and
  the result recorded for a sequence number.
\<close>

section \<open>Flags\<close>

datatype event_flags = EventFlags (ef_byte: u8)

definition RISK_CHECK :: u8 where "RISK_CHECK = 0b00000001"
definition PENDING :: u8 where "PENDING = 0b00000010"
definition SKIP_PUBLISH :: u8 where "SKIP_PUBLISH = 0b00000100"
definition POSTED :: u8 where "POSTED = 0b00001000"
definition VOIDED :: u8 where "VOIDED = 0b00010000"

definition flags_from_raw :: "u8 \<Rightarrow> event_flags" where
  "flags_from_raw byte = EventFlags byte"

definition flags_to_raw :: "event_flags \<Rightarrow> u8" where
  "flags_to_raw f = ef_byte f"

definition flags_default :: event_flags where
  "flags_default = EventFlags 0"

definition requires_risk_check :: "event_flags \<Rightarrow> bool" where
  "requires_risk_check f \<longleftrightarrow> ef_byte f AND RISK_CHECK \<noteq> 0"

definition set_requires_risk_check :: "bool \<Rightarrow> event_flags \<Rightarrow> event_flags" where
  "set_requires_risk_check v f =
     EventFlags (if v then ef_byte f OR RISK_CHECK else ef_byte f AND NOT RISK_CHECK)"

definition is_pending :: "event_flags \<Rightarrow> bool" where
  "is_pending f \<longleftrightarrow> ef_byte f AND PENDING \<noteq> 0"

definition set_is_pending :: "bool \<Rightarrow> event_flags \<Rightarrow> event_flags" where
  "set_is_pending v f =
     EventFlags (if v then ef_byte f OR PENDING else ef_byte f AND NOT PENDING)"

definition skip_publish :: "event_flags \<Rightarrow> bool" where
  "skip_publish f \<longleftrightarrow> ef_byte f AND SKIP_PUBLISH \<noteq> 0"

definition set_skip_publish :: "bool \<Rightarrow> event_flags \<Rightarrow> event_flags" where
  "set_skip_publish v f =
     EventFlags (if v then ef_byte f OR SKIP_PUBLISH else ef_byte f AND NOT SKIP_PUBLISH)"

definition is_posted :: "event_flags \<Rightarrow> bool" where
  "is_posted f \<longleftrightarrow> ef_byte f AND POSTED \<noteq> 0"

definition set_is_posted :: "bool \<Rightarrow> event_flags \<Rightarrow> event_flags" where
  "set_is_posted v f = EventFlags (if v then ef_byte f OR POSTED else ef_byte f AND NOT POSTED)"

definition is_voided :: "event_flags \<Rightarrow> bool" where
  "is_voided f \<longleftrightarrow> ef_byte f AND VOIDED \<noteq> 0"

definition set_is_voided :: "bool \<Rightarrow> event_flags \<Rightarrow> event_flags" where
  "set_is_voided v f = EventFlags (if v then ef_byte f OR VOIDED else ef_byte f AND NOT VOIDED)"

section \<open>Results and events\<close>

datatype transaction_result =
    Committed (res_transfer_id: transfer_id) (res_timestamp: timestamp)
  | Rejected (res_reason: blazer_error)

record transaction_event =
  ev_sequence :: i64
  ev_transaction_id :: transaction_id
  ev_debit_account_id :: account_id
  ev_credit_account_id :: account_id
  ev_amount_units :: u64
  ev_ingestion_timestamp :: timestamp
  ev_ledger_id :: ledger_id
  ev_code :: u16
  ev_flags :: event_flags
  ev_pending_transfer_id :: transfer_id

definition transaction_event_new ::
  "timestamp \<Rightarrow> transaction_id \<Rightarrow> account_id \<Rightarrow> account_id \<Rightarrow> u64 \<Rightarrow> ledger_id \<Rightarrow> u16 \<Rightarrow> transaction_event" where
  "transaction_event_new now i debit credit units ledger code =
     \<lparr>ev_sequence = -1, ev_transaction_id = i, ev_debit_account_id = debit,
      ev_credit_account_id = credit, ev_amount_units = units, ev_ingestion_timestamp = now,
      ev_ledger_id = ledger, ev_code = code, ev_flags = flags_default,
      ev_pending_transfer_id = from_bytes (replicate 16 0)\<rparr>"

section \<open>Lemmas\<close>

text \<open>Setting or clearing one single-bit mask of a byte, and reading another.\<close>

lemma mask_test_bit: "x AND 2 ^ n \<noteq> 0 \<longleftrightarrow> bit x n" for x :: u8
  by (simp add: and_exp_eq_0_iff_not_bit)

lemma flag_masks:
  "RISK_CHECK = 2 ^ 0" "PENDING = 2 ^ 1" "SKIP_PUBLISH = 2 ^ 2"
  "POSTED = 2 ^ 3" "VOIDED = 2 ^ 4"
  by (simp_all add: RISK_CHECK_def PENDING_def SKIP_PUBLISH_def POSTED_def VOIDED_def)

lemma mask_set_bit:
  "i < 8 \<Longrightarrow> bit (x OR 2 ^ n) i \<longleftrightarrow> i = n \<or> bit x i"
  "i < 8 \<Longrightarrow> bit (x AND NOT (2 ^ n)) i \<longleftrightarrow> i \<noteq> n \<and> bit x i" for x :: u8
  by (auto simp: bit_or_iff bit_and_iff bit_not_iff bit_exp_iff)

lemma flag_getters:
  "requires_risk_check f \<longleftrightarrow> bit (ef_byte f) 0" "is_pending f \<longleftrightarrow> bit (ef_byte f) 1"
  "skip_publish f \<longleftrightarrow> bit (ef_byte f) 2" "is_posted f \<longleftrightarrow> bit (ef_byte f) 3"
  "is_voided f \<longleftrightarrow> bit (ef_byte f) 4"
  unfolding requires_risk_check_def is_pending_def skip_publish_def is_posted_def is_voided_def
    flag_masks by (rule mask_test_bit)+

lemma flag_setters:
  assumes "i < 8"
  shows "bit (ef_byte (set_requires_risk_check v f)) i = (if i = 0 then v else bit (ef_byte f) i)"
    "bit (ef_byte (set_is_pending v f)) i = (if i = 1 then v else bit (ef_byte f) i)"
    "bit (ef_byte (set_skip_publish v f)) i = (if i = 2 then v else bit (ef_byte f) i)"
    "bit (ef_byte (set_is_posted v f)) i = (if i = 3 then v else bit (ef_byte f) i)"
    "bit (ef_byte (set_is_voided v f)) i = (if i = 4 then v else bit (ef_byte f) i)"
  unfolding set_requires_risk_check_def set_is_pending_def set_skip_publish_def set_is_posted_def
    set_is_voided_def flag_masks event_flags.sel
  using assms by (cases v; simp only: if_True if_False mask_set_bit; auto)+

section \<open>Properties\<close>

text \<open>
  The flag byte holds five independent flags: after any setter, its own getter returns the
  value set and each of the four other getters returns what it returned before; the three bits
  that carry no flag keep their value; and the raw byte round trips.
\<close>

theorem event_flags_independent:
  "requires_risk_check (set_requires_risk_check v f) = v \<and>
   (\<forall>g \<in> {is_pending, skip_publish, is_posted, is_voided}. g (set_requires_risk_check v f) = g f) \<and>
   is_pending (set_is_pending v f) = v \<and>
   (\<forall>g \<in> {requires_risk_check, skip_publish, is_posted, is_voided}. g (set_is_pending v f) = g f) \<and>
   skip_publish (set_skip_publish v f) = v \<and>
   (\<forall>g \<in> {requires_risk_check, is_pending, is_posted, is_voided}. g (set_skip_publish v f) = g f) \<and>
   is_posted (set_is_posted v f) = v \<and>
   (\<forall>g \<in> {requires_risk_check, is_pending, skip_publish, is_voided}. g (set_is_posted v f) = g f) \<and>
   is_voided (set_is_voided v f) = v \<and>
   (\<forall>g \<in> {requires_risk_check, is_pending, skip_publish, is_posted}. g (set_is_voided v f) = g f) \<and>
   (\<forall>h \<in> {set_requires_risk_check, set_is_pending, set_skip_publish, set_is_posted, set_is_voided}.
      drop_bit 5 (flags_to_raw (h v f)) = drop_bit 5 (flags_to_raw f)) \<and>
   flags_from_raw (flags_to_raw f) = f"
proof -
  have hi: "drop_bit 5 (ef_byte (h v f)) = drop_bit 5 (ef_byte f)"
    if "\<And>i. i < 8 \<Longrightarrow> bit (ef_byte (h v f)) i = (if i = n then v else bit (ef_byte f) i)" "n < 5"
    for h :: "bool \<Rightarrow> event_flags \<Rightarrow> event_flags" and n
  proof (rule bit_word_eqI)
    fix k
    show "bit (drop_bit 5 (ef_byte (h v f))) k = bit (drop_bit 5 (ef_byte f)) k"
      using that bit_imp_le_length [of "ef_byte (h v f)" "5 + k"] bit_imp_le_length [of "ef_byte f" "5 + k"]
      by (auto simp: bit_drop_bit_eq)
  qed
  show ?thesis
    unfolding flag_getters flags_to_raw_def flags_from_raw_def
    by (simp add: flag_setters hi [where n = 0] hi [where n = 1] hi [where n = 2] hi [where n = 3]
        hi [where n = 4])
qed

theorem event_flags_independent_witness:
  "is_pending (set_is_voided True (EventFlags 2)) \<and> is_voided (set_is_voided True (EventFlags 2))"
  using event_flags_independent [of True "EventFlags 2"]
  by (simp add: is_pending_def PENDING_def)

end
