(* ===== verification/Blz_Ring.thy ===== *)
theory Blz_Ring
  imports Blz_Event
begin

text \<open>
  The pre-allocated rings of the engine: \<^verbatim>\<open>core/engine/src/sequence.rs\<close>, \<^verbatim>\<open>ring_buffer.rs\<close>,
  \<^verbatim>\<open>generic_ring_buffer.rs\<close> and \<^verbatim>\<open>result_ring.rs\<close>. An atomic counter is its current value and
  each atomic operation is one function; the raw slot pointer that \<^verbatim>\<open>get_mut\<close> hands out is a
  read (\<open>ring_get\<close>) or a write (\<open>ring_put\<close>) of the slot. \<^verbatim>\<open>RingBuffer\<close> and \<^verbatim>\<open>GenericRingBuffer<T>\<close>
  have the same fields; the record \<open>'e ring\<close> is both, and they differ in \<^verbatim>\<open>new\<close> and
  \<^verbatim>\<open>publish\<close>.
\<close>

section \<open>Sequences (sequence.rs)\<close>

definition INITIAL_VALUE :: i64 where "INITIAL_VALUE = -1"

definition sequence_increment :: "i64 \<Rightarrow> i64 \<times> i64" where
  "sequence_increment v = (wrap_i64 (v + 1), wrap_i64 (v + 1))"

section \<open>Ring buffers (ring\_buffer.rs, generic\_ring\_buffer.rs)\<close>

record 'e ring =
  rb_slots :: "'e list"
  rb_capacity :: usize
  rb_mask :: usize
  rb_claim :: i64
  rb_cursor :: i64
  rb_gates :: "i64 list"

definition DEFAULT_CAPACITY :: usize where "DEFAULT_CAPACITY = 1024 * 1024"

definition is_power_of_two :: "usize \<Rightarrow> bool" where
  "is_power_of_two n \<longleftrightarrow> n \<noteq> 0 \<and> n AND (n - 1) = 0"

text \<open>
  \<open>default_event\<close> draws three random UUIDs and reads the clock; \<open>fresh k\<close> is what it sees for
  slot \<open>k\<close>.
\<close>

definition default_event :: "timestamp \<times> uuid_bytes \<times> uuid_bytes \<times> uuid_bytes \<Rightarrow> transaction_event" where
  "default_event f =
     (case f of (now, u1, u2, u3) \<Rightarrow>
        transaction_event_new now (id64_new u1) (id64_new u2) (id64_new u3) 0 LedgerId_USD 0)"

definition ring_buffer_new ::
  "(nat \<Rightarrow> timestamp \<times> uuid_bytes \<times> uuid_bytes \<times> uuid_bytes) \<Rightarrow> usize \<Rightarrow>
   transaction_event ring blazer_result" where
  "ring_buffer_new fresh capacity =
     (if \<not> is_power_of_two capacity
      then Inl (ValidationError (''RingBuffer capacity must be a power of two, got '' @ show_nat capacity))
      else Inr \<lparr>rb_slots = map (\<lambda>k. default_event (fresh k)) [0..<capacity], rb_capacity = capacity,
                rb_mask = capacity - 1, rb_claim = INITIAL_VALUE, rb_cursor = INITIAL_VALUE,
                rb_gates = []\<rparr>)"

definition generic_ring_buffer_new :: "'e \<Rightarrow> usize \<Rightarrow> 'e ring blazer_result" where
  "generic_ring_buffer_new dflt capacity =
     (if \<not> is_power_of_two capacity
      then Inl (ValidationError
             (''GenericRingBuffer capacity must be a power of two, got '' @ show_nat capacity))
      else Inr \<lparr>rb_slots = replicate capacity dflt, rb_capacity = capacity, rb_mask = capacity - 1,
                rb_claim = INITIAL_VALUE, rb_cursor = INITIAL_VALUE, rb_gates = []\<rparr>)"

definition next_sequence :: "'e ring \<Rightarrow> 'e ring \<times> i64" where
  "next_sequence r = (let (v, s) = sequence_increment (rb_claim r) in (r\<lparr>rb_claim := v\<rparr>, s))"

definition ring_publish :: "'e ring \<Rightarrow> i64 \<Rightarrow> 'e ring" where
  "ring_publish r s = r\<lparr>rb_cursor := s\<rparr>"

definition generic_publish :: "'e ring \<Rightarrow> i64 \<Rightarrow> 'e ring" where
  "generic_publish r s = r\<lparr>rb_cursor := max (rb_cursor r) s\<rparr>"

definition ring_index :: "'e ring \<Rightarrow> i64 \<Rightarrow> usize" where
  "ring_index r s = as_usize s AND rb_mask r"

definition ring_get :: "'e ring \<Rightarrow> i64 \<Rightarrow> 'e" where
  "ring_get r s = rb_slots r ! ring_index r s"

definition ring_put :: "'e ring \<Rightarrow> i64 \<Rightarrow> 'e \<Rightarrow> 'e ring" where
  "ring_put r s e = r\<lparr>rb_slots := (rb_slots r)[ring_index r s := e]\<rparr>"

definition gating_sequence :: "'e ring \<Rightarrow> i64 option" where
  "gating_sequence r = (case rb_gates r of [] \<Rightarrow> None | g # _ \<Rightarrow> Some g)"

definition add_gating_sequence :: "'e ring \<Rightarrow> 'e ring \<times> nat" where
  "add_gating_sequence r = (r\<lparr>rb_gates := rb_gates r @ [INITIAL_VALUE]\<rparr>, length (rb_gates r))"

definition set_gate :: "'e ring \<Rightarrow> nat \<Rightarrow> i64 \<Rightarrow> 'e ring" where
  "set_gate r w v = r\<lparr>rb_gates := (rb_gates r)[w := v]\<rparr>"

definition has_available_capacity :: "'e ring \<Rightarrow> bool" where
  "has_available_capacity r =
     (if rb_gates r = [] then True
      else let next_claim = wrap_i64 (rb_claim r + 1); min_gate = Min (set (rb_gates r))
           in wrap_i64 (next_claim - min_gate) < wrap_i64 (int (rb_capacity r)))"

section \<open>The result ring (result\_ring.rs)\<close>

text \<open>
  The status bytes are 0 (pending) and 1 (committed). \<open>uninit\<close> is the content of the
  uninitialised id memory: no result may depend on it.
\<close>

definition RR_PENDING :: u8 where "RR_PENDING = 0"
definition RR_COMMITTED :: u8 where "RR_COMMITTED = 1"

record result_ring =
  rr_status :: "u8 list"
  rr_transfer_ids :: "uuid_bytes list"
  rr_mask :: usize

definition result_ring_new :: "(nat \<Rightarrow> uuid_bytes) \<Rightarrow> usize \<Rightarrow> result_ring option" where
  "result_ring_new uninit cap =
     (if is_power_of_two cap
      then Some \<lparr>rr_status = replicate cap RR_PENDING, rr_transfer_ids = map uninit [0..<cap],
                 rr_mask = cap - 1\<rparr>
      else None)"

definition rr_index :: "result_ring \<Rightarrow> i64 \<Rightarrow> usize" where
  "rr_index R s = as_usize s AND rr_mask R"

definition rr_insert :: "result_ring \<Rightarrow> i64 \<Rightarrow> transfer_id \<Rightarrow> result_ring" where
  "rr_insert R s i =
     (let idx = rr_index R s
      in R\<lparr>rr_transfer_ids := (rr_transfer_ids R)[idx := as_uuid i],
           rr_status := (rr_status R)[idx := RR_COMMITTED]\<rparr>)"

definition rr_try_remove :: "result_ring \<Rightarrow> i64 \<Rightarrow> result_ring \<times> transfer_id option" where
  "rr_try_remove R s =
     (let idx = rr_index R s
      in if rr_status R ! idx = RR_COMMITTED
         then (R\<lparr>rr_status := (rr_status R)[idx := RR_PENDING]\<rparr>,
               Some (from_bytes (rr_transfer_ids R ! idx)))
         else (R, None))"

definition rr_contains :: "result_ring \<Rightarrow> i64 \<Rightarrow> bool" where
  "rr_contains R s \<longleftrightarrow> rr_status R ! rr_index R s = RR_COMMITTED"

section \<open>Sequence numbers address slots without aliasing\<close>

definition valid_seq :: "i64 \<Rightarrow> bool" where
  "valid_seq s \<longleftrightarrow> 0 \<le> s \<and> s < 2 ^ 63"

text \<open>
  What the users of a ring rely on: a sequence number names a slot of the ring, and two sequence
  numbers less than the capacity apart never share a slot.
\<close>

locale slot_ring =
  fixes ok :: "'r \<Rightarrow> bool" and slot :: "'r \<Rightarrow> i64 \<Rightarrow> usize" and cap :: "'r \<Rightarrow> usize"
  assumes slot_bound: "ok r \<Longrightarrow> slot r s < cap r"
    and slot_inj: "ok r \<Longrightarrow> valid_seq s \<Longrightarrow> valid_seq t \<Longrightarrow> \<bar>s - t\<bar> < int (cap r) \<Longrightarrow>
      slot r s = slot r t \<Longrightarrow> s = t"
begin

lemma update_other:
  assumes "ok r" "valid_seq s" "valid_seq t" "\<bar>s - t\<bar> < int (cap r)" "s \<noteq> t"
  shows "xs[slot r s := x] ! slot r t = xs ! slot r t"
  using slot_inj [OF assms(1-4)] assms(5) by (metis nth_list_update_neq)

lemma update_same:
  assumes "ok r" "length xs = cap r"
  shows "xs[slot r s := x] ! slot r s = x"
  using slot_bound [OF assms(1)] assms(2) by simp

end

lemma as_usize_valid: "valid_seq s \<Longrightarrow> as_usize s = nat s"
  by (simp add: valid_seq_def as_usize_nonneg in_i64_def)

lemma mask_slot_inj:
  assumes "pow2 n" "valid_seq s" "valid_seq t" "\<bar>s - t\<bar> < int n"
    "as_usize s AND (n - 1) = as_usize t AND (n - 1)"
  shows "s = t"
proof -
  have "nat s mod n = nat t mod n"
    using assms(5) unfolding as_usize_valid [OF assms(2)] as_usize_valid [OF assms(3)]
      and_mask_mod [OF assms(1)] .
  then have "s mod int n = t mod int n"
    using assms(2,3) by (metis int_nat_eq valid_seq_def zmod_int)
  then have "int n dvd s - t" by (simp add: mod_eq_dvd_iff)
  with assms(4) show ?thesis using zdvd_imp_le [of "int n" "\<bar>s - t\<bar>"] by (cases "s = t") auto
qed

definition ring_ok :: "'e ring \<Rightarrow> bool" where
  "ring_ok r \<longleftrightarrow> pow2 (rb_capacity r) \<and> rb_capacity r < 2 ^ 63 \<and> rb_mask r = rb_capacity r - 1 \<and>
     length (rb_slots r) = rb_capacity r"

definition rr_ok :: "result_ring \<Rightarrow> bool" where
  "rr_ok R \<longleftrightarrow> pow2 (length (rr_status R)) \<and> rr_mask R = length (rr_status R) - 1 \<and>
     length (rr_transfer_ids R) = length (rr_status R)"

interpretation rb: slot_ring ring_ok ring_index rb_capacity
proof
  show "ring_index r s < rb_capacity r" if "ring_ok r" for r :: "'a ring" and s
    using that unfolding ring_ok_def ring_index_def by (metis and_pred_less pow2_pos)
  show "s = t" if "ring_ok r" "valid_seq s" "valid_seq t" "\<bar>s - t\<bar> < int (rb_capacity r)"
    "ring_index r s = ring_index r t" for r :: "'a ring" and s t
    using mask_slot_inj [of "rb_capacity r" s t] that by (simp add: ring_ok_def ring_index_def)
qed

interpretation rr: slot_ring rr_ok rr_index "\<lambda>R. length (rr_status R)"
proof
  show "rr_index R s < length (rr_status R)" if "rr_ok R" for R s
    using that unfolding rr_ok_def rr_index_def by (metis and_pred_less pow2_pos)
  show "s = t" if "rr_ok R" "valid_seq s" "valid_seq t" "\<bar>s - t\<bar> < int (length (rr_status R))"
    "rr_index R s = rr_index R t" for R s t
    using mask_slot_inj [of "length (rr_status R)" s t] that by (simp add: rr_ok_def rr_index_def)
qed

section \<open>Lemmas\<close>

lemma is_power_of_two_pow2: "is_power_of_two n \<longleftrightarrow> pow2 n"
  unfolding is_power_of_two_def using and_pred_zero_iff [of n] pow2_pos [of n] by auto

lemma ring_new_ok:
  "ring_buffer_new fresh n = Inr r \<Longrightarrow> n < 2 ^ 63 \<Longrightarrow> ring_ok r"
  "generic_ring_buffer_new d n = Inr g \<Longrightarrow> n < 2 ^ 63 \<Longrightarrow> ring_ok g"
  by (auto simp: ring_buffer_new_def generic_ring_buffer_new_def is_power_of_two_pow2 ring_ok_def
      split: if_splits)

lemma ring_ok_updates [simp]:
  "ring_ok (ring_put r s e) = ring_ok r" "ring_ok (set_gate r w v) = ring_ok r"
  "ring_ok (ring_publish r s) = ring_ok r" "ring_ok (generic_publish r s) = ring_ok r"
  "ring_ok (r\<lparr>rb_claim := v\<rparr>) = ring_ok r" "ring_ok (r\<lparr>rb_cursor := v\<rparr>) = ring_ok r"
  "ring_ok (r\<lparr>rb_gates := gs\<rparr>) = ring_ok r"
  by (simp_all add: ring_ok_def ring_put_def set_gate_def ring_publish_def generic_publish_def)

lemma ring_get_put:
  assumes "ring_ok r" "valid_seq s"
  shows "ring_get (ring_put r s e) s = e"
    "valid_seq t \<Longrightarrow> \<bar>s - t\<bar> < int (rb_capacity r) \<Longrightarrow> s \<noteq> t \<Longrightarrow> ring_get (ring_put r s e) t = ring_get r t"
proof -
  show "ring_get (ring_put r s e) s = e"
    using rb.update_same [OF assms(1), of "rb_slots r"] assms(1)
    by (simp add: ring_get_def ring_put_def ring_index_def ring_ok_def)
  show "ring_get (ring_put r s e) t = ring_get r t"
    if "valid_seq t" "\<bar>s - t\<bar> < int (rb_capacity r)" "s \<noteq> t"
    using rb.update_other [OF assms that, of "rb_slots r"]
    by (simp add: ring_get_def ring_put_def ring_index_def)
qed

lemma rr_ok_updates [simp]:
  "rr_ok (rr_insert R s i) = rr_ok R" "rr_ok (fst (rr_try_remove R s)) = rr_ok R"
  "length (rr_status (rr_insert R s i)) = length (rr_status R)"
  "length (rr_status (fst (rr_try_remove R s))) = length (rr_status R)"
  "rr_index (rr_insert R s i) = rr_index R" "rr_index (fst (rr_try_remove R s)) = rr_index R"
  by (auto simp: rr_ok_def rr_insert_def rr_try_remove_def rr_index_def Let_def fun_eq_iff)

text \<open>The map a result ring stands for, on a window of sequence numbers that starts at \<open>lo\<close>.\<close>

definition in_window :: "result_ring \<Rightarrow> i64 \<Rightarrow> i64 \<Rightarrow> bool" where
  "in_window R lo s \<longleftrightarrow> valid_seq s \<and> lo \<le> s \<and> s < lo + int (length (rr_status R))"

definition rr_map :: "result_ring \<Rightarrow> i64 \<Rightarrow> i64 \<rightharpoonup> transfer_id" where
  "rr_map R lo s =
     (if in_window R lo s \<and> rr_contains R s
      then Some (from_bytes (rr_transfer_ids R ! rr_index R s)) else None)"

lemma in_window_updates [simp]:
  "in_window (rr_insert R s i) lo t = in_window R lo t"
  "in_window (fst (rr_try_remove R s)) lo t = in_window R lo t"
  by (simp_all add: in_window_def)

lemma in_window_close:
  "in_window R lo s \<Longrightarrow> in_window R lo t \<Longrightarrow> \<bar>s - t\<bar> < int (length (rr_status R))"
  by (auto simp: in_window_def)

lemma rr_insert_map:
  assumes R: "rr_ok R" and s: "in_window R lo s"
  shows "rr_map (rr_insert R s i) lo = (rr_map R lo)(s \<mapsto> i)"
proof
  fix t
  have vs: "valid_seq s" using s by (simp add: in_window_def)
  have len: "length (rr_transfer_ids R) = length (rr_status R)" using R by (simp add: rr_ok_def)
  show "rr_map (rr_insert R s i) lo t = ((rr_map R lo)(s \<mapsto> i)) t"
  proof (cases "t = s")
    case True
    have "(rr_status R)[rr_index R s := RR_COMMITTED] ! rr_index R s = RR_COMMITTED"
      "(rr_transfer_ids R)[rr_index R s := as_uuid i] ! rr_index R s = as_uuid i"
      using rr.slot_bound [OF R] len by simp_all
    then show ?thesis
      using True s by (simp add: rr_map_def rr_contains_def)
        (simp add: rr_insert_def Let_def from_bytes_def as_uuid_def)
  next
    case False
    show ?thesis
    proof (cases "in_window R lo t")
      case True
      have "valid_seq t" using True by (simp add: in_window_def)
      then have "rr_index R s \<noteq> rr_index R t"
        using rr.slot_inj [OF R vs _ in_window_close [OF s True]] False by blast
      then show ?thesis
        using False by (simp add: rr_map_def rr_contains_def) (simp add: rr_insert_def Let_def)
    qed (use False in \<open>simp add: rr_map_def\<close>)
  qed
qed

lemma rr_try_remove_map:
  assumes R: "rr_ok R" and s: "in_window R lo s"
  shows "snd (rr_try_remove R s) = rr_map R lo s"
    "rr_map (fst (rr_try_remove R s)) lo = (rr_map R lo)(s := None)"
proof -
  show "snd (rr_try_remove R s) = rr_map R lo s"
    using s by (simp add: rr_try_remove_def rr_map_def rr_contains_def Let_def)
  have vs: "valid_seq s" using s by (simp add: in_window_def)
  have ids: "rr_transfer_ids (fst (rr_try_remove R s)) = rr_transfer_ids R"
    by (simp add: rr_try_remove_def Let_def)
  show "rr_map (fst (rr_try_remove R s)) lo = (rr_map R lo)(s := None)"
  proof
    fix t
    show "rr_map (fst (rr_try_remove R s)) lo t = ((rr_map R lo)(s := None)) t"
    proof (cases "t = s")
      case True
      have "(rr_status R)[rr_index R s := RR_PENDING] ! rr_index R s = RR_PENDING"
        using rr.slot_bound [OF R] by simp
      then show ?thesis
        using True by (simp add: rr_map_def rr_contains_def)
          (auto simp: rr_try_remove_def Let_def RR_PENDING_def RR_COMMITTED_def)
    next
      case False
      show ?thesis
      proof (cases "in_window R lo t")
        case True
        have "valid_seq t" using True by (simp add: in_window_def)
        then have "rr_index R s \<noteq> rr_index R t"
          using rr.slot_inj [OF R vs _ in_window_close [OF s True]] False by blast
        then show ?thesis
          using False by (simp add: rr_map_def rr_contains_def ids) (simp add: rr_try_remove_def Let_def)
      qed (use False in \<open>simp add: rr_map_def\<close>)
    qed
  qed
qed

lemma result_ring_new_empty:
  assumes "result_ring_new uninit n = Some R"
  shows "rr_ok R" "length (rr_status R) = n" "rr_map R lo = Map.empty"
proof -
  have n: "pow2 n" and R: "R = \<lparr>rr_status = replicate n RR_PENDING, rr_transfer_ids = map uninit [0..<n],
                 rr_mask = n - 1\<rparr>"
    using assms by (auto simp: result_ring_new_def is_power_of_two_pow2 split: if_splits)
  show ok: "rr_ok R" "length (rr_status R) = n" using n by (simp_all add: R rr_ok_def)
  have "\<not> rr_contains R s" for s
    using rr.slot_bound [OF ok(1)] by (simp add: rr_contains_def R RR_PENDING_def RR_COMMITTED_def)
  then show "rr_map R lo = Map.empty" by (auto simp: rr_map_def in_window_def)
qed

lemma rr_map_advance:
  assumes R: "rr_ok R" and lo: "0 \<le> lo" "lo \<le> lo'" "lo' < lo + int (length (rr_status R))"
    and empty: "\<forall>s. lo \<le> s \<and> s < lo' \<longrightarrow> rr_map R lo s = None"
    and bound: "lo' + int (length (rr_status R)) \<le> 2 ^ 63"
  shows "rr_map R lo' = rr_map R lo"
proof
  fix s
  let ?n = "int (length (rr_status R))"
  have n: "pow2 (length (rr_status R))" using R by (simp add: rr_ok_def)
  consider "s < lo" | "lo \<le> s" "s < lo'" | "lo' \<le> s" "s < lo + ?n" | "lo + ?n \<le> s" "s < lo' + ?n"
    | "lo' + ?n \<le> s" by linarith
  then show "rr_map R lo' s = rr_map R lo s"
  proof cases
    case 2
    then show ?thesis using empty by (simp add: rr_map_def in_window_def)
  next
    case 4
    have v: "valid_seq s" "valid_seq (s - ?n)" "in_window R lo (s - ?n)"
      using 4 lo bound by (auto simp: valid_seq_def in_window_def)
    have "nat s mod length (rr_status R) = nat (s - ?n) mod length (rr_status R)"
      using v by (simp add: valid_seq_def nat_diff_distrib le_mod_geq)
    then have "rr_index R s = rr_index R (s - ?n)"
      using R v by (simp only: rr_ok_def rr_index_def as_usize_valid and_mask_mod [OF n])
    moreover have "\<not> rr_contains R (s - ?n)"
    proof -
      have "rr_map R lo (s - ?n) = None" using empty 4 by auto
      then show ?thesis using v(3) by (simp add: rr_map_def split: if_splits)
    qed
    ultimately show ?thesis using 4 by (simp add: rr_map_def rr_contains_def in_window_def)
  qed (use lo in \<open>auto simp: rr_map_def in_window_def\<close>)
qed

section \<open>Properties\<close>



end
