(* ===== verification/Blz_Pipeline.thy ===== *)
theory Blz_Pipeline
  imports Blz_Ring
begin

text \<open>
  \<^verbatim>\<open>core/engine/src/pipeline.rs\<close>: the producer side (\<^verbatim>\<open>publish_event\<close>) and the worker threads (\<^verbatim>\<open>PipelineRunner::run\<close>).

  The sequential code is a set of functions. The concurrent execution of one producer and any
  number of workers is the step relation \<open>pipe_step\<close>: the producer's claim, slot write and
  cursor store are separate steps, and so are a worker's poll of the cursor, the processing of
  one event, and the store to its gating sequence. Each step performs at most one access to a
  location another thread writes, except that the capacity check reads all gates at once;
  gates only grow, so a check on older values is stricter.

  The handlers are a parameter: \<open>on_event w h e s b\<close> is the effect of calling the handlers of
  worker \<open>w\<close> in order on the event in slot \<open>s\<close> with the \<^verbatim>\<open>end_of_batch\<close> flag \<open>b\<close>, on the state
  \<open>h\<close> the handlers share.
\<close>

section \<open>Gates and publishing\<close>

fun add_gates :: "nat \<Rightarrow> 'e ring \<Rightarrow> 'e ring" where
  "add_gates 0 r = r"
| "add_gates (Suc n) r = add_gates n (fst (add_gating_sequence r))"

definition publish_event :: "'e ring \<Rightarrow> 'e \<Rightarrow> 'e ring \<times> i64 blazer_result" where
  "publish_event r event =
     (if \<not> has_available_capacity r then (r, Inl (RingBufferFull 1))
      else let (r1, s) = next_sequence r
           in (ring_publish (ring_put r1 s event) s, Inr s))"

section \<open>The worker loop\<close>

definition runner_start :: "nat \<Rightarrow> i64" where
  "runner_start shard_id = int shard_id - 1"

text \<open>
  One turn of the inner \<^verbatim>\<open>while\<close> loop: the next sequence of this worker with its
  \<^verbatim>\<open>end_of_batch\<close> flag, or \<open>None\<close> when that lies beyond the cursor (the loop then restores
  \<^verbatim>\<open>consumer_seq\<close> and breaks).
\<close>

definition runner_next :: "nat \<Rightarrow> i64 \<Rightarrow> i64 \<Rightarrow> (i64 \<times> bool) option" where
  "runner_next num_shards cursor consumer_seq =
     (let s = wrap_i64 (consumer_seq + int num_shards)
      in if s > cursor then None
         else Some (s, s \<ge> wrap_i64 (cursor - (int num_shards - 1))))"

section \<open>Concurrent execution\<close>

text \<open>
  The producer is idle, has claimed a sequence for an event, or has written the slot. A worker
  has its \<^verbatim>\<open>consumer_seq\<close>, the cursor value of the batch it is in, and whether its thread has
  ended. \<open>p_log\<close> and \<open>w_trace\<close> record history: the events published so far, and what the
  worker handed to its handlers.
\<close>

datatype 'e producer = P_Idle | P_Claimed i64 'e | P_Written i64 'e

record 'e worker =
  w_consumer :: i64
  w_batch :: "i64 option"
  w_stopped :: bool
  w_trace :: "(i64 \<times> 'e \<times> bool) list"

record ('e, 'h) pipe =
  p_ring :: "'e ring"
  p_producer :: "'e producer"
  p_workers :: "'e worker list"
  p_handlers :: 'h
  p_shutdown :: bool
  p_log :: "'e list"

definition worker_init :: "nat \<Rightarrow> 'e worker" where
  "worker_init w = \<lparr>w_consumer = runner_start w, w_batch = None, w_stopped = False, w_trace = []\<rparr>"

definition pipe_init :: "'e ring \<Rightarrow> nat \<Rightarrow> 'h \<Rightarrow> ('e, 'h) pipe" where
  "pipe_init r n h =
     \<lparr>p_ring = add_gates n r, p_producer = P_Idle, p_workers = map worker_init [0..<n],
      p_handlers = h, p_shutdown = False, p_log = []\<rparr>"

inductive pipe_step ::
  "(nat \<Rightarrow> 'h \<Rightarrow> 'e \<Rightarrow> i64 \<Rightarrow> bool \<Rightarrow> 'h \<times> 'e) \<Rightarrow> ('e, 'h) pipe \<Rightarrow> ('e, 'h) pipe \<Rightarrow> bool"
  for on_event where
  do_claim: "p_producer S = P_Idle \<Longrightarrow> has_available_capacity (p_ring S) \<Longrightarrow>
    next_sequence (p_ring S) = (r, s) \<Longrightarrow>
    pipe_step on_event S (S\<lparr>p_ring := r, p_producer := P_Claimed s e\<rparr>)"
| do_write: "p_producer S = P_Claimed s e \<Longrightarrow>
    pipe_step on_event S (S\<lparr>p_ring := ring_put (p_ring S) s e, p_producer := P_Written s e\<rparr>)"
| do_publish: "p_producer S = P_Written s e \<Longrightarrow>
    pipe_step on_event S
      (S\<lparr>p_ring := ring_publish (p_ring S) s, p_producer := P_Idle, p_log := p_log S @ [e]\<rparr>)"
| do_stop: "pipe_step on_event S (S\<lparr>p_shutdown := True\<rparr>)"
| do_enter: "w < length (p_workers S) \<Longrightarrow> W = p_workers S ! w \<Longrightarrow> \<not> w_stopped W \<Longrightarrow> w_batch W = None \<Longrightarrow>
    rb_cursor (p_ring S) > w_consumer W \<Longrightarrow>
    pipe_step on_event S
      (S\<lparr>p_workers := (p_workers S)[w := W\<lparr>w_batch := Some (rb_cursor (p_ring S))\<rparr>]\<rparr>)"
| do_exit: "w < length (p_workers S) \<Longrightarrow> W = p_workers S ! w \<Longrightarrow> \<not> w_stopped W \<Longrightarrow> w_batch W = None \<Longrightarrow>
    \<not> rb_cursor (p_ring S) > w_consumer W \<Longrightarrow> p_shutdown S \<Longrightarrow>
    pipe_step on_event S (S\<lparr>p_workers := (p_workers S)[w := W\<lparr>w_stopped := True\<rparr>]\<rparr>)"
| do_process: "w < length (p_workers S) \<Longrightarrow> W = p_workers S ! w \<Longrightarrow> w_batch W = Some cursor \<Longrightarrow>
    w_consumer W < cursor \<Longrightarrow>
    runner_next (length (p_workers S)) cursor (w_consumer W) = Some (s, b) \<Longrightarrow>
    e = ring_get (p_ring S) s \<Longrightarrow> on_event w (p_handlers S) e s b = (h', e') \<Longrightarrow>
    pipe_step on_event S
      (S\<lparr>p_ring := ring_put (p_ring S) s e', p_handlers := h',
         p_workers := (p_workers S)[w := W\<lparr>w_consumer := s, w_trace := w_trace W @ [(s, e, b)]\<rparr>]\<rparr>)"
| do_gate: "w < length (p_workers S) \<Longrightarrow> W = p_workers S ! w \<Longrightarrow> w_batch W = Some cursor \<Longrightarrow>
    \<not> w_consumer W < cursor \<or> runner_next (length (p_workers S)) cursor (w_consumer W) = None \<Longrightarrow>
    pipe_step on_event S
      (S\<lparr>p_ring := set_gate (p_ring S) w (w_consumer W),
         p_workers := (p_workers S)[w := W\<lparr>w_batch := None\<rparr>]\<rparr>)"

abbreviation pipe_reach ::
  "(nat \<Rightarrow> 'h \<Rightarrow> 'e \<Rightarrow> i64 \<Rightarrow> bool \<Rightarrow> 'h \<times> 'e) \<Rightarrow> ('e, 'h) pipe \<Rightarrow> ('e, 'h) pipe \<Rightarrow> bool" where
  "pipe_reach on_event \<equiv> (pipe_step on_event)\<^sup>*\<^sup>*"

section \<open>Invariant\<close>

definition claimed :: "'e producer \<Rightarrow> nat" where
  "claimed p = (case p of P_Idle \<Rightarrow> 0 | _ \<Rightarrow> 1)"

definition owns :: "nat \<Rightarrow> nat \<Rightarrow> i64 \<Rightarrow> bool" where
  "owns n w s \<longleftrightarrow> s mod int n = (int w - 1) mod int n"

definition trace_ok :: "'e list \<Rightarrow> nat \<Rightarrow> nat \<Rightarrow> (i64 \<times> 'e \<times> bool) list \<Rightarrow> bool" where
  "trace_ok es n w tr \<longleftrightarrow>
     (\<forall>k < length tr. fst (tr ! k) = int w - 1 + int n * int (Suc k) \<and> 0 \<le> fst (tr ! k) \<and>
        fst (tr ! k) < int (length es) \<and> fst (snd (tr ! k)) = es ! nat (fst (tr ! k)))"

definition worker_inv :: "'e ring \<Rightarrow> 'e list \<Rightarrow> nat \<Rightarrow> nat \<Rightarrow> i64 \<Rightarrow> 'e worker \<Rightarrow> bool" where
  "worker_inv r es n w g W \<longleftrightarrow>
     -1 \<le> g \<and> g \<le> w_consumer W \<and> w_consumer W \<le> max (int (length es) - 1) (int w - 1) \<and>
     w_consumer W = int w - 1 + int n * int (length (w_trace W)) \<and>
     (\<forall>c. w_batch W = Some c \<longrightarrow> c \<le> int (length es) - 1) \<and>
     rb_claim r - g < int (rb_capacity r) \<and>
     trace_ok es n w (w_trace W) \<and>
     (\<forall>s. owns n w s \<longrightarrow> w_consumer W < s \<longrightarrow> s < int (length es) \<longrightarrow> ring_get r s = es ! nat s)"

definition pipe_core :: "nat \<Rightarrow> ('e, 'h) pipe \<Rightarrow> bool" where
  "pipe_core n S \<longleftrightarrow>
     ring_ok (p_ring S) \<and> 0 < n \<and> length (p_workers S) = n \<and> length (rb_gates (p_ring S)) = n \<and>
     rb_cursor (p_ring S) = int (length (p_log S)) - 1 \<and>
     rb_claim (p_ring S) = rb_cursor (p_ring S) + int (claimed (p_producer S)) \<and>
     (\<forall>s e. p_producer S = P_Claimed s e \<longrightarrow> s = int (length (p_log S))) \<and>
     (\<forall>s e. p_producer S = P_Written s e \<longrightarrow>
        s = int (length (p_log S)) \<and> ring_get (p_ring S) s = e) \<and>
     (\<forall>w < n. worker_inv (p_ring S) (p_log S) n w (rb_gates (p_ring S) ! w) (p_workers S ! w))"

section \<open>The invariant holds in every reachable state\<close>

lemma add_gates_eq: "add_gates n r = r\<lparr>rb_gates := rb_gates r @ replicate n (-1)\<rparr>"
  by (induction n arbitrary: r)
     (simp_all add: add_gating_sequence_def INITIAL_VALUE_def replicate_app_Cons_same)

lemma ring_get_fields [simp]:
  "ring_get (r\<lparr>rb_claim := c\<rparr>) = ring_get r" "ring_get (r\<lparr>rb_cursor := c\<rparr>) = ring_get r"
  "ring_get (r\<lparr>rb_gates := gs\<rparr>) = ring_get r" "ring_get (set_gate r w v) = ring_get r"
  "ring_get (ring_publish r c) = ring_get r"
  by (simp_all add: ring_get_def ring_index_def fun_eq_iff set_gate_def ring_publish_def)

lemma ring_fields [simp]:
  "rb_capacity (ring_put r s e) = rb_capacity r" "rb_claim (ring_put r s e) = rb_claim r"
  "rb_cursor (ring_put r s e) = rb_cursor r" "rb_gates (ring_put r s e) = rb_gates r"
  "rb_capacity (set_gate r w v) = rb_capacity r" "rb_claim (set_gate r w v) = rb_claim r"
  "rb_cursor (set_gate r w v) = rb_cursor r" "rb_gates (set_gate r w v) = (rb_gates r)[w := v]"
  "rb_capacity (ring_publish r c) = rb_capacity r" "rb_claim (ring_publish r c) = rb_claim r"
  "rb_cursor (ring_publish r c) = c" "rb_gates (ring_publish r c) = rb_gates r"
  by (simp_all add: ring_put_def set_gate_def ring_publish_def)

lemma owns_unique:
  assumes "w < n" "w' < n" "owns n w s" "owns n w' s"
  shows "w = w'"
proof -
  have "(int w - 1) mod int n = (int w' - 1) mod int n" using assms by (simp add: owns_def)
  then have "int n dvd int w - int w'" by (simp add: mod_eq_dvd_iff)
  then show ?thesis
    using assms(1,2) zdvd_imp_le [of "int n" "\<bar>int w - int w'\<bar>"] by (cases "w = w'") auto
qed

lemma owns_consumer: "owns n w (int w - 1 + int n * k)"
  by (simp add: owns_def)

lemma worker_inv_cong:
  assumes "worker_inv r es n w g W" "rb_capacity r' = rb_capacity r" "rb_claim r' - g < int (rb_capacity r)"
    and "\<And>s. owns n w s \<Longrightarrow> w_consumer W < s \<Longrightarrow> s < int (length es) \<Longrightarrow> ring_get r' s = ring_get r s"
  shows "worker_inv r' es n w g W"
  using assms unfolding worker_inv_def by simp

lemma worker_inv_same: 
  "worker_inv r es n w g W \<Longrightarrow> rb_capacity r' = rb_capacity r \<Longrightarrow> rb_claim r' = rb_claim r \<Longrightarrow>
   ring_get r' = ring_get r \<Longrightarrow> worker_inv r' es n w g W"
  by (simp add: worker_inv_def)

lemma pipe_init_core:
  assumes "ring_ok r" "rb_gates r = []" "rb_claim r = -1" "rb_cursor r = -1" "0 < n"
  shows "pipe_core n (pipe_init r n h)"
proof -
  have "0 < rb_capacity r" using assms(1) pow2_pos by (simp add: ring_ok_def)
  then show ?thesis
    using assms
    by (auto simp: pipe_core_def pipe_init_def add_gates_eq claimed_def worker_inv_def worker_init_def
        runner_start_def trace_ok_def)
qed

text \<open>Available capacity keeps the claimed sequence within one lap of every gate.\<close>

lemma has_available_capacity_gate:
  assumes "has_available_capacity r" "ring_ok r" "g \<in> set (rb_gates r)"
    and "\<forall>g \<in> set (rb_gates r). -1 \<le> g \<and> g < 2 ^ 62" "-1 \<le> rb_claim r" "rb_claim r < 2 ^ 62"
  shows "rb_claim r + 1 - g < int (rb_capacity r)"
proof -
  let ?m = "Min (set (rb_gates r))"
  have ne: "rb_gates r \<noteq> []" using assms(3) by auto
  then have m: "?m \<in> set (rb_gates r)" "?m \<le> g" using assms(3) by auto
  have "in_i64 (rb_claim r + 1)" "in_i64 (rb_claim r + 1 - ?m)" "in_i64 (int (rb_capacity r))"
    using assms(2,4,5,6) m by (auto simp: in_i64_def ring_ok_def dest!: bspec [of _ _ ?m])
  then show ?thesis
    using assms(1) ne m(2) by (simp add: has_available_capacity_def Let_def)
qed

lemma trace_ok_log:
  assumes "trace_ok es n w tr"
  shows "trace_ok (es @ [e]) n w tr"
  unfolding trace_ok_def
proof (intro allI impI conjI)
  fix k assume k: "k < length tr"
  note a = assms [unfolded trace_ok_def, rule_format, OF k]
  show "fst (tr ! k) = int w - 1 + int n * int (Suc k)" using a by simp
  show "0 \<le> fst (tr ! k)" "fst (tr ! k) < int (length (es @ [e]))" using a by simp_all
  show "fst (snd (tr ! k)) = (es @ [e]) ! nat (fst (tr ! k))"
    using a by (simp add: nth_append nat_less_iff)
qed

lemma trace_ok_snoc:
  assumes "trace_ok es n w tr" "s = int w - 1 + int n * int (Suc (length tr))" "0 \<le> s" "s < int (length es)"
  shows "trace_ok es n w (tr @ [(s, es ! nat s, b)])"
  using assms unfolding trace_ok_def by (auto simp: nth_append less_Suc_eq)

lemma pipe_coreI:
  assumes "ring_ok (p_ring S)" "0 < n" "length (p_workers S) = n" "length (rb_gates (p_ring S)) = n"
    "rb_cursor (p_ring S) = int (length (p_log S)) - 1"
    "rb_claim (p_ring S) = int (length (p_log S)) - 1 + int (claimed (p_producer S))"
    "\<And>s e. p_producer S = P_Claimed s e \<Longrightarrow> s = int (length (p_log S))"
    "\<And>s e. p_producer S = P_Written s e \<Longrightarrow> s = int (length (p_log S)) \<and> ring_get (p_ring S) s = e"
    "\<And>w. w < n \<Longrightarrow> worker_inv (p_ring S) (p_log S) n w (rb_gates (p_ring S) ! w) (p_workers S ! w)"
  shows "pipe_core n S"
  using assms unfolding pipe_core_def by simp

lemma pipe_coreD:
  assumes "pipe_core n S"
  shows "ring_ok (p_ring S)" "0 < n" "length (p_workers S) = n" "length (rb_gates (p_ring S)) = n"
    "rb_cursor (p_ring S) = int (length (p_log S)) - 1"
    "rb_claim (p_ring S) = int (length (p_log S)) - 1 + int (claimed (p_producer S))"
    "p_producer S = P_Claimed s e \<Longrightarrow> s = int (length (p_log S))"
    "p_producer S = P_Written s e \<Longrightarrow> s = int (length (p_log S)) \<and> ring_get (p_ring S) s = e"
  using assms unfolding pipe_core_def by auto

lemma core_worker:
  "pipe_core n S \<Longrightarrow> w < n \<Longrightarrow> worker_inv (p_ring S) (p_log S) n w (rb_gates (p_ring S) ! w) (p_workers S ! w)"
  by (simp add: pipe_core_def)

lemma core_gates:
  assumes "pipe_core n S" "int (length (p_log S)) + int n < 2 ^ 62" "g \<in> set (rb_gates (p_ring S))"
  shows "-1 \<le> g \<and> g < 2 ^ 62"
proof -
  obtain w where w: "w < n" "g = rb_gates (p_ring S) ! w"
    using assms(1,3) by (auto simp: pipe_core_def in_set_conv_nth)
  from core_worker [OF assms(1) this(1)] show ?thesis
    using assms(2) w unfolding worker_inv_def by auto
qed

lemma claim_core:
  assumes core: "pipe_core n S" and small: "int (length (p_log S)) + int n < 2 ^ 62"
    and idle: "p_producer S = P_Idle" and cap: "has_available_capacity (p_ring S)"
    and nxt: "next_sequence (p_ring S) = (r, s)"
  shows "pipe_core n (S\<lparr>p_ring := r, p_producer := P_Claimed s e\<rparr>)"
proof -
  have claim: "rb_claim (p_ring S) = int (length (p_log S)) - 1"
    using core idle by (simp add: pipe_core_def claimed_def)
  then have "in_i64 (rb_claim (p_ring S) + 1)" using small by (simp add: in_i64_def)
  then have r: "r = (p_ring S)\<lparr>rb_claim := rb_claim (p_ring S) + 1\<rparr>" "s = rb_claim (p_ring S) + 1"
    using nxt by (auto simp: next_sequence_def sequence_increment_def)
  have gate: "rb_claim (p_ring S) + 1 - rb_gates (p_ring S) ! w < int (rb_capacity (p_ring S))" if "w < n" for w
    by (rule has_available_capacity_gate [OF cap])
       (use pipe_coreD(1,4) [OF core] core_gates [OF core small] that claim small in \<open>simp_all add: nth_mem\<close>)
  have "worker_inv r (p_log S) n w (rb_gates (p_ring S) ! w) (p_workers S ! w)" if "w < n" for w
    by (rule worker_inv_cong [OF core_worker [OF core that]]) (use gate [OF that] in \<open>simp_all add: r(1)\<close>)
  then show ?thesis
    using pipe_coreD(1-5) [OF core] claim by (intro pipe_coreI) (simp_all add: r claimed_def)
qed

lemma write_core:
  assumes core: "pipe_core n S" and small: "int (length (p_log S)) + int n < 2 ^ 62"
    and claimed: "p_producer S = P_Claimed s e"
  shows "pipe_core n (S\<lparr>p_ring := ring_put (p_ring S) s e, p_producer := P_Written s e\<rparr>)"
proof -
  let ?len = "int (length (p_log S))"
  have s: "s = ?len" and claim: "rb_claim (p_ring S) = ?len" and ok: "ring_ok (p_ring S)"
    using core claimed by (auto simp: pipe_core_def claimed_def)
  have vs: "valid_seq s" using s small by (simp add: valid_seq_def)
  have "worker_inv (ring_put (p_ring S) s e) (p_log S) n w (rb_gates (p_ring S) ! w) (p_workers S ! w)"
    if "w < n" for w
  proof (rule worker_inv_cong [OF core_worker [OF core that]])
    note W = core_worker [OF core that, unfolded worker_inv_def]
    show "rb_claim (ring_put (p_ring S) s e) - rb_gates (p_ring S) ! w < int (rb_capacity (p_ring S))"
      using W by simp
    fix t
    assume "w_consumer (p_workers S ! w) < t" "t < ?len"
    then show "ring_get (ring_put (p_ring S) s e) t = ring_get (p_ring S) t"
      using W s claim vs by (intro ring_get_put(2) [OF ok vs]) (auto simp: valid_seq_def)
  qed simp
  then show ?thesis
    using pipe_coreD(1-5) [OF core] claim ring_get_put(1) [OF ok vs] s
    by (intro pipe_coreI) (simp_all add: claimed_def)
qed

lemma publish_core:
  assumes core: "pipe_core n S" and written: "p_producer S = P_Written s e"
  shows "pipe_core n (S\<lparr>p_ring := ring_publish (p_ring S) s, p_producer := P_Idle, p_log := p_log S @ [e]\<rparr>)"
proof -
  let ?len = "int (length (p_log S))"
  have s: "s = ?len" "ring_get (p_ring S) s = e" and claim: "rb_claim (p_ring S) = ?len"
    using core written by (auto simp: pipe_core_def claimed_def)
  have "worker_inv (ring_publish (p_ring S) s) (p_log S @ [e]) n w (rb_gates (p_ring S) ! w) (p_workers S ! w)"
    if "w < n" for w
  proof -
    note W = core_worker [OF core that, unfolded worker_inv_def]
    have "ring_get (p_ring S) t = (p_log S @ [e]) ! nat t"
      if "owns n w t" "w_consumer (p_workers S ! w) < t" "t < ?len + 1" for t
      using that W s by (cases "t = ?len") (auto simp: nth_append nat_less_iff)
    moreover have "trace_ok (p_log S @ [e]) n w (w_trace (p_workers S ! w))"
      using W by (intro trace_ok_log) blast
    moreover have "c \<le> ?len" if "w_batch (p_workers S ! w) = Some c" for c using W that by fastforce
    moreover have "w_consumer (p_workers S ! w) \<le> max ?len (int w - 1)" using W by linarith
    ultimately show ?thesis
      using W unfolding worker_inv_def by simp
  qed
  then show ?thesis
    using pipe_coreD(1-4) [OF core] claim s(1) by (intro pipe_coreI) (simp_all add: claimed_def)
qed

lemma worker_update_core:
  assumes core: "pipe_core n S"
    and W: "w < n" "worker_inv (p_ring S) (p_log S) n w (rb_gates (p_ring S) ! w) W'"
  shows "pipe_core n (S\<lparr>p_workers := (p_workers S)[w := W']\<rparr>)"
proof (rule pipe_coreI)
  fix v assume "v < n"
  then show "worker_inv (p_ring (S\<lparr>p_workers := (p_workers S)[w := W']\<rparr>)) (p_log (S\<lparr>p_workers := (p_workers S)[w := W']\<rparr>)) n v
      (rb_gates (p_ring (S\<lparr>p_workers := (p_workers S)[w := W']\<rparr>)) ! v) (p_workers (S\<lparr>p_workers := (p_workers S)[w := W']\<rparr>) ! v)"
    using W core_worker [OF core \<open>v < n\<close>] pipe_coreD(3) [OF core] by (cases "v = w") simp_all
qed (use pipe_coreD [OF core] in simp_all)

lemma gate_core:
  assumes core: "pipe_core n S" and w: "w < n"
  shows "pipe_core n (S\<lparr>p_ring := set_gate (p_ring S) w (w_consumer (p_workers S ! w)),
      p_workers := (p_workers S)[w := (p_workers S ! w)\<lparr>w_batch := None\<rparr>]\<rparr>)" (is "pipe_core n ?S'")
proof (rule pipe_coreI)
  fix v assume v: "v < n"
  note W = core_worker [OF core v, unfolded worker_inv_def]
  show "worker_inv (p_ring ?S') (p_log ?S') n v (rb_gates (p_ring ?S') ! v) (p_workers ?S' ! v)"
  proof (cases "v = w")
    case True
    then show ?thesis
      using W w pipe_coreD(3,4) [OF core] unfolding worker_inv_def by simp
  next
    case False
    then show ?thesis
      using W unfolding worker_inv_def by simp
  qed
qed (use pipe_coreD [OF core] in simp_all)

lemma runner_next_Some:
  assumes "runner_next n c k = Some (s, b)" "-1 \<le> k" "k + int n < 2 ^ 62" 
  shows "s = k + int n" "s \<le> c"
proof -
  have "in_i64 (k + int n)" using assms(2,3) by (simp add: in_i64_def)
  then show "s = k + int n" "s \<le> c" using assms(1) by (auto simp: runner_next_def Let_def split: if_splits)
qed

lemma process_core:
  assumes core: "pipe_core n S" and small: "int (length (p_log S)) + int n < 2 ^ 62" and w: "w < n"
    and batch: "w_batch (p_workers S ! w) = Some c" "w_consumer (p_workers S ! w) < c"
    and nxt: "runner_next n c (w_consumer (p_workers S ! w)) = Some (s, b)"
    and e: "e = ring_get (p_ring S) s"
  shows "pipe_core n (S\<lparr>p_ring := ring_put (p_ring S) s e', p_handlers := h',
      p_workers := (p_workers S)[w := (p_workers S ! w)\<lparr>w_consumer := s,
        w_trace := w_trace (p_workers S ! w) @ [(s, e, b)]\<rparr>]\<rparr>)" (is "pipe_core n ?S'")
proof -
  let ?W = "p_workers S ! w" and ?len = "int (length (p_log S))"
  note W = core_worker [OF core w, unfolded worker_inv_def]
  have c: "c \<le> ?len - 1" using W batch(1) by blast
  have "-1 \<le> w_consumer ?W" "w_consumer ?W + int n < 2 ^ 62" using W c batch(2) small by linarith+
  note s = runner_next_Some [OF nxt this]
  have n0: "0 < n" by (rule pipe_coreD [OF core])
  have cons: "w_consumer ?W = int w - 1 + int n * int (length (w_trace ?W))" using W by blast
  have seq: "s = int w - 1 + int n * int (Suc (length (w_trace ?W)))"
    by (simp add: s(1) cons algebra_simps)
  then have own: "owns n w s" by (simp only: owns_consumer)
  have ok: "ring_ok (p_ring S)" by (rule pipe_coreD [OF core])
  have s0: "0 \<le> s" "s < ?len" using W s n0 c by auto
  have vs: "valid_seq s" using s0 small by (simp add: valid_seq_def)
  have ev: "e = p_log S ! nat s" using W own s s0 n0 by (auto simp: e)
  have claim: "?len - 1 \<le> rb_claim (p_ring S)" using pipe_coreD(6) [OF core] by simp
  have other: "ring_get (ring_put (p_ring S) s e') t = ring_get (p_ring S) t"
    if v: "v < n" and t: "owns n v t" "w_consumer (p_workers S ! v) < t" "t < ?len" "t \<noteq> s" for v t
  proof (rule ring_get_put(2) [OF ok vs])
    note V = core_worker [OF core v, unfolded worker_inv_def]
    show "valid_seq t" using V t small by (auto simp: valid_seq_def)
    show "\<bar>s - t\<bar> < int (rb_capacity (p_ring S))" using V W s s0 t claim n0 by linarith
    show "s \<noteq> t" using t by simp
  qed
  show ?thesis
  proof (rule pipe_coreI)
    fix v assume v: "v < n"
    note V = core_worker [OF core v]
    show "worker_inv (p_ring ?S') (p_log ?S') n v (rb_gates (p_ring ?S') ! v) (p_workers ?S' ! v)"
    proof (cases "v = w")
      case True
      have "trace_ok (p_log S) n w (w_trace ?W @ [(s, e, b)])"
        unfolding ev using W s0 seq by (intro trace_ok_snoc) blast+
      moreover have "ring_get (ring_put (p_ring S) s e') t = p_log S ! nat t"
        if "owns n w t" "s < t" "t < ?len" for t
      proof -
        have "w_consumer ?W < t" "t \<noteq> s" using that s(1) n0 by auto
        then show ?thesis using other [OF w that(1) _ that(3)] W that by simp
      qed
      moreover have "rb_gates (p_ring S) ! w \<le> s" using W s(1) by linarith
      ultimately show ?thesis
        using True W s0 w pipe_coreD(3) [OF core] seq unfolding worker_inv_def by simp
    next
      case False
      have ne: "t \<noteq> s" if "owns n v t" for t using owns_unique [OF v w that] own False by auto
      have "worker_inv (ring_put (p_ring S) s e') (p_log S) n v (rb_gates (p_ring S) ! v) (p_workers S ! v)"
        by (rule worker_inv_cong [OF V])
           (use V other [OF v] ne in \<open>simp_all add: worker_inv_def\<close>)
      then show ?thesis using False by simp
    qed
  next
    fix q x
    assume written: "p_producer ?S' = P_Written q x"
    then have q: "q = ?len" "ring_get (p_ring S) q = x" using pipe_coreD(8) [OF core, of q x] by auto
    have "rb_claim (p_ring S) = ?len" using written pipe_coreD(6) [OF core] by (simp add: claimed_def)
    then have "\<bar>s - q\<bar> < int (rb_capacity (p_ring S))" using W s s0 q n0 by linarith
    then have "ring_get (ring_put (p_ring S) s e') q = ring_get (p_ring S) q"
      using q s0 small by (intro ring_get_put(2) [OF ok vs]) (auto simp: valid_seq_def)
    then show "q = int (length (p_log ?S')) \<and> ring_get (p_ring ?S') q = x" using q by simp
  qed (use pipe_coreD [OF core] in simp_all)
qed

lemma pipe_step_log: "pipe_step on_event S S' \<Longrightarrow> length (p_log S) \<le> length (p_log S')"
  by (induction rule: pipe_step.induct) auto

lemma pipe_step_core:
  assumes "pipe_step on_event S S'" "pipe_core n S" "int (length (p_log S)) + int n < 2 ^ 62"
  shows "pipe_core n S'"
  using assms
proof (induction rule: pipe_step.induct)
  case (do_claim S r s e)
  then show ?case by (intro claim_core)
next
  case (do_write S s e)
  then show ?case by (intro write_core)
next
  case (do_publish S s e)
  then show ?case by (intro publish_core)
next
  case (do_stop S)
  then show ?case by (simp add: pipe_core_def)
next
  case (do_enter w S W)
  then have w: "w < n" by (simp add: pipe_coreD)
  then show ?case
    using do_enter core_worker [OF do_enter.prems(1) w] pipe_coreD(5) [OF do_enter.prems(1)]
    by (intro worker_update_core) (simp_all add: worker_inv_def)
next
  case (do_exit w S W)
  then have w: "w < n" by (simp add: pipe_coreD)
  then show ?case
    using do_exit core_worker [OF do_exit.prems(1) w]
    by (intro worker_update_core) (simp_all add: worker_inv_def)
next
  case (do_process w S W cursor s b e h' e')
  then have w: "w < n" and n: "length (p_workers S) = n" by (simp_all add: pipe_coreD)
  show ?case
    using process_core [OF do_process.prems w, where c = cursor and s = s and b = b and e = e] do_process n by simp
next
  case (do_gate w S W cursor)
  then have w: "w < n" by (simp add: pipe_coreD)
  show ?case
    using gate_core [OF do_gate.prems(1) w] do_gate by simp
qed

lemma pipe_reach_core:
  assumes "pipe_reach on_event S S'" "pipe_core n S"
  shows "int (length (p_log S')) + int n < 2 ^ 62 \<Longrightarrow> pipe_core n S'"
  using assms
proof (induction rule: rtranclp_induct)
  case (step T U)
  have "length (p_log T) \<le> length (p_log U)" using pipe_step_log [OF step.hyps(2)] .
  with step have "pipe_core n T" "int (length (p_log T)) + int n < 2 ^ 62" by simp_all
  then show ?case using pipe_step_core [OF step.hyps(2)] by blast
qed simp

lemma ring_new_init:
  assumes "ring_buffer_new fresh cap = Inr r" "cap < 2 ^ 63" "0 < n"
  shows "pipe_core n (pipe_init r n h)"
  using ring_new_ok(1) [OF assms(1,2)] assms
  by (intro pipe_init_core) (auto simp: ring_buffer_new_def INITIAL_VALUE_def split: if_splits)

lemma publish_event_steps:
  assumes "p_producer S = P_Idle" "publish_event (p_ring S) e = (r', Inr s)"
  shows "pipe_reach on_event S (S\<lparr>p_ring := r', p_log := p_log S @ [e]\<rparr>)"
proof -
  have cap: "has_available_capacity (p_ring S)"
    using assms(2) by (auto simp: publish_event_def split: if_splits)
  obtain r1 where r1: "next_sequence (p_ring S) = (r1, s)" "r' = ring_publish (ring_put r1 s e) s"
    using assms(2) cap by (auto simp: publish_event_def split: prod.splits)
  define S1 where "S1 = S\<lparr>p_ring := r1, p_producer := P_Claimed s e\<rparr>"
  define S2 where "S2 = S1\<lparr>p_ring := ring_put r1 s e, p_producer := P_Written s e\<rparr>"
  have "pipe_step on_event S S1" unfolding S1_def by (rule do_claim [OF assms(1) cap r1(1)])
  moreover have "pipe_step on_event S1 S2"
    unfolding S2_def using do_write [of S1 s e on_event] by (simp add: S1_def)
  moreover have "pipe_step on_event S2 (S2\<lparr>p_ring := ring_publish (p_ring S2) s, p_producer := P_Idle,
      p_log := p_log S2 @ [e]\<rparr>)"
    by (rule do_publish) (simp add: S2_def)
  moreover have "S2\<lparr>p_ring := ring_publish (p_ring S2) s, p_producer := P_Idle, p_log := p_log S2 @ [e]\<rparr> =
      S\<lparr>p_ring := r', p_log := p_log S @ [e]\<rparr>"
    using assms(1) by (simp add: S2_def S1_def r1(2))
  ultimately show ?thesis by (metis converse_rtranclp_into_rtranclp rtranclp.rtrancl_refl)
qed

section \<open>Properties\<close>


definition ex_ring :: "transaction_event ring" where
  "ex_ring = projr (ring_buffer_new (\<lambda>_. (Timestamp 0, replicate 16 1, replicate 16 2, replicate 16 3)) 4)"

definition ex_event :: transaction_event where
  "ex_event = transaction_event_new (Timestamp 0) (Id64 1) (Id64 2) (Id64 3) 10 LedgerId_USD 1"

lemma ex_ring_new:
  "ring_buffer_new (\<lambda>_. (Timestamp 0, replicate 16 1, replicate 16 2, replicate 16 3)) 4 = Inr ex_ring"
  by (simp add: ex_ring_def ring_buffer_new_def is_power_of_two_def)

text \<open>One event through a pipeline with one worker whose handlers do nothing.\<close>

abbreviation ex_on_event :: "nat \<Rightarrow> unit \<Rightarrow> transaction_event \<Rightarrow> i64 \<Rightarrow> bool \<Rightarrow> unit \<times> transaction_event" where
  "ex_on_event \<equiv> \<lambda>_ h e _ _. (h, e)"

lemma ex_run:
  "\<exists>S. pipe_reach ex_on_event (pipe_init ex_ring 1 ()) S \<and> p_log S = [ex_event] \<and>
     length (w_trace (p_workers S ! 0)) = 1 \<and> p_workers S ! 0 =
       \<lparr>w_consumer = 0, w_batch = Some 0, w_stopped = False, w_trace = [(0, ex_event, True)]\<rparr> \<and>
     rb_cursor (p_ring S) = 0 \<and> length (p_workers S) = 1"
proof -
  let ?S0 = "pipe_init ex_ring 1 ()"
  obtain r' where r': "publish_event (p_ring ?S0) ex_event = (r', Inr 0)" "ring_get r' 0 = ex_event"
    "rb_cursor r' = 0"
    by (simp add: pipe_init_def add_gates_eq ex_ring_def ring_buffer_new_def is_power_of_two_def
        publish_event_def has_available_capacity_def next_sequence_def sequence_increment_def
        INITIAL_VALUE_def in_i64_def ring_put_def ring_get_def ring_index_def ring_publish_def as_usize_def)
  define S1 where "S1 = ?S0\<lparr>p_ring := r', p_log := [ex_event]\<rparr>"
  define W where "W = (worker_init 0 :: transaction_event worker)\<lparr>w_batch := Some 0\<rparr>"
  define S2 where "S2 = S1\<lparr>p_workers := [W]\<rparr>"
  have "pipe_reach ex_on_event ?S0 S1"
    using publish_event_steps [OF _ r'(1), of ex_on_event] by (simp add: S1_def pipe_init_def)
  moreover have "pipe_step ex_on_event S1 S2"
    using do_enter [of 0 S1 "worker_init 0" ex_on_event] r'(3)
    by (simp add: S1_def S2_def W_def pipe_init_def worker_init_def runner_start_def)
  moreover have "pipe_step ex_on_event S2 (S2\<lparr>p_ring := ring_put (p_ring S2) 0 ex_event, p_handlers := (),
      p_workers := [W\<lparr>w_consumer := 0, w_trace := [(0, ex_event, True)]\<rparr>]\<rparr>)"
    using do_process [of 0 S2 W 0 0 True ex_event ex_on_event "()" ex_event] r'(2)
    by (simp add: S2_def S1_def W_def worker_init_def runner_start_def runner_next_def pipe_init_def
        in_i64_def)
  ultimately have "pipe_reach ex_on_event ?S0 (S2\<lparr>p_ring := ring_put (p_ring S2) 0 ex_event, p_handlers := (),
      p_workers := [W\<lparr>w_consumer := 0, w_trace := [(0, ex_event, True)]\<rparr>]\<rparr>)"
    by (meson rtranclp.rtrancl_into_rtrancl)
  then show ?thesis
    by (intro exI conjI) (assumption, simp_all add: S2_def S1_def W_def worker_init_def r'(3))
qed




text \<open>
  Publishing is all or nothing: \<^verbatim>\<open>publish_event\<close> on a ring that is ahead of some gate by the
  capacity or more returns \<^verbatim>\<open>RingBufferFull\<close> and changes nothing; otherwise it returns the next
  sequence number, the event is in its slot, the cursor stands at that number, and the effect is
  that of the producer's three steps.
\<close>

theorem publish_event_spec:
  assumes "pipe_core n S" "int (length (p_log S)) + int n < 2 ^ 62" "p_producer S = P_Idle"
  shows "if has_available_capacity (p_ring S)
    then \<exists>r'. publish_event (p_ring S) e = (r', Inr (int (length (p_log S)))) \<and>
           rb_cursor r' = int (length (p_log S)) \<and> ring_get r' (int (length (p_log S))) = e \<and>
           pipe_reach on_event S (S\<lparr>p_ring := r', p_log := p_log S @ [e]\<rparr>)
    else publish_event (p_ring S) e = (p_ring S, Inl (RingBufferFull 1)) \<and>
         (\<exists>g \<in> set (rb_gates (p_ring S)). int (rb_capacity (p_ring S)) \<le> int (length (p_log S)) - g)"
proof (cases "has_available_capacity (p_ring S)")
  case True
  let ?s = "int (length (p_log S))"
  note D = pipe_coreD [OF assms(1)]
  have claim: "rb_claim (p_ring S) + 1 = ?s" using D(6) assms(3) by (simp add: claimed_def)
  have i64: "in_i64 ?s" using assms(2) by (simp add: in_i64_def)
  define r' where "r' = ring_publish (ring_put ((p_ring S)\<lparr>rb_claim := ?s\<rparr>) ?s e) ?s"
  have p: "publish_event (p_ring S) e = (r', Inr ?s)"
    using True claim i64 by (simp add: publish_event_def next_sequence_def sequence_increment_def r'_def)
  have vs: "valid_seq ?s" using assms(2) by (simp add: valid_seq_def)
  have "ring_get r' ?s = e" "rb_cursor r' = ?s"
    using ring_get_put(1) [OF _ vs, of "(p_ring S)\<lparr>rb_claim := ?s\<rparr>"] D(1) by (simp_all add: r'_def)
  with True p publish_event_steps [OF assms(3) p] show ?thesis by auto
next
  case False
  note D = pipe_coreD [OF assms(1)]
  let ?m = "Min (set (rb_gates (p_ring S)))"
  have ne: "rb_gates (p_ring S) \<noteq> []" using D(2,4) by auto
  then have m: "?m \<in> set (rb_gates (p_ring S))" by simp
  have claim: "rb_claim (p_ring S) + 1 = int (length (p_log S))"
    using D(6) assms(3) by (simp add: claimed_def)
  have "in_i64 (int (length (p_log S)))" "in_i64 (int (length (p_log S)) - ?m)"
    "in_i64 (int (rb_capacity (p_ring S)))"
    using assms(2) core_gates [OF assms(1,2) m] D(1) by (auto simp: in_i64_def ring_ok_def)
  then have "int (rb_capacity (p_ring S)) \<le> int (length (p_log S)) - ?m"
    using False ne claim by (simp add: has_available_capacity_def Let_def)
  with False m show ?thesis by (auto simp: publish_event_def)
qed

theorem publish_event_spec_witness:
  "\<exists>r'. publish_event (p_ring (pipe_init ex_ring 1 ())) ex_event = (r', Inr 0) \<and>
     ring_get r' 0 = ex_event"
proof -
  have core: "pipe_core 1 (pipe_init ex_ring 1 ())" by (rule ring_new_init [OF ex_ring_new]) simp_all
  have "has_available_capacity (p_ring (pipe_init ex_ring 1 ()))"
    by (simp add: pipe_init_def add_gates_eq ex_ring_def ring_buffer_new_def is_power_of_two_def
        has_available_capacity_def INITIAL_VALUE_def in_i64_def)
  then show ?thesis
    using publish_event_spec [OF core, of ex_event ex_on_event] by (auto simp: pipe_init_def)
qed

section \<open>Several workers\<close>

text \<open>
  With \<open>n \<ge> 2\<close> workers the start value \<^verbatim>\<open>shard_id - 1\<close> together with the stride \<open>n\<close> makes the
  first sequence of worker \<open>w\<close> equal to \<open>w - 1 + n\<close>: the sequences \<open>0\<close> to \<open>n - 2\<close> belong to no
  worker and are never handed to any handler.
\<close>

lemma multi_worker_skips_first_events:
  assumes "ring_buffer_new fresh cap = Inr r" "cap < 2 ^ 63"
    and "pipe_reach on_event (pipe_init r n h) S" "int (length (p_log S)) + int n < 2 ^ 62"
    and "w < n" "x \<in> set (w_trace (p_workers S ! w))"
  shows "int n - 1 \<le> fst x"
proof -
  have core: "pipe_core n S"
    using pipe_reach_core [OF assms(3) ring_new_init [OF assms(1,2)]] assms(4,5) by simp
  obtain k where "k < length (w_trace (p_workers S ! w))" "x = w_trace (p_workers S ! w) ! k"
    using assms(6) by (auto simp: in_set_conv_nth)
  moreover have "trace_ok (p_log S) n w (w_trace (p_workers S ! w))"
    using core_worker [OF core assms(5)] by (simp add: worker_inv_def)
  ultimately have "fst x = int w - 1 + int n * int (Suc k)" by (simp add: trace_ok_def)
  moreover have "int n \<le> int n * int (Suc k)" by (simp add: distrib_left)
  ultimately show ?thesis by linarith
qed

text \<open>
  A worker whose next sequence lies beyond the cursor while the cursor is ahead of it keeps
  taking the branch that polls again, which does not look at the shutdown flag: until another
  event is published it cannot end. With two or more workers at most one of them can stand at
  the cursor, so after a stop request some worker thread does not terminate.
\<close>

definition stuck :: "nat \<Rightarrow> ('e, 'h) pipe \<Rightarrow> bool" where
  "stuck w S \<longleftrightarrow>
     w < length (p_workers S) \<and> \<not> w_stopped (p_workers S ! w) \<and> -1 \<le> w_consumer (p_workers S ! w) \<and>
     w_consumer (p_workers S ! w) < rb_cursor (p_ring S) \<and>
     rb_cursor (p_ring S) < w_consumer (p_workers S ! w) + int (length (p_workers S)) \<and>
     w_consumer (p_workers S ! w) + int (length (p_workers S)) < 2 ^ 62 \<and>
     (\<forall>c. w_batch (p_workers S ! w) = Some c \<longrightarrow> c \<le> rb_cursor (p_ring S))"

lemma stuck_step:
  assumes "pipe_step on_event S S'" "p_log S' = p_log S" "stuck w S"
  shows "stuck w S'"
  using assms
proof (induction rule: pipe_step.induct)
  case (do_claim S r s e)
  then show ?case by (auto simp: stuck_def next_sequence_def sequence_increment_def)
next
  case (do_process v S W cursor s b e h' e')
  show ?case
  proof (cases "v = w")
    case True
    note st = do_process.prems(2) [unfolded stuck_def]
    have nxt: "runner_next (length (p_workers S)) cursor (w_consumer (p_workers S ! w)) = Some (s, b)"
      and c: "cursor \<le> rb_cursor (p_ring S)"
      using do_process.hyps True st by auto
    have "s = w_consumer (p_workers S ! w) + int (length (p_workers S))" "s \<le> cursor"
      using runner_next_Some [OF nxt] st by auto
    then show ?thesis using st c by linarith
  qed (use do_process in \<open>simp add: stuck_def\<close>)
next
  case (do_enter v S W)
  then show ?case by (cases "v = w") (simp_all add: stuck_def)
next
  case (do_exit v S W)
  then show ?case by (cases "v = w") (simp_all add: stuck_def)
next
  case (do_gate v S W cursor)
  then show ?case by (cases "v = w") (simp_all add: stuck_def)
qed (simp_all add: stuck_def)

lemma multi_worker_shutdown_hangs:
  assumes "(\<lambda>S S'. pipe_step on_event S S' \<and> p_log S' = p_log S)\<^sup>*\<^sup>* S S'" "stuck w S"
  shows "\<not> w_stopped (p_workers S' ! w)"
proof -
  from assms have "stuck w S'"
    by (induction rule: rtranclp_induct) (auto intro: stuck_step)
  then show ?thesis by (simp add: stuck_def)
qed

lemma stuck_reachable:
  "\<exists>S. pipe_reach ex_on_event (pipe_init ex_ring 2 ()) S \<and> p_shutdown S \<and> stuck 0 S"
proof -
  let ?S0 = "pipe_init ex_ring 2 ()"
  obtain r' where r': "publish_event (p_ring ?S0) ex_event = (r', Inr 0)" "rb_cursor r' = 0"
    by (simp add: pipe_init_def add_gates_eq ex_ring_def ring_buffer_new_def is_power_of_two_def
        publish_event_def has_available_capacity_def next_sequence_def sequence_increment_def
        INITIAL_VALUE_def in_i64_def ring_put_def ring_index_def ring_publish_def as_usize_def)
  let ?S1 = "?S0\<lparr>p_ring := r', p_log := [ex_event]\<rparr>"
  have "pipe_reach ex_on_event ?S0 ?S1"
    using publish_event_steps [OF _ r'(1), of ex_on_event] by (simp add: pipe_init_def)
  then have "pipe_reach ex_on_event ?S0 (?S1\<lparr>p_shutdown := True\<rparr>)"
    by (rule rtranclp.rtrancl_into_rtrancl) (rule do_stop)
  moreover have "stuck 0 (?S1\<lparr>p_shutdown := True\<rparr>)"
    using r'(2) by (simp add: stuck_def pipe_init_def worker_init_def runner_start_def)
  ultimately show ?thesis by (intro exI conjI) (assumption, simp_all)
qed

text \<open>
  \<^verbatim>\<open>GenericRingBuffer\<close> raises its cursor to the highest published sequence. With two producers the
  later claim may be published first; the cursor then covers the earlier sequence although its
  slot has not been written.
\<close>

lemma generic_publish_exposes_unwritten:
  "let g = projr (generic_ring_buffer_new (0 :: nat) 4);
       (g1, a) = next_sequence g; (g2, b) = next_sequence g1;
       g3 = generic_publish (ring_put g2 b 7) b
   in a = 0 \<and> a \<le> rb_cursor g3 \<and> ring_get g3 a = 0"
  by (simp add: generic_ring_buffer_new_def is_power_of_two_def next_sequence_def
      sequence_increment_def INITIAL_VALUE_def in_i64_def generic_publish_def ring_put_def ring_get_def
      ring_index_def as_usize_def)

end
