(* ===== verification/Blz_Builder.thy ===== *)
theory Blz_Builder
  imports Blz_Pipeline
begin

text \<open>
  \<^verbatim>\<open>core/engine/src/pipeline.rs\<close>: \<^verbatim>\<open>PipelineBuilder\<close>, its setters and \<^verbatim>\<open>build\<close>, which makes the
  \<^verbatim>\<open>Pipeline\<close> handle and one \<^verbatim>\<open>PipelineRunner\<close> per worker.

  The handlers have an arbitrary type \<open>'h\<close> with their own \<^verbatim>\<open>clone_handler\<close>, a parameter; the
  shared results map has an arbitrary type \<open>'r\<close>. A gating sequence is named by its index in the
  ring's list of gates.
\<close>

section \<open>The builder\<close>

record ('h, 'r) pipeline_builder =
  pb_capacity :: usize
  pb_num_workers :: usize
  pb_handlers :: "'h list"
  pb_results :: 'r
  pb_global_shard_id :: "usize option"
  pb_result_ring :: result_ring

text \<open>\<^verbatim>\<open>ResultRing::new\<close> panics on a size that is not a power of two: \<open>None\<close>.\<close>

definition pipeline_builder_new ::
  "(nat \<Rightarrow> uuid_bytes) \<Rightarrow> 'r \<Rightarrow> ('h, 'r) pipeline_builder option" where
  "pipeline_builder_new uninit fresh_results =
     map_option (\<lambda>R. \<lparr>pb_capacity = 65536, pb_num_workers = 1, pb_handlers = [],
                      pb_results = fresh_results, pb_global_shard_id = None, pb_result_ring = R\<rparr>)
       (result_ring_new uninit 65536)"

definition with_global_shard_id ::
  "usize \<Rightarrow> ('h, 'r) pipeline_builder \<Rightarrow> ('h, 'r) pipeline_builder" where
  "with_global_shard_id shard_id b = b\<lparr>pb_global_shard_id := Some shard_id\<rparr>"

definition with_capacity ::
  "(nat \<Rightarrow> uuid_bytes) \<Rightarrow> usize \<Rightarrow> ('h, 'r) pipeline_builder \<Rightarrow> ('h, 'r) pipeline_builder option" where
  "with_capacity uninit capacity b =
     (let b1 = b\<lparr>pb_capacity := capacity\<rparr>
      in if is_power_of_two capacity
         then map_option (\<lambda>R. b1\<lparr>pb_result_ring := R\<rparr>) (result_ring_new uninit capacity)
         else Some b1)"

text \<open>The failed assertion of \<^verbatim>\<open>with_workers\<close> is \<open>None\<close>.\<close>

definition with_workers ::
  "usize \<Rightarrow> ('h, 'r) pipeline_builder \<Rightarrow> ('h, 'r) pipeline_builder option" where
  "with_workers num_workers b =
     (if num_workers > 0 then Some (b\<lparr>pb_num_workers := num_workers\<rparr>) else None)"

definition with_results :: "'r \<Rightarrow> ('h, 'r) pipeline_builder \<Rightarrow> ('h, 'r) pipeline_builder" where
  "with_results results b = b\<lparr>pb_results := results\<rparr>"

definition add_handler :: "'h \<Rightarrow> ('h, 'r) pipeline_builder \<Rightarrow> ('h, 'r) pipeline_builder" where
  "add_handler handler b = b\<lparr>pb_handlers := pb_handlers b @ [handler]\<rparr>"

section \<open>Building\<close>

record 'r pipeline =
  pl_ring_buffer :: "transaction_event ring"
  pl_shutdown :: bool
  pl_results :: 'r
  pl_result_ring :: result_ring

record ('h, 'r) pipeline_runner =
  ru_handlers :: "'h list"
  ru_results :: 'r
  ru_shard_id :: usize
  ru_num_shards :: usize
  ru_affinity_shard_id :: usize
  ru_gating_sequence :: nat

definition pipeline_build ::
  "('h \<Rightarrow> 'h) \<Rightarrow> (nat \<Rightarrow> timestamp \<times> uuid_bytes \<times> uuid_bytes \<times> uuid_bytes) \<Rightarrow>
   ('h, 'r) pipeline_builder \<Rightarrow> ('r pipeline \<times> ('h, 'r) pipeline_runner list) blazer_result" where
  "pipeline_build clone_handler fresh b =
     and_then (ring_buffer_new fresh (pb_capacity b))
       (\<lambda>r. Inr
          (\<lparr>pl_ring_buffer = add_gates (pb_num_workers b) r, pl_shutdown = False,
            pl_results = pb_results b, pl_result_ring = pb_result_ring b\<rparr>,
           map (\<lambda>worker_idx.
                  \<lparr>ru_handlers = map clone_handler (pb_handlers b), ru_results = pb_results b,
                   ru_shard_id = worker_idx, ru_num_shards = pb_num_workers b,
                   ru_affinity_shard_id =
                     (case pb_global_shard_id b of None \<Rightarrow> worker_idx | Some g \<Rightarrow> g),
                   ru_gating_sequence = worker_idx\<rparr>)
             [0..<pb_num_workers b]))"

definition pipeline_stop :: "'r pipeline \<Rightarrow> 'r pipeline" where
  "pipeline_stop p = p\<lparr>pl_shutdown := True\<rparr>"

section \<open>Sequences of builder calls\<close>

datatype ('h, 'r) builder_call =
  With_Global_Shard_Id usize | With_Capacity usize | With_Workers usize | With_Results 'r
  | Add_Handler 'h

fun builder_step ::
  "(nat \<Rightarrow> uuid_bytes) \<Rightarrow> ('h, 'r) builder_call \<Rightarrow> ('h, 'r) pipeline_builder \<Rightarrow>
   ('h, 'r) pipeline_builder option" where
  "builder_step u (With_Global_Shard_Id i) b = Some (with_global_shard_id i b)"
| "builder_step u (With_Capacity n) b = with_capacity u n b"
| "builder_step u (With_Workers n) b = with_workers n b"
| "builder_step u (With_Results r) b = Some (with_results r b)"
| "builder_step u (Add_Handler h) b = Some (add_handler h b)"

fun builder_run ::
  "(nat \<Rightarrow> uuid_bytes) \<Rightarrow> ('h, 'r) builder_call list \<Rightarrow> ('h, 'r) pipeline_builder \<Rightarrow>
   ('h, 'r) pipeline_builder option" where
  "builder_run u [] b = Some b"
| "builder_run u (c # cs) b = Option.bind (builder_step u c b) (builder_run u cs)"

fun added_handlers :: "('h, 'r) builder_call list \<Rightarrow> 'h list" where
  "added_handlers [] = []"
| "added_handlers (Add_Handler h # cs) = h # added_handlers cs"
| "added_handlers (_ # cs) = added_handlers cs"

text \<open>
  The result ring always has the size of the last power of two that was set; when the current
  capacity is a power of two the two agree.
\<close>

definition builder_ok :: "('h, 'r) pipeline_builder \<Rightarrow> bool" where
  "builder_ok b \<longleftrightarrow>
     0 < pb_num_workers b \<and> rr_ok (pb_result_ring b) \<and>
     (is_power_of_two (pb_capacity b) \<longrightarrow> length (rr_status (pb_result_ring b)) = pb_capacity b)"

lemma result_ring_new_total: "is_power_of_two n \<Longrightarrow> \<exists>R. result_ring_new u n = Some R"
  by (simp add: result_ring_new_def)

lemma builder_new_total: "\<exists>b. pipeline_builder_new u r = Some b \<and> pb_num_workers b = 1"
  using result_ring_new_total [of 65536 u]
  by (auto simp: pipeline_builder_new_def is_power_of_two_def)

lemma with_capacity_total:
  "\<exists>b'. with_capacity u n b = Some b' \<and> pb_capacity b' = n \<and> pb_num_workers b' = pb_num_workers b"
  using result_ring_new_total [of n u] by (auto simp: with_capacity_def Let_def)

lemma pipeline_build_total:
  assumes "is_power_of_two (pb_capacity b)"
  shows "\<exists>p runners. pipeline_build clone_handler fresh b = Inr (p, runners) \<and>
    length runners = pb_num_workers b \<and> pl_results p = pb_results b"
  using assms by (simp add: pipeline_build_def ring_buffer_new_def)

lemma pipeline_build_capacity:
  "pipeline_build clone_handler fresh b = Inr x \<Longrightarrow> is_power_of_two (pb_capacity b)"
  by (auto simp: pipeline_build_def ring_buffer_new_def split: if_splits)

lemma builder_new_ok: "pipeline_builder_new u r = Some b \<Longrightarrow> builder_ok b \<and> pb_handlers b = []"
  using result_ring_new_empty(1,2)
  by (fastforce simp: pipeline_builder_new_def builder_ok_def)

lemma builder_step_ok:
  assumes "builder_step u c b = Some b'" "builder_ok b"
  shows "builder_ok b' \<and> pb_handlers b' = pb_handlers b @ added_handlers [c]"
proof (cases c)
  case (With_Capacity n)
  then show ?thesis using assms result_ring_new_empty(1,2) [of u n]
    by (auto simp: with_capacity_def builder_ok_def Let_def split: if_splits)
qed (use assms in \<open>auto simp: builder_ok_def with_global_shard_id_def with_workers_def with_results_def
       add_handler_def split: if_splits\<close>)

lemma added_handlers_Cons: "added_handlers (c # cs) = added_handlers [c] @ added_handlers cs"
  by (cases c) simp_all

lemma builder_run_ok:
  assumes "builder_run u cs b = Some b'" "builder_ok b"
  shows "builder_ok b' \<and> pb_handlers b' = pb_handlers b @ added_handlers cs"
  using assms
proof (induction cs arbitrary: b)
  case (Cons c cs)
  then obtain b1 where b1: "builder_step u c b = Some b1" "builder_run u cs b1 = Some b'"
    by (auto simp: Option.bind_eq_Some_conv)
  show ?case
    using builder_step_ok [OF b1(1) Cons.prems(2)] Cons.IH [OF b1(2)] added_handlers_Cons [of c cs]
    by simp
qed simp

text \<open>
  Whatever setters were called, in whatever order, a successful \<^verbatim>\<open>build\<close> gives a ring buffer
  and a result ring with the same power-of-two number of slots; as many runners as gates, at
  least one; runner \<open>i\<close> owns shard \<open>i\<close> and gate \<open>i\<close> and has clones of the handlers in the order in
  which they were added; and the parts together are an initial state of the worker relation.
\<close>

theorem builder_build_consistent:
  assumes "pipeline_builder_new u0 r0 = Some b0" "builder_run u calls b0 = Some b"
    and "pipeline_build clone_handler fresh b = Inr (p, runners)"
  shows "is_power_of_two (rb_capacity (pl_ring_buffer p)) \<and>
    length (rr_status (pl_result_ring p)) = rb_capacity (pl_ring_buffer p) \<and>
    0 < length runners \<and> length (rb_gates (pl_ring_buffer p)) = length runners \<and>
    (\<forall>i < length runners. ru_shard_id (runners ! i) = i \<and> ru_gating_sequence (runners ! i) = i \<and>
       ru_num_shards (runners ! i) = length runners \<and>
       ru_handlers (runners ! i) = map clone_handler (added_handlers calls)) \<and>
    (\<exists>r. ring_buffer_new fresh (rb_capacity (pl_ring_buffer p)) = Inr r \<and>
       p_ring (pipe_init r (length runners) ()) = pl_ring_buffer p)"
proof -
  obtain r where r: "ring_buffer_new fresh (pb_capacity b) = Inr r"
    using assms(3) by (cases "ring_buffer_new fresh (pb_capacity b)") (auto simp: pipeline_build_def)
  have pow: "is_power_of_two (pb_capacity b)" and cap: "rb_capacity r = pb_capacity b" and g: "rb_gates r = []"
    using r by (auto simp: ring_buffer_new_def split: if_splits)
  have ok: "builder_ok b" "pb_handlers b = added_handlers calls"
    using builder_run_ok [OF assms(2)] builder_new_ok [OF assms(1)] by auto
  show ?thesis
    using assms(3) ok pow cap g r
    by (auto simp: pipeline_build_def builder_ok_def add_gates_eq pipe_init_def)
qed

theorem builder_build_consistent_witness:
  "\<exists>b0 b p runners.
     pipeline_builder_new (\<lambda>_. replicate 16 0) () = Some b0 \<and>
     builder_run (\<lambda>_. replicate 16 0)
       [With_Workers 2, Add_Handler (7 :: nat), With_Capacity 8, Add_Handler 9] b0 = Some b \<and>
     pipeline_build id (\<lambda>_. (Timestamp 0, replicate 16 0, replicate 16 0, replicate 16 0)) b
       = Inr (p, runners) \<and>
     length (rr_status (pl_result_ring p)) = rb_capacity (pl_ring_buffer p) \<and>
     ru_handlers (runners ! 1) = [7, 9]"
proof -
  let ?u = "\<lambda>_ :: nat. replicate 16 (0 :: u8)"
  let ?f = "\<lambda>_ :: nat. (Timestamp 0, replicate 16 (0 :: u8), replicate 16 (0 :: u8), replicate 16 (0 :: u8))"
  let ?cs = "[With_Workers 2, Add_Handler (7 :: nat), With_Capacity 8, Add_Handler 9] :: (nat, unit) builder_call list"
  obtain b0 :: "(nat, unit) pipeline_builder" where b0: "pipeline_builder_new ?u () = Some b0"
    using builder_new_total [of ?u "()"] by blast
  obtain b where b: "builder_run ?u ?cs b0 = Some b" "pb_num_workers b = 2" "pb_capacity b = 8"
    using result_ring_new_total [of 8 ?u]
    by (auto simp: with_workers_def add_handler_def with_capacity_def is_power_of_two_def)
  obtain r where r: "ring_buffer_new ?f (pb_capacity b) = Inr r"
    by (simp add: b(3) ring_buffer_new_def is_power_of_two_def)
  obtain p runners where built: "pipeline_build id ?f b = Inr (p, runners)" "length runners = 2"
    by (simp add: pipeline_build_def r b(2))
  show ?thesis
    using builder_build_consistent [OF b0 b(1) built(1)] b0 b(1) built by auto
qed

end
