(* ===== verification/Blz_Handlers.thy ===== *)
theory Blz_Handlers
  imports Blz_Event
begin

text \<open>
  \<^verbatim>\<open>core/engine/src/handler.rs\<close> and the synchronous handlers \<^verbatim>\<open>handlers/validation.rs\<close>,
  \<^verbatim>\<open>handlers/risk.rs\<close> and \<^verbatim>\<open>handlers/publish.rs\<close>. The results map that the handlers share
  (\<^verbatim>\<open>DashMap<i64, TransactionResult>\<close>) is a map passed through every call.
\<close>

type_synonym results = "i64 \<rightharpoonup> transaction_result"

section \<open>Handlers and their composition (handler.rs)\<close>

text \<open>
  A handler is its state and a function of that state, the results map, the event, its sequence
  number and the \<^verbatim>\<open>end_of_batch\<close> flag. What the pipeline relies on: a handler never changes or
  removes a result that is there, writes no result but that of the sequence it was called for,
  and leaves the event as it is.
\<close>

type_synonym 'h handler =
  "'h \<Rightarrow> results \<Rightarrow> transaction_event \<Rightarrow> i64 \<Rightarrow> bool \<Rightarrow> 'h \<times> results \<times> transaction_event"

text \<open>A batch of events handed to one handler.\<close>

fun run_events ::
  "'h handler \<Rightarrow> 'h \<Rightarrow> results \<Rightarrow> (transaction_event \<times> i64 \<times> bool) list \<Rightarrow> 'h \<times> results" where
  "run_events on_event h R [] = (h, R)"
| "run_events on_event h R ((e, s, b) # xs) =
     (let (h', R', e') = on_event h R e s b in run_events on_event h' R' xs)"

locale event_handler =
  fixes on_event :: "'h handler"
  assumes keeps: "R s = Some x \<Longrightarrow> fst (snd (on_event h R e q b)) s = Some x"
    and only_own: "s \<noteq> q \<Longrightarrow> fst (snd (on_event h R e q b)) s = R s"
    and event_kept: "snd (snd (on_event h R e q b)) = e"
begin

lemma run_events_keeps: "R s = Some x \<Longrightarrow> snd (run_events on_event h R xs) s = Some x"
proof (induction xs arbitrary: h R)
  case (Cons y xs)
  obtain e q b where y: "y = (e, q, b)" by (cases y)
  obtain h' R' e' where o: "on_event h R e q b = (h', R', e')" by (cases "on_event h R e q b") auto
  have "R' s = Some x" using keeps [of R s x h e q b] Cons.prems by (simp add: o)
  then show ?case using Cons.IH by (simp add: y o)
qed simp

lemma run_events_only_own:
  "s \<notin> (fst \<circ> snd) ` set xs \<Longrightarrow> snd (run_events on_event h R xs) s = R s"
proof (induction xs arbitrary: h R)
  case (Cons y xs)
  obtain e q b where y: "y = (e, q, b)" by (cases y)
  obtain h' R' e' where o: "on_event h R e q b = (h', R', e')" by (cases "on_event h R e q b") auto
  have "R' s = R s" using only_own [of s q h R e b] Cons.prems by (auto simp: o y)
  then show ?case using Cons by (simp add: y o)
qed simp

end

text \<open>The pipeline calls its handlers in order on the same event.\<close>

definition seq_handlers :: "'h handler \<Rightarrow> 'k handler \<Rightarrow> ('h \<times> 'k) handler" where
  "seq_handlers f g = (\<lambda>(h, k) R e s b.
     let (h', R1, e1) = f h R e s b; (k', R2, e2) = g k R1 e1 s b in ((h', k'), R2, e2))"

locale event_handler_pair = first: event_handler f + second: event_handler g
  for f :: "'h handler" and g :: "'k handler"

sublocale event_handler_pair \<subseteq> pair: event_handler "seq_handlers f g"
proof
  fix R :: results and s x e q b and h :: "'h \<times> 'k"
  obtain h1 h2 where h: "h = (h1, h2)" by (cases h)
  obtain h1' R1 e1 where f: "f h1 R e q b = (h1', R1, e1)" by (cases "f h1 R e q b") auto
  obtain h2' R2 e2 where g: "g h2 R1 e1 q b = (h2', R2, e2)" by (cases "g h2 R1 e1 q b") auto
  have r: "seq_handlers f g h R e q b = ((h1', h2'), R2, e2)" by (simp add: seq_handlers_def h f g)
  show "fst (snd (seq_handlers f g h R e q b)) s = Some x" if "R s = Some x"
    using that first.keeps [of R s x h1 e q b] second.keeps [of R1 s x h2 e1 q b] by (simp add: f g r)
  show "fst (snd (seq_handlers f g h R e q b)) s = R s" if "s \<noteq> q"
    using first.only_own [OF that, of h1 R e b] second.only_own [OF that, of h2 R1 e1 b] by (simp add: f g r)
  show "snd (snd (seq_handlers f g h R e q b)) = e"
  proof -
    have "e1 = e" using first.event_kept [of h1 R e q b] by (simp add: f)
    moreover have "e2 = e1" using second.event_kept [of h2 R1 e1 q b] by (simp add: g)
    ultimately show ?thesis by (simp add: r)
  qed
qed

section \<open>Validation (handlers/validation.rs)\<close>

definition validate :: "transaction_event \<Rightarrow> unit blazer_result" where
  "validate event =
     (if is_zero (ev_transaction_id event)
      then Inl (ValidationError ''transaction_id must not be zero'')
      else if is_zero (ev_debit_account_id event)
      then Inl (ValidationError ''debit_account_id must not be zero'')
      else if is_zero (ev_credit_account_id event)
      then Inl (ValidationError ''credit_account_id must not be zero'')
      else if ev_debit_account_id event = ev_credit_account_id event
      then Inl (ValidationError ''debit_account_id must not equal credit_account_id'')
      else if ev_amount_units event = 0
      then Inl (ValidationError ''amount_units must be greater than zero'')
      else Inr ())"

definition validation_on_event :: "unit handler" where
  "validation_on_event h R event s end_of_batch =
     (if s \<in> dom R then (h, R, event)
      else case validate event of
             Inl reason \<Rightarrow> (h, R(s \<mapsto> Rejected reason), event)
           | Inr _ \<Rightarrow> (h, R, event))"

section \<open>Risk (handlers/risk.rs)\<close>

text \<open>
  An \<^verbatim>\<open>f32\<close> is NaN, an infinity, or a finite number with its sign (zero has one) and its
  magnitude. \<open>f32_ge\<close> is \<open>>=\<close>, \<open>f32_clamp01\<close> is \<^verbatim>\<open>clamp(0.0, 1.0)\<close> and \<open>f32_fmt3\<close> the format
  \<^verbatim>\<open>{:.3}\<close>, which rounds half to even.
\<close>

datatype f32 = F_NaN | F_Inf bool | F_Fin bool rat

fun f32_val :: "f32 \<Rightarrow> rat" where
  "f32_val (F_Fin neg m) = (if neg then - m else m)"
| "f32_val _ = 0"

fun f32_ge :: "f32 \<Rightarrow> f32 \<Rightarrow> bool" where
  "f32_ge F_NaN _ = False"
| "f32_ge _ F_NaN = False"
| "f32_ge (F_Inf neg) b = (\<not> neg \<or> b = F_Inf True)"
| "f32_ge a (F_Inf neg) = neg"
| "f32_ge a b = (f32_val a \<ge> f32_val b)"

definition f32_clamp01 :: "f32 \<Rightarrow> f32" where
  "f32_clamp01 x =
     (case x of
        F_NaN \<Rightarrow> F_NaN
      | F_Inf neg \<Rightarrow> if neg then F_Fin False 0 else F_Fin False 1
      | F_Fin neg m \<Rightarrow>
          if f32_val x < 0 then F_Fin False 0
          else if f32_val x > 1 then F_Fin False 1 else x)"

definition round_half_even :: "rat \<Rightarrow> nat" where
  "round_half_even x =
     (let n = nat \<lfloor>x\<rfloor>; d = x - of_nat n
      in if d < 1 / 2 then n else if d > 1 / 2 then n + 1 else if even n then n else n + 1)"

fun f32_fmt3 :: "f32 \<Rightarrow> string" where
  "f32_fmt3 F_NaN = ''NaN''"
| "f32_fmt3 (F_Inf neg) = (if neg then ''-inf'' else ''inf'')"
| "f32_fmt3 (F_Fin neg m) =
     (let n = round_half_even (m * 1000)
      in (if neg then ''-'' else []) @ show_nat (n div 1000) @ ''.'' @ pad_left 3 (show_nat (n mod 1000)))"

record risk_handler =
  max_amount_units :: u64
  fraud_threshold :: f32
  fraud_scorer :: "account_id \<Rightarrow> u64 \<Rightarrow> f32"

definition noop_fraud_scorer :: "account_id \<Rightarrow> u64 \<Rightarrow> f32" where
  "noop_fraud_scorer _ _ = F_Fin False 0"

definition risk_handler_new :: "u64 \<Rightarrow> risk_handler" where
  "risk_handler_new limit =
     \<lparr>max_amount_units = limit, fraud_threshold = F_Fin False 1, fraud_scorer = noop_fraud_scorer\<rparr>"

definition risk_handler_with_fraud_scorer ::
  "u64 \<Rightarrow> (account_id \<Rightarrow> u64 \<Rightarrow> f32) \<Rightarrow> f32 \<Rightarrow> risk_handler" where
  "risk_handler_with_fraud_scorer limit scorer threshold =
     \<lparr>max_amount_units = limit, fraud_threshold = f32_clamp01 threshold, fraud_scorer = scorer\<rparr>"

definition risk_on_event :: "risk_handler handler" where
  "risk_on_event h R event s end_of_batch =
     (if s \<in> dom R then (h, R, event)
      else if \<not> requires_risk_check (ev_flags event) then (h, R, event)
      else if ev_amount_units event > max_amount_units h
      then (h, R(s \<mapsto> Rejected (ValidationError ''transaction exceeds maximum amount limit'')), event)
      else let fraud_score = fraud_scorer h (ev_debit_account_id event) (ev_amount_units event)
           in if f32_ge fraud_score (fraud_threshold h)
              then (h, R(s \<mapsto> Rejected (ValidationError
                     (''fraud score '' @ f32_fmt3 fraud_score @ '' meets or exceeds threshold '' @
                      f32_fmt3 (fraud_threshold h)))), event)
              else (h, R, event))"

section \<open>Publishing (handlers/publish.rs)\<close>

record publish_handler =
  published_count :: u64
  rejected_count :: u64
  ph_deferred :: "i64 list"

definition publish_handler_new :: publish_handler where
  "publish_handler_new = \<lparr>published_count = 0, rejected_count = 0, ph_deferred = []\<rparr>"

definition count_result :: "transaction_result \<Rightarrow> publish_handler \<Rightarrow> publish_handler" where
  "count_result r h =
     (case r of
        Committed _ _ \<Rightarrow> h\<lparr>published_count := published_count h + 1\<rparr>
      | Rejected _ \<Rightarrow> h\<lparr>rejected_count := rejected_count h + 1\<rparr>)"

fun flush_loop :: "results \<Rightarrow> i64 list \<Rightarrow> publish_handler \<Rightarrow> publish_handler" where
  "flush_loop R [] h = h"
| "flush_loop R (s # ss) h =
     flush_loop R ss (case R s of Some r \<Rightarrow> count_result r h | None \<Rightarrow> h)"

definition flush_deferred :: "results \<Rightarrow> publish_handler \<Rightarrow> publish_handler" where
  "flush_deferred R h = flush_loop R (ph_deferred h) (h\<lparr>ph_deferred := []\<rparr>)"

definition publish_on_event :: "publish_handler handler" where
  "publish_on_event h R event s end_of_batch =
     (if skip_publish (ev_flags event)
      then (if end_of_batch then flush_deferred R h else h, R, event)
      else case R s of
             None \<Rightarrow> (h\<lparr>ph_deferred := ph_deferred h @ [s]\<rparr>, R, event)
           | Some r \<Rightarrow>
               let h1 = count_result r h
               in (if end_of_batch then flush_deferred R h1 else h1, R, event))"

section \<open>The handlers satisfy the contract\<close>

interpretation validation: event_handler validation_on_event
  by unfold_locales (auto simp: validation_on_event_def split: sum.split)

interpretation risk: event_handler risk_on_event
  by unfold_locales (auto simp: risk_on_event_def Let_def)

interpretation publish: event_handler publish_on_event
  by unfold_locales (auto simp: publish_on_event_def Let_def split: option.split)

interpretation gate: event_handler_pair validation_on_event risk_on_event ..

section \<open>Lemmas\<close>

lemma f32_clamp01_range:
  "f32_clamp01 x = F_NaN \<or>
   (\<exists>neg m. f32_clamp01 x = F_Fin neg m \<and> 0 \<le> f32_val (f32_clamp01 x) \<and> f32_val (f32_clamp01 x) \<le> 1)"
  by (cases x) (auto simp: f32_clamp01_def)

lemma count_result_deferred [simp]: "ph_deferred (count_result r h) = ph_deferred h"
  by (simp add: count_result_def split: transaction_result.split)

lemma flush_loop_deferred [simp]: "ph_deferred (flush_loop R ss h) = ph_deferred h"
  by (induction R ss h rule: flush_loop.induct) (auto split: option.split)

text \<open>The number of deferred sequences with a committed (rejected) result.\<close>

definition committed_in :: "results \<Rightarrow> i64 list \<Rightarrow> nat" where
  "committed_in R ss = length (filter (\<lambda>s. \<exists>t ts. R s = Some (Committed t ts)) ss)"

definition rejected_in :: "results \<Rightarrow> i64 list \<Rightarrow> nat" where
  "rejected_in R ss = length (filter (\<lambda>s. \<exists>e. R s = Some (Rejected e)) ss)"

lemma flush_loop_counts:
  "published_count (flush_loop R ss h) = published_count h + of_nat (committed_in R ss)"
  "rejected_count (flush_loop R ss h) = rejected_count h + of_nat (rejected_in R ss)"
  by (induction R ss h rule: flush_loop.induct)
     (auto simp: committed_in_def rejected_in_def count_result_def split: option.splits transaction_result.splits)

section \<open>Properties\<close>

text \<open>
  Validation and risk together decide exactly by the rules: for an event whose sequence has
  no result yet, running the validation handler and then the risk handler records a rejection
  for that sequence if and only if an identifier is zero, debit and credit are the same account,
  the amount is zero, or the event asks for a risk check and its amount exceeds the limit or its
  fraud score reaches the threshold; otherwise it records nothing. A sequence that has a result
  keeps it, no other sequence is touched and the event is unchanged.
\<close>

theorem gate_decides:
  "let (h', R', e') = seq_handlers validation_on_event risk_on_event ((), h) R e s b
   in e' = e \<and> (\<forall>t. t \<noteq> s \<longrightarrow> R' t = R t) \<and>
      (if R s \<noteq> None then R' s = R s
       else if is_zero (ev_transaction_id e) \<or> is_zero (ev_debit_account_id e) \<or>
               is_zero (ev_credit_account_id e) \<or> ev_debit_account_id e = ev_credit_account_id e \<or>
               ev_amount_units e = 0 \<or>
               requires_risk_check (ev_flags e) \<and>
               (max_amount_units h < ev_amount_units e \<or>
                f32_ge (fraud_scorer h (ev_debit_account_id e) (ev_amount_units e)) (fraud_threshold h))
       then \<exists>msg. R' s = Some (Rejected (ValidationError msg))
       else R' s = None)"
proof -
  obtain h' R' e' where o: "seq_handlers validation_on_event risk_on_event ((), h) R e s b = (h', R', e')"
    by (cases "seq_handlers validation_on_event risk_on_event ((), h) R e s b") auto
  have "e' = e" "\<forall>t. t \<noteq> s \<longrightarrow> R' t = R t" "R s \<noteq> None \<longrightarrow> R' s = R s"
    using gate.pair.event_kept [of "((), h)" R e s b] gate.pair.only_own [of _ s "((), h)" R e b]
      gate.pair.keeps [of R s _ "((), h)" e s b] by (auto simp: o)
  moreover have "R s = None \<Longrightarrow>
      (if is_zero (ev_transaction_id e) \<or> is_zero (ev_debit_account_id e) \<or>
               is_zero (ev_credit_account_id e) \<or> ev_debit_account_id e = ev_credit_account_id e \<or>
               ev_amount_units e = 0 \<or>
               requires_risk_check (ev_flags e) \<and>
               (max_amount_units h < ev_amount_units e \<or>
                f32_ge (fraud_scorer h (ev_debit_account_id e) (ev_amount_units e)) (fraud_threshold h))
       then \<exists>msg. R' s = Some (Rejected (ValidationError msg)) else R' s = None)"
    using o
    by (auto simp: seq_handlers_def validation_on_event_def validate_def risk_on_event_def Let_def domIff
        split: if_splits)
  ultimately show ?thesis by (auto simp: o Let_def)
qed

theorem gate_decides_witness:
  "let (h', R', e') = seq_handlers validation_on_event risk_on_event ((), risk_handler_new 100) Map.empty
        (transaction_event_new (Timestamp 0) (Id64 1) (Id64 2) (Id64 3) 0 LedgerId_USD 1) 5 False
   in (\<exists>msg. R' 5 = Some (Rejected (ValidationError msg))) \<and> R' 6 = None"
  using gate_decides [of "risk_handler_new 100" Map.empty
      "transaction_event_new (Timestamp 0) (Id64 1) (Id64 2) (Id64 3) 0 LedgerId_USD 1" 5 False]
  by (auto simp: Let_def is_zero_def transaction_event_new_def split: prod.splits)

text \<open>
  The publish handler counts every result once: for an event that is to be published and has
  a result, at the end of a batch, the two counters grow by exactly the number of committed and of
  rejected results among the event and the deferred sequences, and nothing stays deferred; an
  event without a result is deferred and counted nowhere yet; the results are not changed.
\<close>

theorem publish_counts:
  "let (h', R', e') = publish_on_event h R e s b
   in R' = R \<and>
     (if skip_publish (ev_flags e)
      then (if b then ph_deferred h' = [] \<and>
               published_count h' = published_count h + of_nat (committed_in R (ph_deferred h)) \<and>
               rejected_count h' = rejected_count h + of_nat (rejected_in R (ph_deferred h))
            else h' = h)
      else if R s = None
      then h' = h\<lparr>ph_deferred := ph_deferred h @ [s]\<rparr>
      else let ss = s # (if b then ph_deferred h else [])
           in ph_deferred h' = (if b then [] else ph_deferred h) \<and>
              published_count h' = published_count h + of_nat (committed_in R ss) \<and>
              rejected_count h' = rejected_count h + of_nat (rejected_in R ss))"
proof (cases "R s")
  case None
  then show ?thesis
    by (simp add: publish_on_event_def flush_deferred_def flush_loop_counts Let_def)
next
  case (Some r)
  then show ?thesis
    by (cases r) (simp_all add: publish_on_event_def flush_deferred_def flush_loop_counts Let_def
        count_result_def committed_in_def rejected_in_def)
qed

text \<open>
  The event with which a batch ends may itself have no result. The handler then returns before
  it flushes, and what was deferred stays deferred although the batch has ended.
\<close>

lemma publish_end_of_batch_keeps_deferred:
  "\<not> skip_publish (ev_flags e) \<Longrightarrow> R s = None \<Longrightarrow>
   ph_deferred (fst (publish_on_event h R e s True)) = ph_deferred h @ [s]"
  by (simp add: publish_on_event_def)

end
