(* ===== verification/Blz_LedgerHandler.thy ===== *)
theory Blz_LedgerHandler
  imports Blz_TigerBeetle Blz_Handlers Blz_Ring
begin

text \<open>
  \<^verbatim>\<open>core/engine/src/handlers/ledger.rs\<close>: the handler that turns events into transfers, collects
  them into batches and submits each batch to the ledger on a spawned task.

  \<open>lh_on_event\<close> is the whole of \<^verbatim>\<open>on_event\<close>: it returns the handler's new state, the results and
  the task it spawns, if any. \<open>run_task\<close> is the body of the spawned task with its retry loop.
  The wait for \<^verbatim>\<open>active_tasks\<close> to drop below its bound before a spawn, and the completion of
  tasks in any order, are the step relation \<open>lh_step\<close>. The monotonic clock (microseconds), the
  wall clock and the random UUID are arguments.
\<close>

section \<open>Constants and state\<close>

definition MAX_TB_BATCH_SIZE :: nat where "MAX_TB_BATCH_SIZE = 8190"
definition BATCH_FLUSH_TIMEOUT_US :: nat where "BATCH_FLUSH_TIMEOUT_US = 3000"
definition MAX_TRANSIENT_RETRIES :: nat where "MAX_TRANSIENT_RETRIES = 5"
definition TRANSIENT_BACKOFF_BASE_MS :: nat where "TRANSIENT_BACKOFF_BASE_MS = 50"
definition MAX_CONCURRENT_BATCHES :: nat where "MAX_CONCURRENT_BATCHES = 8"

record ('d, 'c) ledger_handler =
  batch_started_at :: "nat option"
  deferred_transfers :: "('d, 'c) transfer list"
  deferred_sequences :: "i64 list"

definition ledger_handler_new :: "('d, 'c) ledger_handler" where
  "ledger_handler_new =
     \<lparr>batch_started_at = None, deferred_transfers = [], deferred_sequences = []\<rparr>"

record ('d, 'c) lh_task =
  task_prev_sequences :: "i64 list"
  task_prev_n :: nat
  task_current_seq :: i64
  task_transfers :: "('d, 'c) transfer list"

section \<open>The handler\<close>

definition lh_build_transfer ::
  "('d, 'c) externs \<Rightarrow> timestamp \<Rightarrow> uuid_bytes \<Rightarrow> transaction_event \<Rightarrow> ('d, 'c) amount \<Rightarrow>
   ('d, 'c) transfer blazer_result" where
  "lh_build_transfer X now v4 event amount =
     (let i = uuid_id_new v4; f = ev_flags event;
          with_flags = transfer_new_with_flags X now i (ev_debit_account_id event)
                         (ev_credit_account_id event) amount (ev_ledger_id event) (ev_code event)
      in case (is_pending f, is_posted f, is_voided f) of
           (True, False, False) \<Rightarrow> with_flags (transfer_flags_default\<lparr>tr_pending := True\<rparr>) None
         | (False, True, False) \<Rightarrow>
             with_flags (transfer_flags_default\<lparr>post_pending_transfer := True\<rparr>)
               (Some (ev_pending_transfer_id event))
         | (False, False, True) \<Rightarrow>
             with_flags (transfer_flags_default\<lparr>void_pending_transfer := True\<rparr>)
               (Some (ev_pending_transfer_id event))
         | _ \<Rightarrow> transfer_new X now i (ev_debit_account_id event) (ev_credit_account_id event) amount
                 (ev_ledger_id event) (ev_code event))"

definition lh_on_event ::
  "('d, 'c) externs \<Rightarrow> timestamp \<Rightarrow> uuid_bytes \<Rightarrow> nat \<Rightarrow> ('d, 'c) ledger_handler \<Rightarrow> results \<Rightarrow>
   transaction_event \<Rightarrow> i64 \<Rightarrow> bool \<Rightarrow>
   ('d, 'c) ledger_handler \<times> results \<times> ('d, 'c) lh_task option" where
  "lh_on_event X now v4 now_us h R event s end_of_batch =
     (if s \<in> dom R then (h, R, None)
      else case and_then (ledger_id_to_currency X (ev_ledger_id event))
                  (minor_units_to_amount X (unat (ev_amount_units event))) of
        Inl e \<Rightarrow> (h, R(s \<mapsto> Rejected e), None)
      | Inr amount \<Rightarrow>
      (case lh_build_transfer X now v4 event amount of
        Inl e \<Rightarrow> (h, R(s \<mapsto> Rejected e), None)
      | Inr transfer \<Rightarrow>
        let batch_age_exceeded =
              (case batch_started_at h of
                 None \<Rightarrow> False | Some started \<Rightarrow> now_us - started \<ge> BATCH_FLUSH_TIMEOUT_US);
            should_flush = (end_of_batch \<or> length (deferred_transfers h) + 1 \<ge> MAX_TB_BATCH_SIZE \<or>
                            batch_age_exceeded)
        in if \<not> should_flush
           then (\<lparr>batch_started_at = (if deferred_transfers h = [] then Some now_us else batch_started_at h),
                  deferred_transfers = deferred_transfers h @ [transfer],
                  deferred_sequences = deferred_sequences h @ [s]\<rparr>, R, None)
           else (\<lparr>batch_started_at = None, deferred_transfers = [], deferred_sequences = []\<rparr>, R,
                 Some \<lparr>task_prev_sequences = deferred_sequences h,
                       task_prev_n = length (deferred_transfers h), task_current_seq = s,
                       task_transfers = deferred_transfers h @ [transfer]\<rparr>)))"

section \<open>The spawned task\<close>

definition all_transient :: "transfer_id blazer_result list \<Rightarrow> bool" where
  "all_transient rs = list_all (\<lambda>r. case r of Inl e \<Rightarrow> is_transient e | Inr _ \<Rightarrow> False) rs"

definition backoff_ms :: "nat \<Rightarrow> nat" where
  "backoff_ms attempt = TRANSIENT_BACKOFF_BASE_MS * push_bit (min attempt 4) 1"

text \<open>
  The retry loop returns the results of the last attempt and the delays it slept, in
  milliseconds.
\<close>

function lh_retry ::
  "('s \<Rightarrow> 't list \<Rightarrow> 's \<times> transfer_id blazer_result list) \<Rightarrow> 's \<Rightarrow> nat \<Rightarrow> 't list \<Rightarrow>
   's \<times> transfer_id blazer_result list \<times> nat list" where
  "lh_retry batch s attempt ts =
     (let (s', results) = batch s ts
      in if \<not> all_transient results \<or> attempt \<ge> MAX_TRANSIENT_RETRIES then (s', results, [])
         else let (s'', final, delays) = lh_retry batch s' (attempt + 1) ts
              in (s'', final, backoff_ms (attempt + 1) # delays))"
  by pat_completeness auto
termination
  by (relation "measure (\<lambda>(_, _, attempt, _). MAX_TRANSIENT_RETRIES - attempt)") auto

declare lh_retry.simps [simp del]

text \<open>Where results go: the map of results and, when configured, the result ring.\<close>

type_synonym sink = "results \<times> result_ring option"

definition write_result :: "timestamp \<Rightarrow> i64 \<Rightarrow> transfer_id blazer_result \<Rightarrow> sink \<Rightarrow> sink" where
  "write_result now s r k =
     (case r of
        Inr transfer_id \<Rightarrow>
          (case snd k of
             Some ring \<Rightarrow> (fst k, Some (rr_insert ring s transfer_id))
           | None \<Rightarrow> ((fst k)(s \<mapsto> Committed transfer_id now), None))
      | Inl e \<Rightarrow> ((fst k)(s \<mapsto> Rejected e), snd k))"

text \<open>The loop over the deferred sequences; an index out of range panics (\<open>None\<close>).\<close>

fun write_deferred ::
  "timestamp \<Rightarrow> transfer_id blazer_result list \<Rightarrow> nat \<Rightarrow> i64 list \<Rightarrow> sink \<Rightarrow> sink option" where
  "write_deferred now rs i [] k = Some k"
| "write_deferred now rs i (s # ss) k =
     (if i < length rs then write_deferred now rs (Suc i) ss (write_result now s (rs ! i) k) else None)"

definition run_task ::
  "('s \<Rightarrow> ('d, 'c) transfer list \<Rightarrow> 's \<times> transfer_id blazer_result list) \<Rightarrow> timestamp \<Rightarrow> 's \<Rightarrow>
   ('d, 'c) lh_task \<Rightarrow> sink \<Rightarrow> 's \<times> sink option" where
  "run_task batch now s task k =
     (let (s', rs, delays) = lh_retry batch s 0 (task_transfers task)
      in case write_deferred now rs 0 (task_prev_sequences task) k of
           None \<Rightarrow> (s', None)
         | Some k1 \<Rightarrow>
             (s', if task_prev_n task < length rs
                  then Some (write_result now (task_current_seq task) (rs ! task_prev_n task) k1)
                  else None))"

section \<open>Handler, tasks and ledger together\<close>

record ('d, 'c, 's) lh_sys =
  ls_handler :: "('d, 'c) ledger_handler"
  ls_sink :: sink
  ls_active :: nat
  ls_tasks :: "('d, 'c) lh_task list"
  ls_client :: 's
  ls_seen :: "i64 list"

definition lh_init :: "result_ring option \<Rightarrow> results \<Rightarrow> 's \<Rightarrow> ('d, 'c, 's) lh_sys" where
  "lh_init ring R s =
     \<lparr>ls_handler = ledger_handler_new, ls_sink = (R, ring), ls_active = 0, ls_tasks = [],
      ls_client = s, ls_seen = []\<rparr>"

inductive lh_step ::
  "('d, 'c) externs \<Rightarrow> ('s \<Rightarrow> ('d, 'c) transfer list \<Rightarrow> 's \<times> transfer_id blazer_result list) \<Rightarrow>
   ('d, 'c, 's) lh_sys \<Rightarrow> ('d, 'c, 's) lh_sys \<Rightarrow> bool" for X batch where
  lh_event: "lh_on_event X now v4 now_us (ls_handler S) (fst (ls_sink S)) event s b = (h', R', None) \<Longrightarrow>
    lh_step X batch S
      (S\<lparr>ls_handler := h', ls_sink := (R', snd (ls_sink S)), ls_seen := ls_seen S @ [s]\<rparr>)"
| lh_dispatch: "lh_on_event X now v4 now_us (ls_handler S) (fst (ls_sink S)) event s b = (h', R', Some task) \<Longrightarrow>
    ls_active S < MAX_CONCURRENT_BATCHES \<Longrightarrow>
    lh_step X batch S
      (S\<lparr>ls_handler := h', ls_sink := (R', snd (ls_sink S)), ls_seen := ls_seen S @ [s],
         ls_active := ls_active S + 1, ls_tasks := ls_tasks S @ [task]\<rparr>)"
| lh_complete: "j < length (ls_tasks S) \<Longrightarrow>
    run_task batch now (ls_client S) (ls_tasks S ! j) (ls_sink S) = (s', Some k') \<Longrightarrow>
    lh_step X batch S
      (S\<lparr>ls_client := s', ls_sink := k', ls_active := ls_active S - 1,
         ls_tasks := take j (ls_tasks S) @ drop (Suc j) (ls_tasks S)\<rparr>)"

section \<open>Lemmas\<close>

definition task_seqs :: "('d, 'c) lh_task \<Rightarrow> i64 list" where
  "task_seqs t = task_prev_sequences t @ [task_current_seq t]"

definition handler_ok :: "('d, 'c) ledger_handler \<Rightarrow> bool" where
  "handler_ok h \<longleftrightarrow> length (deferred_transfers h) = length (deferred_sequences h) \<and>
     length (deferred_transfers h) < MAX_TB_BATCH_SIZE"

definition task_ok :: "('d, 'c) lh_task \<Rightarrow> bool" where
  "task_ok t \<longleftrightarrow> task_prev_n t = length (task_prev_sequences t) \<and>
     length (task_transfers t) = length (task_seqs t) \<and> length (task_transfers t) \<le> MAX_TB_BATCH_SIZE"

lemma lh_on_event_cases:
  assumes "handler_ok h" "lh_on_event X now v4 us h R event s b = (h', R', task)"
  obtains (answered) "h' = h" "task = None" "R' s \<noteq> None" "\<forall>t. t \<noteq> s \<longrightarrow> R' t = R t" "R s \<noteq> None \<longrightarrow> R' = R"
  | (deferred) "handler_ok h'" "task = None" "R' = R" "deferred_sequences h' = deferred_sequences h @ [s]"
      "R s = None" "\<not> b"
  | (spawned) t where "task = Some t" "task_ok t" "task_seqs t = deferred_sequences h @ [s]" "R' = R"
      "handler_ok h'" "deferred_sequences h' = []" "R s = None"
proof -
  have *: "length (deferred_transfers h) = length (deferred_sequences h)"
    "length (deferred_transfers h) < MAX_TB_BATCH_SIZE" using assms(1) by (simp_all add: handler_ok_def)
  have M: "0 < MAX_TB_BATCH_SIZE" by (simp add: MAX_TB_BATCH_SIZE_def)
  show ?thesis
  proof (cases "s \<in> dom R")
    case True
    then show ?thesis using assms(2) by (intro answered) (auto simp: lh_on_event_def)
  next
    case new: False
    show ?thesis
    proof (cases "and_then (ledger_id_to_currency X (ev_ledger_id event))
                    (minor_units_to_amount X (unat (ev_amount_units event)))")
      case (Inl e)
      then show ?thesis using assms(2) new by (intro answered) (auto simp: lh_on_event_def domIff)
    next
      case amount: (Inr amount)
      show ?thesis
      proof (cases "lh_build_transfer X now v4 event amount")
        case (Inl e)
        then show ?thesis
          using assms(2) new amount by (intro answered) (auto simp: lh_on_event_def domIff)
      next
        case tr: (Inr transfer)
        define age where "age = (case batch_started_at h of
                 None \<Rightarrow> False | Some started \<Rightarrow> us - started \<ge> BATCH_FLUSH_TIMEOUT_US)"
        show ?thesis
        proof (cases "b \<or> length (deferred_transfers h) + 1 \<ge> MAX_TB_BATCH_SIZE \<or> age")
          case True
          then show ?thesis
            using assms(2) new amount tr * M
            by (intro spawned) (auto simp: lh_on_event_def Let_def age_def task_ok_def task_seqs_def handler_ok_def)
        next
          case False
          then show ?thesis
            using assms(2) new amount tr *
            by (intro deferred) (auto simp: lh_on_event_def Let_def age_def handler_ok_def)
        qed
      qed
    qed
  qed
qed

lemma write_deferred_fold:
  "i + length ss \<le> length rs \<Longrightarrow>
   write_deferred now rs i ss k = Some (fold (\<lambda>(s, r). write_result now s r) (zip ss (drop i rs)) k)"
proof (induction ss arbitrary: i k)
  case (Cons s ss)
  then have "drop i rs = rs ! i # drop (Suc i) rs" by (simp add: Cons_nth_drop_Suc)
  then show ?case using Cons by simp
qed simp

text \<open>The results kept are those of one call of the ledger, the last one made.\<close>

lemma lh_retry_last:
  "\<exists>s'. fst (lh_retry batch s n ts) = fst (batch s' ts) \<and>
        fst (snd (lh_retry batch s n ts)) = snd (batch s' ts)"
proof (induction batch s n ts rule: lh_retry.induct)
  case (1 batch s n ts)
  obtain s1 rs where b: "batch s ts = (s1, rs)" by (cases "batch s ts")
  show ?case
  proof (cases "\<not> all_transient rs \<or> n \<ge> MAX_TRANSIENT_RETRIES")
    case True
    then have "lh_retry batch s n ts = (s1, rs, [])" by (simp add: lh_retry.simps [of batch s] b)
    then show ?thesis using b by (intro exI [of _ s]) simp
  next
    case False
    then show ?thesis
      using 1 [OF b [symmetric] refl False]
      by (simp add: lh_retry.simps [of batch s] b split_beta Let_def)
  qed
qed

context ledger_client
begin

lemma lh_retry_length: "length (fst (snd (lh_retry batch s n ts))) = length ts"
  using lh_retry_last [of batch s n ts] batch_length by metis

lemma lh_retry_ids:
  assumes "i < length ts" "fst (snd (lh_retry batch s n ts)) ! i = Inr t"
  shows "t = tr_id (ts ! i)"
  using lh_retry_last [of batch s n ts] batch_ids [OF assms(1)] assms(2) by metis

lemma run_task_fold:
  assumes "task_ok t"
  shows "run_task batch now s t k =
    (fst (lh_retry batch s 0 (task_transfers t)),
     Some (fold (\<lambda>(s, r). write_result now s r)
             (zip (task_seqs t) (fst (snd (lh_retry batch s 0 (task_transfers t))))) k))"
proof -
  let ?rs = "fst (snd (lh_retry batch s 0 (task_transfers t)))" and ?p = "task_prev_sequences t"
  have len: "length ?rs = length ?p + 1"
    using assms by (simp add: lh_retry_length task_ok_def task_seqs_def)
  have n: "task_prev_n t = length ?p" using assms by (simp add: task_ok_def)
  have "drop (length ?p) ?rs = [?rs ! length ?p]"
    using len by (simp flip: Cons_nth_drop_Suc)
  moreover have "zip ?p (take (length ?p) ?rs) = zip ?p ?rs"
    using len by (intro nth_equalityI) auto
  ultimately have "zip (task_seqs t) ?rs = zip ?p ?rs @ [(task_current_seq t, ?rs ! length ?p)]"
    by (simp add: task_seqs_def zip_append1)
  then show ?thesis
    using len n write_deferred_fold [of 0 ?p ?rs now k]
    by (simp add: run_task_def split_beta Let_def)
qed

end

text \<open>
  What a reader of the results finds for a sequence: the map first, then the result ring on its
  current window.
\<close>

definition outcome_of :: "i64 \<Rightarrow> sink \<Rightarrow> i64 \<Rightarrow> transfer_id blazer_result option" where
  "outcome_of lo k s =
     (case fst k s of
        Some (Committed i _) \<Rightarrow> Some (Inr i)
      | Some (Rejected e) \<Rightarrow> Some (Inl e)
      | None \<Rightarrow> (case snd k of None \<Rightarrow> None | Some ring \<Rightarrow> map_option Inr (rr_map ring lo s)))"

definition sink_ok :: "i64 \<Rightarrow> i64 list \<Rightarrow> sink \<Rightarrow> bool" where
  "sink_ok lo ss k \<longleftrightarrow>
     (\<forall>ring. snd k = Some ring \<longrightarrow> rr_ok ring \<and> (\<forall>s\<in>set ss. in_window ring lo s))"

lemma write_result_outcome:
  assumes "sink_ok lo [s] k" "fst k s = None"
  shows "outcome_of lo (write_result now s r k) t = (if t = s then Some r else outcome_of lo k t)"
proof (cases r)
  case (Inl e)
  then show ?thesis by (auto simp: write_result_def outcome_of_def split: option.split)
next
  case (Inr i)
  then show ?thesis
    using assms by (auto simp: write_result_def outcome_of_def sink_ok_def rr_insert_map split: option.split)
qed

lemma write_result_sink_ok: "sink_ok lo ss k \<Longrightarrow> sink_ok lo ss (write_result now s r k)"
  by (auto simp: sink_ok_def write_result_def split: sum.splits option.splits)

lemma write_result_map_other: "t \<noteq> s \<Longrightarrow> fst (write_result now s r k) t = fst k t"
  by (auto simp: write_result_def split: sum.splits option.splits)

lemma fold_write_outcome:
  "length ss = length rs \<Longrightarrow> distinct ss \<Longrightarrow> sink_ok lo ss k \<Longrightarrow> \<forall>s\<in>set ss. fst k s = None \<Longrightarrow>
   outcome_of lo (fold (\<lambda>(s, r). write_result now s r) (zip ss rs) k) t =
     (case map_of (zip ss rs) t of Some r \<Rightarrow> Some r | None \<Rightarrow> outcome_of lo k t)"
proof (induction ss rs arbitrary: k rule: list_induct2)
  case (Cons s ss r rs)
  let ?k = "write_result now s r k"
  have ok: "sink_ok lo [s] k" "sink_ok lo ss ?k"
    using Cons.prems(2) write_result_sink_ok [of lo ss k] by (auto simp: sink_ok_def)
  have "fst ?k t = None" if "t \<in> set ss" for t
    using Cons.prems that by (subst write_result_map_other) auto
  then have "outcome_of lo (fold (\<lambda>(s, r). write_result now s r) (zip ss rs) ?k) t =
      (case map_of (zip ss rs) t of Some r \<Rightarrow> Some r | None \<Rightarrow> outcome_of lo ?k t)"
    using Cons ok by simp
  moreover have "map_of (zip ss rs) s = None" using Cons.prems(1) Cons.hyps by (simp add: map_of_zip_is_None)
  ultimately show ?case
    using write_result_outcome [OF ok(1), of now r t] Cons.prems(3) by (auto split: option.split)
qed simp

context ledger_client
begin

lemma run_task_outcomes:
  assumes t: "task_ok t" "distinct (task_seqs t)" and k: "sink_ok lo (task_seqs t) k"
    "\<forall>s\<in>set (task_seqs t). fst k s = None"
  shows "\<exists>k' rs. run_task batch now s t k = (fst (lh_retry batch s 0 (task_transfers t)), Some k') \<and>
    rs = fst (snd (lh_retry batch s 0 (task_transfers t))) \<and> length rs = length (task_seqs t) \<and>
    (\<forall>i < length rs. outcome_of lo k' (task_seqs t ! i) = Some (rs ! i) \<and>
       (\<forall>j. rs ! i = Inr j \<longrightarrow> j = tr_id (task_transfers t ! i))) \<and>
    (\<forall>q. q \<notin> set (task_seqs t) \<longrightarrow> outcome_of lo k' q = outcome_of lo k q)"
proof -
  let ?rs = "fst (snd (lh_retry batch s 0 (task_transfers t)))"
  let ?k = "fold (\<lambda>(s, r). write_result now s r) (zip (task_seqs t) ?rs) k"
  have len: "length ?rs = length (task_seqs t)" using t(1) by (simp add: lh_retry_length task_ok_def)
  note o = fold_write_outcome [OF len [symmetric] t(2) k, of now]
  have "map_of (zip (task_seqs t) ?rs) (task_seqs t ! i) = Some (?rs ! i)" if "i < length ?rs" for i
    using that len t(2) by (simp add: map_of_zip_nth)
  moreover have "map_of (zip (task_seqs t) ?rs) q = None" if "q \<notin> set (task_seqs t)" for q
    using that map_of_zip_is_None [OF len [symmetric], of q] by simp
  moreover have "j = tr_id (task_transfers t ! i)" if "i < length ?rs" "?rs ! i = Inr j" for i j
    using that lh_retry_ids [of i "task_transfers t"] by (simp add: lh_retry_length)
  ultimately have "\<forall>i < length ?rs. outcome_of lo ?k (task_seqs t ! i) = Some (?rs ! i) \<and>
       (\<forall>j. ?rs ! i = Inr j \<longrightarrow> j = tr_id (task_transfers t ! i))"
    "\<forall>q. q \<notin> set (task_seqs t) \<longrightarrow> outcome_of lo ?k q = outcome_of lo k q"
    by (simp_all add: o)
  then show ?thesis
    using len unfolding run_task_fold [OF t(1)] by (intro exI conjI) (rule refl, rule refl, auto)
qed

end

section \<open>No event is lost\<close>

definition answered :: "sink \<Rightarrow> i64 \<Rightarrow> bool" where
  "answered k s \<longleftrightarrow> fst k s \<noteq> None \<or> (\<exists>ring. snd k = Some ring \<and> rr_contains ring s)"

definition lh_inv :: "('d, 'c, 's) lh_sys \<Rightarrow> bool" where
  "lh_inv S \<longleftrightarrow>
     handler_ok (ls_handler S) \<and> (\<forall>t\<in>set (ls_tasks S). task_ok t) \<and>
     ls_active S = length (ls_tasks S) \<and> ls_active S \<le> MAX_CONCURRENT_BATCHES \<and>
     (\<forall>ring. snd (ls_sink S) = Some ring \<longrightarrow> rr_ok ring) \<and>
     (\<forall>s\<in>set (ls_seen S).
        answered (ls_sink S) s \<or> s \<in> set (deferred_sequences (ls_handler S)) \<or>
        (\<exists>t\<in>set (ls_tasks S). s \<in> set (task_seqs t)))"

lemma write_result_answered:
  assumes "\<forall>ring. snd k = Some ring \<longrightarrow> rr_ok ring"
  shows "answered k t \<Longrightarrow> answered (write_result now s r k) t"
    "answered (write_result now s r k) s"
    "\<forall>ring. snd (write_result now s r k) = Some ring \<longrightarrow> rr_ok ring"
proof -
  have ins: "rr_contains (rr_insert ring s i) t"
    if "rr_ok ring" "rr_contains ring t \<or> s = t" for ring i t
    using that rr.slot_bound [OF that(1)]
    by (auto simp: rr_contains_def rr_insert_def rr_index_def Let_def nth_list_update)
  show "answered (write_result now s r k) t" if "answered k t"
    using that ins assms by (auto simp: answered_def write_result_def split: sum.splits option.splits)
  show "answered (write_result now s r k) s"
    using ins assms by (auto simp: answered_def write_result_def split: sum.splits option.splits)
  show "\<forall>ring. snd (write_result now s r k) = Some ring \<longrightarrow> rr_ok ring"
    using assms by (auto simp: write_result_def split: sum.splits option.splits)
qed

lemma fold_write_answered:
  assumes "length ss = length rs" "\<forall>ring. snd k = Some ring \<longrightarrow> rr_ok ring"
  shows "(\<forall>ring. snd (fold (\<lambda>(s, r). write_result now s r) (zip ss rs) k) = Some ring \<longrightarrow> rr_ok ring) \<and>
    (\<forall>t. answered k t \<or> t \<in> set ss \<longrightarrow> answered (fold (\<lambda>(s, r). write_result now s r) (zip ss rs) k) t)"
  using assms
proof (induction ss rs arbitrary: k rule: list_induct2)
  case (Cons s ss r rs)
  note w = write_result_answered [OF Cons.prems]
  have "answered (fold (\<lambda>(s, r). write_result now s r) (zip ss rs) (write_result now s r k)) t"
    if "answered k t \<or> t \<in> set (s # ss)" for t
    using that Cons.IH [OF w(3)] w(1,2) by auto
  then show ?case using Cons.IH [OF w(3)] by simp
qed simp

context ledger_client
begin

lemma lh_step_inv:
  assumes "lh_step X batch S S'" "lh_inv S"
  shows "lh_inv S'"
  using assms
proof (induction rule: lh_step.induct)
  case (lh_event now v4 us S event s b h' R')
  note inv = lh_event.prems [unfolded lh_inv_def]
  from inv have "handler_ok (ls_handler S)" by blast
  then show ?case
    using lh_event.hyps
  proof (cases rule: lh_on_event_cases)
    case answered
    have "answered (R', snd (ls_sink S)) t" if "answered (ls_sink S) t \<or> t = s" for t
      using that answered by (cases "t = s") (auto simp: answered_def)
    then show ?thesis using inv answered by (auto simp: lh_inv_def)
  next
    case deferred
    then show ?thesis using inv by (auto simp: lh_inv_def)
  qed simp
next
  case (lh_dispatch now v4 us S event s b h' R' task)
  note inv = lh_dispatch.prems [unfolded lh_inv_def]
  from inv have "handler_ok (ls_handler S)" by blast
  then show ?case
    using lh_dispatch.hyps(1)
  proof (cases rule: lh_on_event_cases)
    case (spawned t)
    then show ?thesis using inv lh_dispatch.hyps(2) by (auto simp: lh_inv_def)
  qed simp_all
next
  case (lh_complete j S now s' k')
  note inv = lh_complete.prems [unfolded lh_inv_def]
  let ?t = "ls_tasks S ! j"
  have split: "ls_tasks S = take j (ls_tasks S) @ ?t # drop (Suc j) (ls_tasks S)"
    using lh_complete.hyps(1) by (rule id_take_nth_drop)
  have ok: "task_ok ?t" using inv lh_complete.hyps(1) by auto
  let ?rs = "fst (snd (lh_retry batch (ls_client S) 0 (task_transfers ?t)))"
  have len: "length (task_seqs ?t) = length ?rs" using ok by (simp add: lh_retry_length task_ok_def)
  have k': "k' = fold (\<lambda>(s, r). write_result now s r) (zip (task_seqs ?t) ?rs) (ls_sink S)"
    using lh_complete.hyps(2) unfolding run_task_fold [OF ok] by simp
  have w: "\<forall>ring. snd k' = Some ring \<longrightarrow> rr_ok ring"
    "answered (ls_sink S) t \<or> t \<in> set (task_seqs ?t) \<Longrightarrow> answered k' t" for t
    using fold_write_answered [OF len, of "ls_sink S" now, folded k'] inv by blast+
  have tasks: "t = ?t \<or> t \<in> set (take j (ls_tasks S) @ drop (Suc j) (ls_tasks S))"
    if "t \<in> set (ls_tasks S)" for t
    using that by (subst (asm) split) auto
  have "answered k' s \<or> s \<in> set (deferred_sequences (ls_handler S)) \<or>
      (\<exists>t\<in>set (take j (ls_tasks S) @ drop (Suc j) (ls_tasks S)). s \<in> set (task_seqs t))"
    if "s \<in> set (ls_seen S)" for s
    using inv that w(2) [of s] tasks by blast
  moreover have "\<forall>t\<in>set (take j (ls_tasks S) @ drop (Suc j) (ls_tasks S)). task_ok t"
    using inv by (auto dest: in_set_takeD in_set_dropD)
  moreover have "ls_active S - 1 \<le> MAX_CONCURRENT_BATCHES" using inv by linarith
  ultimately show ?case
    using inv w(1) lh_complete.hyps(1) by (simp add: lh_inv_def)
qed

lemma lh_reach_inv:
  assumes "(lh_step X batch)\<^sup>*\<^sup>* S S'" "lh_inv S"
  shows "lh_inv S'"
  using assms by (induction rule: rtranclp_induct) (auto intro: lh_step_inv)

end

lemma lh_init_inv: "\<forall>R. ring = Some R \<longrightarrow> rr_ok R \<Longrightarrow> lh_inv (lh_init ring R s)"
  by (simp add: lh_inv_def lh_init_def handler_ok_def ledger_handler_new_def MAX_TB_BATCH_SIZE_def)

section \<open>Retries\<close>

lemma lh_retry_bound:
  "length (snd (snd (lh_retry batch s n ts))) \<le> MAX_TRANSIENT_RETRIES - n \<and>
   sum_list (snd (snd (lh_retry batch s n ts))) \<le> sum_list (map backoff_ms [Suc n..<Suc MAX_TRANSIENT_RETRIES])"
proof (induction batch s n ts rule: lh_retry.induct)
  case (1 batch s n ts)
  obtain s1 rs where b: "batch s ts = (s1, rs)" by (cases "batch s ts")
  show ?case
  proof (cases "\<not> all_transient rs \<or> n \<ge> MAX_TRANSIENT_RETRIES")
    case True
    then have "lh_retry batch s n ts = (s1, rs, [])" by (simp add: lh_retry.simps [of batch s] b)
    then show ?thesis by simp
  next
    case False
    then have "[Suc n..<Suc MAX_TRANSIENT_RETRIES] = Suc n # [Suc (Suc n)..<Suc MAX_TRANSIENT_RETRIES]"
      by (simp add: upt_conv_Cons)
    then show ?thesis
      using 1 [OF b [symmetric] refl False] False
      by (simp add: lh_retry.simps [of batch s] b split_beta Let_def) linarith
  qed
qed

definition injected :: "'t list \<Rightarrow> transfer_id blazer_result list" where
  "injected ts = map (\<lambda>_. Inl (LedgerTransient ''injected transient fault for testing'')) ts"

lemma all_transient_injected: "all_transient (injected ts)"
  by (simp add: all_transient_def injected_def is_transient_def list_all_iff)

lemma fi_batch_fault:
  "0 < remaining_faults F \<Longrightarrow>
   fi_batch B F ts = (F\<lparr>remaining_faults := remaining_faults F - 1\<rparr>, injected ts)"
  by (simp add: fi_batch_def injected_def)

lemma fi_batch_clear:
  "remaining_faults F = 0 \<Longrightarrow>
   fi_batch B F ts = (F\<lparr>fi_inner := fst (B (fi_inner F) ts)\<rparr>, snd (B (fi_inner F) ts))"
  by (simp add: fi_batch_def split_beta Let_def)

lemma unat_pred: "0 < (w :: u32) \<Longrightarrow> unat (w - 1) = unat w - 1"
  by (metis unat_gt_0 unat_minus_one word_gt_0_no word_neq_0_conv)

lemma lh_retry_absorbs:
  assumes "\<not> all_transient (snd (B (fi_inner F) ts))"
  shows "n + unat (remaining_faults F) \<le> MAX_TRANSIENT_RETRIES \<Longrightarrow>
    lh_retry (fi_batch B) F n ts =
      (F\<lparr>remaining_faults := 0, fi_inner := fst (B (fi_inner F) ts)\<rparr>, snd (B (fi_inner F) ts),
       map (\<lambda>i. backoff_ms (Suc (n + i))) [0..<unat (remaining_faults F)])"
  using assms
proof (induction "unat (remaining_faults F)" arbitrary: F n)
  case 0
  then have "remaining_faults F = 0" by (simp add: unat_eq_0)
  then show ?case using 0
    by (cases F) (simp add: lh_retry.simps [of "fi_batch B"] fi_batch_clear)
next
  case (Suc f)
  let ?F = "F\<lparr>remaining_faults := remaining_faults F - 1\<rparr>"
  have pos: "0 < remaining_faults F" using Suc.hyps(2) by (metis word_neq_0_conv unat_0 nat.distinct(1))
  have f: "f = unat (remaining_faults ?F)" using Suc.hyps(2) unat_pred [OF pos] by simp
  have n: "n < MAX_TRANSIENT_RETRIES" using Suc.hyps(2) Suc.prems(1) by simp
  have "Suc n + unat (remaining_faults ?F) \<le> MAX_TRANSIENT_RETRIES"
    using Suc.prems(1) Suc.hyps(2) f by simp
  from Suc.hyps(1) [OF f this] Suc.prems(2)
  have "lh_retry (fi_batch B) ?F (Suc n) ts =
      (F\<lparr>remaining_faults := 0, fi_inner := fst (B (fi_inner F) ts)\<rparr>, snd (B (fi_inner F) ts),
       map (\<lambda>i. backoff_ms (Suc (Suc n + i))) [0..<f])"
    unfolding f by simp
  then show ?case
    unfolding Suc.hyps(2) [symmetric] map_upt_Suc
    using n by (simp add: lh_retry.simps [of "fi_batch B" F] fi_batch_fault [OF pos] all_transient_injected)
qed

lemma lh_retry_exhausts:
  "n \<le> MAX_TRANSIENT_RETRIES \<Longrightarrow> MAX_TRANSIENT_RETRIES < n + unat (remaining_faults F) \<Longrightarrow>
   fi_inner (fst (lh_retry (fi_batch B) F n ts)) = fi_inner F \<and>
   fst (snd (lh_retry (fi_batch B) F n ts)) = injected ts"
proof (induction "MAX_TRANSIENT_RETRIES - n" arbitrary: F n)
  case 0
  have pos: "0 < remaining_faults F" using 0 by (metis add.right_neutral diff_is_0_eq' leD unat_0 word_neq_0_conv)
  then show ?case
    using 0 by (simp add: lh_retry.simps [of "fi_batch B"] fi_batch_fault)
next
  case (Suc m)
  let ?F = "F\<lparr>remaining_faults := remaining_faults F - 1\<rparr>"
  have pos: "0 < remaining_faults F" using Suc by (metis add.right_neutral leD unat_0 word_neq_0_conv)
  have "m = MAX_TRANSIENT_RETRIES - Suc n" "Suc n \<le> MAX_TRANSIENT_RETRIES"
    "MAX_TRANSIENT_RETRIES < Suc n + unat (remaining_faults ?F)"
    using Suc.hyps(2) Suc.prems unat_pred [OF pos] by auto
  from Suc.hyps(1) [OF this] show ?case
    using Suc.hyps(2)
    by (simp add: lh_retry.simps [of "fi_batch B" F] fi_batch_fault [OF pos] all_transient_injected
        split_beta Let_def)
qed

section \<open>Properties\<close>

text \<open>
  C32. A submitted batch answers every sequence with its own result: for a task whose sequences
  are distinct, have no result yet and (when the result ring is used) lie in the ring's window,
  the spawned task over the TigerBeetle client never panics; afterwards a reader finds for each
  of its sequences the result the ledger returned for the transfer built from that event (on
  success that transfer's id), and the outcome of every other sequence is unchanged.
\<close>

theorem task_answers_every_sequence:
  fixes t :: "('d, 'c) lh_task"
  assumes "task_ok t" "distinct (task_seqs t)" "sink_ok lo (task_seqs t) k"
    and "\<forall>s\<in>set (task_seqs t). fst k s = None"
  shows "\<exists>k' rs. run_task (tb_batch X T) now C t k =
      (fst (lh_retry (tb_batch X T) C 0 (task_transfers t)), Some k') \<and>
    rs = fst (snd (lh_retry (tb_batch X T) C 0 (task_transfers t))) \<and> length rs = length (task_seqs t) \<and>
    (\<forall>i < length rs. outcome_of lo k' (task_seqs t ! i) = Some (rs ! i) \<and>
       (\<forall>j. rs ! i = Inr j \<longrightarrow> j = tr_id (task_transfers t ! i))) \<and>
    (\<forall>q. q \<notin> set (task_seqs t) \<longrightarrow> outcome_of lo k' q = outcome_of lo k q)"
  using assms by (rule tbc.run_task_outcomes)

definition ex_tb_ops :: "unit tb_ops" where
  "ex_tb_ops =
     \<lparr>op_create_accounts = (\<lambda>s _. (s, Inr ())), op_create_transfers = (\<lambda>s _. (s, TbApi [(1, ''ExceedsCredits'')])),
      op_lookup_accounts = (\<lambda>s _. (s, Inr [])), op_lookup_transfers = (\<lambda>s _. (s, Inr [])),
      op_show_api = (\<lambda>_. ''api'')\<rparr>"

definition ex_tb_client :: "unit tb_client" where
  "ex_tb_client = \<lparr>tbc_inner = (), tbc_address = ''127.0.0.1:3000'', tbc_metrics = ledger_metrics_new\<rparr>"

definition ex_task :: "(refdec, refcur) lh_task" where
  "ex_task = \<lparr>task_prev_sequences = [4], task_prev_n = 1, task_current_seq = 5,
              task_transfers = [ex_transfer 1 1 2 500, ex_transfer 2 1 2 300]\<rparr>"

theorem task_answers_every_sequence_witness:
  "\<exists>k'. snd (run_task (tb_batch ref_externs ex_tb_ops) (Timestamp 9) ex_tb_client ex_task (Map.empty, None)) = Some k' \<and>
     outcome_of 0 k' 4 = Some (Inr (UuidId (replicate 15 0 @ [1]))) \<and> outcome_of 0 k' 6 = None"
proof -
  have m: "amount_to_minor_units ref_externs (tr_amount (ex_transfer n 1 2 500)) = Inr 500"
    "amount_to_minor_units ref_externs (tr_amount (ex_transfer n 1 2 300)) = Inr 300" for n
    by (simp_all add: amount_to_minor_units_def ex_transfer_def currency_scale_def rd_mul_def rd_mk_def)
  have c: "converts ref_externs (ex_transfer n 1 2 500)" "converts ref_externs (ex_transfer n 1 2 300)" for n
    by (simp_all add: converts_def domain_transfer_to_tb_def m Let_def)
  let ?rs = "fst (snd (lh_retry (tb_batch ref_externs ex_tb_ops) ex_tb_client 0 (task_transfers ex_task)))"
  have b: "snd (tb_batch ref_externs ex_tb_ops ex_tb_client (task_transfers ex_task)) ! 0 =
      Inr (UuidId (replicate 15 0 @ [1]))"
    by (simp add: tb_batch_nth ex_task_def domain_transfer_to_tb_def m Let_def ex_tb_ops_def tb_api_result_def)
       (simp add: ex_transfer_def)
  have len: "length (snd (tb_batch ref_externs ex_tb_ops ex_tb_client (task_transfers ex_task))) = 2"
    by (simp add: tb_batch_length ex_task_def)
  have "\<not> all_transient (snd (tb_batch ref_externs ex_tb_ops ex_tb_client (task_transfers ex_task)))"
    using b len by (auto simp: all_transient_def list_all_length intro!: exI [of _ 0])
  then have rs: "?rs ! 0 = Inr (UuidId (replicate 15 0 @ [1]))"
    using b by (simp add: lh_retry.simps split_beta Let_def)
  have t: "task_ok ex_task" "distinct (task_seqs ex_task)" "sink_ok 0 (task_seqs ex_task) (Map.empty, None)"
    "\<forall>s\<in>set (task_seqs ex_task). fst (Map.empty, None :: result_ring option) s = None"
    by (simp_all add: ex_task_def task_ok_def task_seqs_def sink_ok_def MAX_TB_BATCH_SIZE_def)
  from task_answers_every_sequence [OF t, of ref_externs ex_tb_ops "Timestamp 9" ex_tb_client]
  obtain k' where k': "run_task (tb_batch ref_externs ex_tb_ops) (Timestamp 9) ex_tb_client ex_task (Map.empty, None) =
      (fst (lh_retry (tb_batch ref_externs ex_tb_ops) ex_tb_client 0 (task_transfers ex_task)), Some k')"
    and l: "length ?rs = length (task_seqs ex_task)"
    and o: "\<forall>i < length ?rs. outcome_of 0 k' (task_seqs ex_task ! i) = Some (?rs ! i)"
    and q: "\<forall>q. q \<notin> set (task_seqs ex_task) \<longrightarrow> outcome_of 0 k' q = outcome_of 0 (Map.empty, None) q"
    by blast
  have "0 < length ?rs" using l by (simp add: task_seqs_def)
  from o [rule_format, OF this] have "outcome_of 0 k' 4 = Some (?rs ! 0)"
    by (simp add: task_seqs_def) (simp add: ex_task_def)
  moreover have "outcome_of 0 k' 6 = None" using q by (simp add: ex_task_def task_seqs_def outcome_of_def)
  ultimately show ?thesis using k' rs by auto
qed

text \<open>
  C2. No event is lost between the handler and the ledger: in every state reachable by handling
  events and completing tasks in any order over the TigerBeetle client, every sequence the
  handler has seen has an answer, or waits in the current batch, or belongs to a task in flight;
  the counter of active tasks is the number of tasks in flight and at most eight; no batch has
  more than 8190 transfers. In particular, with nothing deferred and no task in flight every
  sequence seen has an answer.
\<close>

theorem ledger_handler_no_event_lost:
  fixes S :: "('d, 'c, 's tb_client) lh_sys"
  assumes "\<forall>R. ring = Some R \<longrightarrow> rr_ok R"
    and "(lh_step X (tb_batch X T))\<^sup>*\<^sup>* (lh_init ring R C) S"
  shows "(\<forall>s\<in>set (ls_seen S). answered (ls_sink S) s \<or> s \<in> set (deferred_sequences (ls_handler S)) \<or>
            (\<exists>t\<in>set (ls_tasks S). s \<in> set (task_seqs t))) \<and>
    ls_active S = length (ls_tasks S) \<and> length (ls_tasks S) \<le> 8 \<and>
    (\<forall>t\<in>set (ls_tasks S). length (task_transfers t) = length (task_seqs t) \<and> length (task_transfers t) \<le> 8190) \<and>
    (deferred_sequences (ls_handler S) = [] \<longrightarrow> ls_tasks S = [] \<longrightarrow>
       (\<forall>s\<in>set (ls_seen S). answered (ls_sink S) s))"
  using tbc.lh_reach_inv [OF assms(2) lh_init_inv [OF assms(1)]]
  by (auto simp: lh_inv_def task_ok_def MAX_CONCURRENT_BATCHES_def MAX_TB_BATCH_SIZE_def)

lemma ex_dispatch:
  "\<exists>h' t. lh_on_event ref_externs (Timestamp 0) (replicate 16 1) 0 ledger_handler_new Map.empty
            (transaction_event_new (Timestamp 0) (Id64 1) (Id64 2) (Id64 3) 10 LedgerId_USD 1) 0 True =
          (h', Map.empty, Some t)"
proof -
  let ?e = "transaction_event_new (Timestamp 0) (Id64 1) (Id64 2) (Id64 3) 10 LedgerId_USD 1"
  have cur: "ledger_id_to_currency ref_externs LedgerId_USD = Inr USD"
    by (simp add: ledger_id_to_currency_def LedgerId_USD_def Let_def)
  have "scale_exp ref_externs USD = 2" by (simp add: scale_exp_def currency_scale_def)
  then obtain v where v: "minor_units_to_amount ref_externs 10 USD = Inr \<lparr>amt_value = v, amt_currency = USD\<rparr>"
    "rd_val v = 10 / 100" "rd_s v \<le> 2"
    using minor_units_to_amount_exact [OF ref_laws(1-3), of USD 10] by auto
  have "rd_m v \<noteq> 0" using v(2) by (auto simp: rd_val_def)
  then have "\<exists>t. lh_build_transfer ref_externs (Timestamp 0) (replicate 16 1) ?e \<lparr>amt_value = v, amt_currency = USD\<rparr> = Inr t"
    using v(3)
    by (simp add: lh_build_transfer_def transaction_event_new_def flags_default_def is_pending_def is_posted_def
        is_voided_def transfer_new_def transfer_validate_def uuid_is_nil_def as_uuid_def uuid_id_new_def Let_def)
  then obtain t where "lh_build_transfer ref_externs (Timestamp 0) (replicate 16 1) ?e \<lparr>amt_value = v, amt_currency = USD\<rparr> = Inr t" ..
  moreover have "ev_ledger_id ?e = LedgerId_USD" "unat (ev_amount_units ?e) = 10"
    by (simp_all add: transaction_event_new_def)
  ultimately show ?thesis
    using cur v(1) by (simp add: lh_on_event_def Let_def)
qed

theorem ledger_handler_no_event_lost_witness:
  "\<exists>S :: (refdec, refcur, unit tb_client) lh_sys.
     (lh_step ref_externs (tb_batch ref_externs ex_tb_ops))\<^sup>*\<^sup>* (lh_init None Map.empty ex_tb_client) S \<and>
     ls_seen S = [0] \<and> (\<exists>t\<in>set (ls_tasks S). 0 \<in> set (task_seqs t)) \<and> ls_active S = 1"
proof -
  let ?A = "lh_init None Map.empty ex_tb_client :: (refdec, refcur, unit tb_client) lh_sys"
  let ?ev = "transaction_event_new (Timestamp 0) (Id64 1) (Id64 2) (Id64 3) 10 LedgerId_USD 1"
  obtain h' t where d: "lh_on_event ref_externs (Timestamp 0) (replicate 16 1) 0 (ls_handler ?A)
      (fst (ls_sink ?A)) ?ev 0 True = (h', Map.empty, Some t)"
    using ex_dispatch by (auto simp: lh_init_def)
  have h': "deferred_sequences h' = []"
    by (rule lh_on_event_cases [OF _ d])
       (simp_all add: lh_init_def handler_ok_def ledger_handler_new_def MAX_TB_BATCH_SIZE_def)
  let ?B = "?A\<lparr>ls_handler := h', ls_sink := (Map.empty, snd (ls_sink ?A)), ls_seen := ls_seen ?A @ [0],
         ls_active := ls_active ?A + 1, ls_tasks := ls_tasks ?A @ [t]\<rparr>"
  have "lh_step ref_externs (tb_batch ref_externs ex_tb_ops) ?A ?B"
    by (rule lh_dispatch [OF d]) (simp add: lh_init_def MAX_CONCURRENT_BATCHES_def)
  then have reach: "(lh_step ref_externs (tb_batch ref_externs ex_tb_ops))\<^sup>*\<^sup>* ?A ?B" by blast
  have "answered (ls_sink ?B) 0 \<or> 0 \<in> set (deferred_sequences (ls_handler ?B)) \<or>
      (\<exists>t\<in>set (ls_tasks ?B). 0 \<in> set (task_seqs t))"
    using ledger_handler_no_event_lost [OF _ reach] by (simp add: lh_init_def)
  then have "\<exists>t\<in>set (ls_tasks ?B). 0 \<in> set (task_seqs t)"
    using h' by (simp add: answered_def lh_init_def)
  with reach show ?thesis by (intro exI [of _ ?B]) (simp add: lh_init_def)
qed



text \<open>
  The early returns of \<^verbatim>\<open>on_event\<close> come before the flush decision: when the last event of a batch
  already has a result (it was rejected upstream), the transfers deferred before it stay
  deferred although the batch has ended, until some later event triggers a flush.
\<close>

lemma end_of_batch_rejected_keeps_deferred:
  "s \<in> dom R \<Longrightarrow> lh_on_event X now v4 us h R event s True = (h, R, None)"
  by (simp add: lh_on_event_def)

text \<open>
  An event with more than one of the two-phase flags set is submitted as an immediate transfer.
\<close>

lemma conflicting_phase_flags_immediate:
  "is_pending (ev_flags e) \<and> is_posted (ev_flags e) \<Longrightarrow>
   lh_build_transfer X now v4 e amount =
     transfer_new X now (uuid_id_new v4) (ev_debit_account_id e) (ev_credit_account_id e) amount
       (ev_ledger_id e) (ev_code e)"
  by (simp add: lh_build_transfer_def Let_def split: bool.split)

end
