(* ===== verification/Blz_Sharded.thy ===== *)
theory Blz_Sharded
  imports Blz_Builder Blz_LedgerHandler
begin

text \<open>
  \<^verbatim>\<open>core/engine/src/sharded_pipeline.rs\<close>, \<^verbatim>\<open>cross_shard.rs\<close>: routing of events to
  independent pipelines, resizing, and the combined view of their results. The worker of a shard is
  the step relation of \<open>Blz_Pipeline\<close> with one worker.
\<close>

section \<open>Shard counts (sharded\_pipeline.rs)\<close>

definition MAX_SHARD_COUNT :: usize where "MAX_SHARD_COUNT = 8"
definition MAX_RING_CAPACITY_PER_SHARD :: usize where "MAX_RING_CAPACITY_PER_SHARD = 1048576"

text \<open>\<open>while n * 2 <= limit { n *= 2 }\<close>\<close>

function double_up :: "nat \<Rightarrow> nat \<Rightarrow> nat" where
  "double_up limit n = (if 0 < n \<and> n * 2 \<le> limit then double_up limit (n * 2) else n)"
  by pat_completeness auto
termination
  by (relation "measure (\<lambda>(limit, n). limit - n)") auto

declare double_up.simps [simp del]

definition default_shard_count :: "usize option \<Rightarrow> usize" where
  "default_shard_count available_parallelism =
     (let cpus = (case available_parallelism of None \<Rightarrow> 4 | Some n \<Rightarrow> n); desired = max (cpus div 2) 1
      in double_up (min desired MAX_SHARD_COUNT) 1)"

text \<open>The panic of the assertion is \<open>None\<close>.\<close>

definition from_env :: "usize option \<Rightarrow> string option \<Rightarrow> usize option" where
  "from_env available_parallelism env_var =
     (case Option.bind env_var (parse_uint 64) of
        None \<Rightarrow> Some (default_shard_count available_parallelism)
      | Some n \<Rightarrow>
          if (1 \<le> n \<and> n \<le> MAX_SHARD_COUNT) \<and> is_power_of_two n then Some n else None)"

definition route_to_shard :: "u64 \<Rightarrow> usize \<Rightarrow> usize" where
  "route_to_shard account_id shard_count =
     unat account_id AND (if shard_count = 0 then 2 ^ 64 - 1 else shard_count - 1)"

section \<open>The sharded pipeline\<close>

text \<open>
  A shard's results are the entries of its \<^verbatim>\<open>DashMap\<close>, in the order in which iteration visits
  them. Its handler chain is a list of \<open>shard_handler\<close>s; their event functions are those of the
  handler theories. Cloning a ledger or publish handler resets its worker-local state.
\<close>

type_synonym entries = "(i64 \<times> transaction_result) list"

datatype ('d, 'c) shard_handler =
  SH_Validation
  | SH_Risk risk_handler
  | SH_Ledger "('d, 'c) in_memory" "('d, 'c) ledger_handler"
  | SH_Publish publish_handler

type_synonym ('d, 'c) shard_thread = "(('d, 'c) shard_handler, entries) pipeline_runner"

definition ledger_handler_clone :: "('d, 'c) ledger_handler \<Rightarrow> ('d, 'c) ledger_handler" where
  "ledger_handler_clone h = h\<lparr>batch_started_at := None, deferred_transfers := [], deferred_sequences := []\<rparr>"

definition publish_handler_clone :: "publish_handler \<Rightarrow> publish_handler" where
  "publish_handler_clone h = h\<lparr>published_count := 0, rejected_count := 0, ph_deferred := []\<rparr>"

fun clone_handler :: "('d, 'c) shard_handler \<Rightarrow> ('d, 'c) shard_handler" where
  "clone_handler (SH_Ledger client h) = SH_Ledger client (ledger_handler_clone h)"
| "clone_handler (SH_Publish h) = SH_Publish (publish_handler_clone h)"
| "clone_handler h = h"

record ('d, 'c) sharded_pipeline =
  sp_shards :: "entries pipeline list"
  sp_shard_count :: usize
  sp_capacity_per_shard :: usize
  sp_max_amount_units :: u64
  sp_handles :: "('d, 'c) shard_thread list"
  sp_runtime :: bool

text \<open>
  One pass of the loop bodies of \<^verbatim>\<open>new\<close> and \<^verbatim>\<open>resize\<close>: the builder with its handler chain. A panic
  is \<open>None\<close>. \<open>fresh\<close> and \<open>uninit\<close> are the values of untouched slots.
\<close>

definition build_shard ::
  "(nat \<Rightarrow> uuid_bytes) \<Rightarrow> (nat \<Rightarrow> timestamp \<times> uuid_bytes \<times> uuid_bytes \<times> uuid_bytes) \<Rightarrow> usize \<Rightarrow> u64 \<Rightarrow>
   usize \<Rightarrow>
   (entries pipeline \<times> ('d, 'c) shard_thread list) blazer_result option" where
  "build_shard uninit fresh capacity max_amount shard_id =
     Option.bind (pipeline_builder_new uninit []) (\<lambda>b0.
     Option.bind (with_capacity uninit capacity b0) (\<lambda>b1.
       let b2 = with_results [] (with_global_shard_id shard_id b1);
           b3 = add_handler SH_Validation b2;
           b4 = add_handler (SH_Risk (risk_handler_new max_amount)) b3;
           b5 = add_handler (SH_Ledger in_memory_new_unbounded ledger_handler_new) b4;
           b6 = add_handler (SH_Publish publish_handler_new) b5
       in Some (pipeline_build clone_handler fresh b6)))"

fun new_shards ::
  "(usize \<Rightarrow> (entries pipeline \<times> ('d, 'c) shard_thread list) blazer_result option)
   \<Rightarrow> usize list \<Rightarrow>
   (entries pipeline list \<times> ('d, 'c) shard_thread list) blazer_result option" where
  "new_shards build [] = Some (Inr ([], []))"
| "new_shards build (i # is) =
     (case build i of
        None \<Rightarrow> None
      | Some (Inl e) \<Rightarrow> Some (Inl e)
      | Some (Inr (p, runners)) \<Rightarrow>
          if length runners \<noteq> 1 then None
          else map_option (map_sum id (\<lambda>(ps, hs). (p # ps, runners @ hs))) (new_shards build is))"

definition sharded_new ::
  "(nat \<Rightarrow> uuid_bytes) \<Rightarrow> (nat \<Rightarrow> timestamp \<times> uuid_bytes \<times> uuid_bytes \<times> uuid_bytes) \<Rightarrow> usize \<Rightarrow> usize \<Rightarrow>
   u64 \<Rightarrow> ('d, 'c) sharded_pipeline blazer_result option" where
  "sharded_new uninit fresh shard_count capacity max_amount =
     map_option (map_sum id (\<lambda>(shards, handles).
         \<lparr>sp_shards = shards, sp_shard_count = shard_count, sp_capacity_per_shard = capacity,
          sp_max_amount_units = max_amount, sp_handles = handles, sp_runtime = True\<rparr>))
       (new_shards (build_shard uninit fresh capacity max_amount) [0..<shard_count])"

text \<open>
  \<^verbatim>\<open>resize\<close> stops and joins the old shards, drops them and their results, and starts new ones. Its
  panics are the assertion, a runtime that is gone, and a shard that does not build.
\<close>

fun resize_shards ::
  "(usize \<Rightarrow> (entries pipeline \<times> ('d, 'c) shard_thread list) blazer_result option)
   \<Rightarrow> usize list \<Rightarrow>
   (entries pipeline list \<times> ('d, 'c) shard_thread list) option" where
  "resize_shards build [] = Some ([], [])"
| "resize_shards build (i # is) =
     (case build i of
        Some (Inr (p, runners)) \<Rightarrow>
          map_option (\<lambda>(ps, hs). (p # ps, runners @ hs)) (resize_shards build is)
      | _ \<Rightarrow> None)"

definition sharded_resize ::
  "(nat \<Rightarrow> uuid_bytes) \<Rightarrow> (nat \<Rightarrow> timestamp \<times> uuid_bytes \<times> uuid_bytes \<times> uuid_bytes) \<Rightarrow> usize \<Rightarrow>
   ('d, 'c) sharded_pipeline \<Rightarrow> ('d, 'c) sharded_pipeline option" where
  "sharded_resize uninit fresh new_shard_count sp =
     (if \<not> ((1 \<le> new_shard_count \<and> new_shard_count \<le> MAX_SHARD_COUNT) \<and> is_power_of_two new_shard_count)
        \<or> \<not> sp_runtime sp
      then None
      else map_option
             (\<lambda>(ps, hs). sp\<lparr>sp_shards := ps, sp_handles := hs, sp_shard_count := new_shard_count\<rparr>)
             (resize_shards (build_shard uninit fresh (sp_capacity_per_shard sp) (sp_max_amount_units sp))
                [0..<new_shard_count]))"

text \<open>
  The bounded wait on back-pressure: while the ring is full, at most 128 rounds. \<open>env k\<close> is what
  the shard's worker does to the ring during round \<open>k\<close>.
\<close>

function await_capacity :: "(nat \<Rightarrow> 'e ring \<Rightarrow> 'e ring) \<Rightarrow> nat \<Rightarrow> 'e ring \<Rightarrow> 'e ring \<times> bool" where
  "await_capacity env rounds r =
     (if has_available_capacity r then (r, True)
      else if rounds \<ge> 128 then (r, False)
      else await_capacity env (rounds + 1) (env rounds r))"
  by pat_completeness auto
termination
  by (relation "measure (\<lambda>(_, rounds, _). 128 - rounds)") auto

declare await_capacity.simps [simp del]

text \<open>The index into \<^verbatim>\<open>shards\<close> panics when it is out of range: \<open>None\<close>.\<close>

definition sharded_publish_event ::
  "(nat \<Rightarrow> transaction_event ring \<Rightarrow> transaction_event ring) \<Rightarrow> ('d, 'c) sharded_pipeline \<Rightarrow>
   transaction_event \<Rightarrow> (('d, 'c) sharded_pipeline \<times> i64 blazer_result) option" where
  "sharded_publish_event env sp event =
     (let shard_id = route_to_shard (as_u64 (ev_debit_account_id event)) (sp_shard_count sp)
      in if shard_id \<ge> length (sp_shards sp) then None
         else let p = sp_shards sp ! shard_id;
                  (r, room) = await_capacity env 0 (pl_ring_buffer p);
                  (r', res) = (if room then publish_event r event else (r, Inl (RingBufferFull 1)))
              in Some (sp\<lparr>sp_shards := (sp_shards sp)[shard_id := p\<lparr>pl_ring_buffer := r'\<rparr>]\<rparr>, res))"

definition result_key :: "usize \<Rightarrow> i64 \<Rightarrow> i64" where
  "result_key shard_id s = wrap_i64 (push_bit 48 (int shard_id)) OR s"

fun insert_entries :: "usize \<Rightarrow> entries \<Rightarrow> results \<Rightarrow> results" where
  "insert_entries i [] m = m"
| "insert_entries i ((s, x) # es) m = insert_entries i es (m(result_key i s \<mapsto> x))"

fun combine_results :: "usize \<Rightarrow> entries list \<Rightarrow> results \<Rightarrow> results" where
  "combine_results i [] m = m"
| "combine_results i (R # Rs) m = combine_results (Suc i) Rs (insert_entries i R m)"

definition sharded_results :: "('d, 'c) sharded_pipeline \<Rightarrow> results" where
  "sharded_results sp = combine_results 0 (map pl_results (sp_shards sp)) Map.empty"

definition stop_signal :: "('d, 'c) sharded_pipeline \<Rightarrow> ('d, 'c) sharded_pipeline" where
  "stop_signal sp = sp\<lparr>sp_shards := map pipeline_stop (sp_shards sp)\<rparr>"

text \<open>\<^verbatim>\<open>stop_internal\<close> also joins every worker and shuts the runtime down.\<close>

definition stop_internal :: "('d, 'c) sharded_pipeline \<Rightarrow> ('d, 'c) sharded_pipeline" where
  "stop_internal sp =
     sp\<lparr>sp_shards := map pipeline_stop (sp_shards sp), sp_handles := [], sp_runtime := False\<rparr>"

definition shard_results :: "usize \<Rightarrow> ('d, 'c) sharded_pipeline \<Rightarrow> entries option" where
  "shard_results shard_id sp =
     (if shard_id < length (sp_shards sp) then Some (pl_results (sp_shards sp ! shard_id)) else None)"

section \<open>Cross-shard transfers (cross\_shard.rs)\<close>

record cross_shard_transfer =
  src_account_id :: u64
  dst_account_id :: u64
  cst_amount :: u64
  cst_transfer_id :: u64

datatype cross_shard_route = Local usize | Remote (src_shard: usize) (dst_shard: usize)

definition route_cross_shard :: "cross_shard_transfer \<Rightarrow> usize \<Rightarrow> cross_shard_route" where
  "route_cross_shard t shard_count =
     (let src = route_to_shard (src_account_id t) shard_count;
          dst = route_to_shard (dst_account_id t) shard_count
      in if src = dst then Local src else Remote src dst)"

section \<open>Choice of the shard count\<close>

lemma pow2_double:
  assumes "pow2 n" "pow2 m" "n < m"
  shows "2 * n \<le> m"
proof -
  obtain i j where ij: "m = 2 ^ i" "n = 2 ^ j" using assms(1,2) unfolding pow2_iff by blast
  then have "j < i" using assms(3) power_less_imp_less_exp [of "2 :: nat" j i] by simp
  then have "(2 :: nat) ^ Suc j \<le> 2 ^ i" by (intro power_increasing) simp_all
  then show ?thesis by (simp add: ij)
qed

lemma double_up_spec:
  assumes "pow2 n" "n \<le> limit"
  shows "pow2 (double_up limit n) \<and> n \<le> double_up limit n \<and> double_up limit n \<le> limit \<and>
    limit < 2 * double_up limit n"
  using assms
proof (induction limit n rule: double_up.induct)
  case (1 limit n)
  have n: "0 < n" using "1.prems"(1) by (rule pow2_pos)
  show ?case
  proof (cases "n * 2 \<le> limit")
    case True
    have "pow2 (n * 2)" using "1.prems"(1) n by (simp add: pow2.simps [of "n * 2"])
    with "1.IH" n True have "pow2 (double_up limit (n * 2)) \<and> n * 2 \<le> double_up limit (n * 2) \<and>
        double_up limit (n * 2) \<le> limit \<and> limit < 2 * double_up limit (n * 2)" by blast
    then show ?thesis using True n by (subst (1 2 3 4) double_up.simps) simp
  next
    case False
    then show ?thesis using "1.prems" by (subst (1 2 3 4) double_up.simps) simp
  qed
qed

text \<open>
  The default shard count is the largest power of two that neither exceeds half the CPUs
  (at least one) nor \<open>MAX_SHARD_COUNT\<close>; and every count that \<^verbatim>\<open>from_env\<close> returns is a power of two
  between 1 and \<open>MAX_SHARD_COUNT\<close>, so \<^verbatim>\<open>resize\<close> accepts it.
\<close>

theorem shard_count_choice:
  "let n = default_shard_count cpus; half = max (case cpus of None \<Rightarrow> 4 | Some c \<Rightarrow> c) 2 div 2
   in is_power_of_two n \<and> n \<le> half \<and> n \<le> MAX_SHARD_COUNT \<and>
      (\<forall>m. is_power_of_two m \<and> m \<le> half \<and> m \<le> MAX_SHARD_COUNT \<longrightarrow> m \<le> n) \<and>
      (\<forall>v k. from_env cpus v = Some k \<longrightarrow> is_power_of_two k \<and> 1 \<le> k \<and> k \<le> MAX_SHARD_COUNT)"
proof -
  define c where "c = (case cpus of None \<Rightarrow> 4 | Some c \<Rightarrow> c)"
  define half where "half = max c 2 div 2"
  have half: "max (c div 2) 1 = half" unfolding half_def max_def by presburger
  let ?n = "default_shard_count cpus"
  have n: "?n = double_up (min half MAX_SHARD_COUNT) 1"
    by (simp add: default_shard_count_def Let_def c_def [symmetric] half [symmetric])
  have "1 \<le> min half MAX_SHARD_COUNT"
    using half by (simp add: MAX_SHARD_COUNT_def)
  moreover have "pow2 1" by (subst pow2.simps) simp
  ultimately have spec: "pow2 ?n" "1 \<le> ?n" "?n \<le> min half MAX_SHARD_COUNT" "min half MAX_SHARD_COUNT < 2 * ?n"
    using double_up_spec [of 1 "min half MAX_SHARD_COUNT"] by (simp_all add: n)
  have "m \<le> ?n" if "pow2 m" "m \<le> min half MAX_SHARD_COUNT" for m
    using pow2_double [of ?n m] that spec(1,4) by linarith
  moreover have "is_power_of_two k \<and> 1 \<le> k \<and> k \<le> MAX_SHARD_COUNT" if "from_env cpus v = Some k" for v k
    using that spec(1-3) unfolding from_env_def is_power_of_two_pow2 [symmetric]
    by (simp split: option.splits if_splits)
  ultimately show ?thesis
    using spec(1,3) unfolding c_def [symmetric] half_def [symmetric] Let_def is_power_of_two_pow2
    by (simp only: min.bounded_iff) blast
qed

theorem shard_count_choice_witness:
  "default_shard_count (Some 12) \<le> 6 \<and> 4 \<le> default_shard_count (Some 12) \<and>
   from_env (Some 12) (Some (show_nat 8)) = Some 8 \<and> (8 :: nat) \<le> MAX_SHARD_COUNT"
proof -
  have "is_power_of_two 4" "is_power_of_two 8" "(4 :: nat) \<le> MAX_SHARD_COUNT"
    by (simp_all add: is_power_of_two_def MAX_SHARD_COUNT_def)
  moreover from this have "from_env (Some 12) (Some (show_nat 8)) = Some 8"
    by (simp add: from_env_def parse_uint_show_nat MAX_SHARD_COUNT_def)
  ultimately show ?thesis
    using shard_count_choice [of "Some 12"] unfolding Let_def by auto
qed

section \<open>Routing\<close>

lemma route_to_shard_mod: "pow2 n \<Longrightarrow> route_to_shard a n = unat a mod n"
  using pow2_pos [of n] by (simp add: route_to_shard_def and_mask_mod del: One_nat_def)

definition sp_ok :: "('d, 'c) sharded_pipeline \<Rightarrow> bool" where
  "sp_ok sp \<longleftrightarrow> pow2 (sp_shard_count sp) \<and> length (sp_shards sp) = sp_shard_count sp \<and>
     length (sp_handles sp) = sp_shard_count sp \<and> sp_runtime sp \<and> is_power_of_two (sp_capacity_per_shard sp)"

lemma build_shard_eq:
  "\<exists>b :: (('d, 'c) shard_handler, entries) pipeline_builder.
     build_shard uninit fresh capacity m i = Some (pipeline_build clone_handler fresh b) \<and>
     pb_capacity b = capacity \<and> pb_num_workers b = 1 \<and> pb_results b = []"
proof -
  obtain b0 :: "(('d, 'c) shard_handler, entries) pipeline_builder" where
    b0: "pipeline_builder_new uninit [] = Some b0" "pb_num_workers b0 = 1"
    using builder_new_total [of uninit "[]"] by blast
  obtain b1 where b1: "with_capacity uninit capacity b0 = Some b1" "pb_capacity b1 = capacity"
      "pb_num_workers b1 = pb_num_workers b0"
    using with_capacity_total [of uninit capacity b0] by blast
  let ?b = "add_handler (SH_Publish publish_handler_new)
      (add_handler (SH_Ledger in_memory_new_unbounded ledger_handler_new)
        (add_handler (SH_Risk (risk_handler_new m)) (add_handler SH_Validation
          (with_results [] (with_global_shard_id i b1)))))"
  have "build_shard uninit fresh capacity m i = Some (pipeline_build clone_handler fresh ?b)"
    by (simp only: build_shard_def b0(1) b1(1) Let_def Option.bind.simps)
  moreover have "pb_capacity ?b = capacity" "pb_num_workers ?b = 1" "pb_results ?b = []"
    by (simp_all add: b0(2) b1(2,3) with_results_def with_global_shard_id_def add_handler_def)
  ultimately show ?thesis by blast
qed

lemma build_shard_builds:
  assumes "is_power_of_two capacity"
  shows "\<exists>p rs. build_shard uninit fresh capacity m i = Some (Inr (p, rs :: ('d, 'c) shard_thread list)) \<and>
    length rs = 1 \<and> pl_results p = []"
proof -
  obtain b :: "(('d, 'c) shard_handler, entries) pipeline_builder" where "build_shard uninit fresh capacity m i = Some (pipeline_build clone_handler fresh b)"
    "pb_capacity b = capacity" "pb_num_workers b = 1" "pb_results b = []"
    using build_shard_eq by blast
  then show ?thesis using pipeline_build_total [of b clone_handler fresh] assms by auto
qed

lemma build_shard_capacity:
  fixes pr :: "entries pipeline \<times> ('d, 'c) shard_thread list"
  assumes "build_shard uninit fresh capacity m i = Some (Inr pr)"
  shows "is_power_of_two capacity"
proof -
  obtain b :: "(('d, 'c) shard_handler, entries) pipeline_builder" where
    "build_shard uninit fresh capacity m i = Some (pipeline_build clone_handler fresh b)"
    "pb_capacity b = capacity"
    using build_shard_eq by blast
  then show ?thesis using pipeline_build_capacity [of clone_handler fresh b pr] assms by simp
qed

lemma map_sum_eq_Inr: "map_sum id f z = Inr y \<longleftrightarrow> (\<exists>w. z = Inr w \<and> y = f w)"
  by (cases z) auto

lemma new_shards_Inr:
  assumes "new_shards build is = Some (Inr (ps, hs))"
  shows "length ps = length is \<and> length hs = length is \<and> (\<forall>i \<in> set is. \<exists>pr. build i = Some (Inr pr))"
  using assms
proof (induction "is" arbitrary: ps hs)
  case (Cons i "is")
  then obtain p runners ps' hs' where
    b: "build i = Some (Inr (p, runners))" "length runners = 1" "ps = p # ps'" "hs = runners @ hs'"
    and r: "new_shards build is = Some (Inr (ps', hs'))"
    by (auto split: option.splits sum.splits if_splits simp: map_sum_eq_Inr)
  show ?case using Cons.IH [OF r] b by simp
qed simp

lemma resize_shards_total:
  assumes "\<And>i. i \<in> set is \<Longrightarrow> \<exists>p rs. build i = Some (Inr (p, rs)) \<and> length rs = 1 \<and> pl_results p = []"
  shows "\<exists>ps hs. resize_shards build is = Some (ps, hs) \<and> length ps = length is \<and> length hs = length is \<and>
    (\<forall>p \<in> set ps. pl_results p = [])"
  using assms
proof (induction "is")
  case (Cons i "is")
  obtain p rs where "build i = Some (Inr (p, rs))" "length rs = 1" "pl_results p = []" using Cons.prems [of i] by auto
  with Cons show ?case by auto
qed simp

lemma sharded_new_ok:
  fixes sp :: "('d, 'c) sharded_pipeline"
  assumes "sharded_new uninit fresh n capacity m = Some (Inr sp)" "is_power_of_two n"
  shows "sp_ok sp" "sp_shard_count sp = n"
proof -
  obtain ps and hs :: "('d, 'c) shard_thread list" where
    ns: "new_shards (build_shard uninit fresh capacity m) [0..<n] = Some (Inr (ps, hs))"
    and sp: "sp = \<lparr>sp_shards = ps, sp_shard_count = n, sp_capacity_per_shard = capacity,
          sp_max_amount_units = m, sp_handles = hs, sp_runtime = True\<rparr>"
    using assms(1) by (auto simp: sharded_new_def map_sum_eq_Inr)
  note N = new_shards_Inr [OF ns]
  have "0 < n" using assms(2) pow2_pos by (simp add: is_power_of_two_pow2)
  then have "is_power_of_two capacity" using N build_shard_capacity [of uninit fresh capacity m 0]
    by (metis atLeastLessThan_iff le0 set_upt)
  then show "sp_ok sp" using N assms(2) by (simp add: sp_ok_def sp is_power_of_two_pow2)
  show "sp_shard_count sp = n" by (simp add: sp)
qed

lemma sharded_publish_ok:
  assumes "sp_ok sp"
  shows "\<exists>sp' r. sharded_publish_event env sp e = Some (sp', r) \<and> sp_ok sp' \<and>
    sp_shard_count sp' = sp_shard_count sp \<and> map pl_results (sp_shards sp') = map pl_results (sp_shards sp) \<and>
    (\<forall>j. j \<noteq> unat (as_u64 (ev_debit_account_id e)) mod sp_shard_count sp \<longrightarrow>
       sp_shards sp' ! j = sp_shards sp ! j)"
proof -
  have n: "pow2 (sp_shard_count sp)" "length (sp_shards sp) = sp_shard_count sp"
    using assms by (simp_all add: sp_ok_def)
  let ?i = "route_to_shard (as_u64 (ev_debit_account_id e)) (sp_shard_count sp)"
  have i: "?i = unat (as_u64 (ev_debit_account_id e)) mod sp_shard_count sp" "?i < length (sp_shards sp)"
    using route_to_shard_mod [OF n(1)] pow2_pos [OF n(1)] n(2) by simp_all
  have "map pl_results ((sp_shards sp)[?i := (sp_shards sp ! ?i)\<lparr>pl_ring_buffer := r\<rparr>]) =
      map pl_results (sp_shards sp)" for r
    by (rule nth_equalityI) (use i(2) in \<open>simp_all add: nth_list_update\<close>)
  then show ?thesis
    using assms i by (simp add: sharded_publish_event_def Let_def split_beta sp_ok_def)
qed

lemma sharded_resize_ok:
  fixes sp :: "('d, 'c) sharded_pipeline"
  assumes "sp_ok sp" "1 \<le> n" "n \<le> MAX_SHARD_COUNT" "is_power_of_two n"
  shows "\<exists>sp'. sharded_resize uninit fresh n sp = Some sp' \<and> sp_ok sp' \<and> sp_shard_count sp' = n \<and>
    (\<forall>p \<in> set (sp_shards sp'). pl_results p = [])"
proof -
  have cap: "is_power_of_two (sp_capacity_per_shard sp)" "sp_runtime sp" using assms(1) by (simp_all add: sp_ok_def)
  obtain ps and hs :: "('d, 'c) shard_thread list" where
    "resize_shards (build_shard uninit fresh (sp_capacity_per_shard sp) (sp_max_amount_units sp)) [0..<n]
       = Some (ps, hs)" "length ps = n" "length hs = n" "\<forall>p \<in> set ps. pl_results p = []"
    using resize_shards_total [of "[0..<n]"
        "build_shard uninit fresh (sp_capacity_per_shard sp) (sp_max_amount_units sp)",
        OF build_shard_builds [OF cap(1)]]
    by auto
  then show ?thesis using assms cap by (auto simp: sharded_resize_def sp_ok_def is_power_of_two_pow2)
qed

text \<open>Sequences of calls on one sharded pipeline.\<close>

datatype sp_call =
  SP_Publish "nat \<Rightarrow> transaction_event ring \<Rightarrow> transaction_event ring" transaction_event
  | SP_Resize usize

fun sharded_run ::
  "(nat \<Rightarrow> uuid_bytes) \<Rightarrow> (nat \<Rightarrow> timestamp \<times> uuid_bytes \<times> uuid_bytes \<times> uuid_bytes) \<Rightarrow> sp_call list \<Rightarrow>
   ('d, 'c) sharded_pipeline \<Rightarrow> ('d, 'c) sharded_pipeline option" where
  "sharded_run u f [] sp = Some sp"
| "sharded_run u f (SP_Publish env e # cs) sp =
     Option.bind (sharded_publish_event env sp e) (\<lambda>(sp', _). sharded_run u f cs sp')"
| "sharded_run u f (SP_Resize n # cs) sp = Option.bind (sharded_resize u f n sp) (sharded_run u f cs)"

fun routed_to :: "usize \<Rightarrow> usize \<Rightarrow> sp_call \<Rightarrow> bool" where
  "routed_to n j (SP_Publish _ e) \<longleftrightarrow> unat (as_u64 (ev_debit_account_id e)) mod n = j"
| "routed_to n j (SP_Resize _) \<longleftrightarrow> True"

fun call_ok :: "sp_call \<Rightarrow> bool" where
  "call_ok (SP_Publish _ _) \<longleftrightarrow> True"
| "call_ok (SP_Resize n) \<longleftrightarrow> 1 \<le> n \<and> n \<le> MAX_SHARD_COUNT \<and> is_power_of_two n"

lemma sharded_run_ok:
  assumes "sp_ok sp" "list_all call_ok cs"
  shows "\<exists>sp'. sharded_run u f cs sp = Some sp' \<and> sp_ok sp' \<and>
    (\<forall>j. list_all (\<lambda>c. \<not> routed_to (sp_shard_count sp) j c) cs \<longrightarrow> sp_shards sp' ! j = sp_shards sp ! j)"
  using assms
proof (induction cs arbitrary: sp)
  case (Cons c cs)
  show ?case
  proof (cases c)
    case (SP_Publish env e)
    obtain sp1 r where 1: "sharded_publish_event env sp e = Some (sp1, r)" "sp_ok sp1"
      "sp_shard_count sp1 = sp_shard_count sp"
      "\<And>j. j \<noteq> unat (as_u64 (ev_debit_account_id e)) mod sp_shard_count sp \<Longrightarrow>
         sp_shards sp1 ! j = sp_shards sp ! j"
      using sharded_publish_ok [OF Cons.prems(1), of env e] by blast
    obtain sp' where "sharded_run u f cs sp1 = Some sp'" "sp_ok sp'"
      "\<And>j. list_all (\<lambda>c. \<not> routed_to (sp_shard_count sp1) j c) cs \<Longrightarrow> sp_shards sp' ! j = sp_shards sp1 ! j"
      using Cons.IH [OF 1(2)] Cons.prems(2) by auto
    then show ?thesis using 1 SP_Publish by auto
  next
    case (SP_Resize n)
    obtain sp1 where 1: "sharded_resize u f n sp = Some sp1" "sp_ok sp1"
      using sharded_resize_ok [OF Cons.prems(1), of n u f] Cons.prems(2) SP_Resize by auto
    then show ?thesis using Cons.IH [OF 1(2)] Cons.prems(2) SP_Resize by auto
  qed
qed simp

text \<open>
  C35. A sharded pipeline made with a power-of-two shard count runs any sequence of publishes and
  of resizes to valid counts without a panic: every index into \<^verbatim>\<open>shards\<close> is in range. As long as
  it is not resized, a shard to which no event's debit account is congruent (modulo the number of
  shards) is not touched, so all events of one debit account go through one shard.
\<close>

theorem sharded_routing:
  fixes sp0 :: "('d, 'c) sharded_pipeline"
  assumes "sharded_new uninit fresh n capacity m = Some (Inr sp0)" "is_power_of_two n"
    and "list_all call_ok calls"
  shows "\<exists>sp. sharded_run uninit fresh calls sp0 = Some sp \<and>
    length (sp_shards sp) = sp_shard_count sp \<and> is_power_of_two (sp_shard_count sp) \<and>
    (\<forall>j. list_all (\<lambda>c. \<not> routed_to n j c) calls \<longrightarrow> sp_shards sp ! j = sp_shards sp0 ! j)"
  using sharded_run_ok [OF sharded_new_ok(1) [OF assms(1,2)] assms(3), of uninit fresh]
    sharded_new_ok(2) [OF assms(1,2)]
  unfolding sp_ok_def is_power_of_two_pow2 by auto

lemma new_shards_total:
  assumes "is_power_of_two capacity"
  shows "\<exists>ps hs. new_shards (build_shard uninit fresh capacity m) is =
    Some (Inr (ps, hs :: ('d, 'c) shard_thread list))"
proof (induction "is")
  case (Cons i "is")
  obtain p and rs :: "('d, 'c) shard_thread list" where
    "build_shard uninit fresh capacity m i = Some (Inr (p, rs))" "length rs = 1"
    using build_shard_builds [OF assms] by blast
  then show ?case using Cons by auto
qed simp

lemma sharded_new_total:
  assumes "is_power_of_two capacity"
  shows "\<exists>sp :: ('d, 'c) sharded_pipeline. sharded_new uninit fresh n capacity m = Some (Inr sp)"
proof -
  obtain ps and hs :: "('d, 'c) shard_thread list" where
    "new_shards (build_shard uninit fresh capacity m) [0..<n] = Some (Inr (ps, hs))"
    using new_shards_total [OF assms] by blast
  then show ?thesis by (simp add: sharded_new_def)
qed

theorem sharded_routing_witness:
  "\<exists>(sp0 :: (refdec, refcur) sharded_pipeline) sp.
     sharded_new (\<lambda>_. replicate 16 0) (\<lambda>_. (Timestamp 0, replicate 16 0, replicate 16 0, replicate 16 0))
       4 8 100 = Some (Inr sp0) \<and>
     sharded_run (\<lambda>_. replicate 16 0) (\<lambda>_. (Timestamp 0, replicate 16 0, replicate 16 0, replicate 16 0))
       [SP_Publish (\<lambda>_ r. r) ex_event] sp0 = Some sp \<and>
     (unat (as_u64 (ev_debit_account_id ex_event)) mod 4 \<noteq> 3 \<longrightarrow> sp_shards sp ! 3 = sp_shards sp0 ! 3)"
proof -
  let ?u = "\<lambda>_ :: nat. replicate 16 (0 :: u8)"
  let ?f = "\<lambda>_ :: nat. (Timestamp 0, replicate 16 (0 :: u8), replicate 16 (0 :: u8), replicate 16 (0 :: u8))"
  have p: "is_power_of_two 4" "is_power_of_two 8" by (simp_all add: is_power_of_two_def)
  obtain sp0 :: "(refdec, refcur) sharded_pipeline" where
    sp0: "sharded_new ?u ?f 4 8 100 = Some (Inr sp0)"
    using sharded_new_total [OF p(2), of ?u ?f 4 100] by blast
  show ?thesis
    using sharded_routing [OF sp0 p(1), of "[SP_Publish (\<lambda>_ r. r) ex_event]"] sp0
    by (auto simp del: sharded_run.simps)
qed

section \<open>Back-pressure\<close>

primrec poll :: "(nat \<Rightarrow> 'e ring \<Rightarrow> 'e ring) \<Rightarrow> 'e ring \<Rightarrow> nat \<Rightarrow> 'e ring" where
  "poll env r 0 = r"
| "poll env r (Suc k) = env k (poll env r k)"

lemma await_capacity_poll:
  assumes "j \<le> 128" "\<forall>k < j. \<not> has_available_capacity (poll env r k)"
  shows "\<exists>k \<le> 128. await_capacity env j (poll env r j) = (poll env r k, has_available_capacity (poll env r k)) \<and>
    (\<forall>i < k. \<not> has_available_capacity (poll env r i)) \<and> (has_available_capacity (poll env r k) \<or> k = 128)"
  using assms
proof (induction "128 - j" arbitrary: j)
  case 0
  then have j: "j = 128" by simp
  show ?case
    by (subst await_capacity.simps) (use 0 j in \<open>auto intro!: exI [of _ 128]\<close>)
next
  case (Suc d)
  show ?case
  proof (cases "has_available_capacity (poll env r j)")
    case True
    then show ?thesis
      by (subst await_capacity.simps) (use Suc in \<open>auto intro!: exI [of _ j]\<close>)
  next
    case False
    have "\<not> 128 \<le> j" using Suc.hyps(2) by linarith
    from False have step: "await_capacity env j (poll env r j) = await_capacity env (j + 1) (poll env r (j + 1))"
      using Suc.hyps(2) \<open>\<not> 128 \<le> j\<close> by (subst await_capacity.simps) simp
    have "\<forall>k < j + 1. \<not> has_available_capacity (poll env r k)"
      using Suc.prems(2) False by (auto simp: less_Suc_eq)
    then show ?thesis unfolding step using Suc.hyps by (intro Suc.hyps(1)) simp_all
  qed
qed

text \<open>
  C36. Back-pressure is bounded: whatever the shard's worker does in the meantime,
  \<^verbatim>\<open>publish_event\<close> looks at the ring at most 129 times. It publishes into the first ring it sees
  with room, and returns \<^verbatim>\<open>RingBufferFull\<close> from the wait exactly when all 129 looks found the ring
  full.
\<close>

theorem sharded_backpressure:
  fixes sp :: "('d, 'c) sharded_pipeline"
  assumes "sp_ok sp"
  shows "let i = unat (as_u64 (ev_debit_account_id e)) mod sp_shard_count sp;
             seen = poll env (pl_ring_buffer (sp_shards sp ! i));
             after = (\<lambda>r. sp\<lparr>sp_shards := (sp_shards sp)[i := (sp_shards sp ! i)\<lparr>pl_ring_buffer := r\<rparr>]\<rparr>)
    in (\<exists>k \<le> 128. has_available_capacity (seen k) \<and> (\<forall>j < k. \<not> has_available_capacity (seen j)) \<and>
          sharded_publish_event env sp e =
            Some (after (fst (publish_event (seen k) e)), snd (publish_event (seen k) e))) \<or>
       ((\<forall>k \<le> 128. \<not> has_available_capacity (seen k)) \<and>
          sharded_publish_event env sp e = Some (after (seen 128), Inl (RingBufferFull 1)))"
proof -
  have n: "pow2 (sp_shard_count sp)" "length (sp_shards sp) = sp_shard_count sp"
    using assms by (simp_all add: sp_ok_def)
  let ?i = "unat (as_u64 (ev_debit_account_id e)) mod sp_shard_count sp"
  have i: "route_to_shard (as_u64 (ev_debit_account_id e)) (sp_shard_count sp) = ?i" "\<not> length (sp_shards sp) \<le> ?i"
    using route_to_shard_mod [OF n(1)] pow2_pos [OF n(1)] n(2) by (simp_all add: not_le)
  let ?seen = "poll env (pl_ring_buffer (sp_shards sp ! ?i))"
  obtain k where k: "k \<le> 128"
    "await_capacity env 0 (?seen 0) = (?seen k, has_available_capacity (?seen k))"
    "\<forall>j < k. \<not> has_available_capacity (?seen j)" "has_available_capacity (?seen k) \<or> k = 128"
    using await_capacity_poll [of 0 env "pl_ring_buffer (sp_shards sp ! ?i)"] by auto
  have eq: "sharded_publish_event env sp e =
      (let (r', res) = (if has_available_capacity (?seen k) then publish_event (?seen k) e
                        else (?seen k, Inl (RingBufferFull 1)))
       in Some (sp\<lparr>sp_shards := (sp_shards sp)[?i := (sp_shards sp ! ?i)\<lparr>pl_ring_buffer := r'\<rparr>]\<rparr>, res))"
    using k(2) by (simp add: sharded_publish_event_def i Let_def)
  show ?thesis
  proof (cases "has_available_capacity (?seen k)")
    case True
    then show ?thesis using k(1,3) eq unfolding Let_def by (auto simp: split_beta)
  next
    case False
    then have "k = 128" "\<forall>j \<le> 128. \<not> has_available_capacity (?seen j)"
      using k(3,4) by (auto simp: le_less)
    then show ?thesis using eq False unfolding Let_def by auto
  qed
qed

theorem sharded_backpressure_witness:
  "\<exists>(sp :: (refdec, refcur) sharded_pipeline).
     sp_ok sp \<and> sharded_publish_event (\<lambda>_ r. r) sp ex_event \<noteq> None"
proof -
  let ?u = "\<lambda>_ :: nat. replicate 16 (0 :: u8)"
  let ?f = "\<lambda>_ :: nat. (Timestamp 0, replicate 16 (0 :: u8), replicate 16 (0 :: u8), replicate 16 (0 :: u8))"
  have p: "is_power_of_two 4" "is_power_of_two 8" by (simp_all add: is_power_of_two_def)
  obtain sp :: "(refdec, refcur) sharded_pipeline" where
    "sharded_new ?u ?f 4 8 100 = Some (Inr sp)"
    using sharded_new_total [OF p(2), of ?u ?f 4 100] by blast
  note ok = sharded_new_ok(1) [OF this p(1)]
  have "sharded_publish_event (\<lambda>_ r. r) sp ex_event \<noteq> None"
    using sharded_backpressure [OF ok, of ex_event "\<lambda>_ r. r"] unfolding Let_def by fastforce
  with ok show ?thesis by blast
qed

section \<open>Combined results\<close>

lemma result_key_eq:
  assumes "i < 2 ^ 15" "0 \<le> s" "s < 2 ^ 48"
  shows "result_key i s = int i * 2 ^ 48 + s"
proof -
  have i: "int i < 2 ^ 15" using assms(1) by simp
  then have "in_i64 (push_bit 48 (int i))" by (simp add: in_i64_def push_bit_eq_mult)
  then have "result_key i s = take_bit 48 s OR push_bit 48 (int i)"
    using assms(2,3) by (simp add: result_key_def take_bit_int_eq_self ac_simps)
  also have "\<dots> = take_bit 48 s + push_bit 48 (int i)"
    by (metis concat_bit_def concat_bit_eq)
  finally show ?thesis using assms(2,3) by (simp add: take_bit_int_eq_self push_bit_eq_mult)
qed

lemma result_key_inj:
  assumes "i < 2 ^ 15" "0 \<le> s" "s < 2 ^ 48" "j < 2 ^ 15" "0 \<le> t" "t < 2 ^ 48" "result_key i s = result_key j t"
  shows "i = j \<and> s = t"
proof -
  have eq: "s + int i * 2 ^ 48 = t + int j * 2 ^ 48"
    using assms(7) result_key_eq [OF assms(1-3)] result_key_eq [OF assms(4-6)] by simp
  have "(s + int i * 2 ^ 48) div 2 ^ 48 = int i" "(t + int j * 2 ^ 48) div 2 ^ 48 = int j"
    using assms(2,3,5,6) by simp_all
  then have "i = j" using eq by simp
  then show ?thesis using eq by simp
qed

definition keyed :: "usize \<Rightarrow> entries \<Rightarrow> entries" where
  "keyed i es = map (\<lambda>(s, x). (result_key i s, x)) es"

lemma insert_entries_eq: "insert_entries i es m = m ++ map_of (rev (keyed i es))"
proof (induction es arbitrary: m)
  case (Cons e es)
  then show ?case by (cases e) (auto simp: keyed_def fun_eq_iff map_add_def split: option.splits)
qed (simp add: keyed_def)

lemma combine_results_eq:
  "combine_results i Rs m = m ++ map_of (rev (concat (map (\<lambda>(j, R). keyed j R) (enumerate i Rs))))"
proof (induction Rs arbitrary: i m)
  case (Cons R Rs)
  show ?case by (simp add: Cons insert_entries_eq)
qed simp

definition entries_ok :: "entries \<Rightarrow> bool" where
  "entries_ok es \<longleftrightarrow> distinct (map fst es) \<and> (\<forall>s \<in> fst ` set es. 0 \<le> s \<and> s < 2 ^ 48)"

lemma keyed_distinct:
  assumes "entries_ok es" "i < 2 ^ 15"
  shows "distinct (map fst (keyed i es))"
proof -
  have "inj_on (result_key i) (set (map fst es))"
    using assms result_key_inj [of i _ i] by (auto simp: entries_ok_def inj_on_def)
  moreover have "map fst (keyed i es) = map (result_key i) (map fst es)"
    by (simp add: keyed_def case_prod_beta comp_def)
  ultimately show ?thesis
    using assms(1) unfolding entries_ok_def by (simp only: distinct_map [of "result_key i"])
qed

lemma combined_distinct:
  assumes "list_all entries_ok Rs" "i + length Rs \<le> 2 ^ 15"
  shows "distinct (map fst (concat (map (\<lambda>(j, R). keyed j R) (enumerate i Rs))))"
  using assms
proof (induction Rs arbitrary: i)
  case (Cons R Rs)
  have i: "i < 2 ^ 15" using Cons.prems(2) by simp
  have "fst ` set (keyed i R) \<inter> fst ` set (concat (map (\<lambda>(j, R). keyed j R) (enumerate (Suc i) Rs))) = {}"
  proof (rule ccontr)
    assume "\<not> ?thesis"
    then obtain s t j R' where
      "s \<in> fst ` set R" "(j, R') \<in> set (enumerate (Suc i) Rs)" "t \<in> fst ` set R'" "result_key i s = result_key j t"
      by (fastforce simp: keyed_def)
    moreover then have "Suc i \<le> j" "j < 2 ^ 15" "R' \<in> set Rs"
      using Cons.prems(2) by (auto simp: in_set_enumerate_eq)
    ultimately show False
      using result_key_inj [of i s j t] Cons.prems(1) i by (auto simp: entries_ok_def list_all_iff)
  qed
  then show ?case using Cons.IH [of "Suc i"] Cons.prems keyed_distinct [OF _ i] by simp
qed simp

text \<open>
  C34. The combined results lose and mix up nothing: with at most \<open>2\<^sup>1\<^sup>5\<close> shards and sequence numbers
  below \<open>2\<^sup>4\<^sup>8\<close>, looking up the key of shard \<open>i\<close> and sequence \<open>s\<close> in \<^verbatim>\<open>results()\<close> gives what the
  shard's own map holds for \<open>s\<close>, and every entry of the combined map comes from such a shard.
\<close>

theorem sharded_results_faithful:
  assumes "list_all (\<lambda>p. entries_ok (pl_results p)) (sp_shards sp)" "length (sp_shards sp) \<le> 2 ^ 15"
  shows "sharded_results sp key = Some x \<longleftrightarrow>
    (\<exists>i s es. shard_results i sp = Some es \<and> map_of es s = Some x \<and> key = result_key i s)"
proof -
  define Rs where "Rs = map pl_results (sp_shards sp)"
  let ?all = "concat (map (\<lambda>(j, R). keyed j R) (enumerate 0 Rs))"
  have ok: "list_all entries_ok Rs" "length Rs \<le> 2 ^ 15"
    using assms by (simp_all add: Rs_def list.pred_map comp_def)
  have dist: "distinct (map fst ?all)" using combined_distinct [of Rs 0] ok by simp
  have shard: "shard_results i sp = Some es \<longleftrightarrow> i < length Rs \<and> es = Rs ! i" for i es
    by (auto simp: shard_results_def Rs_def)
  have own: "map_of (Rs ! i) s = Some x \<longleftrightarrow> (s, x) \<in> set (Rs ! i)" if "i < length Rs" for i s
    using ok(1) that by (simp add: list_all_length entries_ok_def)
  have "sharded_results sp key = Some x \<longleftrightarrow> map_of (rev ?all) key = Some x"
    by (simp add: sharded_results_def combine_results_eq Rs_def)
  also have "\<dots> \<longleftrightarrow> (key, x) \<in> set ?all"
    using dist map_of_eq_Some_iff [of "rev ?all" key x] by (simp add: rev_map [symmetric] del: map_concat)
  also have "\<dots> \<longleftrightarrow> (\<exists>i < length Rs. \<exists>s. (s, x) \<in> set (Rs ! i) \<and> key = result_key i s)"
    by (fastforce simp: keyed_def in_set_enumerate_eq)
  also have "\<dots> \<longleftrightarrow> (\<exists>i < length Rs. \<exists>s. map_of (Rs ! i) s = Some x \<and> key = result_key i s)"
    using own by blast
  also have "\<dots> \<longleftrightarrow> (\<exists>i s es. shard_results i sp = Some es \<and> map_of es s = Some x \<and> key = result_key i s)"
    unfolding shard by blast
  finally show ?thesis .
qed

theorem sharded_results_faithful_witness:
  "let p = (\<lambda>es. \<lparr>pl_ring_buffer = ex_ring, pl_shutdown = False, pl_results = es,
                   pl_result_ring = \<lparr>rr_status = [], rr_transfer_ids = [], rr_mask = 0\<rparr>\<rparr>);
       r = (\<lambda>k. Committed (UuidId (replicate 16 k)) (Timestamp 0));
       sp = \<lparr>sp_shards = [p [(0, r 1), (1, r 2)], p [(0, r 3)]], sp_shard_count = 2,
             sp_capacity_per_shard = 4, sp_max_amount_units = 9,
             sp_handles = [] :: (refdec, refcur) shard_thread list, sp_runtime = True\<rparr>
   in sharded_results sp (2 ^ 48) = Some (r 3)"
proof -
  define p where "p = (\<lambda>es :: entries. \<lparr>pl_ring_buffer = ex_ring, pl_shutdown = False, pl_results = es,
                   pl_result_ring = \<lparr>rr_status = [], rr_transfer_ids = [], rr_mask = 0\<rparr>\<rparr>)"
  define r where "r = (\<lambda>k. Committed (UuidId (replicate 16 k)) (Timestamp 0))"
  define sp :: "(refdec, refcur) sharded_pipeline" where
    "sp = \<lparr>sp_shards = [p [(0, r 1), (1, r 2)], p [(0, r 3)]], sp_shard_count = 2,
           sp_capacity_per_shard = 4, sp_max_amount_units = 9, sp_handles = [], sp_runtime = True\<rparr>"
  have "list_all (\<lambda>p. entries_ok (pl_results p)) (sp_shards sp)" "length (sp_shards sp) \<le> 2 ^ 15"
    by (simp_all add: sp_def p_def entries_ok_def)
  note T = sharded_results_faithful [OF this, of "2 ^ 48" "r 3"]
  have "shard_results 1 sp = Some [(0, r 3)]" "map_of [(0 :: int, r 3)] 0 = Some (r 3)" "2 ^ 48 = result_key 1 0"
    using result_key_eq [of 1 0] by (simp_all add: shard_results_def sp_def p_def)
  then have "sharded_results sp (2 ^ 48) = Some (r 3)" using T by blast
  then show ?thesis unfolding sp_def p_def r_def Let_def .
qed

section \<open>Cross-shard transfers\<close>

text \<open>
  With a power-of-two shard count a transfer is routed locally exactly when its two accounts
  are congruent modulo the shard count, both shards of the route exist, and a local route is the
  shard through which the source account's events go.
\<close>

theorem cross_shard_routing:
  assumes "is_power_of_two n"
  shows "case route_cross_shard t n of
      Local s \<Rightarrow> s < n \<and> unat (src_account_id t) mod n = s \<and> unat (dst_account_id t) mod n = s
    | Remote s d \<Rightarrow> s < n \<and> d < n \<and> s \<noteq> d \<and> unat (src_account_id t) mod n = s \<and>
        unat (dst_account_id t) mod n = d"
proof -
  have "pow2 n" "0 < n" using assms pow2_pos by (simp_all add: is_power_of_two_pow2)
  then show ?thesis by (simp add: route_cross_shard_def route_to_shard_mod Let_def)
qed

theorem cross_shard_routing_witness:
  "route_cross_shard \<lparr>src_account_id = 6, dst_account_id = 9, cst_amount = 1, cst_transfer_id = 2\<rparr> 4
     = Remote 2 1"
  using cross_shard_routing [of 4 "\<lparr>src_account_id = 6, dst_account_id = 9, cst_amount = 1, cst_transfer_id = 2\<rparr>"]
  by (auto simp: is_power_of_two_def split: cross_shard_route.splits)

text \<open>
  \<^verbatim>\<open>new\<close> does not check that the shard count is a power of two. With three shards the mask is
  binary 10, and the middle shard is never used.
\<close>

lemma three_shards_middle_unused: "route_to_shard a 3 \<noteq> 1"
proof -
  have "route_to_shard a 3 = unat a AND 2" by (simp add: route_to_shard_def)
  moreover have "even (unat a AND 2)" by (simp add: even_and_iff)
  ultimately show ?thesis by (metis odd_one)
qed

end
