(* ===== verification/Blz_Metrics.thy ===== *)
theory Blz_Metrics
  imports Blz_Prelude
begin

text \<open>
  \<^verbatim>\<open>core/engine/src/metrics.rs\<close> (engine and shard counters) and \<^verbatim>\<open>core/engine/src/simd.rs\<close> (the
  portable four-lane checks). The counters are \<^verbatim>\<open>AtomicU64\<close>, so they wrap. The loop that raises
  the peak latency is also modelled under interference, as a step relation over the threads that
  run it.
\<close>

section \<open>Metrics (metrics.rs)\<close>

record engine_metrics =
  events_published :: u64
  events_committed :: u64
  events_rejected :: u64
  total_latency_ns :: u64
  peak_ns :: u64
  ring_util_x10000 :: u64

definition engine_metrics_new :: engine_metrics where
  "engine_metrics_new =
     \<lparr>events_published = 0, events_committed = 0, events_rejected = 0, total_latency_ns = 0,
      peak_ns = 0, ring_util_x10000 = 0\<rparr>"

definition record_published :: "engine_metrics \<Rightarrow> engine_metrics" where
  "record_published m = m\<lparr>events_published := events_published m + 1\<rparr>"

definition record_rejected :: "engine_metrics \<Rightarrow> engine_metrics" where
  "record_rejected m = m\<lparr>events_rejected := events_rejected m + 1\<rparr>"

text \<open>
  The peak is raised by a compare-and-swap loop. Here it runs without interference; the loop
  under interference is the relation \<open>peak_step\<close> below.
\<close>

definition record_committed :: "u64 \<Rightarrow> engine_metrics \<Rightarrow> engine_metrics" where
  "record_committed latency m =
     m\<lparr>events_committed := events_committed m + 1, total_latency_ns := total_latency_ns m + latency,
       peak_ns := (if latency > peak_ns m then latency else peak_ns m)\<rparr>"

definition avg_latency_ns :: "engine_metrics \<Rightarrow> u64" where
  "avg_latency_ns m =
     (if events_committed m = 0 then 0 else total_latency_ns m div events_committed m)"

definition set_ring_utilization_x10000 :: "u64 \<Rightarrow> engine_metrics \<Rightarrow> engine_metrics" where
  "set_ring_utilization_x10000 v m = m\<lparr>ring_util_x10000 := v\<rparr>"

record shard_metrics =
  sm_shard_id :: usize
  transactions_total :: u64
  latency_peak_ns :: u64
  sm_ring_util_x10000 :: u64
  backpressure_total :: u64

definition shard_metrics_new :: "usize \<Rightarrow> shard_metrics" where
  "shard_metrics_new i =
     \<lparr>sm_shard_id = i, transactions_total = 0, latency_peak_ns = 0, sm_ring_util_x10000 = 0,
      backpressure_total = 0\<rparr>"

definition record_transaction :: "u64 \<Rightarrow> shard_metrics \<Rightarrow> shard_metrics" where
  "record_transaction latency m =
     m\<lparr>transactions_total := transactions_total m + 1,
       latency_peak_ns := (if latency > latency_peak_ns m then latency else latency_peak_ns m)\<rparr>"

definition set_ring_utilization :: "u64 \<Rightarrow> shard_metrics \<Rightarrow> shard_metrics" where
  "set_ring_utilization v m = m\<lparr>sm_ring_util_x10000 := v\<rparr>"

definition record_backpressure :: "shard_metrics \<Rightarrow> shard_metrics" where
  "record_backpressure m = m\<lparr>backpressure_total := backpressure_total m + 1\<rparr>"

section \<open>Four-lane checks (simd.rs)\<close>

definition check_zeros_u64x4 :: "u64 \<times> u64 \<times> u64 \<times> u64 \<Rightarrow> u8" where
  "check_zeros_u64x4 v =
     (case v of (a, b, c, d) \<Rightarrow>
        let r0 = (0 :: u8);
            r1 = (if a = 0 then r0 OR 0b0001 else r0);
            r2 = (if b = 0 then r1 OR 0b0010 else r1);
            r3 = (if c = 0 then r2 OR 0b0100 else r2)
        in if d = 0 then r3 OR 0b1000 else r3)"

definition compare_u64x4_gt :: "u64 \<times> u64 \<times> u64 \<times> u64 \<Rightarrow> u64 \<Rightarrow> u8" where
  "compare_u64x4_gt v threshold =
     (case v of (a, b, c, d) \<Rightarrow>
        let r0 = (0 :: u8);
            r1 = (if a > threshold then r0 OR 0b0001 else r0);
            r2 = (if b > threshold then r1 OR 0b0010 else r1);
            r3 = (if c > threshold then r2 OR 0b0100 else r2)
        in if d > threshold then r3 OR 0b1000 else r3)"

section \<open>Raising the peak under interference\<close>

text \<open>
  The threads that call \<^verbatim>\<open>record_committed\<close> (or \<^verbatim>\<open>record_transaction\<close>) share the peak. Each loads
  it, and while its latency is larger than the value it saw, tries to exchange; an exchange that
  fails, because the value changed or spuriously, hands the thread the value in memory.
\<close>

datatype peak_pc = PLoad | PLoop u64 | PDone

record peak_state =
  pk_mem :: u64
  pk_pc :: "peak_pc list"

inductive peak_step :: "u64 list \<Rightarrow> peak_state \<Rightarrow> peak_state \<Rightarrow> bool" for lat where
  pk_load: "i < length lat \<Longrightarrow> pk_pc S ! i = PLoad \<Longrightarrow>
    peak_step lat S (S\<lparr>pk_pc := (pk_pc S)[i := PLoop (pk_mem S)]\<rparr>)"
| pk_exit: "i < length lat \<Longrightarrow> pk_pc S ! i = PLoop c \<Longrightarrow> \<not> lat ! i > c \<Longrightarrow>
    peak_step lat S (S\<lparr>pk_pc := (pk_pc S)[i := PDone]\<rparr>)"
| pk_swap: "i < length lat \<Longrightarrow> pk_pc S ! i = PLoop c \<Longrightarrow> lat ! i > c \<Longrightarrow> pk_mem S = c \<Longrightarrow>
    peak_step lat S (S\<lparr>pk_mem := lat ! i, pk_pc := (pk_pc S)[i := PDone]\<rparr>)"
| pk_retry: "i < length lat \<Longrightarrow> pk_pc S ! i = PLoop c \<Longrightarrow> lat ! i > c \<Longrightarrow>
    peak_step lat S (S\<lparr>pk_pc := (pk_pc S)[i := PLoop (pk_mem S)]\<rparr>)"

definition peak_init :: "u64 \<Rightarrow> u64 list \<Rightarrow> peak_state" where
  "peak_init m lat = \<lparr>pk_mem = m, pk_pc = replicate (length lat) PLoad\<rparr>"

definition peak_inv :: "u64 \<Rightarrow> u64 list \<Rightarrow> peak_state \<Rightarrow> bool" where
  "peak_inv m lat S \<longleftrightarrow>
     length (pk_pc S) = length lat \<and> m \<le> pk_mem S \<and> pk_mem S \<in> insert m (set lat) \<and>
     (\<forall>i < length lat. pk_pc S ! i = PDone \<longrightarrow> lat ! i \<le> pk_mem S) \<and>
     (\<forall>i < length lat. \<forall>c. pk_pc S ! i = PLoop c \<longrightarrow> c \<le> pk_mem S)"

lemma peak_invI:
  assumes "length (pk_pc S) = length lat" "m \<le> pk_mem S" "pk_mem S \<in> insert m (set lat)"
    and "\<And>i. i < length lat \<Longrightarrow> pk_pc S ! i = PDone \<Longrightarrow> lat ! i \<le> pk_mem S"
    and "\<And>i c. i < length lat \<Longrightarrow> pk_pc S ! i = PLoop c \<Longrightarrow> c \<le> pk_mem S"
  shows "peak_inv m lat S"
  using assms by (simp add: peak_inv_def)

lemma peak_invD:
  assumes "peak_inv m lat S"
  shows "length (pk_pc S) = length lat" "m \<le> pk_mem S" "pk_mem S \<in> insert m (set lat)"
    and "i < length lat \<Longrightarrow> pk_pc S ! i = PDone \<Longrightarrow> lat ! i \<le> pk_mem S"
    and "i < length lat \<Longrightarrow> pk_pc S ! i = PLoop c \<Longrightarrow> c \<le> pk_mem S"
  using assms by (simp_all add: peak_inv_def)

lemma peak_step_inv:
  assumes "peak_step lat S S'" "peak_inv m lat S"
  shows "peak_inv m lat S'"
  using assms
proof (induction rule: peak_step.induct)
  case (pk_load i S)
  note D = peak_invD [OF pk_load.prems]
  show ?case using D pk_load.hyps
    by (intro peak_invI) (auto simp: nth_list_update split: if_splits)
next
  case (pk_exit i S c)
  note D = peak_invD [OF pk_exit.prems]
  have "lat ! i \<le> pk_mem S" using D(5) [OF pk_exit.hyps(1,2)] pk_exit.hyps(3) by simp
  then show ?case using D pk_exit.hyps
    by (intro peak_invI) (auto simp: nth_list_update split: if_splits)
next
  case (pk_swap i S c)
  note D = peak_invD [OF pk_swap.prems]
  have "pk_mem S \<le> lat ! i" using pk_swap.hyps by simp
  then show ?case using D pk_swap.hyps
    by (intro peak_invI) (auto simp: nth_list_update split: if_splits intro: order_trans)
next
  case (pk_retry i S c)
  note D = peak_invD [OF pk_retry.prems]
  show ?case using D pk_retry.hyps
    by (intro peak_invI) (auto simp: nth_list_update split: if_splits)
qed

lemma peak_record_committed: "peak_ns (record_committed l M) = max l (peak_ns M)"
  by (auto simp: record_committed_def max_def)

lemma peak_reach_inv: "(peak_step lat)\<^sup>*\<^sup>* (peak_init m lat) S \<Longrightarrow> peak_inv m lat S"
proof (induction rule: rtranclp_induct)
  case base
  show ?case by (rule peak_invI) (simp_all add: peak_init_def)
qed (rule peak_step_inv)

text \<open>
  However the calls of \<^verbatim>\<open>record_committed\<close> interleave, and whatever exchanges fail, once all of
  them have returned the peak is the maximum of its old value and all their latencies; at any
  moment before that it is never below the old value or the latency of a finished call.
\<close>

theorem concurrent_peak_is_max:
  assumes "(peak_step lat)\<^sup>*\<^sup>* (peak_init m lat) S"
  shows "m \<le> pk_mem S \<and> (\<forall>i < length lat. pk_pc S ! i = PDone \<longrightarrow> lat ! i \<le> pk_mem S) \<and>
    (list_all (\<lambda>pc. pc = PDone) (pk_pc S) \<longrightarrow>
       pk_mem S = Max (insert m (set lat)) \<and>
       pk_mem S = peak_ns (foldr record_committed lat (engine_metrics_new\<lparr>peak_ns := m\<rparr>)))"
proof -
  note D = peak_invD [OF peak_reach_inv [OF assms]]
  have seq: "peak_ns (foldr record_committed ls M) = Max (insert (peak_ns M) (set ls))" for ls M
  proof (induction ls)
    case (Cons l ls)
    have "Max (insert (peak_ns M) (set (l # ls))) = max l (Max (insert (peak_ns M) (set ls)))"
      by (simp add: insert_commute [of "peak_ns M"])
    then show ?case using Cons by (simp add: peak_record_committed)
  qed simp
  have "pk_mem S = Max (insert m (set lat))" if "list_all (\<lambda>pc. pc = PDone) (pk_pc S)"
  proof (rule Max_eqI [symmetric])
    show "y \<le> pk_mem S" if "y \<in> insert m (set lat)" for y
      using that D(2,4) \<open>list_all _ _\<close> D(1) by (auto simp: in_set_conv_nth list_all_length)
  qed (use D(3) in auto)
  then show ?thesis using D by (simp add: seq)
qed

text \<open>
  With a single caller some execution of at most three steps finishes, so the loop does not need
  interference to end.
\<close>

lemma peak_step_single:
  "\<exists>S. (peak_step [l])\<^sup>*\<^sup>* (peak_init m [l]) S \<and> pk_pc S = [PDone]"
proof -
  have a: "peak_step [l] (peak_init m [l]) \<lparr>pk_mem = m, pk_pc = [PLoop m]\<rparr>"
    using pk_load [of 0 "[l]" "peak_init m [l]"] by (simp add: peak_init_def)
  have "\<exists>x. peak_step [l] \<lparr>pk_mem = m, pk_pc = [PLoop m]\<rparr> \<lparr>pk_mem = x, pk_pc = [PDone]\<rparr>"
  proof (cases "l > m")
    case True
    then show ?thesis using pk_swap [of 0 "[l]" "\<lparr>pk_mem = m, pk_pc = [PLoop m]\<rparr>" m] by auto
  next
    case False
    then show ?thesis using pk_exit [of 0 "[l]" "\<lparr>pk_mem = m, pk_pc = [PLoop m]\<rparr>" m] by auto
  qed
  then obtain x where "peak_step [l] \<lparr>pk_mem = m, pk_pc = [PLoop m]\<rparr> \<lparr>pk_mem = x, pk_pc = [PDone]\<rparr>" ..
  with a have "(peak_step [l])\<^sup>*\<^sup>* (peak_init m [l]) \<lparr>pk_mem = x, pk_pc = [PDone]\<rparr>"
    by (meson rtranclp.rtrancl_refl rtranclp.rtrancl_into_rtrancl)
  then show ?thesis by force
qed

theorem concurrent_peak_is_max_witness:
  "\<exists>S. (peak_step [9])\<^sup>*\<^sup>* (peak_init 4 [9]) S \<and> pk_pc S = [PDone] \<and> pk_mem S = 9"
proof -
  obtain S where S: "(peak_step [9])\<^sup>*\<^sup>* (peak_init 4 [9]) S" "pk_pc S = [PDone]"
    using peak_step_single by blast
  show ?thesis using concurrent_peak_is_max [OF S(1)] S by auto
qed

section \<open>Lanes\<close>

text \<open>
  Bit \<open>i\<close> of the four-lane zero check is set exactly when lane \<open>i\<close> is zero, bit \<open>i\<close> of the
  comparison exactly when lane \<open>i\<close> exceeds the threshold, and the upper four bits are clear.
\<close>

theorem lane_masks_exact:
  "check_zeros_u64x4 (a, b, c, d) =
     of_bool (a = 0) + 2 * of_bool (b = 0) + 4 * of_bool (c = 0) + 8 * of_bool (d = 0) \<and>
   compare_u64x4_gt (a, b, c, d) t =
     of_bool (a > t) + 2 * of_bool (b > t) + 4 * of_bool (c > t) + 8 * of_bool (d > t) \<and>
   check_zeros_u64x4 (a, b, c, d) < 16 \<and> compare_u64x4_gt (a, b, c, d) t < 16"
  by (simp add: check_zeros_u64x4_def compare_u64x4_gt_def Let_def)

end
