(* ===== verification/Blz_OrderBook.thy ===== *)
theory Blz_OrderBook
  imports Blz_Prelude
begin

text \<open>
  The limit order book of the trading service: \<^verbatim>\<open>services/trading/internal/domain\<close> (orders and
  trades) and \<^verbatim>\<open>services/trading/internal/orderbook/book.go\<close>.

  Orders are shared by pointer: the levels of a book, its index and the order service all hold
  the same \<^verbatim>\<open>*domain.Order\<close>, and matching updates orders in place. A pointer is a \<open>ptr\<close>, and the
  orders live in a heap from pointers to orders that every operation takes and returns. Quantities
  and prices are \<^verbatim>\<open>int64\<close>, with wrap-around. Every operation of the book runs under its lock.
\<close>

section \<open>Orders and trades (domain)\<close>

type_synonym ptr = nat
type_synonym order_id = string
type_synonym instrument_id = string
type_synonym time = nat

definition SideBuy :: int where "SideBuy = 1"
definition SideSell :: int where "SideSell = 2"

datatype order_status = OrderStatusOpen | OrderStatusPartial | OrderStatusFilled | OrderStatusCancelled

record order =
  o_id :: order_id
  o_instrument :: instrument_id
  o_owner :: string
  o_side :: int
  o_limit :: i64
  o_quantity :: i64
  o_filled :: i64
  o_status :: order_status
  o_placed_at :: time
  o_updated_at :: time

record trade =
  t_id :: string
  t_instrument :: instrument_id
  t_maker :: order_id
  t_taker :: order_id
  t_price :: i64
  t_quantity :: i64
  t_executed_at :: time

datatype trading_error =
  ErrOrderNotFound | ErrOrderAlreadyExists | ErrOrderNotOpen | ErrPositionNotFound string instrument_id
  | ErrInvalidQuantity | ErrInvalidPrice | ErrUnknownSide

definition remaining_units :: "order \<Rightarrow> i64" where
  "remaining_units x = wrap_i64 (o_quantity x - o_filled x)"

type_synonym heap = "ptr \<Rightarrow> order"

section \<open>Binary search\<close>

text \<open>
  \<^verbatim>\<open>sort.Search\<close> of the Go standard library: the smallest index in \<open>[0, n)\<close> at which \<open>f\<close> holds, by
  binary search, and \<open>n\<close> if there is none.
\<close>

function search_between :: "(nat \<Rightarrow> bool) \<Rightarrow> nat \<Rightarrow> nat \<Rightarrow> nat" where
  "search_between f i j =
     (if i < j then let h = (i + j) div 2
                    in if \<not> f h then search_between f (h + 1) j else search_between f i h
      else i)"
  by pat_completeness auto
termination
  by (relation "measure (\<lambda>(f, i, j). j - i)") auto

declare search_between.simps [simp del]

definition sort_search :: "nat \<Rightarrow> (nat \<Rightarrow> bool) \<Rightarrow> nat" where
  "sort_search n f = search_between f 0 n"

section \<open>Price levels\<close>

record price_level =
  lv_price :: i64
  lv_orders :: "ptr list"

record level_snapshot =
  ls_price :: i64
  ls_total :: i64
  ls_count :: nat

definition total_remaining :: "heap \<Rightarrow> price_level \<Rightarrow> i64" where
  "total_remaining h pl = foldl (\<lambda>total p. wrap_i64 (total + remaining_units (h p))) 0 (lv_orders pl)"

definition add_to_levels :: "heap \<Rightarrow> price_level list \<Rightarrow> ptr \<Rightarrow> bool \<Rightarrow> price_level list" where
  "add_to_levels h levels p descending =
     (let price = o_limit (h p);
          idx = sort_search (length levels)
                  (\<lambda>i. if descending then lv_price (levels ! i) \<le> price else lv_price (levels ! i) \<ge> price)
      in if idx < length levels \<and> lv_price (levels ! idx) = price
         then levels[idx := (levels ! idx)\<lparr>lv_orders := lv_orders (levels ! idx) @ [p]\<rparr>]
         else take idx levels @ \<lparr>lv_price = price, lv_orders = [p]\<rparr> # drop idx levels)"

text \<open>The inner loop: the first order with this id is cut out of the level.\<close>

fun cut_order :: "heap \<Rightarrow> order_id \<Rightarrow> ptr list \<Rightarrow> ptr list option" where
  "cut_order h i [] = None"
| "cut_order h i (q # qs) =
     (if o_id (h q) = i then Some qs else map_option ((#) q) (cut_order h i qs))"

fun remove_from_levels :: "heap \<Rightarrow> price_level list \<Rightarrow> ptr \<Rightarrow> price_level list" where
  "remove_from_levels h [] p = []"
| "remove_from_levels h (pl # pls) p =
     (if lv_price pl \<noteq> o_limit (h p) then pl # remove_from_levels h pls p
      else case cut_order h (o_id (h p)) (lv_orders pl) of
             None \<Rightarrow> pl # remove_from_levels h pls p
           | Some qs \<Rightarrow> if qs = [] then pls else pl\<lparr>lv_orders := qs\<rparr> # pls)"

definition snapshot_levels :: "heap \<Rightarrow> price_level list \<Rightarrow> level_snapshot list" where
  "snapshot_levels h levels =
     map (\<lambda>pl. \<lparr>ls_price = lv_price pl, ls_total = total_remaining h pl, ls_count = length (lv_orders pl)\<rparr>) levels"

section \<open>The book\<close>

record book =
  bk_instrument :: instrument_id
  bk_bids :: "price_level list"
  bk_asks :: "price_level list"
  bk_index :: "order_id \<rightharpoonup> ptr"

definition book_new :: "instrument_id \<Rightarrow> book" where
  "book_new i = \<lparr>bk_instrument = i, bk_bids = [], bk_asks = [], bk_index = Map.empty\<rparr>"

definition book_add :: "heap \<Rightarrow> book \<Rightarrow> ptr \<Rightarrow> (trading_error, book) result" where
  "book_add h b p =
     (if bk_index b (o_id (h p)) \<noteq> None then Inl ErrOrderAlreadyExists
      else let b1 = b\<lparr>bk_index := (bk_index b)(o_id (h p) \<mapsto> p)\<rparr>
           in if o_side (h p) = SideBuy then Inr (b1\<lparr>bk_bids := add_to_levels h (bk_bids b) p True\<rparr>)
              else Inr (b1\<lparr>bk_asks := add_to_levels h (bk_asks b) p False\<rparr>))"

definition book_cancel :: "heap \<Rightarrow> book \<Rightarrow> order_id \<Rightarrow> (trading_error, book) result" where
  "book_cancel h b i =
     (case bk_index b i of
        None \<Rightarrow> Inl ErrOrderNotFound
      | Some p \<Rightarrow>
          if o_status (h p) \<noteq> OrderStatusOpen \<and> o_status (h p) \<noteq> OrderStatusPartial
          then Inl ErrOrderNotOpen
          else let b1 = (if o_side (h p) = SideBuy
                         then b\<lparr>bk_bids := remove_from_levels h (bk_bids b) p\<rparr>
                         else b\<lparr>bk_asks := remove_from_levels h (bk_asks b) p\<rparr>)
               in Inr (b1\<lparr>bk_index := (bk_index b1)(i := None)\<rparr>))"

definition best_bid :: "book \<Rightarrow> i64 option" where
  "best_bid b = (if bk_bids b = [] then None else Some (lv_price (bk_bids b ! 0)))"

definition best_ask :: "book \<Rightarrow> i64 option" where
  "best_ask b = (if bk_asks b = [] then None else Some (lv_price (bk_asks b ! 0)))"

definition bid_levels :: "heap \<Rightarrow> book \<Rightarrow> level_snapshot list" where
  "bid_levels h b = snapshot_levels h (bk_bids b)"

definition ask_levels :: "heap \<Rightarrow> book \<Rightarrow> level_snapshot list" where
  "ask_levels h b = snapshot_levels h (bk_asks b)"

fun orders_at :: "price_level list \<Rightarrow> i64 \<Rightarrow> ptr list" where
  "orders_at [] price = []"
| "orders_at (pl # pls) price = (if lv_price pl = price then lv_orders pl else orders_at pls price)"

definition orders_at_bid_price :: "book \<Rightarrow> i64 \<Rightarrow> ptr list" where
  "orders_at_bid_price b price = orders_at (bk_bids b) price"

definition orders_at_ask_price :: "book \<Rightarrow> i64 \<Rightarrow> ptr list" where
  "orders_at_ask_price b price = orders_at (bk_asks b) price"

section \<open>The search finds the boundary\<close>

lemma search_between_spec:
  assumes "i \<le> j" "\<forall>a b. a \<le> b \<longrightarrow> b < n \<longrightarrow> f a \<longrightarrow> f b" "j \<le> n"
    and "\<forall>k < i. \<not> f k" "\<forall>k. j \<le> k \<longrightarrow> k < n \<longrightarrow> f k"
  shows "search_between f i j \<le> n \<and> (\<forall>k < search_between f i j. \<not> f k) \<and>
    (\<forall>k. search_between f i j \<le> k \<longrightarrow> k < n \<longrightarrow> f k)"
  using assms
proof (induction f i j rule: search_between.induct)
  case (1 f i j)
  let ?h = "(i + j) div 2"
  note mono = "1.prems"(2)
  consider "i < j" "f ?h" | "i < j" "\<not> f ?h" | "\<not> i < j" by blast
  then show ?case
  proof cases
    case 1
    have h: "i \<le> ?h" "?h < j" "?h \<le> n" using 1(1) "1.prems"(3) by auto
    have "\<forall>k. ?h \<le> k \<longrightarrow> k < n \<longrightarrow> f k" using mono 1(2) by blast
    note IH = "1.IH"(2) [OF 1(1) refl _ h(1) mono h(3) "1.prems"(4) this]
    have eq: "search_between f i j = search_between f i ?h"
      using 1 by (subst search_between.simps) (simp add: Let_def)
    show ?thesis unfolding eq by (rule IH) (simp add: 1(2))
  next
    case 2
    have h: "i \<le> ?h" "?h < n" "?h + 1 \<le> j" using 2(1) "1.prems"(3) by auto
    have "\<forall>k < ?h + 1. \<not> f k" using mono h(2) 2(2) by (metis less_Suc_eq_le Suc_eq_plus1)
    note IH = "1.IH"(1) [OF 2(1) refl 2(2) h(3) mono "1.prems"(3) this "1.prems"(5)]
    have eq: "search_between f i j = search_between f (?h + 1) j"
      using 2 by (subst search_between.simps) (simp add: Let_def)
    show ?thesis unfolding eq by (rule IH)
  next
    case 3
    have eq: "search_between f i j = j" using "1.prems"(1) 3 by (subst search_between.simps) simp
    have "i = j" using "1.prems"(1) 3 by simp
    then show ?thesis unfolding eq using "1.prems"(3,4,5) by blast
  qed
qed

lemma sort_search_spec:
  assumes "\<forall>a b. a \<le> b \<longrightarrow> b < n \<longrightarrow> f a \<longrightarrow> f b"
  shows "sort_search n f \<le> n" "k < sort_search n f \<Longrightarrow> \<not> f k"
    and "sort_search n f \<le> k \<Longrightarrow> k < n \<Longrightarrow> f k"
proof -
  have "sort_search n f \<le> n \<and> (\<forall>k < sort_search n f. \<not> f k) \<and> (\<forall>k. sort_search n f \<le> k \<longrightarrow> k < n \<longrightarrow> f k)"
    unfolding sort_search_def by (rule search_between_spec [OF _ assms]) simp_all
  then show "sort_search n f \<le> n" "k < sort_search n f \<Longrightarrow> \<not> f k" "sort_search n f \<le> k \<Longrightarrow> k < n \<Longrightarrow> f k"
    by blast+
qed

section \<open>Levels as priority queues\<close>

text \<open>
  A side of the book stands for one queue of orders: the best price first, and within a price the
  oldest first. Bids and asks differ in the sign of the key by which they are ordered.
\<close>

definition lkey :: "bool \<Rightarrow> i64 \<Rightarrow> int" where
  "lkey descending price = (if descending then - price else price)"

abbreviation okey :: "bool \<Rightarrow> heap \<Rightarrow> ptr \<Rightarrow> int" where
  "okey descending h p \<equiv> lkey descending (o_limit (h p))"

definition queue :: "price_level list \<Rightarrow> ptr list" where
  "queue levels = concat (map lv_orders levels)"

definition levels_ok :: "bool \<Rightarrow> heap \<Rightarrow> price_level list \<Rightarrow> bool" where
  "levels_ok d h levels \<longleftrightarrow>
     sorted_wrt (\<lambda>a b. lkey d (lv_price a) < lkey d (lv_price b)) levels \<and>
     (\<forall>pl \<in> set levels. lv_orders pl \<noteq> [] \<and> (\<forall>p \<in> set (lv_orders pl). o_limit (h p) = lv_price pl)) \<and>
     distinct (queue levels) \<and> inj_on (\<lambda>p. o_id (h p)) (set (queue levels))"

definition enqueue :: "bool \<Rightarrow> heap \<Rightarrow> ptr list \<Rightarrow> ptr \<Rightarrow> ptr list" where
  "enqueue d h q p =
     filter (\<lambda>x. okey d h x \<le> okey d h p) q @ p # filter (\<lambda>x. okey d h p < okey d h x) q"

lemma lkey_inject [simp]: "lkey d a = lkey d b \<longleftrightarrow> a = b"
  by (simp add: lkey_def)

lemma queue_simps [simp]:
  "queue [] = []" "queue (pl # pls) = lv_orders pl @ queue pls" "queue (xs @ ys) = queue xs @ queue ys"
  by (simp_all add: queue_def)

lemma set_queue: "p \<in> set (queue levels) \<longleftrightarrow> (\<exists>pl \<in> set levels. p \<in> set (lv_orders pl))"
  by (auto simp: queue_def)

lemma levels_ok_Nil [simp]: "levels_ok d h []"
  by (simp add: levels_ok_def)

lemma levels_okI:
  assumes "sorted_wrt (\<lambda>a b. lkey d (lv_price a) < lkey d (lv_price b)) levels"
    and "\<And>pl. pl \<in> set levels \<Longrightarrow> lv_orders pl \<noteq> []"
    and "\<And>pl p. pl \<in> set levels \<Longrightarrow> p \<in> set (lv_orders pl) \<Longrightarrow> o_limit (h p) = lv_price pl"
    and "distinct (queue levels)" "inj_on (\<lambda>p. o_id (h p)) (set (queue levels))"
  shows "levels_ok d h levels"
  using assms by (simp add: levels_ok_def)

lemma levels_okD:
  assumes "levels_ok d h levels"
  shows "sorted_wrt (\<lambda>a b. lkey d (lv_price a) < lkey d (lv_price b)) levels"
    and "pl \<in> set levels \<Longrightarrow> lv_orders pl \<noteq> []"
    and "pl \<in> set levels \<Longrightarrow> p \<in> set (lv_orders pl) \<Longrightarrow> o_limit (h p) = lv_price pl"
    and "distinct (queue levels)" "inj_on (\<lambda>p. o_id (h p)) (set (queue levels))"
  using assms by (simp_all add: levels_ok_def)

lemma levels_ok_cong:
  assumes "\<And>p. p \<in> set (queue levels) \<Longrightarrow> o_limit (h' p) = o_limit (h p) \<and> o_id (h' p) = o_id (h p)"
  shows "levels_ok d h' levels \<longleftrightarrow> levels_ok d h levels"
proof -
  have "inj_on (\<lambda>p. o_id (h' p)) (set (queue levels)) \<longleftrightarrow> inj_on (\<lambda>p. o_id (h p)) (set (queue levels))"
    using assms by (intro inj_on_cong) simp
  moreover have "(\<forall>pl \<in> set levels. lv_orders pl \<noteq> [] \<and> (\<forall>p \<in> set (lv_orders pl). o_limit (h' p) = lv_price pl)) \<longleftrightarrow>
      (\<forall>pl \<in> set levels. lv_orders pl \<noteq> [] \<and> (\<forall>p \<in> set (lv_orders pl). o_limit (h p) = lv_price pl))"
    using assms by (metis set_queue)
  ultimately show ?thesis unfolding levels_ok_def by blast
qed

lemma queue_key:
  assumes "levels_ok d h levels" "p \<in> set (queue levels)"
  obtains pl where "pl \<in> set levels" "p \<in> set (lv_orders pl)" "o_limit (h p) = lv_price pl"
  using assms levels_okD(3) [OF assms(1)] by (auto simp: set_queue)

lemma levels_ok_ConsD:
  assumes "levels_ok d h (pl # pls)"
  shows "levels_ok d h pls" "lv_orders pl \<noteq> []"
    and "p \<in> set (lv_orders pl) \<Longrightarrow> o_limit (h p) = lv_price pl"
    and "q \<in> set (queue pls) \<Longrightarrow> lkey d (lv_price pl) < okey d h q"
    and "inj_on (\<lambda>p. o_id (h p)) (set (lv_orders pl))" "distinct (lv_orders pl)"
proof -
  note D = levels_okD [OF assms]
  show ok: "levels_ok d h pls"
    by (rule levels_okI) (use D in \<open>auto intro: inj_on_subset [OF D(5)]\<close>)
  show "lv_orders pl \<noteq> []" "p \<in> set (lv_orders pl) \<Longrightarrow> o_limit (h p) = lv_price pl"
    using D(2,3) by simp_all
  show "lkey d (lv_price pl) < okey d h q" if q: "q \<in> set (queue pls)"
    by (rule queue_key [OF ok q]) (use D(1) in auto)
  show "inj_on (\<lambda>p. o_id (h p)) (set (lv_orders pl))" "distinct (lv_orders pl)"
    using D(4) by (auto intro: inj_on_subset [OF D(5)])
qed

lemma queue_sorted:
  "levels_ok d h levels \<Longrightarrow> sorted_wrt (\<lambda>p q. okey d h p \<le> okey d h q) (queue levels)"
proof (induction levels)
  case (Cons pl pls)
  note D = levels_ok_ConsD [OF Cons.prems]
  have "sorted_wrt (\<lambda>p q. okey d h p \<le> okey d h q) (lv_orders pl)"
    using D(3) by (auto simp: sorted_wrt_iff_nth_less)
  then show ?case
    using Cons.IH [OF D(1)] D(3,4) by (force simp: sorted_wrt_append)
qed simp

section \<open>Adding an order\<close>

lemma add_to_levels_split:
  assumes "levels_ok d h levels"
  obtains idx where "idx \<le> length levels"
    and "\<And>i. i < idx \<Longrightarrow> lkey d (lv_price (levels ! i)) < okey d h p"
    and "\<And>i. idx < i \<Longrightarrow> i < length levels \<Longrightarrow> okey d h p < lkey d (lv_price (levels ! i))"
    and "idx < length levels \<Longrightarrow> okey d h p \<le> lkey d (lv_price (levels ! idx))"
    and "add_to_levels h levels p d =
      (if idx < length levels \<and> lv_price (levels ! idx) = o_limit (h p)
       then levels[idx := (levels ! idx)\<lparr>lv_orders := lv_orders (levels ! idx) @ [p]\<rparr>]
       else take idx levels @ \<lparr>lv_price = o_limit (h p), lv_orders = [p]\<rparr> # drop idx levels)"
proof -
  let ?f = "\<lambda>i. if d then lv_price (levels ! i) \<le> o_limit (h p) else lv_price (levels ! i) \<ge> o_limit (h p)"
  have f: "?f i \<longleftrightarrow> okey d h p \<le> lkey d (lv_price (levels ! i))" for i by (simp add: lkey_def)
  have less: "lkey d (lv_price (levels ! i)) < lkey d (lv_price (levels ! j))" if "i < j" "j < length levels" for i j
    using levels_okD(1) [OF assms] that by (simp add: sorted_wrt_iff_nth_less)
  have "\<forall>a b. a \<le> b \<longrightarrow> b < length levels \<longrightarrow> ?f a \<longrightarrow> ?f b"
    unfolding f by (metis le_less less order.trans order.strict_implies_order)
  note spec = sort_search_spec [of "length levels" ?f, OF this]
  let ?idx = "sort_search (length levels) ?f"
  show thesis
  proof (rule that [of ?idx])
    show "?idx \<le> length levels" by (rule spec(1))
    show "lkey d (lv_price (levels ! i)) < okey d h p" if "i < ?idx" for i
      using spec(2) [OF that] unfolding f by simp
    show "okey d h p \<le> lkey d (lv_price (levels ! ?idx))" if "?idx < length levels"
      using spec(3) [OF order_refl that] unfolding f .
    show "okey d h p < lkey d (lv_price (levels ! i))" if i: "?idx < i" "i < length levels" for i
      using spec(3) [of ?idx] less [OF i] i unfolding f by auto
    show "add_to_levels h levels p d =
      (if ?idx < length levels \<and> lv_price (levels ! ?idx) = o_limit (h p)
       then levels[?idx := (levels ! ?idx)\<lparr>lv_orders := lv_orders (levels ! ?idx) @ [p]\<rparr>]
       else take ?idx levels @ \<lparr>lv_price = o_limit (h p), lv_orders = [p]\<rparr> # drop ?idx levels)"
      by (simp only: add_to_levels_def Let_def)
  qed
qed

lemma set_enqueue [simp]: "set (enqueue d h q p) = insert p (set q)"
  by (auto simp: enqueue_def)

lemma distinct_enqueue: "distinct q \<Longrightarrow> p \<notin> set q \<Longrightarrow> distinct (enqueue d h q p)"
  by (auto simp: enqueue_def)

lemma enqueue_split:
  assumes "\<And>x. x \<in> set xs \<Longrightarrow> okey d h x \<le> okey d h p" "\<And>x. x \<in> set ys \<Longrightarrow> okey d h p < okey d h x"
  shows "enqueue d h (xs @ ys) p = xs @ p # ys"
proof -
  have "filter (\<lambda>x. okey d h x \<le> okey d h p) xs = xs" "filter (\<lambda>x. okey d h p < okey d h x) xs = []"
    using assms(1) by (auto simp: filter_id_conv filter_empty_conv not_less)
  moreover have "filter (\<lambda>x. okey d h x \<le> okey d h p) ys = []" "filter (\<lambda>x. okey d h p < okey d h x) ys = ys"
    using assms(2) by (auto simp: filter_id_conv filter_empty_conv not_le)
  ultimately show ?thesis by (simp add: enqueue_def)
qed

lemma queue_nth_key:
  assumes "levels_ok d h levels" "p \<in> set (queue (take n (drop m levels)))"
  shows "\<exists>i. m \<le> i \<and> i < m + n \<and> i < length levels \<and> o_limit (h p) = lv_price (levels ! i)"
proof -
  obtain pl where pl: "pl \<in> set (take n (drop m levels))" "p \<in> set (lv_orders pl)"
    using assms(2) by (auto simp: set_queue)
  then obtain j where j: "j < n" "m + j < length levels" "pl = levels ! (m + j)"
    by (auto simp: in_set_conv_nth)
  then have "o_limit (h p) = lv_price pl" using levels_okD(3) [OF assms(1)] pl(2) by simp
  with j show ?thesis by (intro exI [of _ "m + j"]) simp
qed

lemma add_to_levels_queue:
  assumes ok: "levels_ok d h levels"
  shows "queue (add_to_levels h levels p d) = enqueue d h (queue levels) p \<and>
    sorted_wrt (\<lambda>a b. lkey d (lv_price a) < lkey d (lv_price b)) (add_to_levels h levels p d) \<and>
    (\<forall>pl \<in> set (add_to_levels h levels p d). lv_orders pl \<noteq> [] \<and>
       (\<forall>q \<in> set (lv_orders pl). o_limit (h q) = lv_price pl))"
proof (rule add_to_levels_split [OF ok, of p])
  fix idx
  assume idx: "idx \<le> length levels"
    and below: "\<And>i. i < idx \<Longrightarrow> lkey d (lv_price (levels ! i)) < okey d h p"
    and above: "\<And>i. idx < i \<Longrightarrow> i < length levels \<Longrightarrow> okey d h p < lkey d (lv_price (levels ! i))"
    and here: "idx < length levels \<Longrightarrow> okey d h p \<le> lkey d (lv_price (levels ! idx))"
    and add: "add_to_levels h levels p d =
      (if idx < length levels \<and> lv_price (levels ! idx) = o_limit (h p)
       then levels[idx := (levels ! idx)\<lparr>lv_orders := lv_orders (levels ! idx) @ [p]\<rparr>]
       else take idx levels @ \<lparr>lv_price = o_limit (h p), lv_orders = [p]\<rparr> # drop idx levels)"
  note D = levels_okD [OF ok]
  have A: "okey d h x < okey d h p" if "x \<in> set (queue (take idx levels))" for x
    using queue_nth_key [OF ok, of x idx 0] that below by auto
  have B: "\<exists>i. n \<le> i \<and> i < length levels \<and> o_limit (h x) = lv_price (levels ! i)"
    if "x \<in> set (queue (drop n levels))" for x n
    using queue_nth_key [OF ok, of x "length levels" n] that by auto
  show ?thesis
  proof (cases "idx < length levels \<and> lv_price (levels ! idx) = o_limit (h p)")
    case True
    let ?L = "levels ! idx" and ?R = "drop (Suc idx) levels"
    have lev: "levels = take idx levels @ ?L # ?R" using True by (simp add: id_take_nth_drop)
    have new: "add_to_levels h levels p d =
        take idx levels @ ?L\<lparr>lv_orders := lv_orders ?L @ [p]\<rparr> # ?R"
      using add True by (simp add: upd_conv_take_nth_drop)
    have "okey d h x = okey d h p" if "x \<in> set (lv_orders ?L)" for x
      using D(3) [of ?L x] that True by simp
    moreover have "okey d h p < okey d h x" if "x \<in> set (queue ?R)" for x
      using B [OF that] above by force
    ultimately have "enqueue d h ((queue (take idx levels) @ lv_orders ?L) @ queue ?R) p =
        (queue (take idx levels) @ lv_orders ?L) @ p # queue ?R"
      using A by (intro enqueue_split) (auto simp: less_imp_le)
    moreover have "queue levels = (queue (take idx levels) @ lv_orders ?L) @ queue ?R"
      by (subst lev) simp
    moreover have "map lv_price (add_to_levels h levels p d) = map lv_price levels"
      unfolding new by (subst (4) lev) simp
    then have "sorted_wrt (\<lambda>a b. lkey d a < lkey d b) (map lv_price (add_to_levels h levels p d))"
      using D(1) by (simp add: sorted_wrt_map)
    then have "sorted_wrt (\<lambda>a b. lkey d (lv_price a) < lkey d (lv_price b)) (add_to_levels h levels p d)"
      by (simp only: sorted_wrt_map)
    moreover have "\<forall>pl \<in> set (add_to_levels h levels p d). lv_orders pl \<noteq> [] \<and>
       (\<forall>q \<in> set (lv_orders pl). o_limit (h q) = lv_price pl)"
      using D(2,3) True D(3) [OF nth_mem [of idx levels]] unfolding new
      by (auto dest: in_set_takeD in_set_dropD)
    ultimately show ?thesis by (simp add: new)
  next
    case False
    let ?N = "\<lparr>lv_price = o_limit (h p), lv_orders = [p]\<rparr>" and ?B = "drop idx levels"
    have new: "add_to_levels h levels p d = take idx levels @ ?N # ?B" using add False by simp
    have gt: "okey d h p < lkey d (lv_price (levels ! i))" if "idx \<le> i" "i < length levels" for i
      using that above [of i] here False by (cases "i = idx") (auto simp: order_le_less)
    have "enqueue d h (queue (take idx levels) @ queue ?B) p = queue (take idx levels) @ p # queue ?B"
      using A B gt by (intro enqueue_split) (force simp: less_imp_le)+
    moreover have "queue (take idx levels) @ queue ?B = queue levels"
      by (metis append_take_drop_id queue_simps(3))
    ultimately have "queue (take idx levels @ ?N # ?B) = enqueue d h (queue levels) p" by simp
    moreover have "sorted_wrt (\<lambda>a b. lkey d (lv_price a) < lkey d (lv_price b)) (take idx levels @ ?N # ?B)"
    proof -
      have "sorted_wrt (\<lambda>a b. lkey d (lv_price a) < lkey d (lv_price b)) (take idx levels @ ?B)"
        using D(1) by simp
      moreover have l: "lkey d (lv_price a) < okey d h p" if "a \<in> set (take idx levels)" for a
        using that below by (auto simp: in_set_conv_nth)
      moreover have g: "okey d h p < lkey d (lv_price b)" if "b \<in> set ?B" for b
        using that gt by (auto simp: in_set_conv_nth)
      ultimately show ?thesis using less_trans [OF l g] by (simp add: sorted_wrt_append)
    qed
    moreover have "\<forall>pl \<in> set (take idx levels @ ?N # ?B). lv_orders pl \<noteq> [] \<and>
       (\<forall>q \<in> set (lv_orders pl). o_limit (h q) = lv_price pl)"
      using D(2,3) by (auto dest: in_set_takeD in_set_dropD)
    ultimately show ?thesis unfolding new by blast
  qed
qed

lemma add_to_levels_ok:
  assumes "levels_ok d h levels" "p \<notin> set (queue levels)" "o_id (h p) \<notin> (\<lambda>q. o_id (h q)) ` set (queue levels)"
  shows "levels_ok d h (add_to_levels h levels p d)"
proof -
  note Q = add_to_levels_queue [OF assms(1), of p]
  have "inj_on (\<lambda>q. o_id (h q)) (insert p (set (queue levels)))"
    using levels_okD(5) [OF assms(1)] assms(3) by (auto simp: inj_on_insert)
  then show ?thesis
    using Q distinct_enqueue [OF levels_okD(4) [OF assms(1)] assms(2)] by (simp add: levels_ok_def)
qed

section \<open>Removing an order\<close>

lemma cut_order_remove1:
  assumes "inj_on (\<lambda>q. o_id (h q)) (set qs)" "p \<in> set qs"
  shows "cut_order h (o_id (h p)) qs = Some (remove1 p qs)"
  using assms
proof (induction qs)
  case (Cons q qs)
  then show ?case by (auto simp: inj_on_def)
qed simp

lemma remove_from_levels_queue:
  assumes "levels_ok d h levels" "p \<in> set (queue levels)"
  shows "queue (remove_from_levels h levels p) = remove1 p (queue levels) \<and>
    set (map lv_price (remove_from_levels h levels p)) \<subseteq> set (map lv_price levels) \<and>
    sorted_wrt (\<lambda>a b. lkey d (lv_price a) < lkey d (lv_price b)) (remove_from_levels h levels p) \<and>
    (\<forall>pl \<in> set (remove_from_levels h levels p). lv_orders pl \<noteq> [] \<and>
       (\<forall>q \<in> set (lv_orders pl). o_limit (h q) = lv_price pl))"
  using assms
proof (induction levels)
  case (Cons pl pls)
  note D = levels_ok_ConsD [OF Cons.prems(1)]
  note S = levels_okD [OF Cons.prems(1)] and T = levels_okD [OF D(1)]
  show ?case
  proof (cases "p \<in> set (lv_orders pl)")
    case True
    have "cut_order h (o_id (h p)) (lv_orders pl) = Some (remove1 p (lv_orders pl))"
      using D(5) True by (rule cut_order_remove1)
    then have eq: "remove_from_levels h (pl # pls) p =
        (if remove1 p (lv_orders pl) = [] then pls
         else pl\<lparr>lv_orders := remove1 p (lv_orders pl)\<rparr> # pls)"
      using D(3) [OF True] by simp
    have "\<forall>q \<in> set (remove1 p (lv_orders pl)). o_limit (h q) = lv_price pl"
      using D(3) set_remove1_subset by fast
    moreover have "remove1 p (queue (pl # pls)) = remove1 p (lv_orders pl) @ queue pls"
      using True by (simp add: remove1_append)
    ultimately show ?thesis unfolding eq using S(1) T by auto
  next
    case False
    then have p: "p \<in> set (queue pls)" using Cons.prems(2) by simp
    have "lv_price pl \<noteq> o_limit (h p)" using D(4) [OF p] by auto
    then have eq: "remove_from_levels h (pl # pls) p = pl # remove_from_levels h pls p" by simp
    note IH = Cons.IH [OF D(1) p]
    have "\<forall>b \<in> set (remove_from_levels h pls p). lkey d (lv_price pl) < lkey d (lv_price b)"
    proof
      fix b
      assume "b \<in> set (remove_from_levels h pls p)"
      then obtain c where "c \<in> set pls" "lv_price c = lv_price b" using IH by auto
      then show "lkey d (lv_price pl) < lkey d (lv_price b)" using S(1) by auto
    qed
    then show ?thesis unfolding eq using IH False D(2,3) by (auto simp: remove1_append)
  qed
qed simp

lemma remove_from_levels_ok:
  assumes "levels_ok d h levels" "p \<in> set (queue levels)"
  shows "levels_ok d h (remove_from_levels h levels p)"
proof -
  have "inj_on (\<lambda>q. o_id (h q)) (set (remove1 p (queue levels)))"
    by (rule inj_on_subset [OF levels_okD(5) [OF assms(1)] set_remove1_subset])
  then show ?thesis
    using remove_from_levels_queue [OF assms] levels_okD(4) [OF assms(1)] by (simp add: levels_ok_def)
qed

section \<open>The book invariant\<close>

text \<open>
  A resting order has the side of its queue, is open or partially filled, and has something left
  to fill. The index holds exactly the resting orders, and the two sides do not cross.
\<close>

definition resting :: "heap \<Rightarrow> bool \<Rightarrow> ptr \<Rightarrow> bool" where
  "resting h d p \<longleftrightarrow>
     (o_side (h p) = SideBuy \<longleftrightarrow> d) \<and> (o_status (h p) = OrderStatusOpen \<or> o_status (h p) = OrderStatusPartial) \<and>
     0 \<le> o_filled (h p) \<and> o_filled (h p) < o_quantity (h p) \<and> o_quantity (h p) < 2 ^ 63 \<and> 0 < o_limit (h p)"

definition book_ptrs :: "book \<Rightarrow> ptr set" where
  "book_ptrs b = set (queue (bk_bids b)) \<union> set (queue (bk_asks b))"

definition book_ok :: "heap \<Rightarrow> book \<Rightarrow> bool" where
  "book_ok h b \<longleftrightarrow>
     levels_ok True h (bk_bids b) \<and> levels_ok False h (bk_asks b) \<and>
     (\<forall>p \<in> set (queue (bk_bids b)). resting h True p) \<and> (\<forall>p \<in> set (queue (bk_asks b)). resting h False p) \<and>
     (\<forall>i p. bk_index b i = Some p \<longleftrightarrow> p \<in> book_ptrs b \<and> o_id (h p) = i)"

definition uncrossed :: "heap \<Rightarrow> book \<Rightarrow> bool" where
  "uncrossed h b \<longleftrightarrow>
     (\<forall>p \<in> set (queue (bk_bids b)). \<forall>q \<in> set (queue (bk_asks b)). o_limit (h p) < o_limit (h q))"

lemma book_okI:
  assumes "levels_ok True h (bk_bids b)" "levels_ok False h (bk_asks b)"
    and "\<And>p. p \<in> set (queue (bk_bids b)) \<Longrightarrow> resting h True p"
    and "\<And>p. p \<in> set (queue (bk_asks b)) \<Longrightarrow> resting h False p"
    and "\<And>i p. bk_index b i = Some p \<longleftrightarrow> p \<in> book_ptrs b \<and> o_id (h p) = i"
  shows "book_ok h b"
  using assms by (simp add: book_ok_def)

lemma book_okD:
  assumes "book_ok h b"
  shows "levels_ok True h (bk_bids b)" "levels_ok False h (bk_asks b)"
    and "p \<in> set (queue (bk_bids b)) \<Longrightarrow> resting h True p"
    and "p \<in> set (queue (bk_asks b)) \<Longrightarrow> resting h False p"
    and "bk_index b i = Some p \<longleftrightarrow> p \<in> book_ptrs b \<and> o_id (h p) = i"
  using assms by (simp_all add: book_ok_def)

lemma book_ok_new [simp]: "book_ok h (book_new i)" "book_ptrs (book_new i) = {}" "uncrossed h (book_new i)"
  by (simp_all add: book_ok_def book_new_def book_ptrs_def uncrossed_def)

lemma book_ok_cong:
  assumes "\<And>p. p \<in> book_ptrs b \<Longrightarrow> h' p = h p"
  shows "book_ok h' b \<longleftrightarrow> book_ok h b" "uncrossed h' b \<longleftrightarrow> uncrossed h b"
proof -
  have "levels_ok True h' (bk_bids b) \<longleftrightarrow> levels_ok True h (bk_bids b)"
    "levels_ok False h' (bk_asks b) \<longleftrightarrow> levels_ok False h (bk_asks b)"
    using assms by (auto intro!: levels_ok_cong simp: book_ptrs_def)
  moreover have "(\<forall>p \<in> set (queue (bk_bids b)). resting h' True p) \<longleftrightarrow> (\<forall>p \<in> set (queue (bk_bids b)). resting h True p)"
    "(\<forall>p \<in> set (queue (bk_asks b)). resting h' False p) \<longleftrightarrow> (\<forall>p \<in> set (queue (bk_asks b)). resting h False p)"
    using assms by (simp_all add: resting_def book_ptrs_def)
  moreover have "p \<in> book_ptrs b \<and> o_id (h' p) = i \<longleftrightarrow> p \<in> book_ptrs b \<and> o_id (h p) = i" for i p
    using assms by auto
  ultimately show "book_ok h' b \<longleftrightarrow> book_ok h b" unfolding book_ok_def by simp
  show "uncrossed h' b \<longleftrightarrow> uncrossed h b"
    using assms by (simp add: uncrossed_def book_ptrs_def)
qed

lemma sides_disjoint:
  assumes "book_ok h b"
  shows "set (queue (bk_bids b)) \<inter> set (queue (bk_asks b)) = {}"
  using book_okD(3,4) [OF assms] by (auto simp: resting_def)

lemma book_add_ok:
  assumes ok: "book_ok h b" and new: "p \<notin> book_ptrs b" "bk_index b (o_id (h p)) = None"
    and rest: "resting h (o_side (h p) = SideBuy) p"
  shows "\<exists>b'. book_add h b p = Inr b' \<and> book_ok h b' \<and> book_ptrs b' = insert p (book_ptrs b) \<and>
    bk_instrument b' = bk_instrument b \<and>
    queue (bk_bids b') = (if o_side (h p) = SideBuy then enqueue True h (queue (bk_bids b)) p else queue (bk_bids b)) \<and>
    queue (bk_asks b') = (if o_side (h p) = SideBuy then queue (bk_asks b) else enqueue False h (queue (bk_asks b)) p)"
proof -
  note D = book_okD [OF ok]
  have fresh': "o_id (h q) \<noteq> o_id (h p)" if "q \<in> book_ptrs b" for q
    using D(5) [of "o_id (h p)" q] new(2) that by auto
  then have fresh: "o_id (h p) \<notin> (\<lambda>q. o_id (h q)) ` book_ptrs b" by (metis imageE)
  show ?thesis
  proof (cases "o_side (h p) = SideBuy")
    case True
    let ?b = "b\<lparr>bk_index := (bk_index b)(o_id (h p) \<mapsto> p), bk_bids := add_to_levels h (bk_bids b) p True\<rparr>"
    have q: "queue (bk_bids ?b) = enqueue True h (queue (bk_bids b)) p"
      using add_to_levels_queue [OF D(1), of p] by simp
    have ptrs: "book_ptrs ?b = insert p (book_ptrs b)" unfolding book_ptrs_def using q by simp
    have "levels_ok True h (bk_bids ?b)"
      using add_to_levels_ok [OF D(1)] new(1) fresh by (auto simp: book_ptrs_def)
    then have "book_ok h ?b"
      using D(2-5) rest True ptrs q fresh' by (intro book_okI) auto
    moreover have "book_add h b p = Inr ?b" using new(2) True by (simp add: book_add_def)
    ultimately show ?thesis using ptrs q True by auto
  next
    case False
    let ?b = "b\<lparr>bk_index := (bk_index b)(o_id (h p) \<mapsto> p), bk_asks := add_to_levels h (bk_asks b) p False\<rparr>"
    have q: "queue (bk_asks ?b) = enqueue False h (queue (bk_asks b)) p"
      using add_to_levels_queue [OF D(2), of p] by simp
    have ptrs: "book_ptrs ?b = insert p (book_ptrs b)" unfolding book_ptrs_def using q by simp
    have "levels_ok False h (bk_asks ?b)"
      using add_to_levels_ok [OF D(2)] new(1) fresh by (auto simp: book_ptrs_def)
    then have "book_ok h ?b"
      using D(1,3-5) rest False ptrs q fresh' by (intro book_okI) auto
    moreover have "book_add h b p = Inr ?b" using new(2) False by (simp add: book_add_def)
    ultimately show ?thesis using ptrs q False by auto
  qed
qed

text \<open>
  Cancelling only needs the shape of the book, not that the order still has something to fill:
  the matching engine cancels a maker it has just filled.
\<close>

definition book_shape :: "heap \<Rightarrow> book \<Rightarrow> bool" where
  "book_shape h b \<longleftrightarrow>
     levels_ok True h (bk_bids b) \<and> levels_ok False h (bk_asks b) \<and>
     (\<forall>p \<in> set (queue (bk_bids b)). o_side (h p) = SideBuy) \<and>
     (\<forall>p \<in> set (queue (bk_asks b)). o_side (h p) \<noteq> SideBuy) \<and>
     (\<forall>i p. bk_index b i = Some p \<longleftrightarrow> p \<in> book_ptrs b \<and> o_id (h p) = i)"

lemma book_ok_shape: "book_ok h b \<Longrightarrow> book_shape h b"
  by (auto simp: book_ok_def book_shape_def resting_def)

lemma book_cancel_shape:
  assumes shape: "book_shape h b" and p: "p \<in> book_ptrs b"
    and st: "o_status (h p) = OrderStatusOpen \<or> o_status (h p) = OrderStatusPartial"
  shows "\<exists>b'. book_cancel h b (o_id (h p)) = Inr b' \<and> book_shape h b' \<and> book_ptrs b' = book_ptrs b - {p} \<and>
    bk_instrument b' = bk_instrument b \<and>
    queue (bk_bids b') = remove1 p (queue (bk_bids b)) \<and> queue (bk_asks b') = remove1 p (queue (bk_asks b))"
proof -
  have lv: "levels_ok True h (bk_bids b)" "levels_ok False h (bk_asks b)"
    and side: "\<And>q. q \<in> set (queue (bk_bids b)) \<Longrightarrow> o_side (h q) = SideBuy"
      "\<And>q. q \<in> set (queue (bk_asks b)) \<Longrightarrow> o_side (h q) \<noteq> SideBuy"
    and ix: "\<And>i q. bk_index b i = Some q \<longleftrightarrow> q \<in> book_ptrs b \<and> o_id (h q) = i"
    using shape by (auto simp: book_shape_def)
  have idx: "bk_index b (o_id (h p)) = Some p" using ix p by simp
  have inj: "o_id (h q) = o_id (h p) \<longleftrightarrow> q = p" if "q \<in> book_ptrs b" for q
    using ix [of "o_id (h p)" q] idx that by auto
  have dist: "distinct (queue (bk_bids b))" "distinct (queue (bk_asks b))"
    using levels_okD(4) [OF lv(1)] levels_okD(4) [OF lv(2)] by simp_all
  show ?thesis
  proof (cases "o_side (h p) = SideBuy")
    case True
    let ?b = "b\<lparr>bk_bids := remove_from_levels h (bk_bids b) p, bk_index := (bk_index b)(o_id (h p) := None)\<rparr>"
    have pin: "p \<in> set (queue (bk_bids b))" "p \<notin> set (queue (bk_asks b))"
      using p side True by (auto simp: book_ptrs_def)
    have q: "queue (bk_bids ?b) = remove1 p (queue (bk_bids b))"
      using remove_from_levels_queue [OF lv(1) pin(1)] by simp
    have ptrs: "book_ptrs ?b = book_ptrs b - {p}"
      using q dist pin by (auto simp: book_ptrs_def)
    have "book_shape h ?b"
      unfolding book_shape_def
      using remove_from_levels_ok [OF lv(1) pin(1)] lv(2) q side ptrs ix inj dist by auto
    moreover have "book_cancel h b (o_id (h p)) = Inr ?b"
      using st True by (auto simp: book_cancel_def idx)
    ultimately show ?thesis using ptrs q pin(2) by (auto simp: remove1_idem)
  next
    case False
    let ?b = "b\<lparr>bk_asks := remove_from_levels h (bk_asks b) p, bk_index := (bk_index b)(o_id (h p) := None)\<rparr>"
    have pin: "p \<in> set (queue (bk_asks b))" "p \<notin> set (queue (bk_bids b))"
      using p side False by (auto simp: book_ptrs_def)
    have q: "queue (bk_asks ?b) = remove1 p (queue (bk_asks b))"
      using remove_from_levels_queue [OF lv(2) pin(1)] by simp
    have ptrs: "book_ptrs ?b = book_ptrs b - {p}"
      using q dist pin by (auto simp: book_ptrs_def)
    have "book_shape h ?b"
      unfolding book_shape_def
      using remove_from_levels_ok [OF lv(2) pin(1)] lv(1) q side ptrs ix inj dist by auto
    moreover have "book_cancel h b (o_id (h p)) = Inr ?b"
      using st False by (auto simp: book_cancel_def idx)
    ultimately show ?thesis using ptrs q pin(2) by (auto simp: remove1_idem)
  qed
qed

end
