(* ===== verification/Blz_Matching.thy ===== *)
theory Blz_Matching
  imports Blz_OrderBook "HOL-Library.Monad_Syntax"
begin

text \<open>
  The FIFO matching engine, \<^verbatim>\<open>services/trading/internal/matching/fifo.go\<close>.

  \<^verbatim>\<open>Match\<close> loops while the taker has something left and some resting order crosses it. Nothing in
  the code bounds the loop, so it is a partial function: \<open>None\<close> stands for an execution that does
  not end. The trade ids come from the caller's counter (\<open>new_trade_id\<close>, with its state), and
  \<open>clock k\<close> is the time read in turn \<open>k\<close>.
\<close>

section \<open>The engine\<close>

definition min64 :: "i64 \<Rightarrow> i64 \<Rightarrow> i64" where
  "min64 a b = (if a < b then a else b)"

fun first_order :: "i64 \<Rightarrow> ptr list \<Rightarrow> level_snapshot list \<Rightarrow> ptr option" where
  "first_order price orders [] = None"
| "first_order price orders (snap # snaps) =
     (if ls_price snap = price \<and> orders \<noteq> [] then Some (orders ! 0) else first_order price orders snaps)"

definition first_order_at_ask_level :: "heap \<Rightarrow> book \<Rightarrow> i64 \<Rightarrow> ptr option" where
  "first_order_at_ask_level h b price = first_order price (orders_at_ask_price b price) (ask_levels h b)"

definition first_order_at_bid_level :: "heap \<Rightarrow> book \<Rightarrow> i64 \<Rightarrow> ptr option" where
  "first_order_at_bid_level h b price = first_order price (orders_at_bid_price b price) (bid_levels h b)"

definition best_matching_level :: "heap \<Rightarrow> book \<Rightarrow> ptr \<Rightarrow> ptr option" where
  "best_matching_level h b taker =
     (if o_side (h taker) = SideBuy
      then (case best_ask b of
              None \<Rightarrow> None
            | Some ask \<Rightarrow> if ask > o_limit (h taker) then None else first_order_at_ask_level h b ask)
      else (case best_bid b of
              None \<Rightarrow> None
            | Some bid \<Rightarrow> if bid < o_limit (h taker) then None else first_order_at_bid_level h b bid))"

text \<open>One fill: the body of the loop after the maker has been found.\<close>

definition fill_maker :: "time \<Rightarrow> i64 \<Rightarrow> ptr \<Rightarrow> heap \<Rightarrow> book \<Rightarrow> heap \<times> book" where
  "fill_maker now fill_qty maker h b =
     (let h1 = h(maker := (h maker)\<lparr>o_filled := wrap_i64 (o_filled (h maker) + fill_qty), o_updated_at := now\<rparr>)
      in if o_filled (h1 maker) \<ge> o_quantity (h1 maker)
         then let b' = (case book_cancel h1 b (o_id (h1 maker)) of Inl _ \<Rightarrow> b | Inr b' \<Rightarrow> b')
              in (h1(maker := (h1 maker)\<lparr>o_status := OrderStatusFilled\<rparr>), b')
         else (h1(maker := (h1 maker)\<lparr>o_status := OrderStatusPartial\<rparr>), b))"

definition fill_taker :: "time \<Rightarrow> i64 \<Rightarrow> ptr \<Rightarrow> heap \<Rightarrow> heap" where
  "fill_taker now fill_qty taker h =
     (let h1 = h(taker := (h taker)\<lparr>o_filled := wrap_i64 (o_filled (h taker) + fill_qty), o_updated_at := now\<rparr>)
      in if o_filled (h1 taker) \<ge> o_quantity (h1 taker)
         then h1(taker := (h1 taker)\<lparr>o_status := OrderStatusFilled\<rparr>)
         else h1(taker := (h1 taker)\<lparr>o_status := OrderStatusPartial\<rparr>))"

definition mk_trade :: "string \<Rightarrow> time \<Rightarrow> i64 \<Rightarrow> order \<Rightarrow> order \<Rightarrow> trade" where
  "mk_trade i now fill_qty taker maker =
     \<lparr>t_id = i, t_instrument = o_instrument taker, t_maker = o_id maker, t_taker = o_id taker,
      t_price = o_limit maker, t_quantity = fill_qty, t_executed_at = now\<rparr>"

partial_function (option) match_loop ::
  "('s \<Rightarrow> 's \<times> string) \<Rightarrow> (nat \<Rightarrow> time) \<Rightarrow> ptr \<Rightarrow> nat \<Rightarrow> heap \<Rightarrow> book \<Rightarrow> 's \<Rightarrow> trade list \<Rightarrow> ptr list \<Rightarrow>
   (heap \<times> book \<times> 's \<times> trade list \<times> ptr list) option" where
  "match_loop new_trade_id clock taker k h b c trades makers =
     (if remaining_units (h taker) > 0
      then (case best_matching_level h b taker of
              None \<Rightarrow> Some (h, b, c, trades, makers)
            | Some maker \<Rightarrow>
                (let fill_qty = min64 (remaining_units (h taker)) (remaining_units (h maker));
                     now = clock k;
                     (c', i) = new_trade_id c;
                     t = mk_trade i now fill_qty (h taker) (h maker);
                     (h1, b1) = fill_maker now fill_qty maker h b;
                     h2 = fill_taker now fill_qty taker h1
                 in match_loop new_trade_id clock taker (Suc k) h2 b1 c' (trades @ [t]) (makers @ [maker])))
      else Some (h, b, c, trades, makers))"

definition match_order ::
  "('s \<Rightarrow> 's \<times> string) \<Rightarrow> (nat \<Rightarrow> time) \<Rightarrow> heap \<Rightarrow> book \<Rightarrow> ptr \<Rightarrow> 's \<Rightarrow>
   (heap \<times> book \<times> 's \<times> trade list \<times> ptr list) option" where
  "match_order new_trade_id clock h b taker c = match_loop new_trade_id clock taker 0 h b c [] []"

section \<open>Reference: filling a queue\<close>

text \<open>
  What matching has to do, on the queue of the opposite side: fill its orders from the front, each
  as far as the taker allows, until the taker is filled or the next order does not cross.
\<close>

fun ref_fills :: "i64 \<Rightarrow> (ptr \<Rightarrow> bool) \<Rightarrow> (ptr \<Rightarrow> i64) \<Rightarrow> ptr list \<Rightarrow> (ptr \<times> i64) list" where
  "ref_fills r crosses remaining [] = []"
| "ref_fills r crosses remaining (p # ps) =
     (if r > 0 \<and> crosses p
      then (p, min r (remaining p)) # ref_fills (r - min r (remaining p)) crosses remaining ps
      else [])"

definition opposite :: "bool \<Rightarrow> book \<Rightarrow> price_level list" where
  "opposite d b = (if d then bk_bids b else bk_asks b)"

definition crosses :: "bool \<Rightarrow> heap \<Rightarrow> ptr \<Rightarrow> ptr \<Rightarrow> bool" where
  "crosses d h taker p \<longleftrightarrow> okey d h p \<le> okey d h taker"

definition static :: "order \<Rightarrow> order" where
  "static x = x\<lparr>o_filled := 0, o_status := OrderStatusOpen, o_updated_at := 0\<rparr>"

lemma staticD:
  assumes "static x = static y"
  shows "o_id x = o_id y" "o_instrument x = o_instrument y" "o_owner x = o_owner y" "o_side x = o_side y"
    "o_limit x = o_limit y" "o_quantity x = o_quantity y" "o_placed_at x = o_placed_at y"
  using assms by (cases x; cases y; simp add: static_def)+

lemma static_simps [simp]:
  "static (x\<lparr>o_filled := f\<rparr>) = static x" "static (x\<lparr>o_status := s\<rparr>) = static x"
  "static (x\<lparr>o_updated_at := t\<rparr>) = static x"
  by (simp_all add: static_def)

lemma ref_fills_done: "r \<le> 0 \<Longrightarrow> ref_fills r cr rem ps = []"
  by (cases ps) simp_all

lemma ref_fills_cong:
  "(\<And>p. p \<in> set ps \<Longrightarrow> cr p = cr' p \<and> rem p = rem' p) \<Longrightarrow> ref_fills r cr rem ps = ref_fills r cr' rem' ps"
  by (induction ps arbitrary: r) simp_all

lemma ref_fills_set: "fst ` set (ref_fills r cr rem ps) \<subseteq> set ps"
  by (induction ps arbitrary: r) auto

section \<open>The maker found\<close>

lemma first_order_hd:
  assumes "levels_ok d h (pl # pls)"
  shows "first_order (lv_price pl) (orders_at (pl # pls) (lv_price pl)) (snapshot_levels h (pl # pls)) =
    Some (hd (lv_orders pl))"
  using levels_ok_ConsD(2) [OF assms] by (simp add: snapshot_levels_def hd_conv_nth)

lemma best_matching_queue:
  assumes "book_ok h b" "d = (o_side (h taker) \<noteq> SideBuy)"
  shows "best_matching_level h b taker =
    (case queue (opposite d b) of [] \<Rightarrow> None | p # _ \<Rightarrow> if crosses d h taker p then Some p else None)"
proof -
  have lv: "levels_ok d h (opposite d b)"
    using book_okD(1,2) [OF assms(1)] by (simp add: opposite_def)
  show ?thesis
  proof (cases "opposite d b")
    case Nil
    then show ?thesis using assms(2)
      by (auto simp: best_matching_level_def best_ask_def best_bid_def opposite_def split: if_splits)
  next
    case (Cons pl pls)
    note D = levels_ok_ConsD [OF lv [unfolded Cons]]
    obtain p ps where p: "lv_orders pl = p # ps" using D(2) by (cases "lv_orders pl") auto
    have price: "lv_price pl = o_limit (h p)" using D(3) [of p] p by simp
    note F = first_order_hd [OF lv [unfolded Cons]]
    show ?thesis
      using Cons F p price assms(2)
      by (auto simp: best_matching_level_def best_ask_def best_bid_def opposite_def crosses_def lkey_def
          first_order_at_ask_level_def first_order_at_bid_level_def orders_at_ask_price_def
          orders_at_bid_price_def ask_levels_def bid_levels_def split: if_splits)
  qed
qed

section \<open>One fill\<close>

lemma book_ok_upd:
  assumes "t \<notin> book_ptrs b"
  shows "book_ok (h(t := x)) b = book_ok h b" "uncrossed (h(t := x)) b = uncrossed h b"
  by (rule book_ok_cong; use assms in auto)+

lemma book_shape_static:
  assumes "\<And>q. q \<in> book_ptrs b \<Longrightarrow> static (h' q) = static (h q)"
  shows "book_shape h' b \<longleftrightarrow> book_shape h b"
proof -
  note st = staticD [OF assms]
  have "levels_ok True h' (bk_bids b) \<longleftrightarrow> levels_ok True h (bk_bids b)"
    "levels_ok False h' (bk_asks b) \<longleftrightarrow> levels_ok False h (bk_asks b)"
    using st(1,5) by (auto intro!: levels_ok_cong simp: book_ptrs_def)
  moreover have "p \<in> book_ptrs b \<and> o_id (h' p) = i \<longleftrightarrow> p \<in> book_ptrs b \<and> o_id (h p) = i" for i p
    using st(1) by auto
  moreover have "(\<forall>p \<in> set (queue (bk_bids b)). o_side (h' p) = SideBuy) \<longleftrightarrow> (\<forall>p \<in> set (queue (bk_bids b)). o_side (h p) = SideBuy)"
    "(\<forall>p \<in> set (queue (bk_asks b)). o_side (h' p) \<noteq> SideBuy) \<longleftrightarrow> (\<forall>p \<in> set (queue (bk_asks b)). o_side (h p) \<noteq> SideBuy)"
    using st(4) by (simp_all add: book_ptrs_def)
  ultimately show ?thesis unfolding book_shape_def by simp
qed

lemma book_ok_shapeI:
  assumes "book_shape h b" "\<And>q. q \<in> book_ptrs b \<Longrightarrow> resting h (o_side (h q) = SideBuy) q"
  shows "book_ok h b"
  using assms by (force simp: book_shape_def book_ok_def book_ptrs_def resting_def)

lemma book_ok_resting: "book_ok h b \<Longrightarrow> q \<in> book_ptrs b \<Longrightarrow> resting h (o_side (h q) = SideBuy) q"
  by (auto simp: book_ok_def book_ptrs_def resting_def)

lemma resting_cong: "h' q = h q \<Longrightarrow> resting h' d q = resting h d q"
  by (simp add: resting_def)

lemma remaining_resting:
  assumes "resting h d p"
  shows "remaining_units (h p) = o_quantity (h p) - o_filled (h p)" "0 < remaining_units (h p)"
  using assms by (simp_all add: resting_def remaining_units_def in_i64_def)

lemma opposite_ptrs: "book_ptrs b = set (queue (opposite d b)) \<union> set (queue (opposite (\<not> d) b))"
  by (auto simp: book_ptrs_def opposite_def)

lemma fill_maker_full:
  assumes ok: "book_ok h b" and q: "queue (opposite d b) = p # ps" and fill: "fill = remaining_units (h p)"
  shows "\<exists>b'. fill_maker now fill p h b =
      (h(p := (h p)\<lparr>o_filled := o_quantity (h p), o_updated_at := now, o_status := OrderStatusFilled\<rparr>), b') \<and>
    book_ok h b' \<and> p \<notin> book_ptrs b' \<and> book_ptrs b' \<subseteq> book_ptrs b \<and> queue (opposite d b') = ps \<and>
    queue (opposite (\<not> d) b') = queue (opposite (\<not> d) b) \<and> bk_instrument b' = bk_instrument b"
proof -
  have p: "p \<in> book_ptrs b" using q by (simp add: opposite_ptrs [of b d])
  have r: "resting h (o_side (h p) = SideBuy) p" using ok p by (rule book_ok_resting)
  have sum: "wrap_i64 (o_filled (h p) + fill) = o_quantity (h p)"
    using r by (simp add: fill remaining_resting(1) [OF r] resting_def in_i64_def)
  let ?h = "h(p := (h p)\<lparr>o_filled := o_quantity (h p), o_updated_at := now\<rparr>)"
  have "book_shape ?h b"
    using book_ok_shape [OF ok] by (subst book_shape_static [of b _ h]) auto
  moreover have "o_status (?h p) = OrderStatusOpen \<or> o_status (?h p) = OrderStatusPartial"
    using r by (simp add: resting_def)
  ultimately obtain b' where b': "book_cancel ?h b (o_id (?h p)) = Inr b'" "book_shape ?h b'"
    "book_ptrs b' = book_ptrs b - {p}" "bk_instrument b' = bk_instrument b"
    "queue (bk_bids b') = remove1 p (queue (bk_bids b))" "queue (bk_asks b') = remove1 p (queue (bk_asks b))"
    using book_cancel_shape [of ?h b p] p by blast
  have "book_ok h b'"
  proof (rule book_ok_shapeI)
    show "book_shape h b'" using b'(2,3) by (subst book_shape_static [of b' _ ?h]) auto
    show "resting h (o_side (h x) = SideBuy) x" if "x \<in> book_ptrs b'" for x
      using book_ok_resting [OF ok] b'(3) that by simp
  qed
  moreover have "p \<notin> set (queue (opposite (\<not> d) b))"
    using sides_disjoint [OF ok] q by (cases d) (auto simp: opposite_def)
  then have "queue (opposite d b') = ps" "queue (opposite (\<not> d) b') = queue (opposite (\<not> d) b)"
    using b'(5,6) q by (auto simp: opposite_def remove1_idem split: if_splits)
  moreover have "fill_maker now fill p h b = (?h(p := (?h p)\<lparr>o_status := OrderStatusFilled\<rparr>), b')"
    using b'(1) by (simp add: fill_maker_def sum)
  ultimately show ?thesis using b'(3,4) by auto
qed

lemma fill_maker_part:
  assumes ok: "book_ok h b" and q: "queue (opposite d b) = p # ps"
    and fill: "0 < fill" "fill < remaining_units (h p)"
  shows "\<exists>h'. fill_maker now fill p h b = (h', b) \<and>
    h' = h(p := (h p)\<lparr>o_filled := o_filled (h p) + fill, o_updated_at := now, o_status := OrderStatusPartial\<rparr>) \<and>
    book_ok h' b"
proof -
  have p: "p \<in> book_ptrs b" using q by (simp add: opposite_ptrs [of b d])
  have r: "resting h (o_side (h p) = SideBuy) p" using ok p by (rule book_ok_resting)
  have lt: "o_filled (h p) + fill < o_quantity (h p)"
    using fill(2) remaining_resting(1) [OF r] by simp
  have sum: "wrap_i64 (o_filled (h p) + fill) = o_filled (h p) + fill"
    using r lt fill(1) by (simp add: resting_def in_i64_def)
  let ?h = "h(p := (h p)\<lparr>o_filled := o_filled (h p) + fill, o_updated_at := now, o_status := OrderStatusPartial\<rparr>)"
  have "book_ok ?h b"
  proof (rule book_ok_shapeI)
    show "book_shape ?h b" using book_ok_shape [OF ok] by (subst book_shape_static [of b _ h]) auto
    show "resting ?h (o_side (?h x) = SideBuy) x" if "x \<in> book_ptrs b" for x
      using book_ok_resting [OF ok that] r lt fill(1) by (auto simp: resting_def)
  qed
  moreover have "fill_maker now fill p h b = (?h, b)"
    using lt by (simp add: fill_maker_def sum)
  ultimately show ?thesis by blast
qed

definition taker_ok :: "heap \<Rightarrow> ptr \<Rightarrow> bool" where
  "taker_ok h t \<longleftrightarrow> 0 \<le> o_filled (h t) \<and> o_filled (h t) \<le> o_quantity (h t) \<and> o_quantity (h t) < 2 ^ 63"

lemma remaining_taker: "taker_ok h t \<Longrightarrow> remaining_units (h t) = o_quantity (h t) - o_filled (h t)"
  by (simp add: taker_ok_def remaining_units_def in_i64_def)

lemma fill_taker_eq:
  assumes "taker_ok h t" "0 \<le> fill" "fill \<le> remaining_units (h t)"
  shows "fill_taker now fill t h =
    h(t := (h t)\<lparr>o_filled := o_filled (h t) + fill, o_updated_at := now,
       o_status := (if o_filled (h t) + fill = o_quantity (h t) then OrderStatusFilled else OrderStatusPartial)\<rparr>)"
proof -
  have b: "o_filled (h t) + fill \<le> o_quantity (h t)" using assms by (simp add: remaining_taker)
  then have "wrap_i64 (o_filled (h t) + fill) = o_filled (h t) + fill"
    using assms by (simp add: taker_ok_def in_i64_def)
  then show ?thesis using b by (simp add: fill_taker_def)
qed

section \<open>Matching refines filling the queue\<close>

definition status_of :: "i64 \<Rightarrow> i64 \<Rightarrow> order_status" where
  "status_of filled quantity = (if filled = quantity then OrderStatusFilled else OrderStatusPartial)"

text \<open>The orders after the fills: only the filled orders and the taker differ, and how.\<close>

definition heap_filled :: "heap \<Rightarrow> ptr \<Rightarrow> (ptr \<times> i64) list \<Rightarrow> heap \<Rightarrow> bool" where
  "heap_filled h t fills h' \<longleftrightarrow>
     (\<forall>q. static (h' q) = static (h q)) \<and>
     (\<forall>q. q \<noteq> t \<longrightarrow> q \<notin> fst ` set fills \<longrightarrow> h' q = h q) \<and>
     (\<forall>q n. (q, n) \<in> set fills \<longrightarrow>
        o_filled (h' q) = o_filled (h q) + n \<and> o_status (h' q) = status_of (o_filled (h' q)) (o_quantity (h q))) \<and>
     o_filled (h' t) = o_filled (h t) + sum_list (map snd fills) \<and>
     (fills = [] \<longrightarrow> h' t = h t) \<and>
     (fills \<noteq> [] \<longrightarrow> o_status (h' t) = status_of (o_filled (h' t)) (o_quantity (h t)))"

text \<open>The book after the fills: filled orders are gone, nothing left crosses an unfilled taker.\<close>

definition book_filled :: "bool \<Rightarrow> ptr \<Rightarrow> book \<Rightarrow> heap \<Rightarrow> book \<Rightarrow> bool" where
  "book_filled d t b h' b' \<longleftrightarrow>
     book_ok h' b' \<and> t \<notin> book_ptrs b' \<and> book_ptrs b' \<subseteq> book_ptrs b \<and> taker_ok h' t \<and>
     queue (opposite d b') = filter (\<lambda>q. o_filled (h' q) < o_quantity (h' q)) (queue (opposite d b)) \<and>
     queue (opposite (\<not> d) b') = queue (opposite (\<not> d) b) \<and> bk_instrument b' = bk_instrument b \<and>
     (0 < remaining_units (h' t) \<longrightarrow> (\<forall>q \<in> set (queue (opposite d b')). \<not> crosses d h' t q))"

lemma heap_filled_refl: "heap_filled h t [] h"
  by (simp add: heap_filled_def)

lemma heap_filled_Cons:
  assumes "p \<noteq> t" "p \<notin> fst ` set fs" "heap_filled h2 t fs h'"
    and h2: "h2 = h(p := (h p)\<lparr>o_filled := o_filled (h p) + n, o_updated_at := u,
                             o_status := status_of (o_filled (h p) + n) (o_quantity (h p))\<rparr>,
                  t := (h t)\<lparr>o_filled := o_filled (h t) + n, o_updated_at := u,
                             o_status := status_of (o_filled (h t) + n) (o_quantity (h t))\<rparr>)"
    and t: "t \<notin> fst ` set fs"
  shows "heap_filled h t ((p, n) # fs) h'"
proof -
  have st: "static (h2 q) = static (h q)" for q by (simp add: h2)
  have other: "h2 q = h q" if "q \<noteq> p" "q \<noteq> t" for q using that by (simp add: h2)
  have hp: "h' p = h2 p" using assms(1-3) by (auto simp: heap_filled_def)
  have "o_status (h' t) = status_of (o_filled (h' t)) (o_quantity (h t))"
    using assms(3) by (cases "fs = []") (auto simp: heap_filled_def h2)
  moreover have "o_filled (h' q) = o_filled (h q) + m \<and> o_status (h' q) = status_of (o_filled (h' q)) (o_quantity (h q))"
    if "(q, m) \<in> set fs" for q m
  proof -
    have "q \<in> fst ` set fs" using that by force
    then have "q \<noteq> p" "q \<noteq> t" using assms(2) t by auto
    then show ?thesis using assms(3) that other [of q] by (auto simp: heap_filled_def)
  qed
  moreover have "o_filled (h' p) = o_filled (h p) + n" "o_status (h' p) = status_of (o_filled (h' p)) (o_quantity (h p))"
    using assms(1) by (simp_all add: hp h2)
  moreover have "o_filled (h' t) = o_filled (h t) + n + sum_list (map snd fs)"
    using assms(3) by (simp add: heap_filled_def h2)
  moreover have "\<forall>q. static (h' q) = static (h q)" using assms(3) st by (simp add: heap_filled_def)
  moreover have "h' q = h q" if "q \<noteq> t" "q \<noteq> p" "q \<notin> fst ` set fs" for q
    using assms(3) that other by (simp add: heap_filled_def)
  ultimately show ?thesis unfolding heap_filled_def by auto
qed

lemma not_crossing_all:
  assumes "book_ok h b" "queue (opposite d b) = p # ps" "\<not> crosses d h t p" "q \<in> set (p # ps)"
  shows "\<not> crosses d h t q"
proof -
  have "levels_ok d h (opposite d b)" using book_okD(1,2) [OF assms(1)] by (simp add: opposite_def)
  then have "okey d h p \<le> okey d h q"
    using queue_sorted [of d h "opposite d b"] assms(2,4) by auto
  then show ?thesis using assms(3) by (simp add: crosses_def)
qed

lemma book_filled_refl:
  assumes "book_ok h b" "t \<notin> book_ptrs b" "taker_ok h t"
    and "0 < remaining_units (h t) \<Longrightarrow> \<forall>q \<in> set (queue (opposite d b)). \<not> crosses d h t q"
  shows "book_filled d t b h b"
proof -
  have "filter (\<lambda>q. o_filled (h q) < o_quantity (h q)) (queue (opposite d b)) = queue (opposite d b)"
    using book_ok_resting [OF assms(1)] by (auto simp: filter_id_conv opposite_ptrs [of b d] resting_def)
  then show ?thesis using assms by (simp add: book_filled_def)
qed

text \<open>The loop, by induction on the queue of the opposite side.\<close>

abbreviation trade_view :: "trade \<Rightarrow> order_id \<times> order_id \<times> i64 \<times> i64" where
  "trade_view x \<equiv> (t_maker x, t_taker x, t_price x, t_quantity x)"

abbreviation fill_view :: "heap \<Rightarrow> ptr \<Rightarrow> ptr \<times> i64 \<Rightarrow> order_id \<times> order_id \<times> i64 \<times> i64" where
  "fill_view h t f \<equiv> (o_id (h (fst f)), o_id (h t), o_limit (h (fst f)), snd f)"

lemma match_loop_stop:
  assumes "\<not> 0 < remaining_units (h t) \<or> best_matching_level h b t = None"
  shows "match_loop nid clock t k h b c ts ms = Some (h, b, c, ts, ms)"
  using assms by (subst match_loop.simps) auto

lemma match_loop_step:
  assumes "0 < remaining_units (h t)" "best_matching_level h b t = Some p"
    and "min64 (remaining_units (h t)) (remaining_units (h p)) = n"
    and "fill_maker (clock k) n p h b = (h1, b1)" "nid c = (c', i)"
  shows "match_loop nid clock t k h b c ts ms =
    match_loop nid clock t (Suc k) (fill_taker (clock k) n t h1) b1 c'
      (ts @ [mk_trade i (clock k) n (h t) (h p)]) (ms @ [p])"
  using assms by (subst match_loop.simps) (simp add: Let_def)

lemma ref_fills_static:
  assumes "\<And>x. x \<in> set ps \<Longrightarrow> h2 x = h x" "static (h2 t) = static (h t)"
  shows "ref_fills r (crosses d h2 t) (\<lambda>x. remaining_units (h2 x)) ps =
    ref_fills r (crosses d h t) (\<lambda>x. remaining_units (h x)) ps"
  using assms(1) staticD(5) [OF assms(2)] by (intro ref_fills_cong) (simp add: crosses_def)

lemma match_fill_full:
  assumes ok: "book_ok h b" and t: "t \<notin> book_ptrs b" "taker_ok h t" and q: "queue (opposite d b) = p # ps"
    and rem: "remaining_units (h p) \<le> remaining_units (h t)"
  shows "\<exists>h1 b1 h2. fill_maker now (remaining_units (h p)) p h b = (h1, b1) \<and>
    h2 = fill_taker now (remaining_units (h p)) t h1 \<and>
    h2 = h(p := (h p)\<lparr>o_filled := o_filled (h p) + remaining_units (h p), o_updated_at := now,
                      o_status := status_of (o_filled (h p) + remaining_units (h p)) (o_quantity (h p))\<rparr>,
           t := (h t)\<lparr>o_filled := o_filled (h t) + remaining_units (h p), o_updated_at := now,
                      o_status := status_of (o_filled (h t) + remaining_units (h p)) (o_quantity (h t))\<rparr>) \<and>
    book_ok h2 b1 \<and> t \<notin> book_ptrs b1 \<and> taker_ok h2 t \<and> book_ptrs b1 \<subseteq> book_ptrs b \<and> queue (opposite d b1) = ps \<and>
    queue (opposite (\<not> d) b1) = queue (opposite (\<not> d) b) \<and> bk_instrument b1 = bk_instrument b"
proof -
  have p: "p \<in> book_ptrs b" "p \<noteq> t" using q t(1) by (auto simp: opposite_ptrs [of b d])
  have r: "resting h (o_side (h p) = SideBuy) p" using ok p(1) by (rule book_ok_resting)
  have full: "o_filled (h p) + remaining_units (h p) = o_quantity (h p)"
    using remaining_resting(1) [OF r] by simp
  obtain b1 where b1: "fill_maker now (remaining_units (h p)) p h b =
      (h(p := (h p)\<lparr>o_filled := o_quantity (h p), o_updated_at := now, o_status := OrderStatusFilled\<rparr>), b1)"
    "book_ok h b1" "p \<notin> book_ptrs b1" "book_ptrs b1 \<subseteq> book_ptrs b" "queue (opposite d b1) = ps"
    "queue (opposite (\<not> d) b1) = queue (opposite (\<not> d) b)" "bk_instrument b1 = bk_instrument b"
    using fill_maker_full [OF ok q refl] by blast
  let ?h1 = "h(p := (h p)\<lparr>o_filled := o_quantity (h p), o_updated_at := now, o_status := OrderStatusFilled\<rparr>)"
  let ?h2 = "?h1(t := (h t)\<lparr>o_filled := o_filled (h t) + remaining_units (h p), o_updated_at := now,
                      o_status := status_of (o_filled (h t) + remaining_units (h p)) (o_quantity (h t))\<rparr>)"
  have "fill_taker now (remaining_units (h p)) t ?h1 = ?h2"
    using fill_taker_eq [of ?h1 t "remaining_units (h p)" now] t(2) rem p(2) remaining_resting(2) [OF r]
    by (simp add: taker_ok_def status_of_def)
  moreover have "book_ok ?h2 b1"
    using book_ok_cong(1) [of b1 ?h2 h] b1(2,3) t(1) b1(4) by fastforce
  moreover have "taker_ok ?h2 t"
    using t(2) rem remaining_taker [OF t(2)] remaining_resting(2) [OF r] by (simp add: taker_ok_def)
  moreover have "t \<notin> book_ptrs b1" using t(1) b1(4) by blast
  ultimately show ?thesis using b1 full by (simp add: status_of_def)
qed

lemma match_fill_part:
  assumes ok: "book_ok h b" and t: "t \<notin> book_ptrs b" "taker_ok h t" and q: "queue (opposite d b) = p # ps"
    and lt: "remaining_units (h t) < remaining_units (h p)" "0 < remaining_units (h t)"
  shows "\<exists>h1 h2. fill_maker now (remaining_units (h t)) p h b = (h1, b) \<and>
    h2 = fill_taker now (remaining_units (h t)) t h1 \<and>
    h2 = h(p := (h p)\<lparr>o_filled := o_filled (h p) + remaining_units (h t), o_updated_at := now,
                      o_status := status_of (o_filled (h p) + remaining_units (h t)) (o_quantity (h p))\<rparr>,
           t := (h t)\<lparr>o_filled := o_filled (h t) + remaining_units (h t), o_updated_at := now,
                      o_status := status_of (o_filled (h t) + remaining_units (h t)) (o_quantity (h t))\<rparr>) \<and>
    book_ok h2 b \<and> taker_ok h2 t \<and> remaining_units (h2 t) = 0"
proof -
  let ?n = "remaining_units (h t)"
  have p: "p \<in> book_ptrs b" "p \<noteq> t" using q t(1) by (auto simp: opposite_ptrs [of b d])
  have r: "resting h (o_side (h p) = SideBuy) p" using ok p(1) by (rule book_ok_resting)
  have part: "o_filled (h p) + ?n \<noteq> o_quantity (h p)" using lt(1) remaining_resting(1) [OF r] by simp
  let ?h1 = "h(p := (h p)\<lparr>o_filled := o_filled (h p) + ?n, o_updated_at := now, o_status := OrderStatusPartial\<rparr>)"
  have F: "fill_maker now ?n p h b = (?h1, b)" "book_ok ?h1 b"
    using fill_maker_part [OF ok q lt(2,1), of now] by auto
  have full: "o_filled (h t) + ?n = o_quantity (h t)" using remaining_taker [OF t(2)] by simp
  let ?h2 = "?h1(t := (h t)\<lparr>o_filled := o_filled (h t) + ?n, o_updated_at := now,
      o_status := status_of (o_filled (h t) + ?n) (o_quantity (h t))\<rparr>)"
  have "fill_taker now ?n t ?h1 = ?h2"
    using fill_taker_eq [of ?h1 t ?n now] t(2) lt(2) p(2) by (simp add: taker_ok_def status_of_def)
  moreover have tk: "taker_ok ?h2 t" using t(2) full by (simp add: taker_ok_def)
  moreover have "remaining_units (?h2 t) = 0" using remaining_taker [OF tk] full by simp
  moreover have "book_ok ?h2 b" using F(2) by (simp only: book_ok_upd [OF t(1)])
  ultimately show ?thesis using F(1) part by (simp add: status_of_def)
qed

lemma match_loop_correct:
  assumes "book_ok h b" "t \<notin> book_ptrs b" "taker_ok h t" "d = (o_side (h t) \<noteq> SideBuy)"
    and "queue (opposite d b) = q"
  shows "\<exists>h' b' c' nts.
    match_loop nid clock t k h b c ts ms =
      Some (h', b', c', ts @ nts,
        ms @ map fst (ref_fills (remaining_units (h t)) (crosses d h t) (\<lambda>p. remaining_units (h p)) q)) \<and>
    map trade_view nts =
      map (fill_view h t) (ref_fills (remaining_units (h t)) (crosses d h t) (\<lambda>p. remaining_units (h p)) q) \<and>
    heap_filled h t (ref_fills (remaining_units (h t)) (crosses d h t) (\<lambda>p. remaining_units (h p)) q) h' \<and>
    book_filled d t b h' b'"
  using assms
proof (induction q arbitrary: h b c k ts ms)
  case Nil
  have "best_matching_level h b t = None" using best_matching_queue [OF Nil(1,4)] Nil(5) by simp
  then show ?case
    using heap_filled_refl book_filled_refl [OF Nil(1-3), of d] Nil(5) by (simp add: match_loop_stop)
next
  case (Cons p ps)
  note ok = Cons.prems(1) and t = Cons.prems(2,3) and d = Cons.prems(4) and q = Cons.prems(5)
  note best = best_matching_queue [OF ok d, unfolded q, simplified]
  show ?case
  proof (cases "0 < remaining_units (h t) \<and> crosses d h t p")
    case False
    then have "\<not> 0 < remaining_units (h t) \<or> best_matching_level h b t = None" using best by auto
    moreover have "book_filled d t b h b"
    proof (rule book_filled_refl [OF ok t])
      assume "0 < remaining_units (h t)"
      then have "\<not> crosses d h t p" using False by simp
      from not_crossing_all [OF ok q this] show "\<forall>x \<in> set (queue (opposite d b)). \<not> crosses d h t x"
        unfolding q by blast
    qed
    ultimately show ?thesis using False heap_filled_refl [of h t] by (auto simp: match_loop_stop)
  next
    case True
    have p: "p \<in> book_ptrs b" "p \<noteq> t" using q t(1) by (auto simp: opposite_ptrs [of b d])
    have r: "resting h (o_side (h p) = SideBuy) p" using ok p(1) by (rule book_ok_resting)
    have pos: "0 < remaining_units (h p)" by (rule remaining_resting(2) [OF r])
    have best': "best_matching_level h b t = Some p" using best True by simp
    have "levels_ok d h (opposite d b)" using book_okD(1,2) [OF ok] by (simp add: opposite_def)
    then have dist: "p \<notin> set ps" using levels_okD(4) q by fastforce
    have tps: "t \<notin> set ps" using q t(1) by (auto simp: opposite_ptrs [of b d])
    obtain c' i where nid: "nid c = (c', i)" by (cases "nid c")
    let ?now = "clock k"
    show ?thesis
    proof (cases "remaining_units (h p) \<le> remaining_units (h t)")
      case le: True
      let ?n = "remaining_units (h p)"
      obtain h1 b1 h2 where F: "fill_maker ?now ?n p h b = (h1, b1)" "h2 = fill_taker ?now ?n t h1"
        "h2 = h(p := (h p)\<lparr>o_filled := o_filled (h p) + ?n, o_updated_at := ?now,
                      o_status := status_of (o_filled (h p) + ?n) (o_quantity (h p))\<rparr>,
           t := (h t)\<lparr>o_filled := o_filled (h t) + ?n, o_updated_at := ?now,
                      o_status := status_of (o_filled (h t) + ?n) (o_quantity (h t))\<rparr>)"
        "book_ok h2 b1" "t \<notin> book_ptrs b1" "taker_ok h2 t" "book_ptrs b1 \<subseteq> book_ptrs b" "queue (opposite d b1) = ps"
        "queue (opposite (\<not> d) b1) = queue (opposite (\<not> d) b)" "bk_instrument b1 = bk_instrument b"
        using match_fill_full [OF ok t q le] by blast
      have same: "h2 x = h x" if "x \<in> set ps" for x using that dist tps by (auto simp: F(3))
      have stt: "static (h2 x) = static (h x)" for x by (simp add: F(3))
      let ?fs = "ref_fills (remaining_units (h t) - ?n) (crosses d h t) (\<lambda>x. remaining_units (h x)) ps"
      have rt: "remaining_units (h2 t) = remaining_units (h t) - ?n"
        using remaining_taker [OF F(6)] remaining_taker [OF t(2)] by (simp add: F(3))
      have d2: "d = (o_side (h2 t) \<noteq> SideBuy)" using d staticD(4) [OF stt] by simp
      note IH = Cons.IH [OF F(4,5,6) d2 F(8), of "Suc k" c' "ts @ [mk_trade i ?now ?n (h t) (h p)]" "ms @ [p]"]
      have fs: "ref_fills (remaining_units (h2 t)) (crosses d h2 t) (\<lambda>x. remaining_units (h2 x)) ps = ?fs"
        unfolding rt by (rule ref_fills_static [OF same stt])
      obtain h' b' c2 nts where R:
        "match_loop nid clock t (Suc k) h2 b1 c' (ts @ [mk_trade i ?now ?n (h t) (h p)]) (ms @ [p]) =
           Some (h', b', c2, (ts @ [mk_trade i ?now ?n (h t) (h p)]) @ nts, (ms @ [p]) @ map fst ?fs)"
        "map trade_view nts = map (fill_view h2 t) ?fs" "heap_filled h2 t ?fs h'" "book_filled d t b1 h' b'"
        using IH unfolding fs by blast
      have pfs: "p \<notin> fst ` set ?fs" "t \<notin> fst ` set ?fs"
        using ref_fills_set [of "remaining_units (h t) - ?n" "crosses d h t" "\<lambda>x. remaining_units (h x)" ps] dist tps by auto
      have hf: "heap_filled h t ((p, ?n) # ?fs) h'"
        by (rule heap_filled_Cons [OF p(2) pfs(1) R(3) F(3) pfs(2)])
      then have "\<not> o_filled (h' p) < o_quantity (h' p)"
        using remaining_resting(1) [OF r] staticD(6) [of "h' p" "h p"] by (auto simp: heap_filled_def)
      then have bf: "book_filled d t b h' b'"
        using R(4) F(7-10) q by (auto simp: book_filled_def)
      have "min64 (remaining_units (h t)) (remaining_units (h p)) = ?n" using le by (simp add: min64_def)
      note step = match_loop_step [where nid = nid and clock = clock and k = k and c = c and ts = ts and ms = ms,
          OF _ best' this F(1) nid, folded F(2)]
      have "map (fill_view h2 t) ?fs = map (fill_view h t) ?fs" using staticD(1,5) [OF stt] by simp
      then show ?thesis
        using True step R(1,2) hf bf le pos
        by (intro exI [of _ h'] exI [of _ b'] exI [of _ c2]
            exI [of _ "mk_trade i ?now ?n (h t) (h p) # nts"]) (simp add: mk_trade_def min_absorb2)
    next
      case gt: False
      let ?n = "remaining_units (h t)"
      have lt: "?n < remaining_units (h p)" "0 < ?n" using gt True by simp_all
      obtain h1 h2 where F: "fill_maker ?now ?n p h b = (h1, b)" "h2 = fill_taker ?now ?n t h1"
        "h2 = h(p := (h p)\<lparr>o_filled := o_filled (h p) + ?n, o_updated_at := ?now,
                      o_status := status_of (o_filled (h p) + ?n) (o_quantity (h p))\<rparr>,
           t := (h t)\<lparr>o_filled := o_filled (h t) + ?n, o_updated_at := ?now,
                      o_status := status_of (o_filled (h t) + ?n) (o_quantity (h t))\<rparr>)"
        "book_ok h2 b" "taker_ok h2 t" "remaining_units (h2 t) = 0"
        using match_fill_part [OF ok t q lt] by blast
      have "heap_filled h t [(p, ?n)] h2"
        by (rule heap_filled_Cons [OF p(2) _ heap_filled_refl F(3)]) simp_all
      moreover have "book_filled d t b h2 b"
        using t(1) F(4-6) by (intro book_filled_refl) simp_all
      moreover have "min64 (remaining_units (h t)) (remaining_units (h p)) = ?n" using lt(1) by (simp add: min64_def)
      note step = match_loop_step [where nid = nid and clock = clock and k = k and c = c and ts = ts and ms = ms,
          OF lt(2) best' this F(1) nid, folded F(2)]
      have "match_loop nid clock t k h b c ts ms =
          Some (h2, b, c', ts @ [mk_trade i ?now ?n (h t) (h p)], ms @ [p])"
        unfolding step by (rule match_loop_stop) (simp add: F(6))
      ultimately show ?thesis
        using True lt
        by (intro exI [of _ h2] exI [of _ b] exI [of _ c'] exI [of _ "[mk_trade i ?now ?n (h t) (h p)]"])
          (simp add: mk_trade_def min_absorb1 ref_fills_done)
    qed
  qed
qed

lemma match_order_correct:
  assumes "book_ok h b" "taker \<notin> book_ptrs b" "taker_ok h taker" "d = (o_side (h taker) \<noteq> SideBuy)"
    and "fills = ref_fills (remaining_units (h taker)) (crosses d h taker) (\<lambda>p. remaining_units (h p))
                   (queue (opposite d b))"
  shows "\<exists>h' b' c' trades. match_order new_trade_id clock h b taker c = Some (h', b', c', trades, map fst fills) \<and>
    map trade_view trades = map (fill_view h taker) fills \<and>
    heap_filled h taker fills h' \<and> book_filled d taker b h' b'"
  using match_loop_correct [OF assms(1-4) refl, of new_trade_id clock 0 c "[]" "[]"]
  unfolding match_order_def assms(5) by simp

text \<open>
  C4. Matching is strict price-time priority: for a well-formed book and a taker outside it,
  \<^verbatim>\<open>Match\<close> returns, and its trades are those of the reference that fills the opposite side's queue
  from the front (best price first, oldest first within a price), each at the maker's limit
  price, until the taker is filled or the next order does not cross. Afterwards exactly the filled
  orders carry the fills and their status, all other orders are untouched, filled makers have left
  the book, the book is well-formed, and no resting order crosses a taker that has something left.
\<close>

theorem match_refines_reference:
  assumes "book_ok h b" "taker \<notin> book_ptrs b" "taker_ok h taker" "d = (o_side (h taker) \<noteq> SideBuy)"
    and "fills = ref_fills (remaining_units (h taker)) (crosses d h taker) (\<lambda>p. remaining_units (h p))
                   (queue (opposite d b))"
  shows "\<exists>h' b' c' trades. match_order new_trade_id clock h b taker c = Some (h', b', c', trades, map fst fills) \<and>
    map trade_view trades = map (fill_view h taker) fills \<and>
    heap_filled h taker fills h' \<and> book_filled d taker b h' b'"
  using assms by (rule match_order_correct)

definition ex_order :: "order_id \<Rightarrow> int \<Rightarrow> i64 \<Rightarrow> i64 \<Rightarrow> order" where
  "ex_order i side limit quantity =
     \<lparr>o_id = i, o_instrument = ''X'', o_owner = i, o_side = side, o_limit = limit, o_quantity = quantity,
      o_filled = 0, o_status = OrderStatusOpen, o_placed_at = 0, o_updated_at = 0\<rparr>"

definition ex_heap :: heap where
  "ex_heap = (\<lambda>p. if p = 0 then ex_order ''a'' SideSell 100 5 else if p = 1 then ex_order ''b'' SideSell 101 5
              else if p = 2 then ex_order ''c'' SideBuy 101 7 else ex_order ''d'' SideBuy 1 1)"

definition ex_book :: book where
  "ex_book = \<lparr>bk_instrument = ''X'', bk_bids = [],
      bk_asks = [\<lparr>lv_price = 100, lv_orders = [0]\<rparr>, \<lparr>lv_price = 101, lv_orders = [1]\<rparr>],
      bk_index = [''a'' \<mapsto> 0, ''b'' \<mapsto> 1]\<rparr>"

lemma ex_book_ok: "book_ok ex_heap ex_book" "2 \<notin> book_ptrs ex_book" "taker_ok ex_heap 2"
  by (auto simp: book_ok_def levels_ok_def ex_book_def ex_heap_def ex_order_def lkey_def resting_def
      book_ptrs_def SideBuy_def SideSell_def taker_ok_def split: if_splits)

theorem match_refines_reference_witness:
  "\<exists>h' b' c' trades. match_order (\<lambda>c. (c + 1 :: int, ''t'')) (\<lambda>_. 9) ex_heap ex_book 2 0 =
       Some (h', b', c', trades, [0, 1]) \<and>
     map trade_view trades = [(''a'', ''c'', 100, 5), (''b'', ''c'', 101, 2)] \<and> queue (bk_asks b') = [1]"
proof -
  let ?fills = "ref_fills (remaining_units (ex_heap 2)) (crosses False ex_heap 2)
      (\<lambda>p. remaining_units (ex_heap p)) (queue (opposite False ex_book))"
  have d: "False = (o_side (ex_heap 2) \<noteq> SideBuy)" by (simp add: ex_heap_def ex_order_def)
  have f: "?fills = [(0, 5), (1, 2)]"
    by (simp add: ex_heap_def ex_book_def ex_order_def crosses_def lkey_def opposite_def remaining_units_def in_i64_def)
  obtain h' b' c' trades where
    m: "match_order (\<lambda>c. (c + 1 :: int, ''t'')) (\<lambda>_. 9) ex_heap ex_book 2 0 = Some (h', b', c', trades, map fst ?fills)"
      "map trade_view trades = map (fill_view ex_heap 2) ?fills" "heap_filled ex_heap 2 ?fills h'"
      "book_filled False 2 ex_book h' b'"
    using match_refines_reference [OF ex_book_ok d refl, of "\<lambda>c. (c + 1 :: int, ''t'')" "\<lambda>_. 9" 0] by blast
  have "static (h' 0) = static (ex_heap 0)" "static (h' 1) = static (ex_heap 1)"
    "o_filled (h' 0) = 5" "o_filled (h' 1) = 2"
    using m(3) unfolding f by (auto simp: heap_filled_def ex_heap_def ex_order_def)
  then have "queue (bk_asks b') = [1]"
    using m(4) staticD(6) [of "h' 0" "ex_heap 0"] staticD(6) [of "h' 1" "ex_heap 1"]
    by (auto simp: book_filled_def opposite_def ex_book_def ex_heap_def ex_order_def)
  then show ?thesis using m(1,2) unfolding f by (simp add: ex_heap_def ex_order_def)
qed

end
