(* ===== verification/Blz_Orders.thy ===== *)
theory Blz_Orders
  imports Blz_Matching
begin

text \<open>
  The order service, \<^verbatim>\<open>services/trading/internal/orders/service.go\<close>: one book per instrument,
  placement and cancellation. The service runs every call under its lock, so calls are state
  transformers; a new order is allocated at the next free pointer.
\<close>

section \<open>The service\<close>

record order_service =
  sv_heap :: heap
  sv_next :: ptr
  sv_orders :: "order_id \<rightharpoonup> ptr"
  sv_books :: "instrument_id \<rightharpoonup> book"
  sv_trade_id :: i64

record place_order_request =
  rq_id :: order_id
  rq_instrument :: instrument_id
  rq_owner :: string
  rq_side :: int
  rq_limit :: i64
  rq_quantity :: i64

datatype service_error = Domain trading_error | AddToBook trading_error | CancelFromBook trading_error

definition order_service_new :: "heap \<Rightarrow> order_service" where
  "order_service_new h =
     \<lparr>sv_heap = h, sv_next = 0, sv_orders = Map.empty, sv_books = Map.empty, sv_trade_id = 0\<rparr>"

definition show_int :: "int \<Rightarrow> string" where
  "show_int i = (if i < 0 then ''-'' @ show_nat (nat (- i)) else show_nat (nat i))"

definition next_trade_id :: "i64 \<Rightarrow> i64 \<times> string" where
  "next_trade_id c = (wrap_i64 (c + 1), ''trade-'' @ show_int (wrap_i64 (c + 1)))"

definition book_for_instrument :: "instrument_id \<Rightarrow> order_service \<Rightarrow> order_service \<times> book" where
  "book_for_instrument i s =
     (case sv_books s i of
        Some b \<Rightarrow> (s, b)
      | None \<Rightarrow> (s\<lparr>sv_books := (sv_books s)(i \<mapsto> book_new i)\<rparr>, book_new i))"

definition new_order :: "time \<Rightarrow> place_order_request \<Rightarrow> order" where
  "new_order now req =
     \<lparr>o_id = rq_id req, o_instrument = rq_instrument req, o_owner = rq_owner req, o_side = rq_side req,
      o_limit = rq_limit req, o_quantity = rq_quantity req, o_filled = 0, o_status = OrderStatusOpen,
      o_placed_at = now, o_updated_at = now\<rparr>"

definition place_order ::
  "time \<Rightarrow> (nat \<Rightarrow> time) \<Rightarrow> place_order_request \<Rightarrow> order_service \<Rightarrow>
   (order_service \<times> (service_error, ptr \<times> trade list) result) option" where
  "place_order now clock req s =
     (if rq_quantity req \<le> 0 then Some (s, Inl (Domain ErrInvalidQuantity))
      else if rq_limit req \<le> 0 then Some (s, Inl (Domain ErrInvalidPrice))
      else if rq_side req \<noteq> SideBuy \<and> rq_side req \<noteq> SideSell then Some (s, Inl (Domain ErrUnknownSide))
      else if sv_orders s (rq_id req) \<noteq> None then Some (s, Inl (Domain ErrOrderAlreadyExists))
      else
        let p = sv_next s;
            s1 = s\<lparr>sv_heap := (sv_heap s)(p := new_order now req), sv_next := p + 1,
                   sv_orders := (sv_orders s)(rq_id req \<mapsto> p)\<rparr>;
            (s2, b) = book_for_instrument (rq_instrument req) s1
        in Option.bind (match_order next_trade_id clock (sv_heap s2) b p (sv_trade_id s2))
             (\<lambda>(h, b1, c, trades, makers).
                let s3 = s2\<lparr>sv_heap := h, sv_books := (sv_books s2)(rq_instrument req \<mapsto> b1), sv_trade_id := c\<rparr>
                in if o_status (h p) \<noteq> OrderStatusFilled
                   then (case book_add h b1 p of
                           Inl e \<Rightarrow> Some (s3, Inl (AddToBook e))
                         | Inr b2 \<Rightarrow> Some (s3\<lparr>sv_books := (sv_books s3)(rq_instrument req \<mapsto> b2)\<rparr>, Inr (p, trades)))
                   else Some (s3, Inr (p, trades))))"

definition cancel_order ::
  "time \<Rightarrow> order_id \<Rightarrow> order_service \<Rightarrow> order_service \<times> (service_error, unit) result" where
  "cancel_order now i s =
     (case sv_orders s i of
        None \<Rightarrow> (s, Inl (Domain ErrOrderNotFound))
      | Some p \<Rightarrow>
          if o_status (sv_heap s p) \<noteq> OrderStatusOpen \<and> o_status (sv_heap s p) \<noteq> OrderStatusPartial
          then (s, Inl (Domain ErrOrderNotOpen))
          else let (s1, b) = book_for_instrument (o_instrument (sv_heap s p)) s
               in case book_cancel (sv_heap s1) b i of
                    Inl e \<Rightarrow> (s1, Inl (CancelFromBook e))
                  | Inr b1 \<Rightarrow>
                      (s1\<lparr>sv_books := (sv_books s1)(o_instrument (sv_heap s p) \<mapsto> b1),
                          sv_heap := (sv_heap s1)(p := (sv_heap s1 p)\<lparr>o_status := OrderStatusCancelled,
                                                                      o_updated_at := now\<rparr>)\<rparr>, Inr ()))"

definition get_order :: "order_id \<Rightarrow> order_service \<Rightarrow> (trading_error, order) result" where
  "get_order i s = (case sv_orders s i of None \<Rightarrow> Inl ErrOrderNotFound | Some p \<Rightarrow> Inr (sv_heap s p))"

section \<open>The invariant of the service\<close>

definition live :: "order \<Rightarrow> bool" where
  "live x \<longleftrightarrow> o_status x = OrderStatusOpen \<or> o_status x = OrderStatusPartial"

definition orders_inv :: "order_service \<Rightarrow> bool" where
  "orders_inv s \<longleftrightarrow>
     (\<forall>i p. sv_orders s i = Some p \<longrightarrow>
        p < sv_next s \<and> o_id (sv_heap s p) = i \<and> taker_ok (sv_heap s) p \<and>
        (o_status (sv_heap s p) = OrderStatusFilled \<longleftrightarrow> o_filled (sv_heap s p) = o_quantity (sv_heap s p)) \<and>
        (live (sv_heap s p) \<longrightarrow>
           (\<exists>b. sv_books s (o_instrument (sv_heap s p)) = Some b \<and> p \<in> book_ptrs b)))"

definition books_inv :: "order_service \<Rightarrow> bool" where
  "books_inv s \<longleftrightarrow>
     (\<forall>i b. sv_books s i = Some b \<longrightarrow>
        bk_instrument b = i \<and> book_ok (sv_heap s) b \<and> uncrossed (sv_heap s) b \<and>
        (\<forall>p \<in> book_ptrs b. o_instrument (sv_heap s p) = i \<and> sv_orders s (o_id (sv_heap s p)) = Some p))"

lemma books_invD:
  assumes "books_inv s" "sv_books s i = Some b"
  shows "bk_instrument b = i" "book_ok (sv_heap s) b" "uncrossed (sv_heap s) b"
    and "p \<in> book_ptrs b \<Longrightarrow> o_instrument (sv_heap s p) = i"
    and "p \<in> book_ptrs b \<Longrightarrow> sv_orders s (o_id (sv_heap s p)) = Some p"
  using assms by (auto simp: books_inv_def)

lemma orders_invD:
  assumes "orders_inv s" "sv_orders s i = Some p"
  shows "p < sv_next s" "o_id (sv_heap s p) = i" "taker_ok (sv_heap s) p"
    and "o_status (sv_heap s p) = OrderStatusFilled \<longleftrightarrow> o_filled (sv_heap s p) = o_quantity (sv_heap s p)"
    and "live (sv_heap s p) \<Longrightarrow> \<exists>b. sv_books s (o_instrument (sv_heap s p)) = Some b \<and> p \<in> book_ptrs b"
  using assms by (auto simp: orders_inv_def)

section \<open>Placing an order\<close>

text \<open>What the invariant says of one book.\<close>

definition book_at :: "heap \<Rightarrow> (order_id \<rightharpoonup> ptr) \<Rightarrow> instrument_id \<Rightarrow> book \<Rightarrow> bool" where
  "book_at h os i b \<longleftrightarrow>
     bk_instrument b = i \<and> book_ok h b \<and> uncrossed h b \<and>
     (\<forall>p \<in> book_ptrs b. o_instrument (h p) = i \<and> os (o_id (h p)) = Some p)"

lemma books_inv_at: "books_inv s \<longleftrightarrow> (\<forall>i b. sv_books s i = Some b \<longrightarrow> book_at (sv_heap s) (sv_orders s) i b)"
  by (simp add: books_inv_def book_at_def)

lemma book_at_new: "book_at h os i (book_new i)"
  by (simp add: book_at_def) (simp add: book_new_def)

lemma book_for_instrument_eq:
  obtains b where "book_for_instrument i s = (s\<lparr>sv_books := (sv_books s)(i \<mapsto> b)\<rparr>, b)"
    and "sv_books s i = Some b \<or> sv_books s i = None \<and> b = book_new i"
proof (cases "sv_books s i")
  case None
  then show ?thesis by (intro that [of "book_new i"]) (simp_all add: book_for_instrument_def)
next
  case (Some b)
  have "s\<lparr>sv_books := (sv_books s)(i \<mapsto> b)\<rparr> = s" using Some by (simp add: fun_upd_idem)
  then show ?thesis using Some by (intro that [of b]) (simp_all add: book_for_instrument_def)
qed

lemma book_at_cong:
  assumes "book_at h os i b" "\<And>q. q \<in> book_ptrs b \<Longrightarrow> h' q = h q \<and> os' (o_id (h q)) = os (o_id (h q))"
  shows "book_at h' os' i b"
  using assms book_ok_cong [of b h' h] by (simp add: book_at_def)

lemma ref_fills_bound:
  assumes "(q, n) \<in> set (ref_fills r cr rem ps)"
  shows "q \<in> set ps" "n \<le> rem q" "0 < rem q \<Longrightarrow> 0 < n"
  using assms by (induction ps arbitrary: r) (auto split: if_splits)

text \<open>
  The book after matching and, for an order that is not filled, adding: it holds what was not
  filled, and it is uncrossed.
\<close>

lemma uncrossed_match:
  assumes "uncrossed h b" "book_filled d t b h' b'" "\<And>q. static (h' q) = static (h q)"
  shows "uncrossed h' b'"
  using assms staticD(5) [OF assms(3)]
  by (cases d) (auto simp: uncrossed_def book_filled_def opposite_def)

lemma uncrossed_add:
  assumes "uncrossed h b" "d = (o_side (h t) \<noteq> SideBuy)"
    and "\<forall>q \<in> set (queue (opposite d b)). \<not> crosses d h t q"
    and "queue (bk_bids b') = (if o_side (h t) = SideBuy then enqueue True h (queue (bk_bids b)) t else queue (bk_bids b))"
    and "queue (bk_asks b') = (if o_side (h t) = SideBuy then queue (bk_asks b) else enqueue False h (queue (bk_asks b)) t)"
  shows "uncrossed h b'"
  using assms by (auto simp: uncrossed_def opposite_def crosses_def lkey_def not_le split: if_splits)

text \<open>Every live order of the old book is still in the new one.\<close>

lemma match_keeps_live:
  assumes "book_ok h b" "heap_filled h t fills h'" "book_filled d t b h' b'" "q \<in> book_ptrs b" "q \<noteq> t"
    and "live (h' q)" "fst ` set fills \<subseteq> book_ptrs b" "taker_ok h' q"
  shows "q \<in> book_ptrs b'"
proof -
  have "o_filled (h' q) < o_quantity (h' q)"
  proof (cases "q \<in> fst ` set fills")
    case True
    then have "o_status (h' q) = status_of (o_filled (h' q)) (o_quantity (h q))"
      using assms(2) by (auto simp: heap_filled_def)
    moreover have "o_quantity (h' q) = o_quantity (h q)"
      using assms(2) staticD(6) [of "h' q" "h q"] by (simp add: heap_filled_def)
    ultimately show ?thesis
      using assms(6,8) by (auto simp: live_def status_of_def taker_ok_def split: if_splits)
  next
    case False
    then have "h' q = h q" using assms(2,5) by (simp add: heap_filled_def)
    then show ?thesis using book_ok_resting [OF assms(1,4)] by (simp add: resting_def)
  qed
  then show ?thesis
    using assms(3,4) by (auto simp: book_filled_def opposite_ptrs [of _ d])
qed

lemma taker_status:
  assumes "heap_filled h t fills h'" "o_filled (h t) = 0" "0 < o_quantity (h t)" "o_status (h t) = OrderStatusOpen"
  shows "o_status (h' t) = OrderStatusFilled \<longleftrightarrow> o_filled (h' t) = o_quantity (h' t)"
    and "o_status (h' t) \<noteq> OrderStatusFilled \<Longrightarrow> live (h' t)"
proof -
  have "o_quantity (h' t) = o_quantity (h t)"
    using assms(1) staticD(6) [of "h' t" "h t"] by (simp add: heap_filled_def)
  then show "o_status (h' t) = OrderStatusFilled \<longleftrightarrow> o_filled (h' t) = o_quantity (h' t)"
    "o_status (h' t) \<noteq> OrderStatusFilled \<Longrightarrow> live (h' t)"
    using assms by (cases "fills = []"; auto simp: heap_filled_def status_of_def live_def split: if_splits)+
qed

text \<open>
  Matching a fresh order against its book and adding what is left: the new heap and the new book,
  related to the old ones.
\<close>

definition placed ::
  "heap \<Rightarrow> book \<Rightarrow> ptr \<Rightarrow> (ptr \<times> i64) list \<Rightarrow> heap \<Rightarrow> book \<Rightarrow> bool" where
  "placed h b t fills h' b' \<longleftrightarrow>
     heap_filled h t fills h' \<and> book_ok h' b' \<and> uncrossed h' b' \<and> bk_instrument b' = bk_instrument b \<and>
     taker_ok h' t \<and> book_ptrs b' \<subseteq> insert t (book_ptrs b) \<and> (live (h' t) \<longrightarrow> t \<in> book_ptrs b') \<and>
     (o_status (h' t) = OrderStatusFilled \<longleftrightarrow> o_filled (h' t) = o_quantity (h' t)) \<and>
     (\<forall>q n. (q, n) \<in> set fills \<longrightarrow> q \<in> book_ptrs b \<and> 0 < n \<and> n \<le> o_quantity (h q) - o_filled (h q)) \<and>
     (\<forall>q \<in> book_ptrs b. live (h' q) \<longrightarrow> q \<in> book_ptrs b')"

lemma fills_bound:
  assumes "book_ok h b" "(q, n) \<in> set (ref_fills r cr (\<lambda>p. remaining_units (h p)) (queue (opposite d b)))"
  shows "q \<in> book_ptrs b" "0 < n" "n \<le> o_quantity (h q) - o_filled (h q)"
proof -
  note B = ref_fills_bound [OF assms(2)]
  show q: "q \<in> book_ptrs b" using B(1) by (simp add: opposite_ptrs [of b d])
  note R = remaining_resting [OF book_ok_resting [OF assms(1) q]]
  show "0 < n" "n \<le> o_quantity (h q) - o_filled (h q)" using B(2,3) R by simp_all
qed

lemma match_and_add:
  assumes ok: "book_ok h b" "uncrossed h b" and t: "t \<notin> book_ptrs b"
    and fresh: "bk_index b (o_id (h t)) = None" "o_filled (h t) = 0" "0 < o_quantity (h t)" "o_quantity (h t) < 2 ^ 63"
      "o_status (h t) = OrderStatusOpen" "0 < o_limit (h t)"
  shows "\<exists>h' b1 b' c' trades fills.
    match_order nid clock h b t c = Some (h', b1, c', trades, map fst fills) \<and>
    map trade_view trades = map (fill_view h t) fills \<and>
    (if o_status (h' t) \<noteq> OrderStatusFilled then book_add h' b1 t = Inr b' else b' = b1) \<and>
    placed h b t fills h' b'"
proof -
  have tk: "taker_ok h t" using fresh by (simp add: taker_ok_def)
  let ?d = "o_side (h t) \<noteq> SideBuy"
  let ?fills = "ref_fills (remaining_units (h t)) (crosses ?d h t) (\<lambda>p. remaining_units (h p)) (queue (opposite ?d b))"
  obtain h' b1 c' trades where M: "match_order nid clock h b t c = Some (h', b1, c', trades, map fst ?fills)"
    "map trade_view trades = map (fill_view h t) ?fills" "heap_filled h t ?fills h'" "book_filled ?d t b h' b1"
    using match_order_correct [OF ok(1) t tk refl refl, of nid clock c] by blast
  have st: "static (h' q) = static (h q)" for q using M(3) by (simp add: heap_filled_def)
  note stD = staticD [OF st]
  have b1: "book_ok h' b1" "t \<notin> book_ptrs b1" "book_ptrs b1 \<subseteq> book_ptrs b" "taker_ok h' t"
    "bk_instrument b1 = bk_instrument b"
    using M(4) by (simp_all add: book_filled_def)
  have unc: "uncrossed h' b1" by (rule uncrossed_match [OF ok(2) M(4) st])
  note T = taker_status [OF M(3) fresh(2,3,5)]
  have fb: "\<forall>q n. (q, n) \<in> set ?fills \<longrightarrow> q \<in> book_ptrs b \<and> 0 < n \<and> n \<le> o_quantity (h q) - o_filled (h q)"
    using fills_bound [OF ok(1)] by blast
  have keep: "q \<in> book_ptrs b1" if q: "q \<in> book_ptrs b" "live (h' q)" for q
  proof (rule match_keeps_live [OF ok(1) M(3,4) q(1) _ q(2)])
    show "q \<noteq> t" using t q(1) by blast
    show "fst ` set ?fills \<subseteq> book_ptrs b" using fb by force
    show "taker_ok h' q"
    proof (cases "q \<in> fst ` set ?fills")
      case True
      then obtain n where "(q, n) \<in> set ?fills" by force
      then show ?thesis
        using M(3) fb book_ok_resting [OF ok(1) q(1)] stD(6) [of q]
        by (force simp: heap_filled_def taker_ok_def resting_def)
    next
      case False
      then have "h' q = h q" using M(3) \<open>q \<noteq> t\<close> by (simp add: heap_filled_def)
      then show ?thesis using book_ok_resting [OF ok(1) q(1)] by (simp add: taker_ok_def resting_def)
    qed
  qed
  show ?thesis
  proof (cases "o_status (h' t) = OrderStatusFilled")
    case True
    then have "\<not> live (h' t)" by (simp add: live_def)
    then have "placed h b t ?fills h' b1"
      unfolding placed_def using M(3) b1 unc T(1) fb keep by blast
    then show ?thesis using M(1,2) True by auto
  next
    case False
    have idx: "bk_index b1 (o_id (h' t)) = None"
    proof (rule ccontr)
      assume "\<not> ?thesis"
      then obtain q where "bk_index b1 (o_id (h' t)) = Some q" by blast
      then have "q \<in> book_ptrs b" "o_id (h q) = o_id (h t)"
        using book_okD(5) [OF b1(1)] b1(3) stD(1) by auto
      then show False using book_okD(5) [OF ok(1), of "o_id (h t)" q] fresh(1) by simp
    qed
    have "0 < remaining_units (h' t)"
      using False T(1) b1(4) remaining_taker [OF b1(4)] by (simp add: taker_ok_def)
    then have nc: "\<forall>q \<in> set (queue (opposite ?d b1)). \<not> crosses ?d h' t q"
      using M(4) by (simp add: book_filled_def)
    have "resting h' (o_side (h' t) = SideBuy) t"
      using False T b1(4) fresh(6) stD(5) [of t] by (auto simp: resting_def live_def taker_ok_def)
    then obtain b' where b': "book_add h' b1 t = Inr b'" "book_ok h' b'" "book_ptrs b' = insert t (book_ptrs b1)"
      "bk_instrument b' = bk_instrument b1"
      "queue (bk_bids b') = (if o_side (h' t) = SideBuy then enqueue True h' (queue (bk_bids b1)) t else queue (bk_bids b1))"
      "queue (bk_asks b') = (if o_side (h' t) = SideBuy then queue (bk_asks b1) else enqueue False h' (queue (bk_asks b1)) t)"
      using book_add_ok [OF b1(1,2) idx] by blast
    have "uncrossed h' b'"
      using uncrossed_add [OF unc _ nc b'(5,6)] stD(4) [of t] by simp
    then have "placed h b t ?fills h' b'"
      unfolding placed_def using M(3) b1 b'(2-4) T(1) fb keep by auto
    then show ?thesis using M(1,2) False b'(1) by auto
  qed
qed

definition svc_ok :: "order_service \<Rightarrow> bool" where
  "svc_ok s \<longleftrightarrow> orders_inv s \<and> books_inv s"

lemma svc_ok_new: "svc_ok (order_service_new h)"
  by (simp add: svc_ok_def orders_inv_def books_inv_def order_service_new_def)

lemma svc_book_ptr:
  assumes "svc_ok s" "sv_books s i = Some b" "q \<in> book_ptrs b"
  shows "q < sv_next s" "o_instrument (sv_heap s q) = i" "sv_orders s (o_id (sv_heap s q)) = Some q"
  using assms books_invD(4,5) [of s i b q] orders_invD(1) [of s "o_id (sv_heap s q)" q]
  by (simp_all add: svc_ok_def)

lemma placed_other:
  assumes "placed h b t fills h' b'" "q \<noteq> t" "q \<notin> book_ptrs b"
  shows "h' q = h q"
proof -
  have "q \<notin> fst ` set fills" using assms(1,3) by (auto simp: placed_def)
  then show ?thesis using assms(1,2) by (simp add: placed_def heap_filled_def)
qed

lemma placed_static: "placed h b t fills h' b' \<Longrightarrow> static (h' q) = static (h q)"
  by (simp add: placed_def heap_filled_def)

lemma placed_taker_ok:
  assumes P: "placed h b t fills h' b'" and q: "q \<noteq> t" "taker_ok h q"
    and st: "o_status (h q) = OrderStatusFilled \<longleftrightarrow> o_filled (h q) = o_quantity (h q)"
  shows "taker_ok h' q" "o_status (h' q) = OrderStatusFilled \<longleftrightarrow> o_filled (h' q) = o_quantity (h' q)"
proof -
  have Q: "o_quantity (h' q) = o_quantity (h q)" using staticD(6) [OF placed_static [OF P]] .
  have "taker_ok h' q \<and> (o_status (h' q) = OrderStatusFilled \<longleftrightarrow> o_filled (h' q) = o_quantity (h' q))"
  proof (cases "q \<in> fst ` set fills")
    case True
    then obtain n where n: "(q, n) \<in> set fills" by force
    then have "o_filled (h' q) = o_filled (h q) + n" "o_status (h' q) = status_of (o_filled (h' q)) (o_quantity (h q))"
      "0 < n" "n \<le> o_quantity (h q) - o_filled (h q)"
      using P by (auto simp: placed_def heap_filled_def)
    then show ?thesis using q(2) by (simp add: taker_ok_def Q status_of_def)
  next
    case False
    then have "h' q = h q" using P q(1) by (simp add: placed_def heap_filled_def)
    then show ?thesis using q(2) st by (simp add: taker_ok_def)
  qed
  then show "taker_ok h' q" "o_status (h' q) = OrderStatusFilled \<longleftrightarrow> o_filled (h' q) = o_quantity (h' q)"
    by blast+
qed

text \<open>The invariant over one placement, given what matching and adding did.\<close>

lemma placed_svc_ok:
  assumes ok: "svc_ok s" and new: "sv_orders s i = None" "t = sv_next s"
    and b: "sv_books s j = Some b \<or> sv_books s j = None \<and> b = book_new j"
    and h: "h = (sv_heap s)(t := x)" "o_id x = i" "o_instrument x = j" and P: "placed h b t fills h' b'"
  shows "svc_ok \<lparr>sv_heap = h', sv_next = t + 1, sv_orders = (sv_orders s)(i \<mapsto> t),
     sv_books = (sv_books s)(j \<mapsto> b'), sv_trade_id = c\<rparr>"
proof -
  have oi: "orders_inv s" and bi: "books_inv s" using ok by (simp_all add: svc_ok_def)
  have old: "q \<noteq> t" "h q = sv_heap s q" if "sv_orders s k = Some q" for k q
    using orders_invD(1) [OF oi that] by (auto simp: new h)
  have inb: "sv_books s j = Some b" if "q \<in> book_ptrs b" for q using b that by auto
  have bptr: "q \<noteq> t" "o_instrument (sv_heap s q) = j" "sv_orders s (o_id (sv_heap s q)) = Some q"
    if "q \<in> book_ptrs b" for q
    using svc_book_ptr [OF ok inb that] that by (auto simp: new)
  note stD = staticD [OF placed_static [OF P]]
  have ht: "h t = x" by (simp add: h)
  have orders: "k = i \<and> q = t \<or> k \<noteq> i \<and> sv_orders s k = Some q" if "((sv_orders s)(i \<mapsto> t)) k = Some q" for k q
    using that by (auto split: if_splits)
  have "orders_inv \<lparr>sv_heap = h', sv_next = t + 1, sv_orders = (sv_orders s)(i \<mapsto> t),
     sv_books = (sv_books s)(j \<mapsto> b'), sv_trade_id = c\<rparr>"
    unfolding orders_inv_def order_service.simps
  proof (intro allI impI)
    fix k q
    assume "((sv_orders s)(i \<mapsto> t)) k = Some q"
    then consider "k = i" "q = t" | "k \<noteq> i" "sv_orders s k = Some q" using orders by blast
    then show "q < t + 1 \<and> o_id (h' q) = k \<and> taker_ok h' q \<and>
        (o_status (h' q) = OrderStatusFilled \<longleftrightarrow> o_filled (h' q) = o_quantity (h' q)) \<and>
        (live (h' q) \<longrightarrow> (\<exists>b. ((sv_books s)(j \<mapsto> b')) (o_instrument (h' q)) = Some b \<and> q \<in> book_ptrs b))"
    proof cases
      case 1
      then show ?thesis using P stD(1,2) [of t] ht h(2,3) by (auto simp: placed_def)
    next
      case 2
      note O = orders_invD [OF oi 2(2)] and Q = old [OF 2(2)]
      have "taker_ok h q" using O(3) Q(2) by (simp add: taker_ok_def)
      note T = placed_taker_ok [OF P Q(1) this]
      have live: "\<exists>b. ((sv_books s)(j \<mapsto> b')) (o_instrument (h' q)) = Some b \<and> q \<in> book_ptrs b" if lv: "live (h' q)"
      proof (cases "q \<in> book_ptrs b")
        case True
        then show ?thesis using P lv bptr(2) [OF True] stD(2) [of q] Q(2) by (auto simp: placed_def)
      next
        case False
        have "h' q = sv_heap s q" using placed_other [OF P Q(1) False] Q(2) by simp
        then obtain b0 where b0: "sv_books s (o_instrument (sv_heap s q)) = Some b0" "q \<in> book_ptrs b0"
          using O(5) lv by auto
        then have "o_instrument (sv_heap s q) \<noteq> j" using b False by auto
        then show ?thesis using b0 \<open>h' q = sv_heap s q\<close> by auto
      qed
      show ?thesis
        using O(1,2,4) T live stD(1) [of q] Q(2) new(2) by auto
    qed
  qed
  moreover have "book_at h' ((sv_orders s)(i \<mapsto> t)) j b'"
  proof -
    have "o_instrument (h' q) = j \<and> ((sv_orders s)(i \<mapsto> t)) (o_id (h' q)) = Some q" if q: "q \<in> book_ptrs b'" for q
    proof (cases "q = t")
      case True
      then show ?thesis using stD(1,2) [of t] ht h(2,3) by simp
    next
      case False
      then have "q \<in> book_ptrs b" using P q by (auto simp: placed_def)
      then show ?thesis using bptr [of q] stD(1,2) [of q] new(1) False by (auto simp: h(1))
    qed
    moreover have "bk_instrument b = j"
      using b books_invD(1) [OF bi, of j b] by (auto simp: book_new_def)
    ultimately show ?thesis using P by (simp add: book_at_def placed_def)
  qed
  moreover have "book_at h' ((sv_orders s)(i \<mapsto> t)) k b0" if "k \<noteq> j" "sv_books s k = Some b0" for k b0
  proof (rule book_at_cong)
    show "book_at (sv_heap s) (sv_orders s) k b0" using bi that(2) by (simp add: books_inv_at)
    fix q
    assume q: "q \<in> book_ptrs b0"
    note B = svc_book_ptr [OF ok that(2) q]
    have nb: "q \<notin> book_ptrs b" using B(2) bptr(2) [of q] that(1) by blast
    have "q \<noteq> t" using B(1) new(2) by simp
    then show "h' q = sv_heap s q \<and>
        ((sv_orders s)(i \<mapsto> t)) (o_id (sv_heap s q)) = sv_orders s (o_id (sv_heap s q))"
      using placed_other [OF P _ nb] B(3) new(1) by (auto simp: h(1))
  qed
  ultimately show ?thesis by (auto simp: svc_ok_def books_inv_at)
qed

lemma fresh_not_in_book:
  assumes "svc_ok s" "sv_books s j = Some b \<or> sv_books s j = None \<and> b = book_new j"
  shows "sv_next s \<notin> book_ptrs b" "book_ok (sv_heap s) b" "uncrossed (sv_heap s) b"
    and "sv_orders s i = None \<Longrightarrow> bk_index b i = None"
proof -
  show "sv_next s \<notin> book_ptrs b" using svc_book_ptr(1) [OF assms(1), of j b "sv_next s"] assms(2) by auto
  show ok: "book_ok (sv_heap s) b" "uncrossed (sv_heap s) b"
    using assms books_invD(2,3) [of s j b] by (auto simp: svc_ok_def)
  show "bk_index b i = None" if "sv_orders s i = None"
  proof (rule ccontr)
    assume "bk_index b i \<noteq> None"
    then obtain q where "q \<in> book_ptrs b" "o_id (sv_heap s q) = i" using book_okD(5) [OF ok(1)] by blast
    then show False using svc_book_ptr(3) [OF assms(1), of j b q] assms(2) that by auto
  qed
qed

text \<open>
  A placement that passes validation returns; it reports the pointer of the new order and one
  trade per fill, and never the internal error of adding to the book.
\<close>

lemma place_order_accepts:
  assumes ok: "svc_ok s" and v: "0 < rq_quantity req" "0 < rq_limit req" "rq_side req = SideBuy \<or> rq_side req = SideSell"
      "rq_quantity req < 2 ^ 63" and new: "sv_orders s (rq_id req) = None"
  shows "\<exists>s' trades b fills b'. place_order now clock req s = Some (s', Inr (sv_next s, trades)) \<and> svc_ok s' \<and>
    sv_orders s' = (sv_orders s)(rq_id req \<mapsto> sv_next s) \<and>
    placed ((sv_heap s)(sv_next s := new_order now req)) b (sv_next s) fills (sv_heap s') b' \<and>
    (sv_books s (rq_instrument req) = Some b \<or> sv_books s (rq_instrument req) = None \<and> b = book_new (rq_instrument req)) \<and>
    map trade_view trades = map (fill_view ((sv_heap s)(sv_next s := new_order now req)) (sv_next s)) fills"
proof -
  let ?t = "sv_next s" and ?j = "rq_instrument req"
  let ?h = "(sv_heap s)(?t := new_order now req)"
  let ?s1 = "s\<lparr>sv_heap := ?h, sv_next := ?t + 1, sv_orders := (sv_orders s)(rq_id req \<mapsto> ?t)\<rparr>"
  obtain b where b: "book_for_instrument ?j ?s1 = (?s1\<lparr>sv_books := (sv_books ?s1)(?j \<mapsto> b)\<rparr>, b)"
    "sv_books s ?j = Some b \<or> sv_books s ?j = None \<and> b = book_new ?j"
    by (rule book_for_instrument_eq [of ?j ?s1]) auto
  note F = fresh_not_in_book [OF ok b(2)]
  have "book_ok ?h b" "uncrossed ?h b" using F(2,3) by (simp_all only: book_ok_upd [OF F(1)])
  then obtain h' b1 b' c' trades fills where M:
    "match_order next_trade_id clock ?h b ?t (sv_trade_id s) = Some (h', b1, c', trades, map fst fills)"
    "map trade_view trades = map (fill_view ?h ?t) fills"
    "if o_status (h' ?t) \<noteq> OrderStatusFilled then book_add h' b1 ?t = Inr b' else b' = b1"
    "placed ?h b ?t fills h' b'"
    using match_and_add [of ?h b ?t next_trade_id clock "sv_trade_id s"] F(1) F(4) [OF new] v
    by (auto simp: new_order_def)
  let ?s' = "\<lparr>sv_heap = h', sv_next = ?t + 1, sv_orders = (sv_orders s)(rq_id req \<mapsto> ?t),
     sv_books = (sv_books s)(?j \<mapsto> b'), sv_trade_id = c'\<rparr>"
  have "place_order now clock req s = Some (?s', Inr (?t, trades))"
    using v new M(1,3) b(1) by (auto simp: place_order_def Let_def split: if_splits)
  moreover have "svc_ok ?s'"
    by (rule placed_svc_ok [OF ok new refl b(2) refl _ _ M(4)]) (simp_all add: new_order_def)
  ultimately show ?thesis
    using M(2,4) b(2)
    by (intro exI [of _ ?s'] exI [of _ trades] exI [of _ b] exI [of _ fills] exI [of _ b']) simp
qed

lemma place_order_ok:
  assumes "svc_ok s" "rq_quantity req < 2 ^ 63"
  shows "\<exists>s' r. place_order now clock req s = Some (s', r) \<and> svc_ok s' \<and> (\<forall>e. r \<noteq> Inl (AddToBook e))"
proof (cases "0 < rq_quantity req \<and> 0 < rq_limit req \<and> (rq_side req = SideBuy \<or> rq_side req = SideSell) \<and>
    sv_orders s (rq_id req) = None")
  case True
  then show ?thesis using place_order_accepts [OF assms(1), of req now clock] assms(2) by auto
next
  case False
  then show ?thesis using assms(1) by (auto simp: place_order_def)
qed

section \<open>Cancelling an order\<close>

lemma cancel_order_ok:
  assumes ok: "svc_ok s"
  shows "svc_ok (fst (cancel_order now i s)) \<and> (\<forall>e. snd (cancel_order now i s) \<noteq> Inl (CancelFromBook e))"
proof (cases "\<exists>p. sv_orders s i = Some p \<and> live (sv_heap s p)")
  case False
  then show ?thesis using ok by (auto simp: cancel_order_def live_def split: option.splits)
next
  case True
  then obtain p where p: "sv_orders s i = Some p" "live (sv_heap s p)" by blast
  let ?h = "sv_heap s" and ?j = "o_instrument (sv_heap s p)"
  have oi: "orders_inv s" and bi: "books_inv s" using ok by (simp_all add: svc_ok_def)
  note O = orders_invD [OF oi p(1)]
  obtain b where b: "sv_books s ?j = Some b" "p \<in> book_ptrs b" using O(5) p(2) by blast
  note B = books_invD [OF bi b(1)]
  obtain b1 where b1: "book_cancel ?h b i = Inr b1" "book_shape ?h b1" "book_ptrs b1 = book_ptrs b - {p}"
    "bk_instrument b1 = bk_instrument b"
    "queue (bk_bids b1) = remove1 p (queue (bk_bids b))" "queue (bk_asks b1) = remove1 p (queue (bk_asks b))"
    using book_cancel_shape [OF book_ok_shape [OF B(2)] b(2)] p(2) O(2) by (auto simp: live_def)
  let ?h' = "?h(p := (?h p)\<lparr>o_status := OrderStatusCancelled, o_updated_at := now\<rparr>)"
  let ?s' = "s\<lparr>sv_books := (sv_books s)(?j \<mapsto> b1), sv_heap := ?h'\<rparr>"
  have eq: "cancel_order now i s = (?s', Inr ())"
    using p b(1) b1(1) by (auto simp: cancel_order_def live_def book_for_instrument_def Let_def)
  have res: "resting ?h (o_side (?h p) = SideBuy) p" using book_ok_resting [OF B(2) b(2)] .
  have at1: "book_at ?h' (sv_orders s) ?j b1"
  proof (rule book_at_cong)
    have "book_ok ?h b1"
      using b1(2,3) book_ok_resting [OF B(2)] by (intro book_ok_shapeI) auto
    moreover have "uncrossed ?h b1"
      using B(3) b1(5,6) set_remove1_subset unfolding uncrossed_def by (metis subsetD)
    ultimately show "book_at ?h (sv_orders s) ?j b1" using B(1,4,5) b1(3,4) by (simp add: book_at_def)
  qed (use b1(3) in auto)
  have "book_at ?h' (sv_orders s) k b0" if k: "k \<noteq> ?j" "sv_books s k = Some b0" for k b0
  proof (rule book_at_cong)
    show "book_at ?h (sv_orders s) k b0" using bi k(2) by (simp add: books_inv_at)
    show "?h' q = ?h q \<and> sv_orders s (o_id (?h q)) = sv_orders s (o_id (?h q))" if "q \<in> book_ptrs b0" for q
      using svc_book_ptr(2) [OF ok k(2) that] k(1) by auto
  qed
  with at1 have "books_inv ?s'" by (auto simp: books_inv_at)
  moreover have "q < sv_next s \<and> o_id (?h' q) = k \<and> taker_ok ?h' q \<and>
        (o_status (?h' q) = OrderStatusFilled \<longleftrightarrow> o_filled (?h' q) = o_quantity (?h' q)) \<and>
        (live (?h' q) \<longrightarrow> (\<exists>b. ((sv_books s)(?j \<mapsto> b1)) (o_instrument (?h' q)) = Some b \<and> q \<in> book_ptrs b))" if kq: "sv_orders s k = Some q" for k q
  proof -
    note Q = orders_invD [OF oi kq]
    show ?thesis
    proof (cases "q = p")
      case True
      then show ?thesis using Q res by (simp add: live_def taker_ok_def resting_def)
    next
      case False
      have "\<exists>b. ((sv_books s)(?j \<mapsto> b1)) (o_instrument (?h q)) = Some b \<and> q \<in> book_ptrs b" if "live (?h q)"
      proof (cases "o_instrument (?h q) = ?j")
        case True
        then have "q \<in> book_ptrs b" using Q(5) [OF that] b(1) by simp
        then show ?thesis using b1(3) False True by simp
      next
        case other: False
        then show ?thesis using Q(5) [OF that] by simp
      qed
      then show ?thesis using Q(1-4) False by (simp add: taker_ok_def)
    qed
  qed
  then have "orders_inv ?s'" unfolding orders_inv_def by simp
  ultimately show ?thesis using eq by (simp add: svc_ok_def)
qed

section \<open>Histories\<close>

datatype svc_call = Place time "nat \<Rightarrow> time" place_order_request | Cancel time order_id

fun svc_step :: "svc_call \<Rightarrow> order_service \<Rightarrow> (order_service \<times> service_error option) option" where
  "svc_step (Place now clock req) s =
     map_option (\<lambda>(s', r). (s', case r of Inl e \<Rightarrow> Some e | Inr _ \<Rightarrow> None)) (place_order now clock req s)"
| "svc_step (Cancel now i) s =
     (let (s', r) = cancel_order now i s in Some (s', case r of Inl e \<Rightarrow> Some e | Inr _ \<Rightarrow> None))"

fun svc_run :: "svc_call list \<Rightarrow> order_service \<Rightarrow> (order_service \<times> service_error list) option" where
  "svc_run [] s = Some (s, [])"
| "svc_run (c # cs) s =
     Option.bind (svc_step c s) (\<lambda>(s1, e). map_option (\<lambda>(s2, es). (s2, case e of None \<Rightarrow> es | Some e \<Rightarrow> e # es))
       (svc_run cs s1))"

fun call_in_range :: "svc_call \<Rightarrow> bool" where
  "call_in_range (Place _ _ req) \<longleftrightarrow> rq_quantity req < 2 ^ 63"
| "call_in_range (Cancel _ _) \<longleftrightarrow> True"

definition domain_error :: "service_error \<Rightarrow> bool" where
  "domain_error e \<longleftrightarrow> (\<exists>d. e = Domain d)"

lemma svc_step_ok:
  assumes "svc_ok s" "call_in_range c"
  shows "\<exists>s' e. svc_step c s = Some (s', e) \<and> svc_ok s' \<and> (\<forall>x. e = Some x \<longrightarrow> domain_error x)"
proof (cases c)
  case (Place now clock req)
  obtain s' r where r: "place_order now clock req s = Some (s', r)" "svc_ok s'" "\<forall>e. r \<noteq> Inl (AddToBook e)"
    using place_order_ok [OF assms(1), of req now clock] assms(2) Place by auto
  have "domain_error x" if "r = Inl x" for x
    using that r(1,3) by (cases x) (auto simp: domain_error_def place_order_def Let_def split_beta
        Option.bind_eq_Some_conv split: if_splits sum.splits)
  then show ?thesis using r(1,2) Place by (auto split: sum.splits)
next
  case (Cancel now i)
  have "domain_error x" if "snd (cancel_order now i s) = Inl x" for x
    using that cancel_order_ok [OF assms(1), of now i]
    by (cases x) (auto simp: domain_error_def cancel_order_def Let_def split_beta split: option.splits if_splits sum.splits)
  then show ?thesis using cancel_order_ok [OF assms(1), of now i] Cancel by (auto simp: split_beta split: sum.splits)
qed

lemma svc_run_ok:
  assumes "svc_ok s" "list_all call_in_range cs"
  shows "\<exists>s' es. svc_run cs s = Some (s', es) \<and> svc_ok s' \<and> list_all domain_error es"
  using assms
proof (induction cs arbitrary: s)
  case (Cons c cs)
  obtain s1 e where 1: "svc_step c s = Some (s1, e)" "svc_ok s1" "\<forall>x. e = Some x \<longrightarrow> domain_error x"
    using svc_step_ok [OF Cons.prems(1), of c] Cons.prems(2) by auto
  obtain s' es where "svc_run cs s1 = Some (s', es)" "svc_ok s'" "list_all domain_error es"
    using Cons.IH [OF 1(2)] Cons.prems(2) by auto
  then show ?case using 1 by (auto split: option.splits)
qed simp

lemma book_index_live:
  assumes "svc_ok s" "sv_orders s i = Some p"
  shows "live (sv_heap s p) \<longleftrightarrow> (\<exists>b. sv_books s (o_instrument (sv_heap s p)) = Some b \<and> bk_index b i = Some p)"
proof -
  have oi: "orders_inv s" and bi: "books_inv s" using assms(1) by (simp_all add: svc_ok_def)
  note O = orders_invD [OF oi assms(2)]
  have ix: "bk_index b i = Some p \<longleftrightarrow> p \<in> book_ptrs b" if "sv_books s j = Some b" for j b
    using book_okD(5) [OF books_invD(2) [OF bi that], of i p] O(2) by simp
  have "live (sv_heap s p)" if "sv_books s j = Some b" "p \<in> book_ptrs b" for j b
    using book_ok_resting [OF books_invD(2) [OF bi that(1)] that(2)] by (simp add: live_def resting_def)
  then show ?thesis using O(5) ix by blast
qed

lemma uncrossed_best:
  assumes "book_ok h b" "uncrossed h b" "best_bid b = Some x" "best_ask b = Some y"
  shows "x < y"
proof -
  obtain pl pls ql qls where lv: "bk_bids b = pl # pls" "bk_asks b = ql # qls" "lv_price pl = x" "lv_price ql = y"
    using assms(3,4) by (cases "bk_bids b"; cases "bk_asks b") (auto simp: best_bid_def best_ask_def)
  have L: "levels_ok True h (pl # pls)" "levels_ok False h (ql # qls)"
    using book_okD(1,2) [OF assms(1)] lv by simp_all
  obtain p q where pq: "p \<in> set (lv_orders pl)" "q \<in> set (lv_orders ql)"
    using levels_ok_ConsD(2) [OF L(1)] levels_ok_ConsD(2) [OF L(2)] by (meson hd_in_set)
  then have "o_limit (h p) < o_limit (h q)" using assms(2) lv by (simp add: uncrossed_def)
  then show ?thesis
    using levels_ok_ConsD(3) [OF L(1) pq(1)] levels_ok_ConsD(3) [OF L(2) pq(2)] lv by simp
qed

lemma levels_sorted:
  assumes "book_ok h b"
  shows "sorted_wrt (\<lambda>x y. y < x) (map lv_price (bk_bids b))" "sorted_wrt (<) (map lv_price (bk_asks b))"
  using levels_okD(1) [OF book_okD(1) [OF assms]] levels_okD(1) [OF book_okD(2) [OF assms]]
  by (simp_all add: sorted_wrt_map lkey_def)

text \<open>
  C5. The order service is safe over every history of placements and cancellations: every call
  returns, and with no internal error, only with the documented rejections. In the state reached,
  bids are strictly descending and asks strictly ascending in price and the best bid is below the
  best ask in every book; every order has been filled between zero and its quantity, is marked
  filled exactly when it is filled completely, and is open or partially filled exactly when it
  rests in the book of its instrument.
\<close>

theorem order_service_safe:
  assumes "list_all call_in_range calls"
  shows "\<exists>s es. svc_run calls (order_service_new h) = Some (s, es) \<and> list_all domain_error es \<and>
    (\<forall>i b. sv_books s i = Some b \<longrightarrow>
       sorted_wrt (\<lambda>x y. y < x) (map lv_price (bk_bids b)) \<and> sorted_wrt (<) (map lv_price (bk_asks b)) \<and>
       (\<forall>x y. best_bid b = Some x \<longrightarrow> best_ask b = Some y \<longrightarrow> x < y)) \<and>
    (\<forall>i p. sv_orders s i = Some p \<longrightarrow>
       0 \<le> o_filled (sv_heap s p) \<and> o_filled (sv_heap s p) \<le> o_quantity (sv_heap s p) \<and>
       (o_status (sv_heap s p) = OrderStatusFilled \<longleftrightarrow> o_filled (sv_heap s p) = o_quantity (sv_heap s p)) \<and>
       (live (sv_heap s p) \<longleftrightarrow>
          (\<exists>b. sv_books s (o_instrument (sv_heap s p)) = Some b \<and> bk_index b i = Some p)))"
proof -
  obtain s es where run: "svc_run calls (order_service_new h) = Some (s, es)" "svc_ok s" "list_all domain_error es"
    using svc_run_ok [OF svc_ok_new assms] by blast
  have oi: "orders_inv s" and bi: "books_inv s" using run(2) by (simp_all add: svc_ok_def)
  have "sorted_wrt (\<lambda>x y. y < x) (map lv_price (bk_bids b)) \<and> sorted_wrt (<) (map lv_price (bk_asks b)) \<and>
       (\<forall>x y. best_bid b = Some x \<longrightarrow> best_ask b = Some y \<longrightarrow> x < y)" if "sv_books s i = Some b" for i b
    using levels_sorted uncrossed_best books_invD(2,3) [OF bi that] by blast
  moreover have "0 \<le> o_filled (sv_heap s p) \<and> o_filled (sv_heap s p) \<le> o_quantity (sv_heap s p) \<and>
       (o_status (sv_heap s p) = OrderStatusFilled \<longleftrightarrow> o_filled (sv_heap s p) = o_quantity (sv_heap s p)) \<and>
       (live (sv_heap s p) \<longleftrightarrow>
          (\<exists>b. sv_books s (o_instrument (sv_heap s p)) = Some b \<and> bk_index b i = Some p))"
    if "sv_orders s i = Some p" for i p
    using orders_invD(3,4) [OF oi that] book_index_live [OF run(2) that] by (simp add: taker_ok_def)
  ultimately show ?thesis using run(1,3) by blast
qed

definition ex_request :: "order_id \<Rightarrow> int \<Rightarrow> i64 \<Rightarrow> i64 \<Rightarrow> place_order_request" where
  "ex_request i side limit quantity =
     \<lparr>rq_id = i, rq_instrument = ''X'', rq_owner = i, rq_side = side, rq_limit = limit, rq_quantity = quantity\<rparr>"

theorem order_service_safe_witness:
  "\<exists>s es. svc_run [Place 1 (\<lambda>_. 1) (ex_request ''a'' SideSell 100 5), Place 2 (\<lambda>_. 2) (ex_request ''b'' SideBuy 101 7),
       Cancel 3 ''b''] (order_service_new (\<lambda>_. ex_order ''z'' 0 0 0)) = Some (s, es) \<and>
     list_all domain_error es"
  using order_service_safe [of "[Place 1 (\<lambda>_. 1) (ex_request ''a'' SideSell 100 5),
      Place 2 (\<lambda>_. 2) (ex_request ''b'' SideBuy 101 7), Cancel 3 ''b'']" "\<lambda>_. ex_order ''z'' 0 0 0"]
  by (auto simp: ex_request_def simp del: svc_run.simps)

end
