(* ===== verification/Blz_Positions.thy ===== *)
theory Blz_Positions
  imports Blz_Orders
begin

text \<open>
  Positions and settlement of the trading service: \<^verbatim>\<open>services/trading/internal/positions/service.go\<close>
  and \<^verbatim>\<open>services/trading/internal/settlement/settler.go\<close>.
\<close>

section \<open>Positions\<close>

record position =
  ps_id :: string
  ps_owner :: string
  ps_instrument :: instrument_id
  ps_quantity :: i64
  ps_average_cost :: i64
  ps_updated_at :: time

type_synonym position_key = "string \<times> instrument_id"

record position_service =
  pv_positions :: "position_key \<rightharpoonup> position"
  pv_pos_id :: i64

definition position_service_new :: position_service where
  "position_service_new = \<lparr>pv_positions = Map.empty, pv_pos_id = 0\<rparr>"

text \<open>Division of Go truncates towards zero.\<close>

definition go_div :: "int \<Rightarrow> int \<Rightarrow> int" where
  "go_div a b = sgn a * sgn b * (\<bar>a\<bar> div \<bar>b\<bar>)"

definition weighted_avg :: "i64 \<Rightarrow> i64 \<Rightarrow> i64 \<Rightarrow> i64 \<Rightarrow> i64" where
  "weighted_avg old_avg old_qty new_price new_qty =
     (let total = wrap_i64 (old_qty + new_qty)
      in if total = 0 then 0
         else wrap_i64 (go_div (wrap_i64 (wrap_i64 (old_avg * old_qty) + wrap_i64 (new_price * new_qty))) total))"

definition get_or_create ::
  "string \<Rightarrow> instrument_id \<Rightarrow> time \<Rightarrow> position_service \<Rightarrow> position_service \<times> position" where
  "get_or_create owner instrument now s =
     (case pv_positions s (owner, instrument) of
        Some p \<Rightarrow> (s, p)
      | None \<Rightarrow>
          let i = wrap_i64 (pv_pos_id s + 1);
              p = \<lparr>ps_id = ''pos-'' @ show_int i, ps_owner = owner, ps_instrument = instrument,
                   ps_quantity = 0, ps_average_cost = 0, ps_updated_at = now\<rparr>
          in (s\<lparr>pv_pos_id := i, pv_positions := (pv_positions s)((owner, instrument) \<mapsto> p)\<rparr>, p))"

definition apply_trade :: "time \<Rightarrow> trade \<Rightarrow> string \<Rightarrow> string \<Rightarrow> position_service \<Rightarrow> position_service" where
  "apply_trade now t buyer seller s =
     (let (s1, bp) = get_or_create buyer (t_instrument t) now s;
          bp' = bp\<lparr>ps_average_cost := weighted_avg (ps_average_cost bp) (ps_quantity bp) (t_price t) (t_quantity t),
                   ps_quantity := wrap_i64 (ps_quantity bp + t_quantity t), ps_updated_at := now\<rparr>;
          s2 = s1\<lparr>pv_positions := (pv_positions s1)((buyer, t_instrument t) \<mapsto> bp')\<rparr>;
          (s3, sp) = get_or_create seller (t_instrument t) now s2;
          sp' = sp\<lparr>ps_quantity := wrap_i64 (ps_quantity sp - t_quantity t), ps_updated_at := now\<rparr>
      in s3\<lparr>pv_positions := (pv_positions s3)((seller, t_instrument t) \<mapsto> sp')\<rparr>)"

definition get_position :: "string \<Rightarrow> instrument_id \<Rightarrow> position_service \<Rightarrow> (trading_error, position) result" where
  "get_position owner instrument s =
     (case pv_positions s (owner, instrument) of
        None \<Rightarrow> Inl (ErrPositionNotFound owner instrument) | Some p \<Rightarrow> Inr p)"

section \<open>Settlement\<close>

datatype settle_error = GetMaker order_id trading_error | GetTaker order_id trading_error

fun settle ::
  "(nat \<Rightarrow> time) \<Rightarrow> nat \<Rightarrow> order_service \<Rightarrow> trade list \<Rightarrow> position_service \<Rightarrow>
   position_service \<times> (settle_error, unit) result" where
  "settle clock k os [] s = (s, Inr ())"
| "settle clock k os (t # ts) s =
     (case get_order (t_maker t) os of
        Inl e \<Rightarrow> (s, Inl (GetMaker (t_maker t) e))
      | Inr maker \<Rightarrow>
      (case get_order (t_taker t) os of
        Inl e \<Rightarrow> (s, Inl (GetTaker (t_taker t) e))
      | Inr taker \<Rightarrow>
          let (buyer, seller) = (if o_side taker = SideBuy then (o_owner taker, o_owner maker)
                                 else (o_owner maker, o_owner taker))
          in settle clock (Suc k) os ts (apply_trade (clock k) t buyer seller s)))"

section \<open>Settlement is zero-sum\<close>

text \<open>The holding of an owner; an owner without a record holds nothing.\<close>

definition holding :: "position_service \<Rightarrow> string \<Rightarrow> instrument_id \<Rightarrow> i64" where
  "holding s owner i = (case pv_positions s (owner, i) of None \<Rightarrow> 0 | Some p \<Rightarrow> ps_quantity p)"

lemma get_or_create_holding:
  assumes "get_or_create owner i now s = (s', p)"
  shows "holding s' = holding s" "ps_quantity p = holding s owner i" "pv_positions s' (owner, i) = Some p"
  using assms by (auto simp: get_or_create_def holding_def fun_eq_iff Let_def split: option.splits if_splits)

lemma holding_update:
  "holding (s\<lparr>pv_positions := (pv_positions s)((owner, i) \<mapsto> p)\<rparr>) o' j =
     (if o' = owner \<and> j = i then ps_quantity p else holding s o' j)"
  by (auto simp: holding_def)

lemma apply_trade_holding:
  "holding (apply_trade now t buyer seller s) x j =
     (let bought = (if x = buyer \<and> j = t_instrument t then wrap_i64 (holding s x j + t_quantity t) else holding s x j)
      in if x = seller \<and> j = t_instrument t then wrap_i64 (bought - t_quantity t) else bought)"
proof -
  obtain s1 bp where 1: "get_or_create buyer (t_instrument t) now s = (s1, bp)" by fastforce
  define bp' where "bp' = bp\<lparr>ps_average_cost := weighted_avg (ps_average_cost bp) (ps_quantity bp) (t_price t) (t_quantity t),
                   ps_quantity := wrap_i64 (ps_quantity bp + t_quantity t), ps_updated_at := now\<rparr>"
  define s2 where "s2 = s1\<lparr>pv_positions := (pv_positions s1)((buyer, t_instrument t) \<mapsto> bp')\<rparr>"
  obtain s3 sp where 3: "get_or_create seller (t_instrument t) now s2 = (s3, sp)" by fastforce
  have "apply_trade now t buyer seller s =
      s3\<lparr>pv_positions := (pv_positions s3)((seller, t_instrument t) \<mapsto>
        sp\<lparr>ps_quantity := wrap_i64 (ps_quantity sp - t_quantity t), ps_updated_at := now\<rparr>)\<rparr>"
    using 1 3 by (simp add: apply_trade_def bp'_def s2_def Let_def)
  moreover have "holding s2 x j = (if x = buyer \<and> j = t_instrument t then wrap_i64 (holding s x j + t_quantity t) else holding s x j)" for x j
    using get_or_create_holding(1,2) [OF 1] by (auto simp: s2_def holding_update bp'_def)
  ultimately show ?thesis
    using get_or_create_holding(1,2) [OF 3] by (auto simp: holding_update Let_def)
qed

text \<open>Who bought and who sold in a trade, by the orders the service knows.\<close>

definition trade_buyer :: "order_service \<Rightarrow> trade \<Rightarrow> string option" where
  "trade_buyer os t =
     (case (sv_orders os (t_maker t), sv_orders os (t_taker t)) of
        (Some m, Some k) \<Rightarrow> Some (if o_side (sv_heap os k) = SideBuy then o_owner (sv_heap os k) else o_owner (sv_heap os m))
      | _ \<Rightarrow> None)"

definition trade_seller :: "order_service \<Rightarrow> trade \<Rightarrow> string option" where
  "trade_seller os t =
     (case (sv_orders os (t_maker t), sv_orders os (t_taker t)) of
        (Some m, Some k) \<Rightarrow> Some (if o_side (sv_heap os k) = SideBuy then o_owner (sv_heap os m) else o_owner (sv_heap os k))
      | _ \<Rightarrow> None)"

definition net_of :: "order_service \<Rightarrow> string \<Rightarrow> instrument_id \<Rightarrow> trade \<Rightarrow> int" where
  "net_of os x j t =
     (if t_instrument t = j
      then (if trade_buyer os t = Some x then t_quantity t else 0) - (if trade_seller os t = Some x then t_quantity t else 0)
      else 0)"

definition net :: "order_service \<Rightarrow> trade list \<Rightarrow> string \<Rightarrow> instrument_id \<Rightarrow> int" where
  "net os ts x j = (\<Sum>t \<leftarrow> ts. net_of os x j t)"

definition known :: "order_service \<Rightarrow> trade \<Rightarrow> bool" where
  "known os t \<longleftrightarrow> sv_orders os (t_maker t) \<noteq> None \<and> sv_orders os (t_taker t) \<noteq> None"

definition in_range :: "position_service \<Rightarrow> bool" where
  "in_range s \<longleftrightarrow> (\<forall>x j. in_i64 (holding s x j))"

lemma apply_trade_range: "in_range s \<Longrightarrow> in_range (apply_trade now t buyer seller s)"
  by (simp add: in_range_def apply_trade_holding Let_def)

lemma settle_known:
  assumes "list_all (known os) ts" "in_range s"
  shows "\<exists>s'. settle clock k os ts s = (s', Inr ()) \<and> in_range s' \<and>
    (\<forall>x j. holding s' x j = wrap_i64 (holding s x j + net os ts x j))"
  using assms
proof (induction ts arbitrary: k s)
  case Nil
  then show ?case by (simp add: net_def in_range_def)
next
  case (Cons t ts)
  obtain m q where mq: "sv_orders os (t_maker t) = Some m" "sv_orders os (t_taker t) = Some q"
    using Cons.prems(1) by (auto simp: known_def)
  obtain b where b: "trade_buyer os t = Some b" by (auto simp: trade_buyer_def mq)
  obtain c where c: "trade_seller os t = Some c" by (auto simp: trade_seller_def mq)
  let ?s1 = "apply_trade (clock k) t b c s"
  have step: "settle clock k os (t # ts) s = settle clock (Suc k) os ts ?s1"
    using b c by (auto simp: get_order_def mq trade_buyer_def trade_seller_def split: if_splits)
  obtain s' where s': "settle clock (Suc k) os ts ?s1 = (s', Inr ())" "in_range s'"
    "\<And>x j. holding s' x j = wrap_i64 (holding ?s1 x j + net os ts x j)"
    using Cons.IH [OF _ apply_trade_range [OF Cons.prems(2)], of "Suc k" "clock k" t b c] Cons.prems(1) by auto
  have one: "wrap_i64 (holding ?s1 x j + n) = wrap_i64 (holding s x j + net_of os x j t + n)" for x j n
    by (simp add: apply_trade_holding net_of_def b c Let_def wrap_i64_add wrap_i64_diff_add)
  show ?case
    unfolding step using s' one by (auto simp: net_def add.assoc)
qed

lemma net_sum_zero:
  assumes "finite A" "\<And>t. t \<in> set ts \<Longrightarrow> \<exists>b \<in> A. trade_buyer os t = Some b" "\<And>t. t \<in> set ts \<Longrightarrow> \<exists>c \<in> A. trade_seller os t = Some c"
  shows "(\<Sum>x \<in> A. net os ts x j) = 0"
  using assms(2,3)
proof (induction ts)
  case (Cons t ts)
  obtain b c where b: "b \<in> A" "trade_buyer os t = Some b" and c: "c \<in> A" "trade_seller os t = Some c"
    using Cons.prems(1,2) [of t] by auto
  have "(\<Sum>x \<in> A. net_of os x j t) = 0"
    using assms(1) b c by (cases "t_instrument t = j") (simp_all add: net_of_def sum_subtractf)
  moreover have "(\<Sum>x \<in> A. net os ts x j) = 0" using Cons by simp
  ultimately show ?case by (simp add: net_def sum.distrib)
qed (simp add: net_def)

lemma place_order_Inr:
  assumes "place_order now clock req s = Some (s', Inr r)"
  shows "0 < rq_quantity req" "0 < rq_limit req" "rq_side req = SideBuy \<or> rq_side req = SideSell"
    "sv_orders s (rq_id req) = None"
  using assms by - (rule ccontr, simp add: place_order_def split: if_splits)+

lemma placed_trades_known:
  assumes ok: "svc_ok s" and req: "rq_quantity req < 2 ^ 63"
    and place: "place_order now clock req s = Some (s', Inr (p, trades))"
  shows "list_all (known s') trades" "(\<Sum>t \<leftarrow> trades. t_quantity t) = o_filled (sv_heap s' p)"
proof -
  note V = place_order_Inr [OF place]
  let ?h = "(sv_heap s)(sv_next s := new_order now req)"
  obtain b fills b' where P: "sv_orders s' = (sv_orders s)(rq_id req \<mapsto> sv_next s)" "p = sv_next s"
    "placed ?h b (sv_next s) fills (sv_heap s') b'"
    "sv_books s (rq_instrument req) = Some b \<or> sv_books s (rq_instrument req) = None \<and> b = book_new (rq_instrument req)"
    "map trade_view trades = map (fill_view ?h (sv_next s)) fills"
    using place_order_accepts [OF ok V(1-3) req V(4), of now clock] place by auto
  have fill: "q \<in> book_ptrs b" if "(q, n) \<in> set fills" for q n using P(3) that by (auto simp: placed_def)
  have known: "sv_orders s' (o_id (?h q)) \<noteq> None" if "(q, n) \<in> set fills" for q n
  proof -
    have "sv_books s (rq_instrument req) = Some b" using P(4) fill [OF that] by auto
    note B = svc_book_ptr [OF ok this fill [OF that]]
    show ?thesis using B(1,3) P(1) by auto
  qed
  show "list_all (known s') trades"
    unfolding list_all_iff
  proof
    fix t
    assume "t \<in> set trades"
    then have "trade_view t \<in> set (map trade_view trades)" by simp
    then have "trade_view t \<in> set (map (fill_view ?h (sv_next s)) fills)" by (simp only: P(5))
    then obtain q n where "(q, n) \<in> set fills" "t_maker t = o_id (?h q)" "t_taker t = o_id (?h (sv_next s))" by auto
    then show "known s' t" using known P(1) by (auto simp: known_def new_order_def)
  qed
  have "map t_quantity trades = map snd fills"
    using arg_cong [OF P(5), of "map (\<lambda>(a, b, c, d). d)"] by (simp add: comp_def)
  moreover have "o_filled (sv_heap s' p) = sum_list (map snd fills)"
    using P(2,3) by (simp add: placed_def heap_filled_def new_order_def)
  ultimately show "(\<Sum>t \<leftarrow> trades. t_quantity t) = o_filled (sv_heap s' p)" by simp
qed

text \<open>
  C6. Settlement after placement is exact and zero-sum: in any state the order service reaches,
  the trades of a placement settle without an error; every owner's holding moves by exactly what
  the owner bought minus what the owner sold (modulo the wrap of \<^verbatim>\<open>int64\<close>), these movements
  cancel over all parties, and the quantities of the trades add up to what the new order reports
  as filled.
\<close>

theorem settlement_zero_sum:
  assumes "list_all call_in_range calls" "svc_run calls (order_service_new h) = Some (s, es)"
    and "rq_quantity req < 2 ^ 63" "place_order now clock req s = Some (s', Inr (p, trades))" "in_range ps"
  shows "\<exists>ps'. settle stamps 0 s' trades ps = (ps', Inr ()) \<and>
    (\<forall>x j. holding ps' x j = wrap_i64 (holding ps x j + net s' trades x j)) \<and>
    (\<forall>A j. finite A \<and> (\<forall>t \<in> set trades. trade_buyer s' t \<in> Some ` A \<and> trade_seller s' t \<in> Some ` A) \<longrightarrow>
       (\<Sum>x \<in> A. net s' trades x j) = 0) \<and>
    (\<Sum>t \<leftarrow> trades. t_quantity t) = o_filled (sv_heap s' p)"
proof -
  have ok: "svc_ok s" using svc_run_ok [OF svc_ok_new [of h] assms(1)] assms(2) by auto
  note K = placed_trades_known [OF ok assms(3,4)]
  obtain ps' where "settle stamps 0 s' trades ps = (ps', Inr ())"
    "\<forall>x j. holding ps' x j = wrap_i64 (holding ps x j + net s' trades x j)"
    using settle_known [OF K(1) assms(5), of stamps 0] by blast
  moreover have "(\<Sum>x \<in> A. net s' trades x j) = 0"
    if "finite A" "\<forall>t \<in> set trades. trade_buyer s' t \<in> Some ` A \<and> trade_seller s' t \<in> Some ` A" for A j
    using that by (intro net_sum_zero) auto
  ultimately show ?thesis using K(2) by blast
qed

theorem settlement_zero_sum_witness:
  "\<exists>s es s' p trades ps'.
     svc_run [Place 1 (\<lambda>_. 1) (ex_request ''a'' SideSell 100 5)] (order_service_new (\<lambda>_. ex_order ''z'' 0 0 0)) = Some (s, es) \<and>
     place_order 2 (\<lambda>_. 2) (ex_request ''b'' SideBuy 101 7) s = Some (s', Inr (p, trades)) \<and>
     settle (\<lambda>_. 3) 0 s' trades position_service_new = (ps', Inr ())"
proof -
  let ?c = "[Place 1 (\<lambda>_. 1) (ex_request ''a'' SideSell 100 5)]" and ?h = "\<lambda>_. ex_order ''z'' 0 0 0"
  have c: "list_all call_in_range ?c" by (simp add: ex_request_def)
  obtain s1 trades1 where 1: "place_order 1 (\<lambda>_. 1) (ex_request ''a'' SideSell 100 5) (order_service_new ?h) = Some (s1, Inr (0, trades1))"
    "svc_ok s1" "sv_orders s1 = [''a'' \<mapsto> 0]"
    using place_order_accepts [OF svc_ok_new, of "ex_request ''a'' SideSell 100 5" ?h 1 "\<lambda>_. 1"]
    by (auto simp: ex_request_def order_service_new_def)
  have run: "svc_run ?c (order_service_new ?h) = Some (s1, [])" using 1(1) by simp
  have r: "rq_quantity (ex_request ''b'' SideBuy 101 7) < 2 ^ 63" by (simp add: ex_request_def)
  obtain s' trades where 2: "place_order 2 (\<lambda>_. 2) (ex_request ''b'' SideBuy 101 7) s1 = Some (s', Inr (sv_next s1, trades))"
    using place_order_accepts [OF 1(2), of "ex_request ''b'' SideBuy 101 7" 2 "\<lambda>_. 2"] 1(3)
    by (auto simp: ex_request_def)
  have "in_range position_service_new" by (simp add: in_range_def holding_def position_service_new_def in_i64_def)
  from settlement_zero_sum [OF c run r 2 this, of "\<lambda>_. 3"]
  obtain ps' where "settle (\<lambda>_. 3) 0 s' trades position_service_new = (ps', Inr ())" by (elim exE conjE)
  then show ?thesis using run 2 by (intro exI conjI)
qed

section \<open>Average cost\<close>

text \<open>
  For a long position the new average lies between the old average and the trade price; for a
  short one, which the domain type calls unsupported but \<^verbatim>\<open>ApplyTrade\<close> produces, it need not.
\<close>

lemma weighted_avg_between:
  assumes "0 \<le> old_qty" "0 < new_qty" "0 \<le> old_avg" "0 \<le> new_price" "old_qty + new_qty < 2 ^ 63"
    and "old_avg * old_qty + new_price * new_qty < 2 ^ 63"
  shows "min old_avg new_price \<le> weighted_avg old_avg old_qty new_price new_qty"
    and "weighted_avg old_avg old_qty new_price new_qty \<le> max old_avg new_price"
proof -
  let ?n = "old_avg * old_qty + new_price * new_qty" and ?t = "old_qty + new_qty"
  have nn: "0 \<le> old_avg * old_qty" "0 \<le> new_price * new_qty" using assms by simp_all
  have lo: "min old_avg new_price * ?t \<le> ?n"
    using mult_right_mono [of "min old_avg new_price" old_avg old_qty]
      mult_right_mono [of "min old_avg new_price" new_price new_qty] assms(1,2) by (simp add: distrib_left add_mono)
  have hi: "?n \<le> max old_avg new_price * ?t"
    using mult_right_mono [of old_avg "max old_avg new_price" old_qty]
      mult_right_mono [of new_price "max old_avg new_price" new_qty] assms(1,2) by (simp add: distrib_left add_mono)
  have "0 \<le> ?n div ?t" "?n div ?t \<le> ?n" using nn assms(1,2) zdiv_mono2 [of ?n 1 ?t] by (simp_all add: pos_imp_zdiv_nonneg_iff)
  then have "in_i64 (?n div ?t)" using assms(6) by (simp add: in_i64_def)
  moreover have "in_i64 (old_avg * old_qty)" "in_i64 (new_price * new_qty)" "in_i64 ?n" "in_i64 ?t"
    using nn assms(1,2,5,6) unfolding in_i64_def by simp_all
  moreover have "go_div ?n ?t = ?n div ?t"
    using nn assms(1,2) by (cases "?n = 0") (simp_all add: go_div_def sgn_if)
  ultimately have eq: "weighted_avg old_avg old_qty new_price new_qty = ?n div ?t"
    using assms(1,2) by (simp add: weighted_avg_def Let_def)
  show "min old_avg new_price \<le> weighted_avg old_avg old_qty new_price new_qty"
    unfolding eq using zdiv_mono1 [OF lo, of ?t] assms(1,2) by simp
  show "weighted_avg old_avg old_qty new_price new_qty \<le> max old_avg new_price"
    unfolding eq using zdiv_mono1 [OF hi, of ?t] assms(1,2) by simp
qed

lemma short_position_average: "weighted_avg 100 (- 10) 110 5 = 90"
  by (simp add: weighted_avg_def go_div_def in_i64_def)

end
