(* ===== verification/Blz_Risk.thy ===== *)
theory Blz_Risk
  imports Blz_Decimal
begin

text \<open>
  The pre-trade risk engine (\<^verbatim>\<open>src/core/risk/src\<close>): limits, positions and the in-memory
  engine. Decimals are those of \<open>Blz_Decimal\<close>; the operators \<^verbatim>\<open>+\<close>, \<^verbatim>\<open>*\<close> and \<^verbatim>\<open>/\<close> of
  \<^verbatim>\<open>rust_decimal\<close> panic where the checked operations return nothing, so an operation that
  computes returns \<open>None\<close> for the panic. A \<^verbatim>\<open>DashMap\<close> iterates in an order the code does not
  fix: the order is the argument \<open>ks\<close>, a list of the keys.
\<close>

section \<open>Limits (limit.rs)\<close>

record 'd risk_limit =
  max_position_size :: "'d option"
  max_notional_per_instrument :: "'d option"
  max_total_notional :: "'d option"
  max_order_size :: "'d option"

definition risk_limit_new :: "'d option \<Rightarrow> 'd option \<Rightarrow> 'd option \<Rightarrow> 'd option \<Rightarrow> 'd risk_limit" where
  "risk_limit_new p n t q =
     \<lparr>max_position_size = p, max_notional_per_instrument = n, max_total_notional = t, max_order_size = q\<rparr>"

definition unlimited :: "'d risk_limit" where
  "unlimited = \<lparr>max_position_size = None, max_notional_per_instrument = None,
     max_total_notional = None, max_order_size = None\<rparr>"

definition retail :: "('d, 'c) externs \<Rightarrow> 'd risk_limit" where
  "retail X = \<lparr>max_position_size = Some (d_of_u64 X 1000), max_notional_per_instrument = Some (d_of_u64 X 50000),
     max_total_notional = Some (d_of_u64 X 200000), max_order_size = Some (d_of_u64 X 100)\<rparr>"

definition institutional :: "('d, 'c) externs \<Rightarrow> 'd risk_limit" where
  "institutional X =
     \<lparr>max_position_size = Some (d_of_u64 X 100000), max_notional_per_instrument = Some (d_of_u64 X 10000000),
      max_total_notional = Some (d_of_u64 X 50000000), max_order_size = Some (d_of_u64 X 10000)\<rparr>"

section \<open>Positions (position.rs)\<close>

record 'd risk_position =
  rp_instrument :: string
  rp_quantity :: 'd
  rp_notional :: 'd
  rp_avg_price :: 'd

definition position_zero :: "('d, 'c) externs \<Rightarrow> string \<Rightarrow> 'd risk_position" where
  "position_zero X i = \<lparr>rp_instrument = i, rp_quantity = d_zero X, rp_notional = d_zero X, rp_avg_price = d_zero X\<rparr>"

definition is_long :: "('d, 'c) externs \<Rightarrow> 'd risk_position \<Rightarrow> bool" where
  "is_long X p = d_lt X (d_zero X) (rp_quantity p)"

definition is_short :: "('d, 'c) externs \<Rightarrow> 'd risk_position \<Rightarrow> bool" where
  "is_short X p = d_lt X (rp_quantity p) (d_zero X)"

definition is_flat :: "('d, 'c) externs \<Rightarrow> 'd risk_position \<Rightarrow> bool" where
  "is_flat X p = (\<not> d_lt X (rp_quantity p) (d_zero X) \<and> \<not> d_lt X (d_zero X) (rp_quantity p))"

definition position_update :: "('d, 'c) externs \<Rightarrow> 'd risk_position \<Rightarrow> 'd \<Rightarrow> 'd \<Rightarrow> 'd risk_position option" where
  "position_update X p quantity_delta price =
     Option.bind (d_add X (rp_quantity p) quantity_delta) (\<lambda>new_quantity.
     Option.bind (d_mul X quantity_delta price) (\<lambda>trade_notional.
       if d_is_zero X new_quantity
       then Some (p\<lparr>rp_quantity := d_zero X, rp_notional := d_zero X, rp_avg_price := d_zero X\<rparr>)
       else if d_is_zero X (rp_quantity p) \<or>
               d_lt X (d_zero X) (rp_quantity p) = d_lt X (d_zero X) quantity_delta
       then Option.bind (d_add X (rp_notional p) trade_notional) (\<lambda>total_notional.
            Option.bind (if \<not> d_is_zero X new_quantity then d_div X total_notional new_quantity else Some (d_zero X))
              (\<lambda>avg. Some (p\<lparr>rp_quantity := new_quantity, rp_notional := total_notional, rp_avg_price := avg\<rparr>)))
       else Option.bind (d_mul X new_quantity (rp_avg_price p))
              (\<lambda>n. Some (p\<lparr>rp_quantity := new_quantity, rp_notional := n\<rparr>))))"

section \<open>The engine (engine.rs)\<close>

datatype 'd risk_error =
  OrderSizeLimitExceeded 'd 'd | PositionSizeLimitExceeded 'd 'd
| InstrumentNotionalLimitExceeded string 'd 'd | TotalNotionalLimitExceeded 'd 'd | AccountNotFound string

record 'd order_request =
  or_account :: string
  or_instrument :: string
  or_quantity :: 'd
  or_price :: 'd

definition order_notional :: "('d, 'c) externs \<Rightarrow> 'd order_request \<Rightarrow> 'd option" where
  "order_notional X r = d_mul X (d_abs X (or_quantity r)) (or_price r)"

record 'd risk_engine =
  re_limits :: "string \<rightharpoonup> 'd risk_limit"
  re_positions :: "string \<times> string \<rightharpoonup> 'd risk_position"

definition risk_engine_new :: "'d risk_engine" where
  "risk_engine_new = \<lparr>re_limits = Map.empty, re_positions = Map.empty\<rparr>"

definition register_account :: "string \<Rightarrow> 'd risk_limit \<Rightarrow> 'd risk_engine \<Rightarrow> 'd risk_engine" where
  "register_account a l s = s\<lparr>re_limits := (re_limits s)(a \<mapsto> l)\<rparr>"

definition risk_get_position :: "'d risk_engine \<Rightarrow> string \<Rightarrow> string \<Rightarrow> 'd risk_position option" where
  "risk_get_position s a i = re_positions s (a, i)"

definition get_account_positions :: "(string \<times> string) list \<Rightarrow> 'd risk_engine \<Rightarrow> string \<Rightarrow> 'd risk_position list" where
  "get_account_positions ks s a = List.map_filter (re_positions s) (filter (\<lambda>k. fst k = a) ks)"

fun decimal_sum :: "('d, 'c) externs \<Rightarrow> 'd \<Rightarrow> 'd list \<Rightarrow> 'd option" where
  "decimal_sum X acc [] = Some acc"
| "decimal_sum X acc (x # xs) = Option.bind (d_add X acc x) (\<lambda>acc'. decimal_sum X acc' xs)"

definition get_total_notional ::
  "('d, 'c) externs \<Rightarrow> (string \<times> string) list \<Rightarrow> 'd risk_engine \<Rightarrow> string \<Rightarrow> 'd option" where
  "get_total_notional X ks s a =
     decimal_sum X (d_zero X) (map (\<lambda>p. d_abs X (rp_notional p)) (get_account_positions ks s a))"

text \<open>The four checks, each skipped when its limit is not set; the outer option is the panic.\<close>

definition check_limit :: "'d option \<Rightarrow> ('d \<Rightarrow> ('e + unit) option) \<Rightarrow> (unit \<Rightarrow> ('e + unit) option) \<Rightarrow> ('e + unit) option" where
  "check_limit m check rest =
     (case m of None \<Rightarrow> rest ()
      | Some x \<Rightarrow> Option.bind (check x) (\<lambda>r. case r of Inl e \<Rightarrow> Some (Inl e) | Inr _ \<Rightarrow> rest ()))"

definition check_order ::
  "('d, 'c) externs \<Rightarrow> (string \<times> string) list \<Rightarrow> 'd risk_engine \<Rightarrow> 'd order_request \<Rightarrow> ('d risk_error, unit) result option" where
  "check_order X ks s r =
     (case re_limits s (or_account r) of
        None \<Rightarrow> Some (Inl (AccountNotFound (or_account r)))
      | Some limit \<Rightarrow>
          check_limit (max_order_size limit) (\<lambda>m.
            let order_size = d_abs X (or_quantity r)
            in Some (if d_lt X m order_size then Inl (OrderSizeLimitExceeded order_size m) else Inr ())) (\<lambda>_.
          let current = re_positions s (or_account r, or_instrument r);
              current_quantity = (case current of None \<Rightarrow> d_zero X | Some p \<Rightarrow> rp_quantity p);
              current_notional = (case current of None \<Rightarrow> d_zero X | Some p \<Rightarrow> rp_notional p)
          in check_limit (max_position_size limit) (\<lambda>m.
               Option.bind (d_add X current_quantity (or_quantity r)) (\<lambda>new_quantity.
                 let new_size = d_abs X new_quantity
                 in Some (if d_lt X m new_size then Inl (PositionSizeLimitExceeded new_size m) else Inr ()))) (\<lambda>_.
             check_limit (max_notional_per_instrument limit) (\<lambda>m.
               Option.bind (d_mul X (or_quantity r) (or_price r)) (\<lambda>order_notional.
               Option.bind (d_add X current_notional order_notional) (\<lambda>t.
                 let new_notional = d_abs X t
                 in Some (if d_lt X m new_notional
                          then Inl (InstrumentNotionalLimitExceeded (or_instrument r) new_notional m) else Inr ())))) (\<lambda>_.
             check_limit (max_total_notional limit) (\<lambda>m.
               Option.bind (get_total_notional X ks s (or_account r)) (\<lambda>current_total.
               Option.bind (d_mul X (or_quantity r) (or_price r)) (\<lambda>order_notional.
               Option.bind (d_add X current_total order_notional) (\<lambda>t.
                 let new_total = d_abs X t
                 in Some (if d_lt X m new_total then Inl (TotalNotionalLimitExceeded new_total m) else Inr ()))))) (\<lambda>_.
             Some (Inr ()))))))"

definition update_position :: "('d, 'c) externs \<Rightarrow> 'd risk_engine \<Rightarrow> 'd order_request \<Rightarrow> 'd risk_engine option" where
  "update_position X s r =
     (let key = (or_account r, or_instrument r);
          pos = (case re_positions s key of None \<Rightarrow> position_zero X (or_instrument r) | Some p \<Rightarrow> p)
      in Option.bind (position_update X pos (or_quantity r) (or_price r))
           (\<lambda>p. Some (s\<lparr>re_positions := (re_positions s)(key \<mapsto> p)\<rparr>)))"

section \<open>What an accepted order guarantees\<close>

text \<open>The position an order meets, flat when there is none.\<close>

definition current_position :: "('d, 'c) externs \<Rightarrow> 'd risk_engine \<Rightarrow> 'd order_request \<Rightarrow> 'd risk_position" where
  "current_position X s r =
     (case re_positions s (or_account r, or_instrument r) of None \<Rightarrow> position_zero X (or_instrument r) | Some p \<Rightarrow> p)"

definition limit_ok :: "('d \<Rightarrow> rat) \<Rightarrow> 'd option \<Rightarrow> 'd \<Rightarrow> bool" where
  "limit_ok val m v = (case m of None \<Rightarrow> True | Some x \<Rightarrow> \<bar>val v\<bar> \<le> val x)"

lemma check_limit_Inr:
  "check_limit m check rest = Some (Inr ()) \<longleftrightarrow>
     (case m of None \<Rightarrow> rest () = Some (Inr ()) | Some x \<Rightarrow> check x = Some (Inr ()) \<and> rest () = Some (Inr ()))"
proof (cases m)
  case (Some x)
  then show ?thesis by (cases "check x"; cases "the (check x)") (auto simp: check_limit_def)
qed (simp add: check_limit_def)

lemma check_order_Inr:
  assumes "check_order X ks s r = Some (Inr ())"
  obtains l where "re_limits s (or_account r) = Some l"
    "\<And>m. max_order_size l = Some m \<Longrightarrow> \<not> d_lt X m (d_abs X (or_quantity r))"
    "\<And>m. max_position_size l = Some m \<Longrightarrow>
       \<exists>q. d_add X (rp_quantity (current_position X s r)) (or_quantity r) = Some q \<and> \<not> d_lt X m (d_abs X q)"
    "\<And>m. max_notional_per_instrument l = Some m \<Longrightarrow>
       \<exists>n t. d_mul X (or_quantity r) (or_price r) = Some n \<and>
             d_add X (rp_notional (current_position X s r)) n = Some t \<and> \<not> d_lt X m (d_abs X t)"
    "\<And>m. max_total_notional l = Some m \<Longrightarrow>
       \<exists>c n t. get_total_notional X ks s (or_account r) = Some c \<and> d_mul X (or_quantity r) (or_price r) = Some n \<and>
             d_add X c n = Some t \<and> \<not> d_lt X m (d_abs X t)"
proof -
  from assms obtain l where l: "re_limits s (or_account r) = Some l"
    by (auto simp: check_order_def split: option.splits)
  note A = assms [unfolded check_order_def l option.case Let_def check_limit_Inr]
  have cq: "(case re_positions s (or_account r, or_instrument r) of None \<Rightarrow> d_zero X | Some p \<Rightarrow> rp_quantity p) =
      rp_quantity (current_position X s r)"
    and cn: "(case re_positions s (or_account r, or_instrument r) of None \<Rightarrow> d_zero X | Some p \<Rightarrow> rp_notional p) =
      rp_notional (current_position X s r)"
    by (simp_all add: current_position_def position_zero_def split: option.split)
  show thesis
    using A [unfolded cq cn] by (intro that [OF l]) (auto simp: bind_eq_Some_conv split: option.splits if_splits)
qed

lemma position_update_quantity:
  assumes "dec_order X val" "position_update X p q price = Some p'"
  obtains c where "d_add X (rp_quantity p) q = Some c" "val (rp_quantity p') = val c"
  using assms
  by (auto simp: position_update_def bind_eq_Some_conv dec_order_def split: if_splits)

definition reduces :: "('d, 'c) externs \<Rightarrow> 'd risk_position \<Rightarrow> 'd order_request \<Rightarrow> bool" where
  "reduces X p r \<longleftrightarrow> \<not> d_is_zero X (rp_quantity p) \<and>
     d_lt X (d_zero X) (rp_quantity p) \<noteq> d_lt X (d_zero X) (or_quantity r)"

lemma position_update_notional:
  assumes "dec_order X val" "position_update X p (or_quantity r) (or_price r) = Some p'" "\<not> reduces X p r"
  shows "val (rp_notional p') = 0 \<or>
    (\<exists>n t. d_mul X (or_quantity r) (or_price r) = Some n \<and> d_add X (rp_notional p) n = Some t \<and> rp_notional p' = t)"
  using assms
  by (auto simp: position_update_def bind_eq_Some_conv dec_order_def reduces_def split: if_splits)

text \<open>One accepted and executed order.\<close>

lemma accepted_order_within:
  assumes D: "dec_order X val" and C: "check_order X ks s r = Some (Inr ())" and U: "update_position X s r = Some s'"
  obtains l p' where "re_limits s (or_account r) = Some l" "re_limits s' = re_limits s"
    "re_positions s' = (re_positions s)((or_account r, or_instrument r) \<mapsto> p')"
    "limit_ok val (max_order_size l) (or_quantity r)" "limit_ok val (max_position_size l) (rp_quantity p')"
    "reduces X (current_position X s r) r \<or> limit_ok val (max_notional_per_instrument l) (rp_notional p')"
proof -
  obtain l where l: "re_limits s (or_account r) = Some l"
    "\<And>m. max_order_size l = Some m \<Longrightarrow> \<not> d_lt X m (d_abs X (or_quantity r))"
    "\<And>m. max_position_size l = Some m \<Longrightarrow>
       \<exists>q. d_add X (rp_quantity (current_position X s r)) (or_quantity r) = Some q \<and> \<not> d_lt X m (d_abs X q)"
    "\<And>m. max_notional_per_instrument l = Some m \<Longrightarrow>
       \<exists>n t. d_mul X (or_quantity r) (or_price r) = Some n \<and>
             d_add X (rp_notional (current_position X s r)) n = Some t \<and> \<not> d_lt X m (d_abs X t)"
    by (rule check_order_Inr [OF C]) blast
  obtain p' where p': "position_update X (current_position X s r) (or_quantity r) (or_price r) = Some p'"
    "s' = s\<lparr>re_positions := (re_positions s)((or_account r, or_instrument r) \<mapsto> p')\<rparr>"
    using U by (auto simp: update_position_def current_position_def Let_def bind_eq_Some_conv)
  have lt: "d_lt X a (d_abs X b) \<longleftrightarrow> val a < \<bar>val b\<bar>" for a b using D by (simp add: dec_order_def)
  have "limit_ok val (max_order_size l) (or_quantity r)"
    using l(2) by (auto simp: limit_ok_def lt not_less split: option.split)
  moreover have "limit_ok val (max_position_size l) (rp_quantity p')"
    using l(3) position_update_quantity [OF D p'(1)] by (fastforce simp: limit_ok_def lt not_less split: option.split)
  moreover have "reduces X (current_position X s r) r \<or> limit_ok val (max_notional_per_instrument l) (rp_notional p')"
  proof (cases "max_notional_per_instrument l")
    case (Some m)
    then obtain n t where "d_mul X (or_quantity r) (or_price r) = Some n"
      "d_add X (rp_notional (current_position X s r)) n = Some t" "\<bar>val t\<bar> \<le> val m"
      using l(4) by (auto simp: lt not_less)
    moreover from this(3) have "0 \<le> val m" by simp
    ultimately show ?thesis using position_update_notional [OF D p'(1)] Some
      by (cases "reduces X (current_position X s r) r") (auto simp: limit_ok_def)
  qed (simp add: limit_ok_def)
  ultimately show thesis using l(1) p'(2) by (intro that) auto
qed

section \<open>Runs of checked orders\<close>

text \<open>
  Orders one after the other, each executed when its check passes, as the crate's documentation
  prescribes; every check may see the positions in its own order \<open>ks\<close>.
\<close>

fun risk_run :: "('d, 'c) externs \<Rightarrow> ((string \<times> string) list \<times> 'd order_request) list \<Rightarrow> 'd risk_engine \<Rightarrow> 'd risk_engine option" where
  "risk_run X [] s = Some s"
| "risk_run X ((ks, r) # rs) s =
     Option.bind (check_order X ks s r) (\<lambda>res. case res of
       Inl _ \<Rightarrow> risk_run X rs s
     | Inr _ \<Rightarrow> Option.bind (update_position X s r) (risk_run X rs))"

text \<open>No executed order for the account and instrument \<open>k\<close> reduces its position.\<close>

fun never_reduced :: "('d, 'c) externs \<Rightarrow> string \<times> string \<Rightarrow> ((string \<times> string) list \<times> 'd order_request) list \<Rightarrow> 'd risk_engine \<Rightarrow> bool" where
  "never_reduced X k [] s = True"
| "never_reduced X k ((ks, r) # rs) s =
     (if check_order X ks s r = Some (Inr ())
      then ((or_account r, or_instrument r) = k \<longrightarrow> \<not> reduces X (current_position X s r) r) \<and>
           (case update_position X s r of None \<Rightarrow> True | Some s' \<Rightarrow> never_reduced X k rs s')
      else never_reduced X k rs s)"

lemma risk_run_induct [consumes 1, case_names Nil Skip Exec]:
  assumes "risk_run X rs s = Some s'"
    and "\<And>s. s' = s \<Longrightarrow> P [] s"
    and "\<And>ks r rs s e. check_order X ks s r = Some (Inl e) \<Longrightarrow> risk_run X rs s = Some s' \<Longrightarrow> P rs s \<Longrightarrow> P ((ks, r) # rs) s"
    and "\<And>ks r rs s s1. check_order X ks s r = Some (Inr ()) \<Longrightarrow> update_position X s r = Some s1 \<Longrightarrow>
      risk_run X rs s1 = Some s' \<Longrightarrow> P rs s1 \<Longrightarrow> P ((ks, r) # rs) s"
  shows "P rs s"
  using assms(1)
proof (induction rs arbitrary: s)
  case (Cons c rs)
  obtain ks r where c: "c = (ks, r)" by fastforce
  from Cons.prems obtain res where res: "check_order X ks s r = Some res" by (auto simp: c bind_eq_Some_conv)
  show ?case
  proof (cases res)
    case (Inl e)
    then show ?thesis using Cons res assms(3) [of ks s r e rs] by (simp add: c)
  next
    case (Inr u)
    then obtain s1 where "update_position X s r = Some s1" "risk_run X rs s1 = Some s'"
      using Cons.prems res by (auto simp: c bind_eq_Some_conv)
    then show ?thesis using Cons.IH [of s1] res Inr assms(4) [of ks s r s1 rs] by (simp add: c)
  qed
qed (simp add: assms(2))

definition engine_ok :: "('d, 'c) externs \<Rightarrow> ('d \<Rightarrow> rat) \<Rightarrow> string \<times> string \<Rightarrow> bool \<Rightarrow> 'd risk_engine \<Rightarrow> bool" where
  "engine_ok X val k op s \<longleftrightarrow> (\<forall>p l. re_positions s k = Some p \<longrightarrow> re_limits s (fst k) = Some l \<longrightarrow>
     limit_ok val (max_position_size l) (rp_quantity p) \<and>
     (op \<longrightarrow> limit_ok val (max_notional_per_instrument l) (rp_notional p)))"

lemma risk_run_ok:
  assumes "risk_run X rs s = Some s'" "dec_order X val" "engine_ok X val k op s" "op \<longrightarrow> never_reduced X k rs s"
  shows "engine_ok X val k op s' \<and> re_limits s' = re_limits s"
  using assms
proof (induction rule: risk_run_induct)
  case (Exec ks r rs s s1)
  obtain l p' where E: "re_limits s (or_account r) = Some l" "re_limits s1 = re_limits s"
    "re_positions s1 = (re_positions s)((or_account r, or_instrument r) \<mapsto> p')"
    "limit_ok val (max_order_size l) (or_quantity r)" "limit_ok val (max_position_size l) (rp_quantity p')"
    "reduces X (current_position X s r) r \<or> limit_ok val (max_notional_per_instrument l) (rp_notional p')"
    by (rule accepted_order_within [OF Exec.prems(1) Exec.hyps(1,2)])
  have "engine_ok X val k op s1"
    using Exec.prems(2,3) Exec.hyps(1,2) E by (auto simp: engine_ok_def)
  moreover have "op \<longrightarrow> never_reduced X k rs s1" using Exec.prems(3) Exec.hyps(1,2) by simp
  ultimately show ?case using Exec.IH Exec.prems(1) E(2) by simp
qed simp_all

text \<open>
  C7. Risk limits are enforced: from an engine without positions, after any sequence of orders of
  which each is executed exactly when its check passes, the size of every position is within the
  position limit of its account; and where no executed order reduced the position, its notional
  value is within the limit per instrument. No bound on rounding is needed: check and update do the
  same computation.
\<close>

theorem risk_limits_enforced:
  assumes "dec_order X val" "re_positions s0 = Map.empty" "risk_run X rs s0 = Some s"
    and "re_limits s a = Some l" "re_positions s (a, i) = Some p"
  shows "limit_ok val (max_position_size l) (rp_quantity p) \<and>
    (never_reduced X (a, i) rs s0 \<longrightarrow> limit_ok val (max_notional_per_instrument l) (rp_notional p))"
proof -
  have "engine_ok X val (a, i) False s0" "engine_ok X val (a, i) True s0" using assms(2) by (simp_all add: engine_ok_def)
  from risk_run_ok [OF assms(3,1) this(1)] risk_run_ok [OF assms(3,1) this(2)] assms(4,5)
  show ?thesis by (auto simp: engine_ok_def)
qed

definition ex_risk_order :: "string \<Rightarrow> int \<Rightarrow> int \<Rightarrow> refdec order_request" where
  "ex_risk_order i q p = \<lparr>or_account = ''alice'', or_instrument = i, or_quantity = RD q 0, or_price = RD p 0\<rparr>"

definition ex_risk_engine :: "int \<Rightarrow> refdec risk_engine" where
  "ex_risk_engine m = register_account ''alice''
     (risk_limit_new (Some (RD 100 0)) (Some (RD m 0)) (Some (RD m 0)) None) risk_engine_new"

definition ex_risk_run :: "refdec order_request list \<Rightarrow> refdec risk_engine \<Rightarrow> refdec risk_engine option" where
  "ex_risk_run rs s = risk_run ref_externs (map (\<lambda>r. ([(''alice'', ''A''), (''alice'', ''B'')], r)) rs) s"

definition ex_risk_state :: "refdec risk_engine option" where
  "ex_risk_state = ex_risk_run [ex_risk_order ''A'' 60 10, ex_risk_order ''A'' 50 10, ex_risk_order ''A'' 40 10] (ex_risk_engine 1000)"

theorem risk_limits_enforced_witness:
  "\<exists>s p. ex_risk_state = Some s \<and> re_positions s (''alice'', ''A'') = Some p \<and>
     limit_ok rd_val (Some (RD 100 0)) (rp_quantity p) \<and> limit_ok rd_val (Some (RD 1000 0)) (rp_notional p)"
proof -
  let ?rs = "map (\<lambda>r. ([(''alice'', ''A''), (''alice'', ''B'')], r)) [ex_risk_order ''A'' 60 10, ex_risk_order ''A'' 50 10, ex_risk_order ''A'' 40 10]"
  have e: "re_positions (ex_risk_engine 1000) = Map.empty"
    by (simp add: ex_risk_engine_def register_account_def risk_engine_new_def)
  have "case ex_risk_state of None \<Rightarrow> False | Some s \<Rightarrow> re_positions s (''alice'', ''A'') \<noteq> None \<and>
      re_limits s ''alice'' = Some (risk_limit_new (Some (RD 100 0)) (Some (RD 1000 0)) (Some (RD 1000 0)) None)"
    by code_simp
  then obtain s p where s: "risk_run ref_externs ?rs (ex_risk_engine 1000) = Some s" "re_positions s (''alice'', ''A'') = Some p"
    "re_limits s ''alice'' = Some (risk_limit_new (Some (RD 100 0)) (Some (RD 1000 0)) (Some (RD 1000 0)) None)"
    by (auto simp: ex_risk_state_def ex_risk_run_def split: option.splits)
  have "never_reduced ref_externs (''alice'', ''A'') ?rs (ex_risk_engine 1000)" by code_simp
  with risk_limits_enforced [OF ref_dec_order e s(1,3,2)] s(1,2) show ?thesis
    by (simp add: ex_risk_state_def ex_risk_run_def risk_limit_new_def)
qed

section \<open>Where the checks and the update disagree\<close>

text \<open>
  The total check adds the signed value of the order to the sum of absolute values, so a second
  short sale in another instrument lowers the total it sees: the account ends at twice its limit.
\<close>

lemma total_limit_bypassed_by_shorts:
  "(case ex_risk_run [ex_risk_order ''A'' (- 100) 10, ex_risk_order ''B'' (- 100) 10] (ex_risk_engine 1000) of
      None \<Rightarrow> False
    | Some s \<Rightarrow> get_total_notional ref_externs [(''alice'', ''A''), (''alice'', ''B'')] s ''alice'' = Some (RD 2000 0))"
  by code_simp

text \<open>
  An order that turns a long position into a short one is checked at its own price but recorded at
  the old average price, so the recorded value can exceed the limit per instrument.
\<close>

lemma instrument_limit_bypassed_by_flip:
  "(case ex_risk_run [ex_risk_order ''A'' 10 100, ex_risk_order ''A'' (- 100) 1] (ex_risk_engine 1000) of
      None \<Rightarrow> False
    | Some s \<Rightarrow> map_option rp_notional (re_positions s (''alice'', ''A'')) = Some (RD (- 9000) 0))"
  by code_simp

end
