(* ===== verification/Blz_Transport.thy ===== *)
theory Blz_Transport
  imports Blz_Pipeline Blz_Handlers
begin

text \<open>
  The TCP front end: the wire protocol (\<^verbatim>\<open>core/transport/src/protocol.rs\<close>), the connection loop
  that turns frames into events, publishes them and answers (\<^verbatim>\<open>connection.rs\<close>), and the accept
  loop with its connection cap (\<^verbatim>\<open>tcp.rs\<close>).

  A socket is the bytes its peer will still send before it closes, the bytes written so far and
  how many more the peer takes. MessagePack (\<^verbatim>\<open>rmp_serde\<close>) is not part of the repository: its four
  uses are the fields of a record. What other threads do between two steps of a connection is
  given by arguments indexed by the number of the request: the ring before the publication, and
  the snapshots of the result map that the poll sees before its deadline.
\<close>

section \<open>Protocol (protocol.rs)\<close>

definition MAX_FRAME_SIZE :: nat where "MAX_FRAME_SIZE = 1048576"

record transaction_request =
  tq_request_id :: string
  tq_debit_account_id :: string
  tq_credit_account_id :: string
  tq_amount :: string
  tq_currency :: string
  tq_ledger_id :: u32
  tq_code :: u16
  tq_flags :: u8
  tq_pending_transfer_id :: string

record transaction_response =
  ts_request_id :: string
  ts_committed :: bool
  ts_transfer_id :: "string option"
  ts_error :: "string option"
  ts_timestamp_ns :: u64

record rmp =
  rmp_request_to_vec :: "transaction_request \<Rightarrow> (string, u8 list) result"
  rmp_request_from_slice :: "u8 list \<Rightarrow> (string, transaction_request) result"
  rmp_response_to_vec :: "transaction_response \<Rightarrow> (string, u8 list) result"
  rmp_response_from_slice :: "u8 list \<Rightarrow> (string, transaction_response) result"

record tcp_stream =
  st_in :: "u8 list"
  st_out :: "u8 list"
  st_room :: "nat option"

definition frame_encode :: "u8 list \<Rightarrow> u8 list" where
  "frame_encode payload = to_be_bytes 4 (length payload mod 2 ^ 32) @ payload"

definition read_exact :: "nat \<Rightarrow> tcp_stream \<Rightarrow> (string, u8 list) result \<times> tcp_stream" where
  "read_exact n s =
     (if n \<le> length (st_in s) then (Inr (take n (st_in s)), s\<lparr>st_in := drop n (st_in s)\<rparr>)
      else (Inl ''early eof'', s\<lparr>st_in := []\<rparr>))"

definition write_all :: "u8 list \<Rightarrow> tcp_stream \<Rightarrow> (string, unit) result \<times> tcp_stream" where
  "write_all bs s =
     (case st_room s of
        None \<Rightarrow> (Inr (), s\<lparr>st_out := st_out s @ bs\<rparr>)
      | Some n \<Rightarrow> (if length bs \<le> n then Inr () else Inl ''broken pipe'',
                  s\<lparr>st_out := st_out s @ take n bs, st_room := Some (n - length bs)\<rparr>))"

definition read_frame :: "tcp_stream \<Rightarrow> u8 list blazer_result \<times> tcp_stream" where
  "read_frame s =
     (case read_exact 4 s of
        (Inl e, s1) \<Rightarrow> (Inl (Transport (''failed to read frame header: '' @ e)), s1)
      | (Inr len_buf, s1) \<Rightarrow>
          let len = from_be_bytes len_buf
          in if len > MAX_FRAME_SIZE
             then (Inl (Transport (''frame size '' @ show_nat len @ '' exceeds maximum '' @ show_nat MAX_FRAME_SIZE)), s1)
             else (case read_exact len s1 of
                     (Inl e, s2) \<Rightarrow> (Inl (Transport (''failed to read frame payload: '' @ e)), s2)
                   | (Inr payload, s2) \<Rightarrow> (Inr payload, s2)))"

definition write_frame :: "tcp_stream \<Rightarrow> u8 list \<Rightarrow> unit blazer_result \<times> tcp_stream" where
  "write_frame s payload =
     (case write_all (frame_encode payload) s of
        (Inl e, s1) \<Rightarrow> (Inl (Transport (''failed to write frame: '' @ e)), s1)
      | (Inr _, s1) \<Rightarrow> (Inr (), s1))"

definition serialize_request :: "rmp \<Rightarrow> transaction_request \<Rightarrow> u8 list blazer_result" where
  "serialize_request M req =
     map_err (\<lambda>e. Transport (''request serialization failed: '' @ e)) (rmp_request_to_vec M req)"

definition deserialize_request :: "rmp \<Rightarrow> u8 list \<Rightarrow> transaction_request blazer_result" where
  "deserialize_request M bs =
     map_err (\<lambda>e. Transport (''request deserialization failed: '' @ e)) (rmp_request_from_slice M bs)"

definition serialize_response :: "rmp \<Rightarrow> transaction_response \<Rightarrow> u8 list blazer_result" where
  "serialize_response M resp =
     map_err (\<lambda>e. Transport (''response serialization failed: '' @ e)) (rmp_response_to_vec M resp)"

definition deserialize_response :: "rmp \<Rightarrow> u8 list \<Rightarrow> transaction_response blazer_result" where
  "deserialize_response M bs =
     map_err (\<lambda>e. Transport (''response deserialization failed: '' @ e)) (rmp_response_from_slice M bs)"

definition BLZL_MAGIC :: "u8 list" where "BLZL_MAGIC = [0x42, 0x4C, 0x5A, 0x4C]"

definition encode_blzl_frame :: "rmp \<Rightarrow> transaction_request \<Rightarrow> u8 list blazer_result" where
  "encode_blzl_frame M req = and_then (serialize_request M req) (\<lambda>payload. Inr (BLZL_MAGIC @ payload))"

section \<open>From a request to an event (connection.rs)\<close>

definition or_else :: "('e, 'a) result \<Rightarrow> ('e, 'a) result \<Rightarrow> ('e, 'a) result" where
  "or_else r alt = (case r of Inl _ \<Rightarrow> alt | Inr x \<Rightarrow> Inr x)"

definition unwrap_or :: "('e, 'a) result \<Rightarrow> 'a \<Rightarrow> 'a" where
  "unwrap_or r dflt = (case r of Inl _ \<Rightarrow> dflt | Inr x \<Rightarrow> x)"

definition build_event ::
  "('d, 'c) externs \<Rightarrow> (string \<Rightarrow> uuid_bytes option) \<Rightarrow> timestamp \<Rightarrow> uuid_bytes \<Rightarrow> transaction_request \<Rightarrow>
   transaction_event blazer_result" where
  "build_event X uuid_parse now v4 req =
     and_then (map_err (\<lambda>_. ValidationError (''invalid debit_account_id: '' @ tq_debit_account_id req))
                 (id64_from_str uuid_parse (tq_debit_account_id req))) (\<lambda>debit.
     and_then (map_err (\<lambda>_. ValidationError (''invalid credit_account_id: '' @ tq_credit_account_id req))
                 (id64_from_str uuid_parse (tq_credit_account_id req))) (\<lambda>credit.
     and_then (ledger_id_new (tq_ledger_id req)) (\<lambda>ledger.
     and_then (ok_or (ValidationError (''invalid amount: '' @ tq_amount req)) (d_of_str X (tq_amount req))) (\<lambda>decimal.
     and_then (or_else (ledger_id_to_currency X ledger) (parse_currency X (tq_currency req))) (\<lambda>currency.
     and_then (amount_new X decimal currency) (\<lambda>amount.
     and_then (amount_to_minor_units X amount) (\<lambda>units.
       let amount_units = word_of_nat units;
           transaction_id = unwrap_or (id64_from_str uuid_parse (tq_request_id req)) (id64_new v4);
           pending = (if tq_pending_transfer_id req \<noteq> []
                      then unwrap_or (uuid_id_from_str uuid_parse (tq_pending_transfer_id req)) (from_bytes (replicate 16 0))
                      else from_bytes (replicate 16 0));
           event = transaction_event_new now transaction_id debit credit amount_units ledger (tq_code req)
       in Inr (event\<lparr>ev_flags := flags_from_raw (tq_flags req), ev_pending_transfer_id := pending\<rparr>))))))))"

section \<open>The connection loop (connection.rs)\<close>

fun wait_for_result :: "results list \<Rightarrow> i64 \<Rightarrow> transaction_result option" where
  "wait_for_result [] s = None"
| "wait_for_result (R # Rs) s = (case R s of Some r \<Rightarrow> Some r | None \<Rightarrow> wait_for_result Rs s)"

definition build_response :: "('d, 'c) externs \<Rightarrow> u64 \<Rightarrow> string \<Rightarrow> transaction_result \<Rightarrow> transaction_response" where
  "build_response X ts request_id r =
     (case r of
        Committed i _ \<Rightarrow> \<lparr>ts_request_id = request_id, ts_committed = True, ts_transfer_id = Some (u_show X (as_uuid i)),
                          ts_error = None, ts_timestamp_ns = ts\<rparr>
      | Rejected reason \<Rightarrow> \<lparr>ts_request_id = request_id, ts_committed = False, ts_transfer_id = None,
                          ts_error = Some (blazer_error_display reason), ts_timestamp_ns = ts\<rparr>)"

definition error_response :: "u64 \<Rightarrow> string \<Rightarrow> blazer_error \<Rightarrow> transaction_response" where
  "error_response ts request_id err =
     \<lparr>ts_request_id = request_id, ts_committed = False, ts_transfer_id = None,
      ts_error = Some (case err of RingBufferFull ms \<Rightarrow> ''server busy, retry after '' @ show_nat (unat ms) @ ''ms''
                       | _ \<Rightarrow> blazer_error_display err),
      ts_timestamp_ns = ts\<rparr>"

definition timeout_response :: "u64 \<Rightarrow> string \<Rightarrow> transaction_response" where
  "timeout_response ts request_id =
     \<lparr>ts_request_id = request_id, ts_committed = False, ts_transfer_id = None,
      ts_error = Some ''processing timeout'', ts_timestamp_ns = ts\<rparr>"

text \<open>What the connection sees of its surroundings while it serves request \<open>k\<close>.\<close>

record surroundings =
  su_clock :: "nat \<Rightarrow> timestamp"
  su_reply_ns :: "nat \<Rightarrow> u64"
  su_v4 :: "nat \<Rightarrow> uuid_bytes"
  su_ring :: "nat \<Rightarrow> transaction_event ring \<Rightarrow> transaction_event ring"
  su_polls :: "nat \<Rightarrow> results list"

text \<open>Steps 2 to 6 of one turn of the loop: the ring after the turn and the response.\<close>

definition serve_request ::
  "('d, 'c) externs \<Rightarrow> (string \<Rightarrow> uuid_bytes option) \<Rightarrow> rmp \<Rightarrow> surroundings \<Rightarrow> nat \<Rightarrow>
   transaction_event ring \<Rightarrow> u8 list \<Rightarrow> transaction_event ring \<times> transaction_response" where
  "serve_request X up M E k r payload =
     (case deserialize_request M payload of
        Inl e \<Rightarrow> (r, error_response (su_reply_ns E k) [] e)
      | Inr request \<Rightarrow>
      (case build_event X up (su_clock E k) (su_v4 E k) request of
        Inl e \<Rightarrow> (r, error_response (su_reply_ns E k) (tq_request_id request) e)
      | Inr event \<Rightarrow>
      (case publish_event (su_ring E k r) event of
        (r1, Inl e) \<Rightarrow> (r1, error_response (su_reply_ns E k) (tq_request_id request) e)
      | (r1, Inr seq) \<Rightarrow>
      (case wait_for_result (su_polls E k) seq of
        None \<Rightarrow> (r1, timeout_response (su_reply_ns E k) (tq_request_id request))
      | Some result \<Rightarrow> (r1, build_response X (su_reply_ns E k) (tq_request_id request) result)))))"

definition send_response :: "rmp \<Rightarrow> tcp_stream \<Rightarrow> transaction_response \<Rightarrow> tcp_stream" where
  "send_response M s response =
     (case serialize_response M response of Inl _ \<Rightarrow> s | Inr bytes \<Rightarrow> snd (write_frame s bytes))"

lemma read_exact_in: "fst (read_exact n s) = Inr bs \<Longrightarrow> st_in s = bs @ st_in (snd (read_exact n s)) \<and> length bs = n"
  by (auto simp: read_exact_def split: if_splits)

lemma read_frame_shorter:
  "read_frame s = (Inr p, s') \<Longrightarrow> length (st_in s') < length (st_in s)"
  by (auto simp: read_frame_def read_exact_def Let_def split: if_splits prod.splits sum.splits)

lemma send_response_in [simp]: "st_in (send_response M s resp) = st_in s"
  by (simp add: send_response_def write_frame_def write_all_def split: sum.split option.split)

function conn_loop ::
  "('d, 'c) externs \<Rightarrow> (string \<Rightarrow> uuid_bytes option) \<Rightarrow> rmp \<Rightarrow> surroundings \<Rightarrow> nat \<Rightarrow>
   transaction_event ring \<Rightarrow> tcp_stream \<Rightarrow> transaction_event ring \<times> tcp_stream" where
  "conn_loop X up M E k r s =
     (case read_frame s of
        (Inl _, s1) \<Rightarrow> (r, s1)
      | (Inr payload, s1) \<Rightarrow>
          let (r1, resp) = serve_request X up M E k r payload
          in conn_loop X up M E (Suc k) r1 (send_response M s1 resp))"
  by pat_completeness auto
termination
  by (relation "measure (\<lambda>(_, _, _, _, _, _, s). length (st_in s))") (auto dest!: sym [of _ "read_frame _"] read_frame_shorter)

declare conn_loop.simps [simp del]

definition handle_connection ::
  "('d, 'c) externs \<Rightarrow> (string \<Rightarrow> uuid_bytes option) \<Rightarrow> rmp \<Rightarrow> surroundings \<Rightarrow> transaction_event ring \<Rightarrow> tcp_stream \<Rightarrow> u64 \<Rightarrow>
   transaction_event ring \<times> tcp_stream \<times> u64" where
  "handle_connection X up M E r s active =
     (let (r', s') = conn_loop X up M E 0 r s in (r', s', active - 1))"

section \<open>Frames on a stream\<close>

lemma frame_encode_length: "length p \<le> MAX_FRAME_SIZE \<Longrightarrow> from_be_bytes (take 4 (frame_encode p @ rest)) = length p"
  by (simp add: frame_encode_def MAX_FRAME_SIZE_def from_to_be_bytes)

lemma read_frame_encode:
  assumes "length p \<le> MAX_FRAME_SIZE" "st_in s = frame_encode p @ rest"
  shows "read_frame s = (Inr p, s\<lparr>st_in := rest\<rparr>)"
  using assms frame_encode_length [OF assms(1), of rest]
  by (simp add: read_frame_def read_exact_def Let_def) (simp add: frame_encode_def)

text \<open>What the peer takes of the bytes written.\<close>

definition taken :: "nat option \<Rightarrow> 'a list \<Rightarrow> 'a list" where
  "taken room xs = (case room of None \<Rightarrow> xs | Some n \<Rightarrow> take n xs)"

definition room_after :: "nat option \<Rightarrow> 'a list \<Rightarrow> nat option" where
  "room_after room xs = map_option (\<lambda>n. n - length xs) room"

lemma taken_append: "taken room (xs @ ys) = taken room xs @ taken (room_after room xs) ys"
  by (simp add: taken_def room_after_def split: option.split)

lemma send_response_eq:
  assumes "rmp_response_to_vec M resp = Inr bs"
  shows "send_response M s resp =
    s\<lparr>st_out := st_out s @ taken (st_room s) (frame_encode bs), st_room := room_after (st_room s) (frame_encode bs)\<rparr>"
  using assms
  by (cases s) (auto simp: send_response_def serialize_response_def write_frame_def write_all_def taken_def room_after_def
      split: option.split)

section \<open>Every request is answered\<close>

text \<open>The responses to a sequence of payloads, one each, with the ring threaded through.\<close>

fun answers ::
  "('d, 'c) externs \<Rightarrow> (string \<Rightarrow> uuid_bytes option) \<Rightarrow> rmp \<Rightarrow> surroundings \<Rightarrow> nat \<Rightarrow>
   transaction_event ring \<Rightarrow> u8 list list \<Rightarrow> transaction_event ring \<times> transaction_response list" where
  "answers X up M E k r [] = (r, [])"
| "answers X up M E k r (p # ps) =
     (let (r1, resp) = serve_request X up M E k r p; (r2, resps) = answers X up M E (Suc k) r1 ps
      in (r2, resp # resps))"

definition reply_bytes :: "rmp \<Rightarrow> transaction_response \<Rightarrow> u8 list" where
  "reply_bytes M resp = (case rmp_response_to_vec M resp of Inl _ \<Rightarrow> [] | Inr bs \<Rightarrow> frame_encode bs)"

lemma answers_Cons:
  "answers X up M E k r (p # ps) =
     (fst (answers X up M E (Suc k) (fst (serve_request X up M E k r p)) ps),
      snd (serve_request X up M E k r p) # snd (answers X up M E (Suc k) (fst (serve_request X up M E k r p)) ps))"
  by (simp split: prod.split)

lemma length_answers: "length (snd (answers X up M E k r ps)) = length ps"
  by (induction ps arbitrary: k r) (simp_all add: answers_Cons del: answers.simps(2))

lemma answers_nth:
  "i < length ps \<Longrightarrow> snd (answers X up M E k r ps) ! i =
     snd (serve_request X up M E (k + i) (fst (answers X up M E k r (take i ps))) (ps ! i))"
proof (induction ps arbitrary: i k r)
  case (Cons p ps)
  then show ?case by (cases i) (simp_all add: answers_Cons del: answers.simps(2))
qed simp

lemma conn_loop_answers:
  assumes M: "\<And>resp. \<exists>bs. rmp_response_to_vec M resp = Inr bs"
    and "\<forall>p \<in> set ps. length p \<le> MAX_FRAME_SIZE" "st_in s = concat (map frame_encode ps) @ rest"
    and "\<exists>e s'. read_frame \<lparr>st_in = rest, st_out = [], st_room = None\<rparr> = (Inl e, s')"
  shows "\<exists>s'. conn_loop X up M E k r s = (fst (answers X up M E k r ps), s') \<and>
    st_out s' = st_out s @ taken (st_room s) (concat (map (reply_bytes M) (snd (answers X up M E k r ps))))"
  using assms(2,3)
proof (induction ps arbitrary: k r s)
  case Nil
  then have "fst (read_frame s) = fst (read_frame \<lparr>st_in = rest, st_out = [], st_room = None\<rparr>)"
    by (simp add: read_frame_def read_exact_def Let_def)
  moreover have "st_out (snd (read_frame s)) = st_out s"
    by (simp add: read_frame_def read_exact_def Let_def)
  ultimately show ?case
    using assms(4) by (subst conn_loop.simps) (auto simp: taken_def split: prod.splits sum.splits option.split)
next
  case (Cons p ps)
  have rf: "read_frame s = (Inr p, s\<lparr>st_in := concat (map frame_encode ps) @ rest\<rparr>)"
    using Cons.prems by (intro read_frame_encode) simp_all
  obtain r1 resp where sv: "serve_request X up M E k r p = (r1, resp)" by fastforce
  obtain bs where bs: "rmp_response_to_vec M resp = Inr bs" using M by blast
  let ?s1 = "send_response M (s\<lparr>st_in := concat (map frame_encode ps) @ rest\<rparr>) resp"
  obtain s' where IH: "conn_loop X up M E (Suc k) r1 ?s1 = (fst (answers X up M E (Suc k) r1 ps), s')"
    "st_out s' = st_out ?s1 @ taken (st_room ?s1) (concat (map (reply_bytes M) (snd (answers X up M E (Suc k) r1 ps))))"
    using Cons.IH [of ?s1 "Suc k" r1] Cons.prems(1) by auto
  have "conn_loop X up M E k r s = (fst (answers X up M E k r (p # ps)), s')"
    using IH(1) by (subst conn_loop.simps) (simp add: rf sv split: prod.split)
  moreover have "st_out s' = st_out s @ taken (st_room s) (concat (map (reply_bytes M) (snd (answers X up M E k r (p # ps)))))"
    using IH(2) by (simp add: sv send_response_eq [OF bs] reply_bytes_def bs taken_append split: prod.split)
  ultimately show ?case by blast
qed

lemma wait_for_result_in: "wait_for_result Rs s = Some r \<Longrightarrow> \<exists>R \<in> set Rs. R s = Some r"
  by (induction Rs s rule: wait_for_result.induct) (auto split: option.splits)

text \<open>A response that claims a commit rests on a committed result of this very request.\<close>

definition commit_justified ::
  "('d, 'c) externs \<Rightarrow> (string \<Rightarrow> uuid_bytes option) \<Rightarrow> rmp \<Rightarrow> surroundings \<Rightarrow> nat \<Rightarrow>
   transaction_event ring \<Rightarrow> u8 list \<Rightarrow> transaction_response \<Rightarrow> bool" where
  "commit_justified X up M E k r p resp \<longleftrightarrow>
     (\<exists>req ev r1 seq R i t. deserialize_request M p = Inr req \<and>
        build_event X up (su_clock E k) (su_v4 E k) req = Inr ev \<and>
        publish_event (su_ring E k r) ev = (r1, Inr seq) \<and> R \<in> set (su_polls E k) \<and> R seq = Some (Committed i t) \<and>
        ts_request_id resp = tq_request_id req \<and> ts_transfer_id resp = Some (u_show X (as_uuid i)))"

lemma serve_request_commit:
  assumes "ts_committed (snd (serve_request X up M E k r p))"
  shows "commit_justified X up M E k r p (snd (serve_request X up M E k r p))"
proof -
  obtain req where req: "deserialize_request M p = Inr req"
    using assms by (auto simp: serve_request_def error_response_def split: sum.splits)
  obtain ev where ev: "build_event X up (su_clock E k) (su_v4 E k) req = Inr ev"
    using assms req by (auto simp: serve_request_def error_response_def split: sum.splits)
  obtain r1 seq where pub: "publish_event (su_ring E k r) ev = (r1, Inr seq)"
    using assms req ev by (auto simp: serve_request_def error_response_def split: sum.splits prod.splits)
  obtain res where res: "wait_for_result (su_polls E k) seq = Some res"
    using assms req ev pub by (auto simp: serve_request_def timeout_response_def split: option.splits)
  obtain i t where it: "res = Committed i t"
    using assms req ev pub res by (cases res) (auto simp: serve_request_def build_response_def)
  from wait_for_result_in [OF res] obtain R where "R \<in> set (su_polls E k)" "R seq = Some (Committed i t)"
    by (auto simp: it)
  then show ?thesis
    unfolding commit_justified_def
    using req ev pub by (intro exI [of _ req] exI [of _ ev] exI [of _ r1] exI [of _ seq] exI [of _ R] exI [of _ i] exI [of _ t])
      (simp add: serve_request_def build_response_def res it)
qed

text \<open>
  C8. The server answers every request exactly once and in order: on a connection whose peer sends
  well-sized frames and then closes or breaks off, the bytes written are the frames of one response
  per request, in the order of the requests, up to where the peer stops reading; a malformed
  request is answered and does not end the connection; the connection counter is decremented; and
  a response that reports a commit carries the request id of its request and the transfer id that
  the pipeline recorded for the sequence at which this request was published.
\<close>

theorem connection_answers_in_order:
  assumes "\<And>resp. \<exists>bs. rmp_response_to_vec M resp = Inr bs"
    and "\<forall>p \<in> set ps. length p \<le> MAX_FRAME_SIZE" "st_in s = concat (map frame_encode ps) @ rest"
    and "\<exists>e s'. read_frame \<lparr>st_in = rest, st_out = [], st_room = None\<rparr> = (Inl e, s')"
  shows "\<exists>r' s' resps. handle_connection X up M E r s active = (r', s', active - 1) \<and>
    length resps = length ps \<and>
    st_out s' = st_out s @ taken (st_room s) (concat (map (reply_bytes M) resps)) \<and>
    (\<forall>i < length ps. ts_committed (resps ! i) \<longrightarrow>
       commit_justified X up M E i (fst (answers X up M E 0 r (take i ps))) (ps ! i) (resps ! i))"
proof -
  obtain s' where s': "conn_loop X up M E 0 r s = (fst (answers X up M E 0 r ps), s')"
    "st_out s' = st_out s @ taken (st_room s) (concat (map (reply_bytes M) (snd (answers X up M E 0 r ps))))"
    using conn_loop_answers [OF assms, of X up E 0 r] by blast
  have "commit_justified X up M E i (fst (answers X up M E 0 r (take i ps))) (ps ! i) (snd (answers X up M E 0 r ps) ! i)"
    if "i < length ps" "ts_committed (snd (answers X up M E 0 r ps) ! i)" for i
    using serve_request_commit that by (simp add: answers_nth)
  then show ?thesis
    using s' length_answers [of X up M E 0 r ps]
    by (intro exI [of _ "fst (answers X up M E 0 r ps)"] exI [of _ s'] exI [of _ "snd (answers X up M E 0 r ps)"])
      (simp add: handle_connection_def)
qed

text \<open>A coder that knows one request and numbers its responses by whether they commit.\<close>

definition ex_transaction_request :: transaction_request where
  "ex_transaction_request =
     \<lparr>tq_request_id = ''7'', tq_debit_account_id = ''1'', tq_credit_account_id = ''2'', tq_amount = ''5'',
      tq_currency = ''VND'', tq_ledger_id = 5, tq_code = 1, tq_flags = 0, tq_pending_transfer_id = []\<rparr>"

definition ex_rmp :: rmp where
  "ex_rmp =
     \<lparr>rmp_request_to_vec = \<lambda>_. Inr [1],
      rmp_request_from_slice = \<lambda>bs. if bs = [1] then Inr ex_transaction_request else Inl ''bad'',
      rmp_response_to_vec = \<lambda>x. Inr (if ts_committed x then [1] else [0]),
      rmp_response_from_slice = \<lambda>_. Inl ''bad''\<rparr>"

definition ex_surroundings :: surroundings where
  "ex_surroundings =
     \<lparr>su_clock = \<lambda>_. Timestamp 0, su_reply_ns = \<lambda>_. 0, su_v4 = \<lambda>_. replicate 16 1, su_ring = \<lambda>_ r. r,
      su_polls = \<lambda>_. [Map.empty, \<lambda>_. Some (Committed (UuidId (replicate 16 1)) (Timestamp 0))]\<rparr>"

theorem connection_answers_in_order_witness:
  "\<exists>r' s' resps.
     handle_connection ref_externs (\<lambda>_. None) ex_rmp ex_surroundings ex_ring
       \<lparr>st_in = frame_encode [0] @ frame_encode [1] @ [0, 0], st_out = [], st_room = None\<rparr> 3 = (r', s', 2) \<and>
     length resps = 2 \<and> st_out s' = concat (map (reply_bytes ex_rmp) resps)"
proof -
  let ?s = "\<lparr>st_in = frame_encode [0] @ frame_encode [1] @ [0, 0], st_out = [], st_room = None\<rparr> :: tcp_stream"
  have a: "\<exists>bs. rmp_response_to_vec ex_rmp resp = Inr bs" for resp by (simp add: ex_rmp_def)
  have b: "\<forall>p \<in> set [[0 :: u8], [1]]. length p \<le> MAX_FRAME_SIZE" by (simp add: MAX_FRAME_SIZE_def)
  have c: "st_in ?s = concat (map frame_encode [[0], [1]]) @ [0, 0]" by simp
  have d: "\<exists>e s'. read_frame \<lparr>st_in = [0, 0], st_out = [], st_room = None\<rparr> = (Inl e, s')"
    by (simp add: read_frame_def read_exact_def)
  from connection_answers_in_order [OF a b c d, of ref_externs "\<lambda>_. None" ex_surroundings ex_ring 3]
  obtain r' s' resps where "handle_connection ref_externs (\<lambda>_. None) ex_rmp ex_surroundings ex_ring ?s 3 = (r', s', 2)"
    "length resps = 2" "st_out s' = concat (map (reply_bytes ex_rmp) resps)"
    by (auto simp: taken_def numeral_2_eq_2)
  then show ?thesis by blast
qed

text \<open>
  The minor units of a request are cut to 64 bits without a check: an amount of 18446744073709551621
  dong, a decimal well within the range the amount type accepts, becomes an event over 5 dong.
\<close>

lemma build_event_truncates_amount:
  fixes n :: nat
  defines "n \<equiv> 2 ^ 64 + 5"
  shows "\<exists>ev. build_event ref_externs (\<lambda>_. None) (Timestamp 0) []
     (ex_transaction_request\<lparr>tq_amount := show_nat n, tq_debit_account_id := show_nat 1, tq_credit_account_id := show_nat 2\<rparr>) =
       Inr ev \<and> ev_amount_units ev = 5"
proof -
  have a: "(id64_from_str up (show_nat k) :: account_id blazer_result) = Inr (Id64 (word_of_nat k))" if "k < 2 ^ 64" for up k
    using that by (simp add: id64_from_str_def parse_uint_show_nat)
  have v: "rd_of_str (show_nat n) = Some (RD (int n) 0)"
    by (simp add: rd_of_str_nat rd_mk_def n_def)
  have m: "amount_new ref_externs (RD (int n) 0) VND = Inr \<lparr>amt_value = RD (int n) 0, amt_currency = VND\<rparr>"
    by (simp add: amount_new_def MAX_SCALE_def n_def)
  have u: "amount_to_minor_units ref_externs \<lparr>amt_value = RD (int n) 0, amt_currency = VND\<rparr> = Inr n"
    by (simp add: amount_to_minor_units_def currency_scale_def rd_mul_def rd_mk_def n_def)
  have w: "(word_of_nat n :: u64) = 5" by (simp add: n_def)
  show ?thesis
    by (simp add: build_event_def ex_transaction_request_def a ledger_id_new_def v ledger_id_to_currency_def or_else_def
        m u w Let_def transaction_event_new_def)
qed

end
