(* ===== verification/Blz_Admission.thy ===== *)
theory Blz_Admission
  imports Blz_Prelude
begin

text \<open>
  Admission to the server: the lock-free token bucket (\<^verbatim>\<open>core/transport/src/rate_limit.rs\<close>) and the
  accept loop with its connection cap (\<^verbatim>\<open>core/transport/src/tcp.rs\<close>). Both are used by many
  threads at once, so besides the functions that run alone each has a step relation in which one
  step is one atomic operation (a load, a compare-and-swap, a fetch-and-add) of one thread.
\<close>

section \<open>The token bucket (rate\_limit.rs)\<close>

record token_bucket =
  tk_tokens :: i64
  tk_last_refill_ns :: nat
  tk_rate :: nat
  tk_capacity :: i64

definition token_bucket_new :: "nat \<Rightarrow> nat \<Rightarrow> nat \<Rightarrow> token_bucket" where
  "token_bucket_new now rate capacity =
     \<lparr>tk_tokens = wrap_i64 (int capacity), tk_last_refill_ns = now, tk_rate = rate,
      tk_capacity = wrap_i64 (int capacity)\<rparr>"

text \<open>Tokens earned in the time between two clock values; the subtraction saturates.\<close>

definition tokens_to_add :: "nat \<Rightarrow> nat \<Rightarrow> nat \<Rightarrow> nat" where
  "tokens_to_add rate now l = rate * (now - l) div 1000000000"

definition refilled :: "i64 \<Rightarrow> nat \<Rightarrow> i64 \<Rightarrow> i64" where
  "refilled capacity add current = min (wrap_i64 (current + wrap_i64 (int add))) capacity"

definition refill :: "nat \<Rightarrow> token_bucket \<Rightarrow> token_bucket" where
  "refill now b =
     (let add = tokens_to_add (tk_rate b) now (tk_last_refill_ns b)
      in if now - tk_last_refill_ns b = 0 then b
         else if add = 0 then b
         else b\<lparr>tk_last_refill_ns := now, tk_tokens := refilled (tk_capacity b) add (tk_tokens b)\<rparr>)"

definition try_consume :: "nat \<Rightarrow> token_bucket \<Rightarrow> token_bucket \<times> bool" where
  "try_consume now b =
     (let b1 = refill now b
      in if tk_tokens b1 \<le> 0 then (b1, False)
         else (b1\<lparr>tk_tokens := wrap_i64 (tk_tokens b1 - 1)\<rparr>, True))"

subsection \<open>Many threads\<close>

datatype bucket_pc =
  BIdle | BClock nat | BSwapLast nat nat nat | BAdd nat | BSwapAdd nat i64 | BConsume | BSwapConsume i64

record bucket_state =
  bs_tokens :: i64
  bs_last :: nat
  bs_pc :: "bucket_pc list"
  bs_granted :: nat
  bs_denied :: nat

text \<open>
  The bucket has rate \<open>rate\<close> and capacity \<open>cap\<close>; no clock reading is later than \<open>T\<close>. The clock may
  go back between two readings.
\<close>

inductive bucket_step :: "nat \<Rightarrow> i64 \<Rightarrow> nat \<Rightarrow> bucket_state \<Rightarrow> bucket_state \<Rightarrow> bool" for rate cap T where
  bk_clock: "i < length (bs_pc S) \<Longrightarrow> bs_pc S ! i = BIdle \<Longrightarrow> now \<le> T \<Longrightarrow>
    bucket_step rate cap T S (S\<lparr>bs_pc := (bs_pc S)[i := BClock now]\<rparr>)"
| bk_no_refill: "i < length (bs_pc S) \<Longrightarrow> bs_pc S ! i = BClock now \<Longrightarrow> tokens_to_add rate now (bs_last S) = 0 \<Longrightarrow>
    bucket_step rate cap T S (S\<lparr>bs_pc := (bs_pc S)[i := BConsume]\<rparr>)"
| bk_load_last: "i < length (bs_pc S) \<Longrightarrow> bs_pc S ! i = BClock now \<Longrightarrow> a = tokens_to_add rate now (bs_last S) \<Longrightarrow> a \<noteq> 0 \<Longrightarrow>
    bucket_step rate cap T S (S\<lparr>bs_pc := (bs_pc S)[i := BSwapLast now (bs_last S) a]\<rparr>)"
| bk_swap_last: "i < length (bs_pc S) \<Longrightarrow> bs_pc S ! i = BSwapLast now l a \<Longrightarrow> bs_last S = l \<Longrightarrow>
    bucket_step rate cap T S (S\<lparr>bs_last := now, bs_pc := (bs_pc S)[i := BAdd a]\<rparr>)"
| bk_lost_last: "i < length (bs_pc S) \<Longrightarrow> bs_pc S ! i = BSwapLast now l a \<Longrightarrow> bs_last S \<noteq> l \<Longrightarrow>
    bucket_step rate cap T S (S\<lparr>bs_pc := (bs_pc S)[i := BConsume]\<rparr>)"
| bk_load_add: "i < length (bs_pc S) \<Longrightarrow> bs_pc S ! i = BAdd a \<Longrightarrow>
    bucket_step rate cap T S (S\<lparr>bs_pc := (bs_pc S)[i := BSwapAdd a (bs_tokens S)]\<rparr>)"
| bk_swap_add: "i < length (bs_pc S) \<Longrightarrow> bs_pc S ! i = BSwapAdd a c \<Longrightarrow> bs_tokens S = c \<Longrightarrow>
    bucket_step rate cap T S (S\<lparr>bs_tokens := refilled cap a c, bs_pc := (bs_pc S)[i := BConsume]\<rparr>)"
| bk_lost_add: "i < length (bs_pc S) \<Longrightarrow> bs_pc S ! i = BSwapAdd a c \<Longrightarrow> bs_tokens S \<noteq> c \<Longrightarrow>
    bucket_step rate cap T S (S\<lparr>bs_pc := (bs_pc S)[i := BAdd a]\<rparr>)"
| bk_empty: "i < length (bs_pc S) \<Longrightarrow> bs_pc S ! i = BConsume \<Longrightarrow> bs_tokens S \<le> 0 \<Longrightarrow>
    bucket_step rate cap T S (S\<lparr>bs_pc := (bs_pc S)[i := BIdle], bs_denied := bs_denied S + 1\<rparr>)"
| bk_load_tokens: "i < length (bs_pc S) \<Longrightarrow> bs_pc S ! i = BConsume \<Longrightarrow> bs_tokens S > 0 \<Longrightarrow>
    bucket_step rate cap T S (S\<lparr>bs_pc := (bs_pc S)[i := BSwapConsume (bs_tokens S)]\<rparr>)"
| bk_grant: "i < length (bs_pc S) \<Longrightarrow> bs_pc S ! i = BSwapConsume c \<Longrightarrow> bs_tokens S = c \<Longrightarrow>
    bucket_step rate cap T S
      (S\<lparr>bs_tokens := wrap_i64 (c - 1), bs_pc := (bs_pc S)[i := BIdle], bs_granted := bs_granted S + 1\<rparr>)"
| bk_lost_token: "i < length (bs_pc S) \<Longrightarrow> bs_pc S ! i = BSwapConsume c \<Longrightarrow> bs_tokens S \<noteq> c \<Longrightarrow>
    bucket_step rate cap T S (S\<lparr>bs_pc := (bs_pc S)[i := BConsume]\<rparr>)"

definition bucket_init :: "nat \<Rightarrow> token_bucket \<Rightarrow> bucket_state" where
  "bucket_init n b =
     \<lparr>bs_tokens = tk_tokens b, bs_last = tk_last_refill_ns b, bs_pc = replicate n BIdle, bs_granted = 0, bs_denied = 0\<rparr>"

subsection \<open>The bound on grants\<close>

fun pending_add :: "bucket_pc \<Rightarrow> nat" where
  "pending_add (BAdd a) = a"
| "pending_add (BSwapAdd a c) = a"
| "pending_add _ = 0"

definition pending :: "bucket_pc list \<Rightarrow> nat" where
  "pending ps = sum_list (map pending_add ps)"

fun pc_ok :: "nat \<Rightarrow> nat \<Rightarrow> bucket_pc \<Rightarrow> bool" where
  "pc_ok rate T (BClock now) \<longleftrightarrow> now \<le> T"
| "pc_ok rate T (BSwapLast now l a) \<longleftrightarrow> now \<le> T \<and> l \<le> now \<and> a = tokens_to_add rate now l"
| "pc_ok rate T (BAdd a) \<longleftrightarrow> a \<le> tokens_to_add rate T 0"
| "pc_ok rate T (BSwapAdd a c) \<longleftrightarrow> a \<le> tokens_to_add rate T 0"
| "pc_ok rate T (BSwapConsume c) \<longleftrightarrow> c > 0"
| "pc_ok rate T _ \<longleftrightarrow> True"

definition bucket_inv :: "nat \<Rightarrow> nat \<Rightarrow> nat \<Rightarrow> nat \<Rightarrow> bucket_state \<Rightarrow> bool" where
  "bucket_inv rate cap T t0 S \<longleftrightarrow>
     0 \<le> bs_tokens S \<and> bs_tokens S \<le> int cap \<and> t0 \<le> bs_last S \<and> bs_last S \<le> max t0 T \<and>
     list_all (pc_ok rate T) (bs_pc S) \<and>
     nat (bs_tokens S) + bs_granted S + pending (bs_pc S) \<le> cap + tokens_to_add rate (bs_last S) t0"

lemma pending_update:
  "i < length ps \<Longrightarrow> pending (ps[i := p]) + pending_add (ps ! i) = pending ps + pending_add p"
proof -
  assume i: "i < length ps"
  then have "map pending_add ps ! i \<le> sum_list (map pending_add ps)" by (intro elem_le_sum_list) simp
  then show ?thesis using i by (simp add: pending_def map_update sum_list_update)
qed

lemma list_all_update: "list_all P xs \<Longrightarrow> P x \<Longrightarrow> list_all P (xs[i := x])"
  by (auto simp: list_all_iff dest!: set_update_subset_insert [THEN subsetD])

lemma tokens_to_add_split:
  assumes "t0 \<le> l" "l \<le> now"
  shows "tokens_to_add rate l t0 + tokens_to_add rate now l \<le> tokens_to_add rate now t0"
proof -
  have "rate * (now - t0) = rate * (l - t0) + rate * (now - l)" using assms by (simp flip: add_mult_distrib2)
  then have "rate * (now - t0) div 1000000000 = rate * (l - t0) div 1000000000 + rate * (now - l) div 1000000000 +
      (rate * (l - t0) mod 1000000000 + rate * (now - l) mod 1000000000) div 1000000000"
    by (simp only: div_add1_eq [of "rate * (l - t0)" "rate * (now - l)" 1000000000])
  then show ?thesis unfolding tokens_to_add_def by linarith
qed

lemma tokens_to_add_mono: "now \<le> now' \<Longrightarrow> l' \<le> l \<Longrightarrow> tokens_to_add rate now l \<le> tokens_to_add rate now' l'"
  by (simp add: tokens_to_add_def div_le_mono mult_le_mono diff_le_mono2 diff_le_mono le_trans [OF diff_le_mono])

lemma tokens_to_add_pos: "tokens_to_add rate now l \<noteq> 0 \<Longrightarrow> l \<le> now"
  by (rule ccontr) (simp add: tokens_to_add_def)

lemma refilled_bounds:
  assumes "0 \<le> c" "c \<le> int cap" "int add + int cap < 2 ^ 63"
  shows "0 \<le> refilled (int cap) add c" "refilled (int cap) add c \<le> int cap" "refilled (int cap) add c \<le> c + int add"
proof -
  have "in_i64 (int add)" "in_i64 (c + int add)" using assms by (auto simp: in_i64_def)
  then show "0 \<le> refilled (int cap) add c" "refilled (int cap) add c \<le> int cap" "refilled (int cap) add c \<le> c + int add"
    using assms by (simp_all add: refilled_def)
qed

lemma bucket_step_inv:
  assumes "bucket_step rate (int cap) T S S'" "bucket_inv rate cap T t0 S" "tokens_to_add rate T 0 + cap < 2 ^ 63"
  shows "bucket_inv rate cap T t0 S'"
  using assms(1,2)
proof (cases rule: bucket_step.cases)
  case (bk_swap_last i now l a)
  have "pc_ok rate T (bs_pc S ! i)" using assms(2) bk_swap_last(2) by (simp add: bucket_inv_def list_all_length)
  then have n: "now \<le> T" "l \<le> now" "a = tokens_to_add rate now l" using bk_swap_last(3) by simp_all
  have "pending ((bs_pc S)[i := BAdd a]) = pending (bs_pc S) + a"
    using pending_update [OF bk_swap_last(2), of "BAdd a"] bk_swap_last(3) by simp
  moreover have "t0 \<le> l" using assms(2) bk_swap_last(4) by (simp add: bucket_inv_def)
  moreover have "a \<le> tokens_to_add rate T 0" using n tokens_to_add_mono [of now T 0 l rate] by simp
  ultimately show ?thesis
    using assms(2) bk_swap_last(1,4) n tokens_to_add_split [of t0 l now rate]
    by (auto simp: bucket_inv_def intro!: list_all_update)
next
  case (bk_swap_add i a c)
  have "pc_ok rate T (bs_pc S ! i)" using assms(2) bk_swap_add(2) by (simp add: bucket_inv_def list_all_length)
  then have "int a + int cap < 2 ^ 63" using bk_swap_add(3) assms(3) by simp
  moreover have c: "0 \<le> c" "c \<le> int cap" using assms(2) bk_swap_add(4) by (simp_all add: bucket_inv_def)
  ultimately have R: "0 \<le> refilled (int cap) a c" "refilled (int cap) a c \<le> int cap" "refilled (int cap) a c \<le> c + int a"
    using refilled_bounds [of c cap a] by simp_all
  have "pending ((bs_pc S)[i := BConsume]) + a = pending (bs_pc S)"
    using pending_update [OF bk_swap_add(2), of BConsume] bk_swap_add(3) by simp
  then show ?thesis
    using assms(2) bk_swap_add(1,4) R c by (auto simp: bucket_inv_def intro!: list_all_update)
next
  case (bk_grant i c)
  have "pc_ok rate T (bs_pc S ! i)" using assms(2) bk_grant(2) by (simp add: bucket_inv_def list_all_length)
  then have c: "0 < c" "c \<le> int cap" using bk_grant(3,4) assms(2) by (simp_all add: bucket_inv_def)
  then have "wrap_i64 (c - 1) = c - 1" using assms(3) by (simp add: in_i64_def)
  moreover have "pending ((bs_pc S)[i := BIdle]) = pending (bs_pc S)"
    using pending_update [OF bk_grant(2), of BIdle] bk_grant(3) by simp
  ultimately show ?thesis
    using assms(2) bk_grant(1,4) c by (auto simp: bucket_inv_def intro!: list_all_update)
next
  case (bk_load_last i now a)
  have "pc_ok rate T (bs_pc S ! i)" using assms(2) bk_load_last(2) by (simp add: bucket_inv_def list_all_length)
  then show ?thesis
    using assms(2) bk_load_last pending_update [OF bk_load_last(2), of "BSwapLast now (bs_last S) a"]
    by (auto simp: bucket_inv_def tokens_to_add_pos intro!: list_all_update)
next
  case (bk_load_add i a)
  have "pc_ok rate T (bs_pc S ! i)" using assms(2) bk_load_add(2) by (simp add: bucket_inv_def list_all_length)
  then show ?thesis
    using assms(2) bk_load_add pending_update [OF bk_load_add(2), of "BSwapAdd a (bs_tokens S)"]
    by (auto simp: bucket_inv_def intro!: list_all_update)
next
  case (bk_lost_add i a c)
  have "pc_ok rate T (bs_pc S ! i)" using assms(2) bk_lost_add(2) by (simp add: bucket_inv_def list_all_length)
  then show ?thesis
    using assms(2) bk_lost_add pending_update [OF bk_lost_add(2), of "BAdd a"]
    by (auto simp: bucket_inv_def intro!: list_all_update)
next
  case (bk_clock i now)
  then show ?thesis using assms(2) pending_update [OF bk_clock(2), of "BClock now"]
    by (auto simp: bucket_inv_def intro!: list_all_update)
next
  case (bk_load_tokens i)
  then show ?thesis using assms(2) pending_update [OF bk_load_tokens(2), of "BSwapConsume (bs_tokens S)"]
    by (auto simp: bucket_inv_def intro!: list_all_update)
next
  case (bk_empty i)
  then show ?thesis using assms(2) pending_update [OF bk_empty(2), of BIdle]
    by (auto simp: bucket_inv_def intro!: list_all_update)
next
  case (bk_no_refill i now)
  then show ?thesis using assms(2) pending_update [OF bk_no_refill(2), of BConsume]
    by (auto simp: bucket_inv_def intro!: list_all_update)
next
  case (bk_lost_last i now l a)
  then show ?thesis using assms(2) pending_update [OF bk_lost_last(2), of BConsume]
    by (auto simp: bucket_inv_def intro!: list_all_update)
next
  case (bk_lost_token i c)
  then show ?thesis using assms(2) pending_update [OF bk_lost_token(2), of BConsume]
    by (auto simp: bucket_inv_def intro!: list_all_update)
qed

lemma bucket_reach_inv:
  assumes "(bucket_step rate (int cap) T)\<^sup>*\<^sup>* (bucket_init n (token_bucket_new t0 rate cap)) S"
    and "tokens_to_add rate T 0 + cap < 2 ^ 63"
  shows "bucket_inv rate cap T t0 S"
  using assms(1)
proof (induction rule: rtranclp_induct)
  case base
  have "in_i64 (int cap)" using assms(2) by (simp add: in_i64_def)
  then show ?case
    by (simp add: bucket_inv_def bucket_init_def token_bucket_new_def list_all_iff pending_def sum_list_replicate)
next
  case (step S S')
  show ?case by (rule bucket_step_inv [OF step(2,3) assms(2)])
qed

text \<open>A call that runs alone is one of the runs of the relation.\<close>

definition bucket_view :: "bucket_state \<Rightarrow> token_bucket \<Rightarrow> bool" where
  "bucket_view S b \<longleftrightarrow> bs_tokens S = tk_tokens b \<and> bs_last S = tk_last_refill_ns b"

lemma refill_run:
  assumes "i < length (bs_pc S)" "bs_pc S ! i = BIdle" "now \<le> T" "bucket_view S b"
  shows "(bucket_step (tk_rate b) (tk_capacity b) T)\<^sup>*\<^sup>* S
    (S\<lparr>bs_tokens := tk_tokens (refill now b), bs_last := tk_last_refill_ns (refill now b), bs_pc := (bs_pc S)[i := BConsume]\<rparr>)"
    (is "?R\<^sup>*\<^sup>* S ?S'")
proof -
  let ?a = "tokens_to_add (tk_rate b) now (bs_last S)"
  let ?S1 = "S\<lparr>bs_pc := (bs_pc S)[i := BClock now]\<rparr>"
  have 1: "?R S ?S1" using assms(1-3) by (rule bk_clock)
  show ?thesis
  proof (cases "?a = 0")
    case True
    then have "?R ?S1 (?S1\<lparr>bs_pc := (bs_pc ?S1)[i := BConsume]\<rparr>)"
      using assms(1) by (intro bk_no_refill) simp_all
    moreover have "?S1\<lparr>bs_pc := (bs_pc ?S1)[i := BConsume]\<rparr> = ?S'"
      using True assms(4) by (simp add: refill_def Let_def bucket_view_def)
    ultimately show ?thesis using 1 by (metis rtranclp.simps)
  next
    case False
    let ?S2 = "?S1\<lparr>bs_pc := (bs_pc ?S1)[i := BSwapLast now (bs_last ?S1) ?a]\<rparr>"
    let ?S3 = "?S2\<lparr>bs_last := now, bs_pc := (bs_pc ?S2)[i := BAdd ?a]\<rparr>"
    let ?S4 = "?S3\<lparr>bs_pc := (bs_pc ?S3)[i := BSwapAdd ?a (bs_tokens ?S3)]\<rparr>"
    let ?S5 = "?S4\<lparr>bs_tokens := refilled (tk_capacity b) ?a (bs_tokens S), bs_pc := (bs_pc ?S4)[i := BConsume]\<rparr>"
    have 2: "?R ?S1 ?S2" using assms(1) False by (intro bk_load_last) simp_all
    have 3: "?R ?S2 ?S3" using assms(1) by (intro bk_swap_last) simp_all
    have 4: "?R ?S3 ?S4" using assms(1) by (intro bk_load_add) simp_all
    have 5: "?R ?S4 ?S5" using assms(1) by (intro bk_swap_add) simp_all
    have eq: "?S5 = ?S'"
      using False assms(4)
      by (cases "now - tk_last_refill_ns b = 0") (simp_all add: refill_def Let_def bucket_view_def tokens_to_add_def)
    have "?R\<^sup>*\<^sup>* S ?S5"
      by (rule converse_rtranclp_into_rtranclp [OF 1 converse_rtranclp_into_rtranclp [OF 2
          converse_rtranclp_into_rtranclp [OF 3 converse_rtranclp_into_rtranclp [OF 4 r_into_rtranclp [of ?R, OF 5]]]]])
    then show ?thesis by (simp only: eq)
  qed
qed

lemma try_consume_run:
  assumes "i < length (bs_pc S)" "bs_pc S ! i = BIdle" "now \<le> T" "bucket_view S b" "try_consume now b = (b', ok)"
  obtains S' where "(bucket_step (tk_rate b) (tk_capacity b) T)\<^sup>*\<^sup>* S S'" "bucket_view S' b'"
    "bs_pc S' = bs_pc S" "bs_granted S' = bs_granted S + (if ok then 1 else 0)"
proof -
  let ?R = "bucket_step (tk_rate b) (tk_capacity b) T"
  let ?S1 = "S\<lparr>bs_tokens := tk_tokens (refill now b), bs_last := tk_last_refill_ns (refill now b), bs_pc := (bs_pc S)[i := BConsume]\<rparr>"
  have idle: "(bs_pc S)[i := BIdle] = bs_pc S" using assms(2) by (metis list_update_id)
  note 1 = refill_run [OF assms(1-4)]
  show thesis
  proof (cases "tk_tokens (refill now b) \<le> 0")
    case True
    let ?S2 = "?S1\<lparr>bs_pc := (bs_pc ?S1)[i := BIdle], bs_denied := bs_denied ?S1 + 1\<rparr>"
    have "?R ?S1 ?S2" using assms(1) True by (intro bk_empty) simp_all
    then show thesis
      using 1 assms(5) True idle by (intro that [of ?S2]) (auto simp: try_consume_def Let_def bucket_view_def)
  next
    case False
    let ?S2 = "?S1\<lparr>bs_pc := (bs_pc ?S1)[i := BSwapConsume (bs_tokens ?S1)]\<rparr>"
    let ?S3 = "?S2\<lparr>bs_tokens := wrap_i64 (bs_tokens ?S1 - 1), bs_pc := (bs_pc ?S2)[i := BIdle], bs_granted := bs_granted ?S2 + 1\<rparr>"
    have 2: "?R ?S1 ?S2" using assms(1) False by (intro bk_load_tokens) simp_all
    moreover have "?R ?S2 ?S3" using assms(1) by (intro bk_grant) simp_all
    ultimately have "?R\<^sup>*\<^sup>* S ?S3" using 1 by (meson rtranclp.rtrancl_into_rtrancl)
    then show thesis
      using assms(5) False idle by (intro that [of ?S3]) (auto simp: try_consume_def Let_def bucket_view_def)
  qed
qed



section \<open>The accept loop (tcp.rs)\<close>

text \<open>
  The accept loop is one task; connection tasks end at any time and decrement the counter. Between
  the load of the counter and its increment other tasks may run.
\<close>

datatype accept_pc = AcceptWait | AcceptLoaded u64 | AcceptExited

record tcp_server =
  ta_active :: u64
  ta_max :: u64
  ta_shutdown :: bool
  ta_pc :: accept_pc
  ta_open :: nat
  ta_rejected :: nat

definition tcp_server_new :: "u64 \<Rightarrow> tcp_server" where
  "tcp_server_new max_connections =
     \<lparr>ta_active = 0, ta_max = max_connections, ta_shutdown = False, ta_pc = AcceptWait, ta_open = 0, ta_rejected = 0\<rparr>"

inductive serve_step :: "tcp_server \<Rightarrow> tcp_server \<Rightarrow> bool" where
  sv_accept: "ta_pc S = AcceptWait \<Longrightarrow> serve_step S (S\<lparr>ta_pc := AcceptLoaded (ta_active S)\<rparr>)"
| sv_reject: "ta_pc S = AcceptLoaded c \<Longrightarrow> c \<ge> ta_max S \<Longrightarrow>
    serve_step S (S\<lparr>ta_pc := AcceptWait, ta_rejected := ta_rejected S + 1\<rparr>)"
| sv_spawn: "ta_pc S = AcceptLoaded c \<Longrightarrow> \<not> c \<ge> ta_max S \<Longrightarrow>
    serve_step S (S\<lparr>ta_pc := AcceptWait, ta_active := ta_active S + 1, ta_open := ta_open S + 1\<rparr>)"
| sv_exit: "ta_pc S = AcceptWait \<Longrightarrow> ta_shutdown S \<Longrightarrow> serve_step S (S\<lparr>ta_pc := AcceptExited\<rparr>)"
| sv_finish: "ta_open S > 0 \<Longrightarrow> serve_step S (S\<lparr>ta_active := ta_active S - 1, ta_open := ta_open S - 1\<rparr>)"
| sv_shutdown: "serve_step S (S\<lparr>ta_shutdown := True\<rparr>)"

definition serve_inv :: "tcp_server \<Rightarrow> bool" where
  "serve_inv S \<longleftrightarrow> unat (ta_active S) = ta_open S \<and> ta_open S \<le> unat (ta_max S) \<and>
     (\<forall>c. ta_pc S = AcceptLoaded c \<longrightarrow> ta_active S \<le> c)"

lemma unat_Suc_less: "x < y \<Longrightarrow> unat (x + 1) = unat x + 1" for x y :: u64
proof -
  assume "x < y"
  moreover have "unat y < 2 ^ 64" using unsigned_less [of y] by simp
  ultimately have "unat x + 1 < 2 ^ 64" by (simp add: word_less_nat_alt)
  then show ?thesis by (simp add: unat_word_ariths)
qed

lemma serve_step_inv:
  assumes "serve_step S S'" "serve_inv S"
  shows "serve_inv S' \<and> ta_max S' = ta_max S"
  using assms
proof (induction rule: serve_step.induct)
  case (sv_spawn S c)
  then have "ta_active S < ta_max S" by (auto simp: serve_inv_def)
  then show ?case using sv_spawn unat_Suc_less by (auto simp: serve_inv_def word_less_nat_alt)
next
  case (sv_finish S)
  then have "ta_active S \<noteq> 0" by (auto simp: serve_inv_def)
  then have "unat (ta_active S - 1) = unat (ta_active S) - 1" "ta_active S - 1 \<le> ta_active S"
    by (simp_all add: unat_minus_one word_le_nat_alt)
  then show ?case using sv_finish by (auto simp: serve_inv_def)
qed (auto simp: serve_inv_def)

text \<open>
  C38. The connection cap is exact: in every state the server reaches, the counter is the number of
  open connections and never exceeds the configured maximum; a connection is refused only when the
  counter that was read had reached the maximum; and once the accept loop has ended no connection
  is opened any more, so the counter that shutdown waits on can only fall.
\<close>

theorem connection_cap:
  assumes "serve_step\<^sup>*\<^sup>* (tcp_server_new m) S"
  shows "unat (ta_active S) = ta_open S \<and> ta_open S \<le> unat m \<and>
    (\<forall>S'. serve_step S S' \<longrightarrow>
       (ta_rejected S' > ta_rejected S \<longrightarrow> (\<exists>c \<ge> m. ta_pc S = AcceptLoaded c)) \<and>
       (ta_pc S = AcceptExited \<longrightarrow> ta_pc S' = AcceptExited \<and> ta_open S' \<le> ta_open S))"
proof -
  have I: "serve_inv S \<and> ta_max S = m"
    using assms
  proof (induction rule: rtranclp_induct)
    case base
    then show ?case by (simp add: serve_inv_def tcp_server_new_def)
  next
    case (step S S')
    then show ?case using serve_step_inv [OF step(2)] by simp
  qed
  moreover have "(ta_rejected S' > ta_rejected S \<longrightarrow> (\<exists>c \<ge> m. ta_pc S = AcceptLoaded c)) \<and>
       (ta_pc S = AcceptExited \<longrightarrow> ta_pc S' = AcceptExited \<and> ta_open S' \<le> ta_open S)" if "serve_step S S'" for S'
    using that I by (cases rule: serve_step.cases) auto
  ultimately show ?thesis by (auto simp: serve_inv_def)
qed

theorem connection_cap_witness:
  "\<exists>S. serve_step\<^sup>*\<^sup>* (tcp_server_new 1) S \<and> ta_open S = 1 \<and> unat (ta_active S) = ta_open S"
proof -
  let ?S0 = "tcp_server_new 1"
  let ?S1 = "?S0\<lparr>ta_pc := AcceptLoaded (ta_active ?S0)\<rparr>"
  let ?S2 = "?S1\<lparr>ta_pc := AcceptWait, ta_active := ta_active ?S1 + 1, ta_open := ta_open ?S1 + 1\<rparr>"
  have "serve_step ?S0 ?S1" by (rule sv_accept) (simp add: tcp_server_new_def)
  moreover have "serve_step ?S1 ?S2" by (rule sv_spawn [where c = 0]) (simp_all add: tcp_server_new_def)
  ultimately have r: "serve_step\<^sup>*\<^sup>* ?S0 ?S2" by (meson converse_rtranclp_into_rtranclp r_into_rtranclp)
  show ?thesis
    using r connection_cap [OF r] by (intro exI [of _ ?S2]) (simp add: tcp_server_new_def)
qed

end
