(* ===== verification/Blz_Audit.thy ===== *)
theory Blz_Audit
  imports Blz_Prelude "HOL-Library.Multiset"
begin

text \<open>
  The audit log (\<^verbatim>\<open>libs/audit/src\<close>): events, hash-chained entries, the in-memory store and its
  exports. Outside the repository are the hash function, the JSON coder, UUIDs, time stamps and the
  JSON values of an event; the two functions on which the chain rests are the fields of a record:
  \<open>sha\<close> is \<^verbatim>\<open>hex::encode(Sha256(..))\<close> and \<open>json\<close> is \<^verbatim>\<open>serde_json::to_string\<close>. The types of time
  stamps and of JSON values are the type parameters \<open>'t\<close> and \<open>'m\<close>.
\<close>

section \<open>Events (event.rs)\<close>

datatype audit_action =
  TransactionCreated | TransactionValidated | ComplianceScreeningStarted | ComplianceScreeningCompleted
| LedgerSubmitted | LedgerCommitted | TransactionCompleted | TransactionRejected | TransactionHeld
| TransactionReleased | SarGenerated | AccessControlCheck | ApiAuthentication | ConfigurationChanged

datatype audit_result = AuditSuccess | AuditFailure | AuditPending

record ('t, 'm) audit_event =
  ae_event_id :: "u8 list"
  ae_timestamp :: 't
  ae_transaction_id :: string
  ae_actor :: string
  ae_action :: audit_action
  ae_result :: audit_result
  ae_latency_ns :: "u64 option"
  ae_metadata :: "'m option"
  ae_error :: "string option"

definition audit_event_new :: "u8 list \<Rightarrow> 't \<Rightarrow> string \<Rightarrow> string \<Rightarrow> audit_action \<Rightarrow> ('t, 'm) audit_event" where
  "audit_event_new v4 now tx actor action =
     \<lparr>ae_event_id = v4, ae_timestamp = now, ae_transaction_id = tx, ae_actor = actor, ae_action = action,
      ae_result = AuditPending, ae_latency_ns = None, ae_metadata = None, ae_error = None\<rparr>"

definition with_result :: "string \<Rightarrow> ('t, 'm) audit_event \<Rightarrow> ('t, 'm) audit_event" where
  "with_result r e =
     e\<lparr>ae_result := (if r = ''success'' then AuditSuccess else if r = ''failure'' then AuditFailure else AuditPending)\<rparr>"

definition with_latency :: "nat \<Rightarrow> ('t, 'm) audit_event \<Rightarrow> ('t, 'm) audit_event" where
  "with_latency duration_ns e = e\<lparr>ae_latency_ns := Some (word_of_nat duration_ns)\<rparr>"

definition with_metadata :: "'m \<Rightarrow> ('t, 'm) audit_event \<Rightarrow> ('t, 'm) audit_event" where
  "with_metadata m e = e\<lparr>ae_metadata := Some m\<rparr>"

definition with_error :: "string \<Rightarrow> ('t, 'm) audit_event \<Rightarrow> ('t, 'm) audit_event" where
  "with_error err e = e\<lparr>ae_error := Some err, ae_result := AuditFailure\<rparr>"

section \<open>Entries and the chain (entry.rs)\<close>

record ('t, 'm) audit_externs =
  sha :: "u8 list \<Rightarrow> string"
  json :: "('t, 'm) audit_event \<Rightarrow> string option"

definition as_bytes :: "string \<Rightarrow> u8 list" where
  "as_bytes s = map (\<lambda>c. word_of_nat (of_char c)) s"

definition to_le_bytes :: "u64 \<Rightarrow> u8 list" where
  "to_le_bytes v = rev (to_be_bytes 8 (unat v))"

record ('t, 'm) audit_entry =
  en_sequence :: u64
  en_event :: "('t, 'm) audit_event"
  en_previous_hash :: string
  en_entry_hash :: string

definition hash_input :: "('t, 'm) audit_externs \<Rightarrow> ('t, 'm) audit_entry \<Rightarrow> u8 list" where
  "hash_input A e =
     to_le_bytes (en_sequence e) @ as_bytes (en_previous_hash e) @
     as_bytes (case json A (en_event e) of None \<Rightarrow> [] | Some s \<Rightarrow> s)"

definition compute_hash :: "('t, 'm) audit_externs \<Rightarrow> ('t, 'm) audit_entry \<Rightarrow> string" where
  "compute_hash A e = sha A (hash_input A e)"

definition audit_entry_new :: "('t, 'm) audit_externs \<Rightarrow> u64 \<Rightarrow> ('t, 'm) audit_event \<Rightarrow> string \<Rightarrow> ('t, 'm) audit_entry" where
  "audit_entry_new A n ev prev =
     (let entry = \<lparr>en_sequence = n, en_event = ev, en_previous_hash = prev, en_entry_hash = []\<rparr>
      in entry\<lparr>en_entry_hash := compute_hash A entry\<rparr>)"

definition entry_verify_integrity :: "('t, 'm) audit_externs \<Rightarrow> ('t, 'm) audit_entry \<Rightarrow> bool" where
  "entry_verify_integrity A e \<longleftrightarrow> en_entry_hash e = compute_hash A e"

definition verify_chain :: "('t, 'm) audit_entry \<Rightarrow> string \<Rightarrow> bool" where
  "verify_chain e expected \<longleftrightarrow> en_previous_hash e = expected"

record hash_chain =
  hc_genesis_hash :: string
  hc_current_hash :: string
  hc_sequence :: u64

definition genesis_input :: "u8 list" where
  "genesis_input = as_bytes ''BLAZIL_AUDIT_LOG_GENESIS''"

definition hash_chain_new :: "('t, 'm) audit_externs \<Rightarrow> hash_chain" where
  "hash_chain_new A =
     (let genesis_hash = sha A genesis_input
      in \<lparr>hc_genesis_hash = genesis_hash, hc_current_hash = genesis_hash, hc_sequence = 0\<rparr>)"

definition create_entry ::
  "('t, 'm) audit_externs \<Rightarrow> hash_chain \<Rightarrow> ('t, 'm) audit_event \<Rightarrow> hash_chain \<times> ('t, 'm) audit_entry" where
  "create_entry A c ev =
     (let entry = audit_entry_new A (hc_sequence c) ev (hc_current_hash c)
      in (c\<lparr>hc_current_hash := en_entry_hash entry, hc_sequence := hc_sequence c + 1\<rparr>, entry))"

text \<open>The loop over adjacent pairs.\<close>

fun verify_links :: "('t, 'm) audit_entry \<Rightarrow> ('t, 'm) audit_entry list \<Rightarrow> bool" where
  "verify_links p [] \<longleftrightarrow> True"
| "verify_links p (e # es) \<longleftrightarrow> verify_chain e (en_entry_hash p) \<and> verify_links e es"

definition verify_chain_from_genesis :: "('t, 'm) audit_externs \<Rightarrow> hash_chain \<Rightarrow> ('t, 'm) audit_entry list \<Rightarrow> bool" where
  "verify_chain_from_genesis A c entries =
     (case entries of
        [] \<Rightarrow> True
      | e # es \<Rightarrow> en_previous_hash e = hc_genesis_hash c \<and> list_all (entry_verify_integrity A) entries \<and> verify_links e es)"

section \<open>The store (store.rs)\<close>

record ('t, 'm) audit_log =
  al_chain :: hash_chain
  al_entries :: "('t, 'm) audit_entry list"

definition audit_log_new :: "('t, 'm) audit_externs \<Rightarrow> ('t, 'm) audit_log" where
  "audit_log_new A = \<lparr>al_chain = hash_chain_new A, al_entries = []\<rparr>"

definition audit_record :: "('t, 'm) audit_externs \<Rightarrow> ('t, 'm) audit_event \<Rightarrow> ('t, 'm) audit_log \<Rightarrow> ('t, 'm) audit_log" where
  "audit_record A ev L =
     (let (c, entry) = create_entry A (al_chain L) ev
      in \<lparr>al_chain = c, al_entries = al_entries L @ [entry]\<rparr>)"

definition get_range :: "u64 \<Rightarrow> u64 \<Rightarrow> ('t, 'm) audit_log \<Rightarrow> ('t, 'm) audit_entry list" where
  "get_range start stop L = filter (\<lambda>e. en_sequence e \<ge> start \<and> en_sequence e < stop) (al_entries L)"

definition get_by_transaction :: "string \<Rightarrow> ('t, 'm) audit_log \<Rightarrow> ('t, 'm) audit_entry list" where
  "get_by_transaction tx L = filter (\<lambda>e. ae_transaction_id (en_event e) = tx) (al_entries L)"

definition get_by_actor :: "string \<Rightarrow> ('t, 'm) audit_log \<Rightarrow> ('t, 'm) audit_entry list" where
  "get_by_actor actor L = filter (\<lambda>e. ae_actor (en_event e) = actor) (al_entries L)"

definition log_verify_integrity :: "('t, 'm) audit_externs \<Rightarrow> ('t, 'm) audit_log \<Rightarrow> bool" where
  "log_verify_integrity A L = verify_chain_from_genesis A (al_chain L) (al_entries L)"

text \<open>The entries an export to JSON contains; their printing is \<^verbatim>\<open>serde_json::to_string_pretty\<close>.\<close>

definition is_none_or :: "'a option \<Rightarrow> ('a \<Rightarrow> bool) \<Rightarrow> bool" where
  "is_none_or x p = (case x of None \<Rightarrow> True | Some v \<Rightarrow> p v)"

definition export_json ::
  "(('t, 'm) audit_entry list \<Rightarrow> string option) \<Rightarrow> u64 option \<Rightarrow> u64 option \<Rightarrow> ('t, 'm) audit_log \<Rightarrow> string" where
  "export_json pretty start stop L =
     (case pretty (filter (\<lambda>e. is_none_or start (\<lambda>s. en_sequence e \<ge> s) \<and> is_none_or stop (\<lambda>v. en_sequence e < v)) (al_entries L)) of
        None \<Rightarrow> ''[]'' | Some s \<Rightarrow> s)"

section \<open>Export (export.rs)\<close>

fun action_debug :: "audit_action \<Rightarrow> string" where
  "action_debug TransactionCreated = ''TransactionCreated''"
| "action_debug TransactionValidated = ''TransactionValidated''"
| "action_debug ComplianceScreeningStarted = ''ComplianceScreeningStarted''"
| "action_debug ComplianceScreeningCompleted = ''ComplianceScreeningCompleted''"
| "action_debug LedgerSubmitted = ''LedgerSubmitted''"
| "action_debug LedgerCommitted = ''LedgerCommitted''"
| "action_debug TransactionCompleted = ''TransactionCompleted''"
| "action_debug TransactionRejected = ''TransactionRejected''"
| "action_debug TransactionHeld = ''TransactionHeld''"
| "action_debug TransactionReleased = ''TransactionReleased''"
| "action_debug SarGenerated = ''SarGenerated''"
| "action_debug AccessControlCheck = ''AccessControlCheck''"
| "action_debug ApiAuthentication = ''ApiAuthentication''"
| "action_debug ConfigurationChanged = ''ConfigurationChanged''"

fun action_to_name :: "audit_action \<Rightarrow> string" where
  "action_to_name TransactionCreated = ''Transaction Created''"
| "action_to_name TransactionValidated = ''Transaction Validated''"
| "action_to_name ComplianceScreeningStarted = ''Compliance Screening Started''"
| "action_to_name ComplianceScreeningCompleted = ''Compliance Screening Completed''"
| "action_to_name LedgerSubmitted = ''Ledger Submitted''"
| "action_to_name LedgerCommitted = ''Ledger Committed''"
| "action_to_name TransactionCompleted = ''Transaction Completed''"
| "action_to_name TransactionRejected = ''Transaction Rejected''"
| "action_to_name TransactionHeld = ''Transaction Held''"
| "action_to_name TransactionReleased = ''Transaction Released''"
| "action_to_name SarGenerated = ''SAR Generated''"
| "action_to_name AccessControlCheck = ''Access Control Check''"
| "action_to_name ApiAuthentication = ''API Authentication''"
| "action_to_name ConfigurationChanged = ''Configuration Changed''"

fun result_to_severity :: "audit_result \<Rightarrow> nat" where
  "result_to_severity AuditSuccess = 5"
| "result_to_severity AuditPending = 6"
| "result_to_severity AuditFailure = 8"

fun outcome_text :: "audit_result \<Rightarrow> string" where
  "outcome_text AuditSuccess = ''success''"
| "outcome_text AuditFailure = ''failure''"
| "outcome_text AuditPending = ''pending''"

definition escape_pipes :: "string \<Rightarrow> string" where
  "escape_pipes s = concat (map (\<lambda>c. if c = CHR ''|'' then [CHR 0x5C, CHR ''|''] else [c]) s)"

text \<open>
  \<open>rfc3339\<close> prints the time stamp and \<open>value_json\<close> the metadata; the slice of the hash panics when
  the hash is shorter than 16 bytes: \<open>None\<close>.
\<close>

definition entry_to_cef ::
  "('t \<Rightarrow> string) \<Rightarrow> ('m \<Rightarrow> string option) \<Rightarrow> ('t, 'm) audit_entry \<Rightarrow> string option" where
  "entry_to_cef rfc3339 value_json entry =
     (let ev = en_event entry
      in if length (en_entry_hash entry) < 16 then None
         else let extensions =
                ''rt='' @ rfc3339 (ae_timestamp ev) @ '' src='' @ ae_actor ev @ '' txId='' @ ae_transaction_id ev @
                '' outcome='' @ outcome_text (ae_result ev) @ '' seq='' @ show_nat (unat (en_sequence entry)) @
                '' hash='' @ take 16 (en_entry_hash entry) @
                (case ae_latency_ns ev of None \<Rightarrow> [] | Some l \<Rightarrow> '' latency='' @ show_nat (unat l)) @
                (case ae_metadata ev of None \<Rightarrow> []
                 | Some m \<Rightarrow> (case value_json m of None \<Rightarrow> [] | Some t \<Rightarrow> '' metadata='' @ t)) @
                (case ae_error ev of None \<Rightarrow> [] | Some err \<Rightarrow> '' error='' @ escape_pipes err)
              in Some (''CEF:0|Blazil|TransactionEngine|0.3.2|'' @ action_debug (ae_action ev) @ ''|'' @
                       action_to_name (ae_action ev) @ ''|'' @ show_nat (result_to_severity (ae_result ev)) @ ''|'' @ extensions))"

fun cef_lines :: "('t \<Rightarrow> string) \<Rightarrow> ('m \<Rightarrow> string option) \<Rightarrow> ('t, 'm) audit_entry list \<Rightarrow> string option" where
  "cef_lines f g [] = Some []"
| "cef_lines f g (e # es) =
     (case entry_to_cef f g e of
        None \<Rightarrow> None
      | Some line \<Rightarrow> map_option (\<lambda>rest. line @ [CHR 0x0A] @ rest) (cef_lines f g es))"

definition export_cef ::
  "('t \<Rightarrow> string) \<Rightarrow> ('m \<Rightarrow> string option) \<Rightarrow> u64 option \<Rightarrow> u64 option \<Rightarrow> ('t, 'm) audit_log \<Rightarrow> string option" where
  "export_cef f g start stop L =
     cef_lines f g (case (start, stop) of (Some s, Some e) \<Rightarrow> get_range s e L | _ \<Rightarrow> al_entries L)"

section \<open>The chain as a list\<close>

fun chain :: "('t, 'm) audit_externs \<Rightarrow> u64 \<Rightarrow> string \<Rightarrow> ('t, 'm) audit_event list \<Rightarrow> ('t, 'm) audit_entry list" where
  "chain A n p [] = []"
| "chain A n p (ev # evs) =
     audit_entry_new A n ev p # chain A (n + 1) (en_entry_hash (audit_entry_new A n ev p)) evs"

fun linked :: "('t, 'm) audit_externs \<Rightarrow> string \<Rightarrow> ('t, 'm) audit_entry list \<Rightarrow> bool" where
  "linked A p [] \<longleftrightarrow> True"
| "linked A p (e # es) \<longleftrightarrow> en_previous_hash e = p \<and> entry_verify_integrity A e \<and> linked A (en_entry_hash e) es"

fun head_hash :: "string \<Rightarrow> ('t, 'm) audit_entry list \<Rightarrow> string" where
  "head_hash p [] = p"
| "head_hash p (e # es) = head_hash (en_entry_hash e) es"

abbreviation genesis :: "('t, 'm) audit_externs \<Rightarrow> string" where
  "genesis A \<equiv> sha A genesis_input"

lemma head_hash_snoc [simp]: "head_hash p (es @ [e]) = en_entry_hash e"
  by (induction es arbitrary: p) simp_all

lemma linked_snoc:
  "linked A p (es @ [e]) \<longleftrightarrow> linked A p es \<and> en_previous_hash e = head_hash p es \<and> entry_verify_integrity A e"
  by (induction es arbitrary: p) auto

lemma audit_entry_new_sel [simp]:
  "en_sequence (audit_entry_new A n ev p) = n" "en_event (audit_entry_new A n ev p) = ev"
  "en_previous_hash (audit_entry_new A n ev p) = p" "entry_verify_integrity A (audit_entry_new A n ev p)"
  by (simp_all add: audit_entry_new_def entry_verify_integrity_def compute_hash_def hash_input_def Let_def)

lemma verify_iff_linked: "verify_chain_from_genesis A c es \<longleftrightarrow> linked A (hc_genesis_hash c) es"
proof -
  have "linked A (en_entry_hash e) es \<longleftrightarrow> list_all (entry_verify_integrity A) es \<and> verify_links e es" for e es
    by (induction es arbitrary: e) (auto simp: verify_chain_def)
  then show ?thesis by (cases es) (auto simp: verify_chain_from_genesis_def)
qed

lemma linked_chain: "linked A p (chain A n p evs)"
  by (induction evs arbitrary: n p) simp_all

lemma chain_snoc:
  "chain A n p (evs @ [ev]) =
     chain A n p evs @ [audit_entry_new A (n + word_of_nat (length evs)) ev (head_hash p (chain A n p evs))]"
  by (induction evs arbitrary: n p) (simp_all add: algebra_simps)

lemma linked_take: "linked A p es \<Longrightarrow> linked A p (take n es)"
  by (induction es arbitrary: n p) (auto simp: take_Cons split: nat.split)

text \<open>The chain state that goes with the events recorded so far.\<close>

definition chain_at :: "('t, 'm) audit_externs \<Rightarrow> ('t, 'm) audit_event list \<Rightarrow> hash_chain \<Rightarrow> bool" where
  "chain_at A evs c \<longleftrightarrow> hc_genesis_hash c = genesis A \<and> hc_sequence c = word_of_nat (length evs) \<and>
     hc_current_hash c = head_hash (genesis A) (chain A 0 (genesis A) evs)"

lemma chain_at_new: "chain_at A [] (hash_chain_new A)"
  by (simp add: chain_at_def hash_chain_new_def Let_def)

lemma create_entry_chain:
  assumes "chain_at A evs c" "create_entry A c ev = (c', e)"
  shows "chain_at A (evs @ [ev]) c' \<and> chain A 0 (genesis A) (evs @ [ev]) = chain A 0 (genesis A) evs @ [e]"
  using assms by (auto simp: chain_at_def create_entry_def Let_def chain_snoc)

lemma record_all:
  "al_entries (fold (audit_record A) evs (audit_log_new A)) = chain A 0 (genesis A) evs \<and>
   chain_at A evs (al_chain (fold (audit_record A) evs (audit_log_new A)))"
proof (induction evs rule: rev_induct)
  case Nil
  then show ?case by (simp add: audit_log_new_def chain_at_new)
next
  case (snoc ev evs)
  obtain c e where ce: "create_entry A (al_chain (fold (audit_record A) evs (audit_log_new A))) ev = (c, e)" by fastforce
  let ?L = "fold (audit_record A) evs (audit_log_new A)"
  have "audit_record A ev ?L = \<lparr>al_chain = c, al_entries = al_entries ?L @ [e]\<rparr>" by (simp add: audit_record_def ce)
  then show ?case using create_entry_chain [OF _ ce, of evs] snoc by simp
qed

section \<open>Tampering\<close>

text \<open>
  Inputs of the hash function that a reader of two logs can compute: a collision among them is an
  explicit collision of SHA-256.
\<close>

definition hash_inputs :: "('t, 'm) audit_externs \<Rightarrow> ('t, 'm) audit_entry list \<Rightarrow> u8 list set" where
  "hash_inputs A es = insert genesis_input (hash_input A ` set es)"

definition collision_in :: "('t, 'm) audit_externs \<Rightarrow> u8 list set \<Rightarrow> bool" where
  "collision_in A X \<longleftrightarrow> (\<exists>x \<in> X. \<exists>y \<in> X. x \<noteq> y \<and> sha A x = sha A y)"

lemma hash_inputs_eq:
  assumes "\<not> collision_in A (hash_inputs A es \<union> hash_inputs A es')" "sha A x = sha A y"
    and "x \<in> hash_inputs A es \<union> hash_inputs A es'" "y \<in> hash_inputs A es \<union> hash_inputs A es'"
  shows "x = y"
  using assms by (auto simp: collision_in_def)

definition audit_laws :: "('t, 'm) audit_externs \<Rightarrow> bool" where
  "audit_laws A \<longleftrightarrow> (\<forall>x. length (sha A x) = 64) \<and> (\<forall>e. json A e \<noteq> None) \<and> inj (json A)"

lemma as_bytes_inj: "as_bytes s = as_bytes t \<longleftrightarrow> s = t"
proof -
  have "c = d" if "(word_of_nat (of_char c) :: u8) = word_of_nat (of_char d)" for c d :: char
  proof -
    have "(of_char c :: nat) < 256" "(of_char d :: nat) < 256" by simp_all
    then have "(of_char c :: nat) = of_char d"
      using arg_cong [OF that, of unat] by (simp add: unat_of_nat)
    then show ?thesis by simp
  qed
  then have "inj (\<lambda>c :: char. word_of_nat (of_char c) :: u8)" by (intro injI)
  then show ?thesis by (simp add: as_bytes_def inj_map_eq_map)
qed

lemma length_as_bytes [simp]: "length (as_bytes s) = length s"
  by (simp add: as_bytes_def)

lemma to_le_bytes_inj: "to_le_bytes a = to_le_bytes b \<longleftrightarrow> a = b"
proof
  assume "to_le_bytes a = to_le_bytes b"
  then have "from_be_bytes (to_be_bytes 8 (unat a)) = from_be_bytes (to_be_bytes 8 (unat b))"
    by (simp add: to_le_bytes_def)
  moreover have "unat a < 256 ^ 8" "unat b < 256 ^ 8" using unsigned_less [of a] unsigned_less [of b] by simp_all
  ultimately show "a = b" by (simp add: from_to_be_bytes word_unat_eq_iff)
qed simp

lemma length_to_le_bytes [simp]: "length (to_le_bytes a) = 8"
  by (simp add: to_le_bytes_def)

lemma hash_input_inj:
  assumes "audit_laws A" "length (en_previous_hash e) = 64" "length (en_previous_hash e') = 64"
    and "hash_input A e = hash_input A e'"
  shows "en_sequence e = en_sequence e'" "en_previous_hash e = en_previous_hash e'" "en_event e = en_event e'"
proof -
  obtain j j' where j: "json A (en_event e) = Some j" "json A (en_event e') = Some j'"
    using assms(1) by (fastforce simp: audit_laws_def)
  have "to_le_bytes (en_sequence e) = to_le_bytes (en_sequence e')" "en_previous_hash e = en_previous_hash e'" "j = j'"
    using assms(2-4) by (simp_all add: hash_input_def j as_bytes_inj)
  then show "en_sequence e = en_sequence e'" "en_previous_hash e = en_previous_hash e'" "en_event e = en_event e'"
    using assms(1) j injD [of "json A" "en_event e" "en_event e'"] by (simp_all add: to_le_bytes_inj audit_laws_def)
qed

lemma head_hash_length:
  assumes "audit_laws A" "linked A (genesis A) es"
  shows "length (head_hash (genesis A) es) = 64"
  using assms
  by (cases es rule: rev_cases) (simp_all add: linked_snoc audit_laws_def entry_verify_integrity_def compute_hash_def)

lemma linked_head_inj:
  assumes A: "audit_laws A"
    and "linked A (genesis A) es" "linked A (genesis A) es'" "head_hash (genesis A) es = head_hash (genesis A) es'"
    and "\<not> collision_in A (hash_inputs A es \<union> hash_inputs A es')"
  shows "es = es'"
  using assms(2-5)
proof (induction es arbitrary: es' rule: rev_induct)
  case Nil
  have "es' = []"
  proof (cases es' rule: rev_cases)
    case (snoc es1 e)
    then have "sha A genesis_input = sha A (hash_input A e)"
      using Nil by (simp add: linked_snoc entry_verify_integrity_def compute_hash_def)
    then have "genesis_input = hash_input A e"
      by (rule hash_inputs_eq [OF Nil.prems(4)]) (simp_all add: hash_inputs_def snoc)
    moreover have "length (en_previous_hash e) = 64"
      using Nil snoc head_hash_length [OF A, of es1] by (simp add: linked_snoc)
    ultimately show ?thesis by (auto simp: genesis_input_def hash_input_def dest!: arg_cong [of _ _ length])
  qed
  then show ?case by simp
next
  case (snoc e es)
  show ?case
  proof (cases es' rule: rev_cases)
    case Nil
    then have "sha A (hash_input A e) = sha A genesis_input"
      using snoc.prems by (simp add: linked_snoc entry_verify_integrity_def compute_hash_def)
    then have "hash_input A e = genesis_input"
      by (rule hash_inputs_eq [OF snoc.prems(4)]) (simp_all add: hash_inputs_def)
    moreover have "length (en_previous_hash e) = 64"
      using snoc.prems head_hash_length [OF A, of es] by (simp add: linked_snoc)
    ultimately show ?thesis by (auto simp: genesis_input_def hash_input_def dest!: arg_cong [of _ _ length])
  next
    case es': (snoc es1 e')
    have "sha A (hash_input A e) = sha A (hash_input A e')"
      using snoc.prems es' by (simp add: linked_snoc entry_verify_integrity_def compute_hash_def)
    then have "hash_input A e = hash_input A e'"
      by (rule hash_inputs_eq [OF snoc.prems(4)]) (simp_all add: hash_inputs_def es')
    moreover have "length (en_previous_hash e) = 64" "length (en_previous_hash e') = 64"
      using snoc.prems es' head_hash_length [OF A, of es] head_hash_length [OF A, of es1] by (simp_all add: linked_snoc)
    ultimately have eq: "en_sequence e = en_sequence e'" "en_previous_hash e = en_previous_hash e'" "en_event e = en_event e'"
      using hash_input_inj [OF A, of e e'] by blast+
    have "e = e'" using eq snoc.prems(3) es' by (simp add: audit_entry.equality)
    moreover have "\<not> collision_in A (hash_inputs A es \<union> hash_inputs A es1)"
      using snoc.prems(4) by (auto simp: collision_in_def hash_inputs_def es')
    then have "es = es1" using eq(2) snoc.prems(1,2) es' by (intro snoc.IH) (simp_all add: linked_snoc)
    ultimately show ?thesis by (simp add: es')
  qed
qed

text \<open>
  C13. The audit log is tamper-evident: a log written by any sequence of calls of \<^verbatim>\<open>record\<close> verifies;
  and any list of entries, of any length, that verifies against the chain and ends in the hash the
  chain holds is the very list that was written, unless the inputs hashed for the two lists contain
  two different ones with the same hash.
\<close>

theorem audit_log_tamper_evident:
  fixes A :: "('t, 'm) audit_externs"
  assumes "audit_laws A"
  shows "log_verify_integrity A (fold (audit_record A) evs (audit_log_new A)) \<and>
    (\<forall>es. verify_chain_from_genesis A (al_chain (fold (audit_record A) evs (audit_log_new A))) es \<longrightarrow> es \<noteq> [] \<longrightarrow>
       en_entry_hash (last es) = hc_current_hash (al_chain (fold (audit_record A) evs (audit_log_new A))) \<longrightarrow>
       es = al_entries (fold (audit_record A) evs (audit_log_new A)) \<or>
       collision_in A (hash_inputs A es \<union> hash_inputs A (al_entries (fold (audit_record A) evs (audit_log_new A)))))"
proof -
  let ?L = "fold (audit_record A) evs (audit_log_new A)"
  have R: "al_entries ?L = chain A 0 (genesis A) evs" "chain_at A evs (al_chain ?L)"
    using record_all [of A evs] by simp_all
  have g: "hc_genesis_hash (al_chain ?L) = genesis A"
    and cur: "hc_current_hash (al_chain ?L) = head_hash (genesis A) (al_entries ?L)"
    using R by (simp_all add: chain_at_def)
  have l: "linked A (genesis A) (al_entries ?L)" by (simp add: R(1) linked_chain)
  have "es = al_entries ?L"
    if "linked A (genesis A) es" "es \<noteq> []" "en_entry_hash (last es) = hc_current_hash (al_chain ?L)"
      "\<not> collision_in A (hash_inputs A es \<union> hash_inputs A (al_entries ?L))" for es
  proof (rule linked_head_inj [OF assms that(1) l _ that(4)])
    show "head_hash (genesis A) es = head_hash (genesis A) (al_entries ?L)"
      using that(2,3) cur by (cases es rule: rev_cases) simp_all
  qed
  then show ?thesis using l by (auto simp: log_verify_integrity_def verify_iff_linked g)
qed

text \<open>A coder that satisfies the laws: strings are written with an end mark.\<close>

fun enc_str :: "string \<Rightarrow> string" where
  "enc_str [] = ''0''"
| "enc_str (c # s) = CHR ''1'' # c # enc_str s"

definition enc_opt :: "('a \<Rightarrow> string) \<Rightarrow> 'a option \<Rightarrow> string" where
  "enc_opt f x = (case x of None \<Rightarrow> ''0'' | Some v \<Rightarrow> CHR ''1'' # f v)"

lemma enc_str_cancel: "enc_str s @ r = enc_str t @ r' \<longleftrightarrow> s = t \<and> r = r'"
  by (induction s arbitrary: t) (case_tac t; auto)+

definition ex_json :: "(unit, unit) audit_event \<Rightarrow> string" where
  "ex_json e =
     enc_str (map (\<lambda>b. char_of (unat b)) (ae_event_id e)) @ enc_str (ae_transaction_id e) @ enc_str (ae_actor e) @
     enc_str (action_debug (ae_action e)) @ enc_str (outcome_text (ae_result e)) @
     enc_str (enc_opt (\<lambda>n. show_nat (unat n)) (ae_latency_ns e)) @ enc_str (enc_opt (\<lambda>_. []) (ae_metadata e)) @
     enc_str (enc_opt id (ae_error e))"

lemma enc_opt_inj: "inj f \<Longrightarrow> enc_opt f x = enc_opt f y \<longleftrightarrow> x = y"
  by (auto simp: enc_opt_def inj_eq split: option.split)

lemma bytes_as_chars_inj: "map (\<lambda>b. char_of (unat b) :: char) xs = map (\<lambda>b. char_of (unat b)) ys \<longleftrightarrow> xs = ys" for xs ys :: "u8 list"
proof -
  have "a = b" if "(char_of (unat a) :: char) = char_of (unat b)" for a b :: u8
  proof -
    have "unat a < 256" "unat b < 256" using unsigned_less [of a] unsigned_less [of b] by simp_all
    then have "unat a = unat b" using arg_cong [OF that, of "of_char :: char \<Rightarrow> nat"] by simp
    then show ?thesis by (simp add: word_unat_eq_iff)
  qed
  then have "inj (\<lambda>b :: u8. char_of (unat b) :: char)" by (intro injI)
  then show ?thesis by (rule inj_map_eq_map)
qed

lemma ex_json_inj: "inj ex_json"
proof (rule injI)
  fix e e'
  assume "ex_json e = ex_json e'"
  moreover have "enc_str s = enc_str t \<longleftrightarrow> s = t" for s t using enc_str_cancel [of s "[]" t "[]"] by simp
  moreover have "action_debug a = action_debug b \<longleftrightarrow> a = b" for a b by (cases a; cases b) simp_all
  moreover have "outcome_text a = outcome_text b \<longleftrightarrow> a = b" for a b by (cases a; cases b) simp_all
  moreover have "inj (\<lambda>n :: u64. show_nat (unat n))" by (intro injI) (simp add: show_nat_inject word_unat_eq_iff)
  moreover have "inj (\<lambda>_ :: unit. [] :: string)" by (intro injI) simp
  ultimately show "e = e'"
    by (intro audit_event.equality) (simp_all add: ex_json_def enc_str_cancel bytes_as_chars_inj enc_opt_inj)
qed

definition ex_audit :: "(unit, unit) audit_externs" where
  "ex_audit = \<lparr>sha = \<lambda>x. map (\<lambda>i. if i < length x then char_of (unat (x ! i)) else CHR ''0'') [0..<64], json = \<lambda>e. Some (ex_json e)\<rparr>"

definition ex_audit_event :: "(unit, unit) audit_event" where
  "ex_audit_event = with_result ''success'' (audit_event_new [1] () ''tx'' ''alice'' LedgerCommitted)"

theorem audit_log_tamper_evident_witness:
  "audit_laws ex_audit \<and> log_verify_integrity ex_audit (fold (audit_record ex_audit) [ex_audit_event, ex_audit_event] (audit_log_new ex_audit))"
proof -
  have "audit_laws ex_audit" using ex_json_inj by (simp add: audit_laws_def ex_audit_def inj_def)
  with audit_log_tamper_evident [OF this, of "[ex_audit_event, ex_audit_event]"] show ?thesis by blast
qed

section \<open>Concurrent recording\<close>

text \<open>
  \<^verbatim>\<open>record\<close> releases the lock of the chain before it takes the lock of the entries, so a call is two
  steps: one creates the entry, a later one appends it.
\<close>

record ('t, 'm) audit_race =
  ar_log :: "('t, 'm) audit_log"
  ar_pending :: "('t, 'm) audit_entry list"

inductive audit_step :: "('t, 'm) audit_externs \<Rightarrow> ('t, 'm) audit_race \<Rightarrow> ('t, 'm) audit_race \<Rightarrow> bool" for A where
  au_create: "create_entry A (al_chain (ar_log S)) ev = (c, e) \<Longrightarrow>
    audit_step A S \<lparr>ar_log = (ar_log S)\<lparr>al_chain := c\<rparr>, ar_pending = ar_pending S @ [e]\<rparr>"
| au_push: "ar_pending S = xs @ [e] @ ys \<Longrightarrow>
    audit_step A S \<lparr>ar_log = (ar_log S)\<lparr>al_entries := al_entries (ar_log S) @ [e]\<rparr>, ar_pending = xs @ ys\<rparr>"

definition audit_race_init :: "('t, 'm) audit_externs \<Rightarrow> ('t, 'm) audit_race" where
  "audit_race_init A = \<lparr>ar_log = audit_log_new A, ar_pending = []\<rparr>"

lemma audit_race_inv:
  assumes "(audit_step A)\<^sup>*\<^sup>* (audit_race_init A) S"
  shows "\<exists>evs. chain_at A evs (al_chain (ar_log S)) \<and>
    mset (al_entries (ar_log S)) + mset (ar_pending S) = mset (chain A 0 (genesis A) evs)"
  using assms
proof (induction rule: rtranclp_induct)
  case base
  show ?case
    by (rule exI [of _ "[]"]) (simp add: audit_race_init_def audit_log_new_def chain_at_new)
next
  case (step S S')
  then obtain evs where evs: "chain_at A evs (al_chain (ar_log S))"
    "mset (al_entries (ar_log S)) + mset (ar_pending S) = mset (chain A 0 (genesis A) evs)" by blast
  from step(2) show ?case
  proof (cases rule: audit_step.cases)
    case (au_create ev c e)
    with create_entry_chain [OF evs(1) au_create(2)] evs(2) show ?thesis
      by (intro exI [of _ "evs @ [ev]"]) simp
  next
    case (au_push xs e ys)
    then show ?thesis using evs by (intro exI [of _ evs]) simp
  qed
qed


text \<open>
  The permutation need not be the identity: two calls can append in the opposite order of their
  creation, and then a log that nobody tampered with fails its own verification (unless an entry
  hashes to the genesis hash).
\<close>

lemma audit_record_race:
  assumes "hc_current_hash (fst (create_entry A (hash_chain_new A) ev)) \<noteq> genesis A"
  shows "\<exists>S. (audit_step A)\<^sup>*\<^sup>* (audit_race_init A) S \<and> ar_pending S = [] \<and> \<not> log_verify_integrity A (ar_log S)"
proof -
  let ?S0 = "audit_race_init A"
  obtain c1 e1 where 1: "create_entry A (al_chain (ar_log ?S0)) ev = (c1, e1)" by fastforce
  let ?S1 = "\<lparr>ar_log = (ar_log ?S0)\<lparr>al_chain := c1\<rparr>, ar_pending = ar_pending ?S0 @ [e1]\<rparr>"
  obtain c2 e2 where 2: "create_entry A (al_chain (ar_log ?S1)) ev = (c2, e2)" by fastforce
  let ?S2 = "\<lparr>ar_log = (ar_log ?S1)\<lparr>al_chain := c2\<rparr>, ar_pending = ar_pending ?S1 @ [e2]\<rparr>"
  let ?S3 = "\<lparr>ar_log = (ar_log ?S2)\<lparr>al_entries := al_entries (ar_log ?S2) @ [e2]\<rparr>, ar_pending = [e1] @ []\<rparr>"
  let ?S4 = "\<lparr>ar_log = (ar_log ?S3)\<lparr>al_entries := al_entries (ar_log ?S3) @ [e1]\<rparr>, ar_pending = [] @ []\<rparr>"
  have a: "audit_step A ?S0 ?S1" using 1 by (rule au_create)
  have b: "audit_step A ?S1 ?S2" using 2 by (rule au_create)
  have c: "audit_step A ?S2 ?S3" by (rule au_push) (simp add: audit_race_init_def)
  have d: "audit_step A ?S3 ?S4" by (rule au_push) simp
  have "(audit_step A)\<^sup>*\<^sup>* ?S0 ?S4"
    by (rule converse_rtranclp_into_rtranclp [OF a converse_rtranclp_into_rtranclp [OF b
        converse_rtranclp_into_rtranclp [OF c r_into_rtranclp [of "audit_step A", OF d]]]])
  moreover have "en_previous_hash e2 = hc_current_hash c1" using 2 by (auto simp: create_entry_def Let_def)
  moreover have "hc_current_hash c1 \<noteq> genesis A"
    using assms 1 by (simp add: audit_race_init_def audit_log_new_def)
  moreover have "hc_genesis_hash c2 = genesis A"
    using 1 2 by (auto simp: create_entry_def Let_def audit_race_init_def audit_log_new_def hash_chain_new_def)
  ultimately show ?thesis
    by (intro exI [of _ ?S4]) (simp add: log_verify_integrity_def verify_iff_linked audit_race_init_def audit_log_new_def)
qed


text \<open>
  Verification compares neither the last hash nor the number of entries with the chain: a log cut
  off at any point still verifies.
\<close>

lemma truncated_log_verifies: "log_verify_integrity A L \<Longrightarrow> log_verify_integrity A (L\<lparr>al_entries := take n (al_entries L)\<rparr>)"
  by (simp add: log_verify_integrity_def verify_iff_linked linked_take)

text \<open>With one bound of the range given, the CEF export takes the whole log.\<close>

lemma export_cef_half_range: "export_cef f g (Some s) None L = export_cef f g None None L"
  by (simp add: export_cef_def)

end
