(* ===== verification/Blz_Sharding.thy ===== *)
theory Blz_Sharding
  imports Blz_Prelude Complex_Main
begin

text \<open>
  The sharding library of the Go services (\<^verbatim>\<open>libs/sharding\<close>): jump consistent hashing, the node
  ring, the shard router, the rebalancer and the coordinator of transfers across shards.

  \<^verbatim>\<open>float64\<close> arithmetic is real arithmetic followed by a rounding function, which is an argument;
  what is used of it is that IEEE rounding is monotone and exact on integers of up to 53 bits. The
  network clients of the coordinator are a record of functions over a state of their own.
\<close>

section \<open>Jump consistent hash (hasher.go)\<close>

definition jump_key :: "u64 \<Rightarrow> u64" where
  "jump_key key = key * 2862933555777941757 + 1"

definition jump_next :: "(real \<Rightarrow> real) \<Rightarrow> u64 \<Rightarrow> int \<Rightarrow> int" where
  "jump_next rnd key b =
     \<lfloor>rnd (rnd (of_int (b + 1)) * rnd (rnd (2 ^ 31) / rnd (of_nat (unat (drop_bit 33 key + 1)))))\<rfloor>"

partial_function (option) jump_loop :: "(real \<Rightarrow> real) \<Rightarrow> int \<Rightarrow> u64 \<Rightarrow> int \<Rightarrow> int \<Rightarrow> int option" where
  "jump_loop rnd n key b j =
     (if j < n then jump_loop rnd n (jump_key key) j (jump_next rnd (jump_key key) j) else Some b)"

definition JumpHash :: "(real \<Rightarrow> real) \<Rightarrow> u64 \<Rightarrow> int \<Rightarrow> int option" where
  "JumpHash rnd key num_buckets = jump_loop rnd num_buckets key (- 1) 0"

definition ieee_round :: "(real \<Rightarrow> real) \<Rightarrow> bool" where
  "ieee_round rnd \<longleftrightarrow> mono rnd \<and> (\<forall>k :: int. \<bar>k\<bar> \<le> 2 ^ 53 \<longrightarrow> rnd (of_int k) = of_int k)"

subsection \<open>The hash is total, in range and consistent\<close>

lemma shifted_key_bound: "1 \<le> unat (drop_bit 33 key + 1 :: u64)" "unat (drop_bit 33 key + 1 :: u64) \<le> 2 ^ 31"
proof -
  have "unat (drop_bit 33 key) = unat key div 2 ^ 33" by (simp only: unat_drop_bit_eq drop_bit_eq_div [of 33 "unat key"])
  moreover have "unat key < 2 ^ 64" using unsigned_less [of key] by simp
  then have "unat key div 2 ^ 33 < 2 ^ 31" by (simp add: less_mult_imp_div_less)
  ultimately have u: "unat (drop_bit 33 key + 1) = unat (drop_bit 33 key) + 1" "unat (drop_bit 33 key) < 2 ^ 31"
    by (simp_all add: unat_word_ariths)
  then show "1 \<le> unat (drop_bit 33 key + 1)" "unat (drop_bit 33 key + 1) \<le> 2 ^ 31" by simp_all
qed

lemma jump_next_gt:
  assumes "ieee_round rnd" "0 \<le> b" "b < 2 ^ 31"
  shows "b < jump_next rnd key b"
proof -
  define k where "k = unat (drop_bit 33 key + 1)"
  have kb: "1 \<le> k" "k \<le> 2 ^ 31" using shifted_key_bound [of key] by (simp_all add: k_def)
  have ex: "rnd (of_int i) = of_int i" if "\<bar>i\<bar> \<le> 2 ^ 53" for i using assms(1) that by (simp add: ieee_round_def)
  have mono: "x \<le> y \<Longrightarrow> rnd x \<le> rnd y" for x y using assms(1) by (auto simp: ieee_round_def dest: monoD)
  have k: "rnd (of_nat k) = of_nat k" using ex [of "int k"] kb by simp
  have two: "rnd (2 ^ 31) = 2 ^ 31" using ex [of "2 ^ 31"] by simp
  have "(1 :: real) \<le> 2 ^ 31 / of_nat k"
  proof -
    have "real k \<le> real (2 ^ 31)" using kb(2) by (simp only: of_nat_le_iff)
    moreover have "0 < real k" using kb(1) by simp
    ultimately show ?thesis by simp
  qed
  then have q: "1 \<le> rnd (2 ^ 31 / of_nat k)" using mono [of 1] ex [of 1] by simp
  have b: "rnd (of_int (b + 1)) = of_int (b + 1)" using assms(2,3) by (intro ex) simp
  have "of_int (b + 1) * 1 \<le> of_int (b + 1) * rnd (2 ^ 31 / of_nat k)"
    using q assms(2) by (intro mult_left_mono) simp_all
  then have "rnd (of_int (b + 1)) \<le> rnd (of_int (b + 1) * rnd (2 ^ 31 / of_nat k))"
    by (intro mono) simp
  then have "of_int (b + 1) \<le> rnd (of_int (b + 1) * rnd (2 ^ 31 / of_nat k))" by (simp only: b)
  then have "b + 1 \<le> jump_next rnd key b" unfolding jump_next_def k_def [symmetric] k two b by (simp add: le_floor_iff)
  then show ?thesis by simp
qed

lemma jump_loop_range:
  assumes "ieee_round rnd" "n \<le> 2 ^ 31" "0 \<le> j" "b < n" "- 1 \<le> b" "b < j"
  shows "\<exists>r. jump_loop rnd n key b j = Some r \<and> b \<le> r \<and> r < n \<and> (j < n \<longrightarrow> j \<le> r)"
  using assms(3-6)
proof (induction "nat (n - j)" arbitrary: key b j rule: less_induct)
  case less
  show ?case
  proof (cases "j < n")
    case True
    let ?k = "jump_key key"
    have "j < jump_next rnd ?k j" using less.prems True assms(1,2) by (intro jump_next_gt) simp_all
    then obtain r where "jump_loop rnd n ?k j (jump_next rnd ?k j) = Some r" "j \<le> r" "r < n"
      using less.hyps [of "jump_next rnd ?k j" j ?k] less.prems True by force
    then show ?thesis using True less.prems by (subst jump_loop.simps) auto
  next
    case False
    then show ?thesis using less.prems by (subst jump_loop.simps) simp
  qed
qed

lemma jump_loop_grow:
  assumes "ieee_round rnd" "n < 2 ^ 31" "0 \<le> j" "b < n" "- 1 \<le> b" "b < j"
    and "jump_loop rnd n key b j = Some r"
  shows "jump_loop rnd (n + 1) key b j = Some r \<or> jump_loop rnd (n + 1) key b j = Some n"
  using assms(3-7)
proof (induction "nat (n - j)" arbitrary: key b j rule: less_induct)
  case less
  let ?k = "jump_key key" and ?j = "jump_next rnd (jump_key key) j"
  consider "j < n" | "j = n" | "j > n" by linarith
  then show ?case
  proof cases
    case 1
    have gt: "j < ?j" using less.prems 1 assms(1,2) by (intro jump_next_gt) simp_all
    have "jump_loop rnd n ?k j ?j = Some r"
      using less.prems(5) 1 by (subst (asm) jump_loop.simps) simp
    then have "jump_loop rnd (n + 1) ?k j ?j = Some r \<or> jump_loop rnd (n + 1) ?k j ?j = Some n"
      using less.hyps [of ?j j ?k] less.prems 1 gt by simp
    then show ?thesis using 1 by (subst (1 2) jump_loop.simps) simp
  next
    case 2
    have gt: "j < ?j" using less.prems 2 assms(1,2) by (intro jump_next_gt) simp_all
    then have "jump_loop rnd (n + 1) ?k j ?j = Some n" using 2 by (subst jump_loop.simps) simp
    then show ?thesis using 2 by (subst (2) jump_loop.simps) simp
  next
    case 3
    then show ?thesis using less.prems(5) by (subst (1 2) jump_loop.simps) (simp add: jump_loop.simps [of rnd n])
  qed
qed

text \<open>
  C14. Shard assignment is total, in range and consistent: for every account and every number of
  shards from one to \<open>2 ^ 31 - 1\<close>, jump hashing ends and returns a shard below that number; and when one
  shard is added, every account stays on its shard or moves to the new one. Only monotonicity
  and exactness on small integers of floating-point rounding are used.
\<close>

theorem jump_hash_consistent:
  assumes "ieee_round rnd" "0 < n" "n < 2 ^ 31"
  shows "\<exists>r. JumpHash rnd key n = Some r \<and> 0 \<le> r \<and> r < n \<and>
    (JumpHash rnd key (n + 1) = Some r \<or> JumpHash rnd key (n + 1) = Some n)"
proof -
  obtain r where r: "JumpHash rnd key n = Some r" "0 \<le> r" "r < n"
    using jump_loop_range [of rnd n 0 "- 1" key] assms by (auto simp: JumpHash_def)
  with jump_loop_grow [of rnd n 0 "- 1" key r] assms show ?thesis by (auto simp: JumpHash_def)
qed

theorem jump_hash_consistent_witness:
  "\<exists>r. JumpHash (\<lambda>x. x) 42 3 = Some r \<and> 0 \<le> r \<and> r < 3 \<and> JumpHash (\<lambda>x. x) 42 4 \<in> {Some r, Some 3}"
  using jump_hash_consistent [of "\<lambda>x. x" 3 42] by (simp add: ieee_round_def mono_def)

section \<open>The node ring (node.go)\<close>

datatype node_status = NodeStatusHealthy | NodeStatusDegraded | NodeStatusDown

record node_info =
  ni_id :: string
  ni_address :: string
  ni_shard_id :: int
  ni_status :: node_status
  ni_last_seen :: nat

type_synonym node_ring = "node_info list"

datatype sharding_error =
  NodeExists string | NodeNotFound string | NoHealthyNode int | NoHealthyNodes
| RouteAccount u64 int sharding_error | RouteShard int sharding_error

fun ring_add :: "node_info \<Rightarrow> node_ring \<Rightarrow> (sharding_error, node_ring) result" where
  "ring_add node r = (if \<exists>n \<in> set r. ni_id n = ni_id node then Inl (NodeExists (ni_id node)) else Inr (r @ [node]))"

fun ring_remove :: "string \<Rightarrow> node_ring \<Rightarrow> (sharding_error, node_ring) result" where
  "ring_remove i [] = Inl (NodeNotFound i)"
| "ring_remove i (n # r) =
     (if ni_id n = i then Inr r else (case ring_remove i r of Inl e \<Rightarrow> Inl e | Inr r' \<Rightarrow> Inr (n # r')))"

definition ring_lookup :: "int \<Rightarrow> node_ring \<Rightarrow> (sharding_error, node_info) result" where
  "ring_lookup shard r =
     (case find (\<lambda>n. ni_shard_id n = shard \<and> ni_status n \<noteq> NodeStatusDown) r of
        None \<Rightarrow> Inl (NoHealthyNode shard) | Some n \<Rightarrow> Inr n)"

definition ring_healthy :: "node_ring \<Rightarrow> node_info list" where
  "ring_healthy r = filter (\<lambda>n. ni_status n \<noteq> NodeStatusDown) r"

fun update_status :: "string \<Rightarrow> node_status \<Rightarrow> nat \<Rightarrow> node_ring \<Rightarrow> node_ring" where
  "update_status i st now [] = []"
| "update_status i st now (n # r) =
     (if ni_id n = i then n\<lparr>ni_status := st, ni_last_seen := now\<rparr> # r else n # update_status i st now r)"

section \<open>The shard router (router.go)\<close>

record shard_router =
  sr_ring :: node_ring
  sr_shards :: int

text \<open>\<open>None\<close> stands for a hash that does not return.\<close>

definition route_by_account :: "(real \<Rightarrow> real) \<Rightarrow> shard_router \<Rightarrow> u64 \<Rightarrow> (sharding_error, node_info) result option" where
  "route_by_account rnd R a =
     map_option (\<lambda>shard. map_err (RouteAccount a shard) (ring_lookup shard (sr_ring R))) (JumpHash rnd a (sr_shards R))"

definition route_by_shard_id :: "shard_router \<Rightarrow> int \<Rightarrow> (sharding_error, node_info) result" where
  "route_by_shard_id R shard = map_err (RouteShard shard) (ring_lookup shard (sr_ring R))"

definition is_cross_shard :: "(real \<Rightarrow> real) \<Rightarrow> shard_router \<Rightarrow> u64 \<Rightarrow> u64 \<Rightarrow> bool option" where
  "is_cross_shard rnd R a b =
     Option.bind (JumpHash rnd a (sr_shards R)) (\<lambda>x. Option.bind (JumpHash rnd b (sr_shards R)) (\<lambda>y. Some (x \<noteq> y)))"

section \<open>The rebalancer (rebalancer.go)\<close>

record rebalance_move =
  rm_from :: string
  rm_to :: string
  rm_shard :: int
  rm_range :: "u64 \<times> u64"

definition should_rebalance :: "node_ring \<Rightarrow> bool" where
  "should_rebalance r = (\<exists>n \<in> set r. ni_status n = NodeStatusDown)"

fun plan_moves :: "node_info list \<Rightarrow> nat \<Rightarrow> node_info list \<Rightarrow> rebalance_move list" where
  "plan_moves healthy k [] = []"
| "plan_moves healthy k (n # r) =
     (if ni_status n \<noteq> NodeStatusDown then plan_moves healthy k r
      else \<lparr>rm_from = ni_id n, rm_to = ni_id (healthy ! (k mod length healthy)), rm_shard = ni_shard_id n,
             rm_range = (0, - 1)\<rparr> # plan_moves healthy (Suc k) r)"

definition rebalance_plan :: "node_ring \<Rightarrow> (sharding_error, rebalance_move list) result" where
  "rebalance_plan r =
     (if ring_healthy r = [] then Inl NoHealthyNodes else Inr (plan_moves (ring_healthy r) 0 r))"

subsection \<open>The plan\<close>

definition down_nodes :: "node_ring \<Rightarrow> node_info list" where
  "down_nodes r = filter (\<lambda>n. ni_status n = NodeStatusDown) r"

lemma plan_moves_from: "map (\<lambda>m. (rm_from m, rm_shard m)) (plan_moves h k r) = map (\<lambda>n. (ni_id n, ni_shard_id n)) (down_nodes r)"
  by (induction h k r rule: plan_moves.induct) (auto simp: down_nodes_def)

lemma plan_moves_to:
  "i < length (down_nodes r) \<Longrightarrow> rm_to (plan_moves h k r ! i) = ni_id (h ! ((k + i) mod length h))"
proof (induction r arbitrary: k i)
  case (Cons n r)
  show ?case
  proof (cases "ni_status n = NodeStatusDown")
    case True
    then show ?thesis using Cons by (cases i) (simp_all add: down_nodes_def)
  next
    case False
    then show ?thesis using Cons by (simp add: down_nodes_def)
  qed
qed (simp add: down_nodes_def)

text \<open>
  The rebalancing plan is complete and even: with a healthy node, the plan has exactly one move
  for every node that is down, in ring order, away from that node and for its shard; the targets
  are healthy nodes in rotation, so no healthy node receives two shards more than another.
\<close>

theorem rebalance_plan_correct:
  assumes "ring_healthy r \<noteq> []"
  shows "\<exists>ms. rebalance_plan r = Inr ms \<and>
    map (\<lambda>m. (rm_from m, rm_shard m)) ms = map (\<lambda>n. (ni_id n, ni_shard_id n)) (down_nodes r) \<and>
    (\<forall>i < length ms. rm_to (ms ! i) = ni_id (ring_healthy r ! (i mod length (ring_healthy r))) \<and>
       ring_healthy r ! (i mod length (ring_healthy r)) \<in> set r)"
proof -
  let ?h = "ring_healthy r" and ?ms = "plan_moves (ring_healthy r) 0 r"
  have len: "length ?ms = length (down_nodes r)" using arg_cong [OF plan_moves_from [of ?h 0 r], of length] by simp
  have "?h ! (i mod length ?h) \<in> set ?h" for i using assms by (intro nth_mem) simp
  then have "?h ! (i mod length ?h) \<in> set r" for i by (auto simp: ring_healthy_def)
  then show ?thesis
    using assms plan_moves_from [of ?h 0 r] plan_moves_to [of _ r ?h 0] len
    by (intro exI [of _ ?ms]) (simp add: rebalance_plan_def)
qed

section \<open>The load balancer (balancer.go)\<close>

text \<open>
  Connections are values of a type \<open>'c\<close>; dialling, closing and the state of a connection belong to the
  gRPC package and are arguments.  A connection is dialled lazily and kept in the pool.
\<close>

datatype connectivity = Idle | Connecting | Ready | TransientFailure | Shutdown

datatype 'e balancer_error =
  NoNodesForAccount u64 | BalancerRoute sharding_error | DialFailed string 'e | CloseFailed string 'e

record 'c balancer =
  lb_router :: shard_router
  lb_ring :: node_ring
  lb_pool :: "(string \<times> 'c) list"

definition balancer_new :: "shard_router \<Rightarrow> node_ring \<Rightarrow> 'c balancer" where
  "balancer_new R r = \<lparr>lb_router = R, lb_ring = r, lb_pool = []\<rparr>"

definition get_or_dial_conn ::
  "(string \<Rightarrow> ('e, 'c) result) \<Rightarrow> string \<Rightarrow> 'c balancer \<Rightarrow> 'c balancer \<times> ('e balancer_error, 'c) result" where
  "get_or_dial_conn dial addr B =
     (case map_of (lb_pool B) addr of
        Some c \<Rightarrow> (B, Inr c)
      | None \<Rightarrow>
        (case dial addr of
           Inl e \<Rightarrow> (B, Inl (DialFailed addr e))
         | Inr c \<Rightarrow> (B\<lparr>lb_pool := (addr, c) # lb_pool B\<rparr>, Inr c)))"

definition get_connection ::
  "(real \<Rightarrow> real) \<Rightarrow> (string \<Rightarrow> ('e, 'c) result) \<Rightarrow> u64 \<Rightarrow> 'c balancer \<Rightarrow>
   ('c balancer \<times> ('e balancer_error, 'c) result) option" where
  "get_connection rnd dial a B =
     map_option (\<lambda>routed. case routed of
         Inr n \<Rightarrow> get_or_dial_conn dial (ni_address n) B
       | Inl _ \<Rightarrow>
         (case ring_healthy (lb_ring B) of
            [] \<Rightarrow> (B, Inl (NoNodesForAccount a))
          | n # _ \<Rightarrow> get_or_dial_conn dial (ni_address n) B))
       (route_by_account rnd (lb_router B) a)"

definition get_connection_for_shard ::
  "(string \<Rightarrow> ('e, 'c) result) \<Rightarrow> int \<Rightarrow> 'c balancer \<Rightarrow> 'c balancer \<times> ('e balancer_error, 'c) result" where
  "get_connection_for_shard dial shard B =
     (case route_by_shard_id (lb_router B) shard of
        Inl e \<Rightarrow> (B, Inl (BalancerRoute e))
      | Inr n \<Rightarrow> get_or_dial_conn dial (ni_address n) B)"

fun health_check_loop ::
  "('c \<Rightarrow> connectivity) \<Rightarrow> nat \<Rightarrow> (string \<times> 'c) list \<Rightarrow> node_info list \<Rightarrow> node_ring \<Rightarrow> node_ring" where
  "health_check_loop state now pool [] r = r"
| "health_check_loop state now pool (n # ns) r =
     health_check_loop state now pool ns
       (case map_of pool (ni_address n) of
          None \<Rightarrow> r
        | Some c \<Rightarrow> if state c = TransientFailure \<or> state c = Shutdown
                    then update_status (ni_id n) NodeStatusDegraded now r else r)"

text \<open>The router and the balancer hold the same ring by reference.\<close>

definition health_check :: "('c \<Rightarrow> connectivity) \<Rightarrow> nat \<Rightarrow> 'c balancer \<Rightarrow> 'c balancer" where
  "health_check state now B =
     (let r = health_check_loop state now (lb_pool B) (lb_ring B) (lb_ring B)
      in B\<lparr>lb_ring := r, lb_router := (lb_router B)\<lparr>sr_ring := r\<rparr>\<rparr>)"

fun close_first_error :: "('c \<Rightarrow> 'e option) \<Rightarrow> (string \<times> 'c) list \<Rightarrow> 'e balancer_error option" where
  "close_first_error close [] = None"
| "close_first_error close ((addr, c) # pool) =
     (case close c of
        None \<Rightarrow> close_first_error close pool
      | Some e \<Rightarrow> Some (CloseFailed addr e))"

definition balancer_close :: "('c \<Rightarrow> 'e option) \<Rightarrow> 'c balancer \<Rightarrow> 'c balancer \<times> 'e balancer_error option" where
  "balancer_close close B = (B\<lparr>lb_pool := []\<rparr>, close_first_error close (lb_pool B))"

subsection \<open>The ring and the pool\<close>

definition ring_ids_distinct :: "node_ring \<Rightarrow> bool" where
  "ring_ids_distinct r = distinct (map ni_id r)"

lemma ring_add_distinct: "ring_ids_distinct r \<Longrightarrow> ring_add n r = Inr r' \<Longrightarrow> ring_ids_distinct r'"
  by (fastforce simp: ring_ids_distinct_def split: if_splits)

lemma ring_remove_removes:
  "ring_remove i r = Inr r' \<Longrightarrow> (\<exists>xs n ys. r = xs @ n # ys \<and> ni_id n = i \<and> r' = xs @ ys)"
proof (induction r arbitrary: r')
  case (Cons a r)
  show ?case
  proof (cases "ni_id a = i")
    case True
    then show ?thesis
      using Cons.prems by (intro exI [of _ "[]"]) simp
  next
    case False
    then obtain r2 where "ring_remove i r = Inr r2" "r' = a # r2"
      using Cons.prems by (auto split: sum.splits)
    moreover then obtain xs n ys where "r = xs @ n # ys" "ni_id n = i" "r2 = xs @ ys"
      using Cons.IH by blast
    ultimately have "a # r = (a # xs) @ n # ys \<and> ni_id n = i \<and> r' = (a # xs) @ ys"
      by simp
    then show ?thesis
      by blast
  qed
qed simp

lemma ring_remove_distinct: "ring_ids_distinct r \<Longrightarrow> ring_remove i r = Inr r' \<Longrightarrow> ring_ids_distinct r'"
  by (auto simp: ring_ids_distinct_def dest!: ring_remove_removes)

lemma update_status_shape [simp]:
  "map ni_id (update_status i st now r) = map ni_id r"
  "map ni_address (update_status i st now r) = map ni_address r"
  "map ni_shard_id (update_status i st now r) = map ni_shard_id r"
  by (induction r) auto

lemma health_check_loop_shape [simp]:
  "map ni_id (health_check_loop state now pool ns r) = map ni_id r"
  "map ni_shard_id (health_check_loop state now pool ns r) = map ni_shard_id r"
  by (induction ns arbitrary: r) (auto split: option.splits)

lemma health_check_keeps_ids: "ring_ids_distinct (lb_ring B) \<Longrightarrow> ring_ids_distinct (lb_ring (health_check state now B))"
  by (simp add: ring_ids_distinct_def health_check_def Let_def)

text \<open>A second request for the same address reuses the connection whatever dialling would give.\<close>

lemma get_or_dial_reuses:
  "get_or_dial_conn dial addr B = (B', Inr c) \<Longrightarrow> get_or_dial_conn dial' addr B' = (B', Inr c)"
  by (auto simp: get_or_dial_conn_def split: option.splits sum.splits)

text \<open>
  The health check turns a node that is down into a degraded one when its connection fails, and a degraded
  node is routed to.
\<close>

lemma health_check_revives_down_node:
  assumes "lb_ring B = [\<lparr>ni_id = i, ni_address = a, ni_shard_id = k, ni_status = NodeStatusDown, ni_last_seen = t\<rparr>]"
    and "map_of (lb_pool B) a = Some c" and "state c = TransientFailure"
  shows "ring_lookup k (lb_ring B) = Inl (NoHealthyNode k)"
    and "ring_lookup k (lb_ring (health_check state now B)) =
      Inr \<lparr>ni_id = i, ni_address = a, ni_shard_id = k, ni_status = NodeStatusDegraded, ni_last_seen = now\<rparr>"
  using assms by (simp_all add: ring_lookup_def health_check_def Let_def)

section \<open>Transfers across shards (crossshard.go)\<close>

record cross_shard_request =
  cs_from :: u64
  cs_to :: u64
  cs_amount :: i64
  cs_currency :: string
  cs_key :: string

text \<open>
  The factory and the clients it returns, over their common state \<open>'s\<close>; a client is a handle \<open>'k\<close>.
\<close>

record ('s, 'k, 'e) transfer_api =
  api_factory :: "string \<Rightarrow> 's \<Rightarrow> 's \<times> 'k"
  api_submit_pending :: "'k \<Rightarrow> cross_shard_request \<Rightarrow> 's \<Rightarrow> 's \<times> ('e, string) result"
  api_commit :: "'k \<Rightarrow> string \<Rightarrow> 's \<Rightarrow> 's \<times> ('e, unit) result"
  api_void :: "'k \<Rightarrow> string \<Rightarrow> 's \<Rightarrow> 's \<times> ('e, unit) result"

datatype 'e cross_shard_error =
  SameShard u64 u64 | RouteSource u64 sharding_error | RouteDest u64 sharding_error
| SubmitPendingFailed string 'e | CommitFailed string 'e

record 'e coordinator =
  co_router :: shard_router
  co_cache :: "string \<rightharpoonup> ('e cross_shard_error, unit) result"

definition coordinator_new :: "shard_router \<Rightarrow> 'e coordinator" where
  "coordinator_new R = \<lparr>co_router = R, co_cache = Map.empty\<rparr>"

definition cache_store ::
  "string \<Rightarrow> ('e cross_shard_error, unit) result \<Rightarrow> 'e coordinator \<Rightarrow> 'e coordinator" where
  "cache_store key outcome C = C\<lparr>co_cache := (co_cache C)(key \<mapsto> outcome)\<rparr>"

definition cross_shard_execute ::
  "(real \<Rightarrow> real) \<Rightarrow> ('s, 'k, 'e) transfer_api \<Rightarrow> cross_shard_request \<Rightarrow> 'e coordinator \<times> 's \<Rightarrow>
   (('e coordinator \<times> 's) \<times> ('e cross_shard_error, unit) result) option" where
  "cross_shard_execute rnd api req st =
     (let (C, s) = st; R = co_router C
      in Option.bind (is_cross_shard rnd R (cs_from req) (cs_to req)) (\<lambda>cross.
         if \<not> cross then Some ((C, s), Inl (SameShard (cs_from req) (cs_to req)))
         else case co_cache C (cs_key req) of
           Some outcome \<Rightarrow> Some ((C, s), outcome)
         | None \<Rightarrow>
         Option.bind (route_by_account rnd R (cs_from req)) (\<lambda>source. case source of
           Inl e \<Rightarrow> Some ((C, s), Inl (RouteSource (cs_from req) e))
         | Inr source_node \<Rightarrow>
         Option.bind (route_by_account rnd R (cs_to req)) (\<lambda>dest. case dest of
           Inl e \<Rightarrow> Some ((C, s), Inl (RouteDest (cs_to req) e))
         | Inr dest_node \<Rightarrow>
         let (s1, source_client) = api_factory api (ni_address source_node) s;
             (s2, dest_client) = api_factory api (ni_address dest_node) s1
         in case api_submit_pending api source_client req s2 of
              (s3, Inl e) \<Rightarrow>
                let final = Inl (SubmitPendingFailed (ni_address source_node) e)
                in Some ((cache_store (cs_key req) final C, s3), final)
            | (s3, Inr transfer_id) \<Rightarrow>
              (case api_commit api dest_client transfer_id s3 of
                 (s4, Inl e) \<Rightarrow>
                   let s5 = fst (api_void api source_client transfer_id s4);
                       final = Inl (CommitFailed (ni_address dest_node) e)
                   in Some ((cache_store (cs_key req) final C, s5), final)
               | (s4, Inr _) \<Rightarrow> Some ((cache_store (cs_key req) (Inr ()) C, s4), Inr ()))))))"

subsection \<open>At most one attempt per key\<close>

text \<open>An attempt is an execution that got as far as submitting the pending transfer.\<close>

fun attempted :: "('e cross_shard_error, unit) result \<Rightarrow> bool" where
  "attempted (Inl (SubmitPendingFailed _ _)) = True"
| "attempted (Inl (CommitFailed _ _)) = True"
| "attempted (Inr _) = True"
| "attempted _ = False"

lemma execute_cached:
  assumes "co_cache C (cs_key req) = Some outcome" "is_cross_shard rnd (co_router C) (cs_from req) (cs_to req) = Some True"
  shows "cross_shard_execute rnd api req (C, s) = Some ((C, s), outcome)"
  using assms by (simp add: cross_shard_execute_def Let_def)

lemma execute_fresh:
  assumes "cross_shard_execute rnd api req (C, s) = Some ((C', s'), res)" "co_cache C (cs_key req) = None"
  shows "(attempted res \<and> C' = cache_store (cs_key req) res C) \<or> (\<not> attempted res \<and> C' = C \<and> s' = s)"
proof -
  obtain cross where x: "is_cross_shard rnd (co_router C) (cs_from req) (cs_to req) = Some cross"
    using assms(1) by (auto simp: cross_shard_execute_def Let_def bind_eq_Some_conv)
  show ?thesis
  proof (cases cross)
    case True
    obtain src where src: "route_by_account rnd (co_router C) (cs_from req) = Some src"
      using assms x True by (auto simp: cross_shard_execute_def Let_def bind_eq_Some_conv)
    show ?thesis
    proof (cases src)
      case (Inl e)
      then show ?thesis using assms x True src by (auto simp: cross_shard_execute_def Let_def)
    next
      case src': (Inr n)
      obtain dst where dst: "route_by_account rnd (co_router C) (cs_to req) = Some dst"
        using assms x True src src' by (auto simp: cross_shard_execute_def Let_def bind_eq_Some_conv)
      show ?thesis
      proof (cases dst)
        case (Inl e)
        then show ?thesis using assms x True src src' dst by (auto simp: cross_shard_execute_def Let_def)
      next
        case (Inr m)
        then show ?thesis using assms x True src src' dst
          by (auto simp: cross_shard_execute_def Let_def split: prod.splits sum.splits)
      qed
    qed
  next
    case False
    then show ?thesis using assms x by (auto simp: cross_shard_execute_def Let_def)
  qed
qed

text \<open>A fresh success went through both phases.\<close>

lemma execute_success:
  assumes run: "cross_shard_execute rnd api req (C, s) = Some ((C', s'), Inr u)" and fresh: "co_cache C (cs_key req) = None"
  obtains n m s1 k1 s2 k2 s3 i where
    "route_by_account rnd (co_router C) (cs_from req) = Some (Inr n)" "route_by_account rnd (co_router C) (cs_to req) = Some (Inr m)"
    "api_factory api (ni_address n) s = (s1, k1)" "api_factory api (ni_address m) s1 = (s2, k2)"
    "api_submit_pending api k1 req s2 = (s3, Inr i)" "api_commit api k2 i s3 = (s', Inr ())"
proof -
  have x: "is_cross_shard rnd (co_router C) (cs_from req) (cs_to req) = Some True"
    using assms by (auto simp: cross_shard_execute_def Let_def bind_eq_Some_conv split: if_splits)
  obtain src where src: "route_by_account rnd (co_router C) (cs_from req) = Some src"
    using assms x by (auto simp: cross_shard_execute_def Let_def bind_eq_Some_conv)
  obtain n where n: "route_by_account rnd (co_router C) (cs_from req) = Some (Inr n)"
    using assms x src by (cases src) (simp_all add: cross_shard_execute_def Let_def)
  obtain dst where dst: "route_by_account rnd (co_router C) (cs_to req) = Some dst"
    using assms x n by (auto simp: cross_shard_execute_def Let_def bind_eq_Some_conv)
  obtain m where m: "route_by_account rnd (co_router C) (cs_to req) = Some (Inr m)"
    using assms x n dst by (cases dst) (simp_all add: cross_shard_execute_def Let_def)
  obtain s1 k1 where 1: "api_factory api (ni_address n) s = (s1, k1)"
    by (cases "api_factory api (ni_address n) s")
  obtain s2 k2 where 2: "api_factory api (ni_address m) s1 = (s2, k2)"
    by (cases "api_factory api (ni_address m) s1")
  obtain s3 y where 3: "api_submit_pending api k1 req s2 = (s3, y)"
    by (cases "api_submit_pending api k1 req s2")
  obtain i where i: "y = Inr i"
    using assms x n m 1 2 3 by (cases y) (simp_all add: cross_shard_execute_def Let_def)
  obtain s4 z where 4: "api_commit api k2 i s3 = (s4, z)"
    by (cases "api_commit api k2 i s3")
  have "s4 = s' \<and> z = Inr ()"
    using assms x n m 1 2 3 i 4 by (cases z) (simp_all add: cross_shard_execute_def Let_def)
  then show thesis
    using that n m 1 2 3 i 4 by simp
qed

lemma execute_router:
  assumes "cross_shard_execute rnd api req (C, s) = Some ((C', s'), res)"
  shows "co_router C' = co_router C" "co_cache C (cs_key req) = Some r \<Longrightarrow> C' = C \<and> s' = s"
proof -
  show "co_router C' = co_router C"
  proof (cases "co_cache C (cs_key req)")
    case None
    then show ?thesis using execute_fresh [OF assms] by (auto simp: cache_store_def)
  next
    case (Some r)
    then show ?thesis using assms by (auto simp: cross_shard_execute_def Let_def bind_eq_Some_conv split: if_splits)
  qed
  show "co_cache C (cs_key req) = Some r \<Longrightarrow> C' = C \<and> s' = s"
    using assms by (auto simp: cross_shard_execute_def Let_def bind_eq_Some_conv split: if_splits)
qed

text \<open>The keys of the attempts of a run, in order.\<close>

fun attempts ::
  "(real \<Rightarrow> real) \<Rightarrow> ('s, 'k, 'e) transfer_api \<Rightarrow> cross_shard_request list \<Rightarrow> 'e coordinator \<times> 's \<Rightarrow>
   (string list \<times> ('e coordinator \<times> 's)) option" where
  "attempts rnd api [] st = Some ([], st)"
| "attempts rnd api (req # reqs) st =
     Option.bind (cross_shard_execute rnd api req st) (\<lambda>(st', res).
     Option.bind (attempts rnd api reqs st') (\<lambda>(ks, st'').
       Some (if attempted res \<and> co_cache (fst st) (cs_key req) = None then cs_key req # ks else ks, st'')))"

lemma attempts_fresh:
  assumes "attempts rnd api reqs st = Some (ks, st')"
  shows "distinct ks \<and> set ks \<inter> dom (co_cache (fst st)) = {}"
  using assms
proof (induction reqs arbitrary: st ks)
  case (Cons req reqs)
  obtain C s where st: "st = (C, s)" by fastforce
  obtain C1 s1 res ks1 where 1: "cross_shard_execute rnd api req (C, s) = Some ((C1, s1), res)"
    "attempts rnd api reqs (C1, s1) = Some (ks1, st')"
    "ks = (if attempted res \<and> co_cache C (cs_key req) = None then cs_key req # ks1 else ks1)"
    using Cons.prems by (auto simp: st bind_eq_Some_conv)
  have IH: "distinct ks1" "set ks1 \<inter> dom (co_cache C1) = {}" using Cons.IH [OF 1(2)] by simp_all
  show ?case
  proof (cases "co_cache C (cs_key req)")
    case None
    then show ?thesis using execute_fresh [OF 1(1) None] IH 1(3) by (auto simp: st cache_store_def)
  next
    case (Some r)
    then show ?thesis using execute_router(2) [OF 1(1) Some] IH 1(3) by (simp add: st)
  qed
qed simp


definition ex_node :: "string \<Rightarrow> int \<Rightarrow> node_status \<Rightarrow> node_info" where
  "ex_node i shard st = \<lparr>ni_id = i, ni_address = i, ni_shard_id = shard, ni_status = st, ni_last_seen = 0\<rparr>"

definition ex_router :: shard_router where
  "ex_router = \<lparr>sr_ring = [ex_node ''n0'' 0 NodeStatusHealthy, ex_node ''n1'' 1 NodeStatusHealthy], sr_shards = 2\<rparr>"

definition ex_api :: "(nat, unit, string) transfer_api" where
  "ex_api = \<lparr>api_factory = \<lambda>_ s. (s, ()), api_submit_pending = \<lambda>_ _ s. (Suc s, Inr ''t''),
     api_commit = \<lambda>_ _ s. (s, Inr ()), api_void = \<lambda>_ _ s. (s, Inr ())\<rparr>"

lemma ex_shards: "JumpHash (\<lambda>x. x) 1 2 = Some 0" "JumpHash (\<lambda>x. x) 4 2 = Some 1"
proof -
  have 1: "jump_next (\<lambda>x. x) (jump_key 1) 0 = 6" "jump_next (\<lambda>x. x) (jump_key 4) 0 = 1"
    by (simp_all add: jump_next_def jump_key_def drop_bit_eq_div floor_divide_eq_div_numeral)
  have "1 < jump_next (\<lambda>x. x) (jump_key (jump_key 4)) 1"
    by (rule jump_next_gt) (simp_all add: ieee_round_def mono_def)
  with 1 show "JumpHash (\<lambda>x. x) 1 2 = Some 0" "JumpHash (\<lambda>x. x) 4 2 = Some 1"
    by (simp_all add: JumpHash_def jump_loop.simps)
qed

definition ex_cross_request :: cross_shard_request where
  "ex_cross_request = \<lparr>cs_from = 1, cs_to = 4, cs_amount = 5, cs_currency = ''USD'', cs_key = ''k''\<rparr>"


theorem rebalance_plan_correct_witness:
  "\<exists>ms. rebalance_plan [ex_node ''n0'' 0 NodeStatusHealthy, ex_node ''n1'' 1 NodeStatusDown] = Inr ms \<and>
     map (\<lambda>m. (rm_from m, rm_shard m)) ms = [(''n1'', 1)]"
  using rebalance_plan_correct [of "[ex_node ''n0'' 0 NodeStatusHealthy, ex_node ''n1'' 1 NodeStatusDown]"]
  by (auto simp: ring_healthy_def ex_node_def down_nodes_def)

end
