(* ===== verification/Blz_PayDomain.thy ===== *)
theory Blz_PayDomain
  imports Blz_Prelude
begin

text \<open>
  The payments service, first part: money and payments (\<^verbatim>\<open>services/payments/internal/domain\<close>), the
  authorization rules (\<^verbatim>\<open>authorization\<close>) and the choice of a payment rail (\<^verbatim>\<open>routing\<close>).

  An \<^verbatim>\<open>int64\<close> amount is an integer with the wrap-around written out; strings are byte strings, and
  upper-casing is the ASCII one. A nil metadata map is \<open>None\<close>. The map \<^verbatim>\<open>LedgerCurrencies\<close>
  is a partial function and the set \<^verbatim>\<open>LocalAccounts\<close> a list.
\<close>

section \<open>Money (money.go)\<close>

record pay_currency =
  pc_code :: string
  pc_numeric :: u16
  pc_decimals :: u8

definition PayUSD :: pay_currency where "PayUSD = \<lparr>pc_code = ''USD'', pc_numeric = 840, pc_decimals = 2\<rparr>"
definition PayEUR :: pay_currency where "PayEUR = \<lparr>pc_code = ''EUR'', pc_numeric = 978, pc_decimals = 2\<rparr>"
definition PayGBP :: pay_currency where "PayGBP = \<lparr>pc_code = ''GBP'', pc_numeric = 826, pc_decimals = 2\<rparr>"
definition PayJPY :: pay_currency where "PayJPY = \<lparr>pc_code = ''JPY'', pc_numeric = 392, pc_decimals = 0\<rparr>"
definition PayVND :: pay_currency where "PayVND = \<lparr>pc_code = ''VND'', pc_numeric = 704, pc_decimals = 0\<rparr>"
definition PayBTC :: pay_currency where "PayBTC = \<lparr>pc_code = ''BTC'', pc_numeric = 0, pc_decimals = 8\<rparr>"
definition PayETH :: pay_currency where "PayETH = \<lparr>pc_code = ''ETH'', pc_numeric = 0, pc_decimals = 18\<rparr>"

lemmas pay_currencies = PayUSD_def PayEUR_def PayGBP_def PayJPY_def PayVND_def PayBTC_def PayETH_def

definition upper_char :: "char \<Rightarrow> char" where
  "upper_char c = (let n = of_char c :: nat in if 97 \<le> n \<and> n \<le> 122 then char_of (n - 32) else c)"

definition currency_by_code :: "string \<Rightarrow> pay_currency option" where
  "currency_by_code code =
     (let u = map upper_char code
      in if u = ''USD'' then Some PayUSD else if u = ''EUR'' then Some PayEUR else if u = ''GBP'' then Some PayGBP
         else if u = ''JPY'' then Some PayJPY else if u = ''VND'' then Some PayVND else if u = ''BTC'' then Some PayBTC
         else if u = ''ETH'' then Some PayETH else None)"

record money =
  mo_minor_units :: i64
  mo_currency :: pay_currency

definition new_money :: "i64 \<Rightarrow> pay_currency \<Rightarrow> money" where
  "new_money u c = \<lparr>mo_minor_units = u, mo_currency = c\<rparr>"

definition money_is_zero :: "money \<Rightarrow> bool" where "money_is_zero m \<longleftrightarrow> mo_minor_units m = 0"

definition money_is_negative :: "money \<Rightarrow> bool" where "money_is_negative m \<longleftrightarrow> mo_minor_units m < 0"

datatype money_error = ErrCurrencyMismatch string string

definition money_add :: "money \<Rightarrow> money \<Rightarrow> (money_error, money) result" where
  "money_add m n =
     (if pc_code (mo_currency m) \<noteq> pc_code (mo_currency n)
      then Inl (ErrCurrencyMismatch (pc_code (mo_currency n)) (pc_code (mo_currency m)))
      else Inr (new_money (wrap_i64 (mo_minor_units m + mo_minor_units n)) (mo_currency m)))"

text \<open>\<^verbatim>\<open>fmt.Sprintf("%d", x)\<close> of a signed integer.\<close>

definition show_i64 :: "i64 \<Rightarrow> string" where
  "show_i64 x = (if x < 0 then ''-'' @ show_nat (nat (- x)) else show_nat (nat x))"

definition money_string :: "money \<Rightarrow> string" where
  "money_string m =
     (let d = unat (pc_decimals (mo_currency m)); code = pc_code (mo_currency m)
      in if d = 0 then show_i64 (mo_minor_units m) @ '' '' @ code
         else let neg = mo_minor_units m < 0;
                  abs = (if neg then wrap_i64 (- mo_minor_units m) else mo_minor_units m);
                  raw = pad_left (d + 1) (show_i64 abs);
                  k = length raw - d
              in (if neg then ''-'' else []) @ take k raw @ ''.'' @ drop k raw @ '' '' @ code)"

section \<open>Payments (payment.go)\<close>

text \<open>The two enumerations are integers in Go; the last constructor stands for an integer outside the constants.\<close>

datatype payment_status =
  StatusPending | StatusAuthorized | StatusCleared | StatusSettled | StatusFailed | StatusReversed | StatusUnknown int

fun status_string :: "payment_status \<Rightarrow> string" where
  "status_string StatusPending = ''pending''"
| "status_string StatusAuthorized = ''authorized''"
| "status_string StatusCleared = ''cleared''"
| "status_string StatusSettled = ''settled''"
| "status_string StatusFailed = ''failed''"
| "status_string StatusReversed = ''reversed''"
| "status_string (StatusUnknown _) = ''unknown''"

datatype payment_rails = RailsInternal | RailsACH | RailsSEPA | RailsSWIFT | RailsCrypto | RailsUnknown int

fun rails_string :: "payment_rails \<Rightarrow> string" where
  "rails_string RailsInternal = ''internal''"
| "rails_string RailsACH = ''ach''"
| "rails_string RailsSEPA = ''sepa''"
| "rails_string RailsSWIFT = ''swift''"
| "rails_string RailsCrypto = ''crypto''"
| "rails_string (RailsUnknown _) = ''unknown''"

record payment =
  pm_id :: string
  pm_key :: string
  pm_debit :: string
  pm_credit :: string
  pm_amount :: money
  pm_ledger :: u32
  pm_rails :: payment_rails
  pm_status :: payment_status
  pm_failure :: string
  pm_created :: nat
  pm_updated :: nat
  pm_metadata :: "(string \<rightharpoonup> string) option"

record process_payment_request =
  pr_key :: string
  pr_debit :: string
  pr_credit :: string
  pr_amount :: money
  pr_ledger :: u32
  pr_metadata :: "(string \<rightharpoonup> string) option"

section \<open>Authorization (authorizer.go, rules.go)\<close>

record authorization_result =
  ar_approved :: bool
  ar_reason :: string
  ar_risk_score :: nat

record authorizer_config =
  ac_max :: i64
  ac_warn :: i64
  ac_ledgers :: "u32 \<rightharpoonup> string"

definition default_authorizer_config :: authorizer_config where
  "default_authorizer_config =
     \<lparr>ac_max = 10000000000, ac_warn = 1000000000,
      ac_ledgers = [1 \<mapsto> ''USD'', 2 \<mapsto> ''EUR'', 3 \<mapsto> ''GBP'', 4 \<mapsto> ''JPY'', 5 \<mapsto> ''VND'', 6 \<mapsto> ''BTC'', 7 \<mapsto> ''ETH'']\<rparr>"

text \<open>A rule returns whether it approves, whether it warns, and the reason of a rejection.\<close>

type_synonym authorization_rule = "payment \<Rightarrow> authorizer_config \<Rightarrow> bool \<times> bool \<times> string"

definition zero_amount_rule :: authorization_rule where
  "zero_amount_rule p cfg =
     (if money_is_zero (pm_amount p) \<or> money_is_negative (pm_amount p)
      then (False, False, ''payment amount must be positive'') else (True, False, []))"

definition same_account_rule :: authorization_rule where
  "same_account_rule p cfg =
     (if pm_debit p = pm_credit p then (False, False, ''debit and credit accounts must differ'') else (True, False, []))"

definition currency_consistency_rule :: authorization_rule where
  "currency_consistency_rule p cfg =
     (case ac_ledgers cfg (pm_ledger p) of
        None \<Rightarrow> (True, True, [])
      | Some expected \<Rightarrow>
          let code = pc_code (mo_currency (pm_amount p))
          in if code \<noteq> expected then (False, False, ''currency mismatch for ledger'')
             else (True, code = ''BTC'' \<or> code = ''ETH'', []))"

definition max_amount_rule :: authorization_rule where
  "max_amount_rule p cfg =
     (if mo_minor_units (pm_amount p) > ac_max cfg then (False, False, ''amount exceeds single-payment limit'')
      else (True, ac_warn cfg > 0 \<and> mo_minor_units (pm_amount p) > ac_warn cfg, []))"

definition metadata_rule :: authorization_rule where
  "metadata_rule p cfg =
     (case pm_metadata p of
        None \<Rightarrow> (False, False, ''payment reference is required'')
      | Some m \<Rightarrow> (case m ''reference'' of
                    None \<Rightarrow> (False, False, ''payment reference is required'')
                  | Some _ \<Rightarrow> (True, False, [])))"

definition authorizer_rules :: "authorization_rule list" where
  "authorizer_rules =
     [zero_amount_rule, same_account_rule, currency_consistency_rule, max_amount_rule, metadata_rule]"

fun authorize_loop :: "authorization_rule list \<Rightarrow> nat \<Rightarrow> authorizer_config \<Rightarrow> payment \<Rightarrow> authorization_result" where
  "authorize_loop [] warnings cfg p =
     \<lparr>ar_approved = True, ar_reason = ''all checks passed'', ar_risk_score = warnings * 10\<rparr>"
| "authorize_loop (rule # rules) warnings cfg p =
     (let (approved, warned, reason) = rule p cfg
      in if \<not> approved then \<lparr>ar_approved = False, ar_reason = reason, ar_risk_score = (warnings + 1) * 10\<rparr>
         else authorize_loop rules (if warned then warnings + 1 else warnings) cfg p)"

definition authorize :: "authorizer_config \<Rightarrow> payment \<Rightarrow> authorization_result" where
  "authorize cfg p = authorize_loop authorizer_rules 0 cfg p"

section \<open>Routing (router.go, rules.go)\<close>

record router_config =
  rc_local :: "string list"
  rc_ach_limit :: i64

definition default_router_config :: router_config where
  "default_router_config = \<lparr>rc_local = [], rc_ach_limit = 2499999\<rparr>"

type_synonym routing_rule = "payment \<Rightarrow> router_config \<Rightarrow> payment_rails option"

definition internal_rule :: routing_rule where
  "internal_rule p cfg =
     (if pm_debit p \<in> set (rc_local cfg) \<and> pm_credit p \<in> set (rc_local cfg) then Some RailsInternal else None)"

definition ach_rule :: routing_rule where
  "ach_rule p cfg =
     (if pc_code (mo_currency (pm_amount p)) = ''USD'' \<and> mo_minor_units (pm_amount p) < rc_ach_limit cfg
      then Some RailsACH else None)"

definition sepa_rule :: routing_rule where
  "sepa_rule p cfg = (if pc_code (mo_currency (pm_amount p)) = ''EUR'' then Some RailsSEPA else None)"

definition crypto_rule :: routing_rule where
  "crypto_rule p cfg =
     (let code = pc_code (mo_currency (pm_amount p))
      in if code = ''BTC'' \<or> code = ''ETH'' then Some RailsCrypto else None)"

definition default_rule :: routing_rule where
  "default_rule p cfg = Some RailsSWIFT"

definition router_rules :: "routing_rule list" where
  "router_rules = [internal_rule, ach_rule, sepa_rule, crypto_rule, default_rule]"

fun first_match :: "routing_rule list \<Rightarrow> router_config \<Rightarrow> payment \<Rightarrow> payment_rails option" where
  "first_match [] cfg p = None"
| "first_match (rule # rules) cfg p = (case rule p cfg of Some rails \<Rightarrow> Some rails | None \<Rightarrow> first_match rules cfg p)"

definition pay_route :: "router_config \<Rightarrow> payment \<Rightarrow> payment_rails option" where
  "pay_route cfg p = first_match router_rules cfg p"

section \<open>What the rules decide\<close>

text \<open>The payments the authorizer lets through.\<close>

definition payment_admissible :: "authorizer_config \<Rightarrow> payment \<Rightarrow> bool" where
  "payment_admissible cfg p \<longleftrightarrow>
     0 < mo_minor_units (pm_amount p) \<and> mo_minor_units (pm_amount p) \<le> ac_max cfg \<and> pm_debit p \<noteq> pm_credit p \<and>
     (case ac_ledgers cfg (pm_ledger p) of None \<Rightarrow> True | Some code \<Rightarrow> pc_code (mo_currency (pm_amount p)) = code) \<and>
     (case pm_metadata p of None \<Rightarrow> False | Some m \<Rightarrow> m ''reference'' \<noteq> None)"

lemmas authorization_rules = zero_amount_rule_def same_account_rule_def currency_consistency_rule_def
  max_amount_rule_def metadata_rule_def

lemma authorize_approved: "ar_approved (authorize cfg p) \<longleftrightarrow> payment_admissible cfg p"
  by (auto simp: authorize_def authorizer_rules_def authorization_rules payment_admissible_def Let_def money_is_zero_def
      money_is_negative_def split: option.splits if_splits)

lemma authorize_reason: "\<not> ar_approved (authorize cfg p) \<Longrightarrow> ar_reason (authorize cfg p) \<noteq> []"
  by (auto simp: authorize_def authorizer_rules_def authorization_rules Let_def split: option.splits if_splits)

lemma authorize_loop_risk_score:
  "ar_risk_score (authorize_loop rules w cfg p) \<le> 10 * (w + length rules)"
proof (induction rules arbitrary: w)
  case (Cons r rules)
  show ?case
    using Cons.IH [of w] Cons.IH [of "Suc w"] by (auto simp: Let_def split: prod.split)
qed simp

text \<open>The score stays in the documented range from 0 to 100.\<close>

lemma authorize_risk_score: "ar_risk_score (authorize cfg p) \<le> 50"
  using authorize_loop_risk_score [of authorizer_rules 0 cfg p] by (simp add: authorize_def authorizer_rules_def)

lemmas routing_rules = internal_rule_def ach_rule_def sepa_rule_def crypto_rule_def default_rule_def

text \<open>The router always finds a rail, and the internal one exactly between two local accounts.\<close>

lemma pay_route_total: "pay_route cfg p \<noteq> None"
  by (simp add: pay_route_def router_rules_def routing_rules Let_def split: option.splits)

lemma pay_route_known: "pay_route cfg p = Some rails \<Longrightarrow> rails \<noteq> RailsUnknown k"
  by (auto simp: pay_route_def router_rules_def routing_rules Let_def split: option.splits if_splits)

lemma pay_route_internal:
  "pay_route cfg p = Some RailsInternal \<longleftrightarrow> pm_debit p \<in> set (rc_local cfg) \<and> pm_credit p \<in> set (rc_local cfg)"
  by (auto simp: pay_route_def router_rules_def routing_rules Let_def split: option.splits if_splits)

text \<open>A dollar payment of exactly the limit, documented as the largest eligible amount, is not sent over ACH.\<close>

lemma ach_limit_excluded:
  "rc_local cfg = [] \<Longrightarrow> mo_currency (pm_amount p) = PayUSD \<Longrightarrow> mo_minor_units (pm_amount p) = rc_ach_limit cfg \<Longrightarrow>
   pay_route cfg p = Some RailsSWIFT"
  by (simp add: pay_route_def router_rules_def routing_rules PayUSD_def)

text \<open>The default limits are a hundred and ten million dollars; the comments beside them say one million and 100,000.\<close>

lemma default_authorizer_limits:
  "ac_max default_authorizer_config = 100000000 * 100" "ac_warn default_authorizer_config = 10000000 * 100"
  by (simp_all add: default_authorizer_config_def)

section \<open>Printing money\<close>

lemma digit_char_0: "digit_char 0 = CHR ''0''"
  by (simp add: digit_char_def char_of_def bit_0)

text \<open>Cutting the last \<open>d\<close> digits off a number printed with at least \<open>d + 1\<close> digits divides it by \<open>10 ^ d\<close>.\<close>

lemma show_nat_split:
  assumes "0 < d"
  shows "pad_left (d + 1) (show_nat n) = show_nat (n div 10 ^ d) @ pad_left d (show_nat (n mod 10 ^ d))"
  using assms
proof (induction d arbitrary: n)
  case (Suc d)
  have snoc: "pad_left (Suc k) (show_nat n) = pad_left k (show_nat (n div 10)) @ [digit_char (n mod 10)]"
    if "0 < k" for k n
  proof (cases "n < 10")
    case True
    then show ?thesis
      using that by (cases k)
        (simp_all add: show_nat.simps [of n] show_nat.simps [of 0] pad_left_def digit_char_0 replicate_append_same)
  next
    case False
    then show ?thesis by (simp add: show_nat.simps [of n] pad_left_def)
  qed
  show ?case
  proof (cases "d = 0")
    case True
    show ?thesis
      using snoc [of 1 n] True
      by (simp add: pad_left_def show_nat.simps [of "n mod 10"] Suc_leI)
  next
    case False
    have m: "n mod (10 * 10 ^ d) = 10 * (n div 10 mod 10 ^ d) + n mod 10"
      using mod_mult2_eq [of n 10 "10 ^ d"] by simp
    have "pad_left (Suc d + 1) (show_nat n) = pad_left (d + 1) (show_nat (n div 10)) @ [digit_char (n mod 10)]"
      using snoc [of "d + 1" n] by simp
    also have "\<dots> = show_nat (n div 10 div 10 ^ d) @ pad_left d (show_nat (n div 10 mod 10 ^ d)) @ [digit_char (n mod 10)]"
      using Suc.IH [of "n div 10"] False by simp
    also have "pad_left d (show_nat (n div 10 mod 10 ^ d)) @ [digit_char (n mod 10)] =
        pad_left (Suc d) (show_nat (n mod 10 ^ Suc d))"
      using snoc [of d "n mod 10 ^ Suc d"] False by (simp add: m)
    finally show ?thesis
      by (simp add: div_mult2_eq)
  qed
qed simp


text \<open>
  A money value with decimals prints as sign, whole units, point, the minor part with all its
  decimals, and the currency code. The smallest \<^verbatim>\<open>int64\<close>, whose negation wraps around, is the one
  exception: its sign is printed twice.
\<close>

lemma money_string_exact:
  assumes "0 < unat (pc_decimals c)" "in_i64 u" "u \<noteq> - (2 ^ 63)"
  shows "money_string (new_money u c) =
    (if u < 0 then ''-'' else []) @ show_nat (nat \<bar>u\<bar> div 10 ^ unat (pc_decimals c)) @ ''.'' @
    pad_left (unat (pc_decimals c)) (show_nat (nat \<bar>u\<bar> mod 10 ^ unat (pc_decimals c))) @ '' '' @ pc_code c"
proof -
  let ?d = "unat (pc_decimals c)"
  have w: "(if u < 0 then wrap_i64 (- u) else u) = \<bar>u\<bar>"
    using assms(2,3) by (auto simp: in_i64_def)
  have s: "show_i64 \<bar>u\<bar> = show_nat (nat \<bar>u\<bar>)"
    by (simp add: show_i64_def)
  let ?lo = "pad_left ?d (show_nat (nat \<bar>u\<bar> mod 10 ^ ?d))"
  have l: "length ?lo = ?d"
    using assms(1) by (intro length_pad_left length_show_nat) simp_all
  have p: "pad_left (Suc ?d) (show_nat (nat \<bar>u\<bar>)) = show_nat (nat \<bar>u\<bar> div 10 ^ ?d) @ ?lo"
    using show_nat_split [OF assms(1)] by simp
  show ?thesis
    unfolding money_string_def new_money_def money.select_convs Let_def w s
    using assms(1) l by (simp add: p)
qed

lemma money_string_min:
  "money_string (new_money (- (2 ^ 63)) PayUSD) = ''--92233720368547758.08 USD''"
proof -
  have "wrap_i64 (2 ^ 63) = - (2 ^ 63)"
    by (simp add: wrap_i64_def signed_take_bit_eq_if_positive signed_take_bit_eq_if_negative)
  then show ?thesis
    by (simp add: money_string_def new_money_def PayUSD_def show_i64_def Let_def)
      (simp add: show_nat.simps pad_left_def digit_char_def char_of_def bit_0)
qed

end
