(* ===== verification/Blz_Payments.thy ===== *)
theory Blz_Payments
  imports Blz_PayDomain Blz_Sharding
begin

text \<open>
  The payments service, second part: the idempotency and payment stores, in memory
  (\<^verbatim>\<open>services/payments/internal/lifecycle/idempotency.go\<close>, \<^verbatim>\<open>store.go\<close>) and in Postgres
  (\<^verbatim>\<open>services/payments/db\<close>), and the processor that takes a payment through its life
  (\<^verbatim>\<open>processor.go\<close>).

  The stores keep pointers to payments; the processor does not change a payment after it has stored
  it, so the model keeps values. The clock readings of one call are an argument, as are the UUID
  and the engine client. What the processor needs of its stores is the locale \<open>payment_stores\<close>; both
  pairs of stores are instances of it.
\<close>

section \<open>The in-memory stores (idempotency.go, store.go)\<close>

record idempotency_entry =
  ie_payment :: payment
  ie_stored_at :: nat

record mem_idempotency =
  mi_entries :: "string \<rightharpoonup> idempotency_entry"
  mi_ttl :: nat

definition mem_idempotency_new :: "nat \<Rightarrow> mem_idempotency" where
  "mem_idempotency_new ttl = \<lparr>mi_entries = Map.empty, mi_ttl = ttl\<rparr>"

definition idem_get :: "string \<Rightarrow> nat \<Rightarrow> mem_idempotency \<Rightarrow> payment option \<times> mem_idempotency" where
  "idem_get key now s =
     (case mi_entries s key of
        None \<Rightarrow> (None, s)
      | Some e \<Rightarrow> if now - ie_stored_at e > mi_ttl s then (None, s\<lparr>mi_entries := (mi_entries s)(key := None)\<rparr>)
                  else (Some (ie_payment e), s))"

definition idem_set :: "string \<Rightarrow> payment \<Rightarrow> nat \<Rightarrow> mem_idempotency \<Rightarrow> mem_idempotency" where
  "idem_set key p now s =
     s\<lparr>mi_entries := (mi_entries s)(key \<mapsto> \<lparr>ie_payment = p, ie_stored_at = now\<rparr>)\<rparr>"

definition evict_expired :: "nat \<Rightarrow> mem_idempotency \<Rightarrow> mem_idempotency" where
  "evict_expired now s =
     s\<lparr>mi_entries := (\<lambda>key. case mi_entries s key of
         None \<Rightarrow> None | Some e \<Rightarrow> if now - ie_stored_at e > mi_ttl s then None else Some e)\<rparr>"

record mem_payment_store =
  mp_by_id :: "string \<rightharpoonup> payment"
  mp_by_key :: "string \<rightharpoonup> payment"

definition mem_payment_store_new :: mem_payment_store where
  "mem_payment_store_new = \<lparr>mp_by_id = Map.empty, mp_by_key = Map.empty\<rparr>"

datatype store_error = ErrPaymentNotFound string | DbError string | UniqueViolation string | ScanError string

definition store_get_by_id :: "string \<Rightarrow> mem_payment_store \<Rightarrow> (store_error, payment) result" where
  "store_get_by_id i s = (case mp_by_id s i of None \<Rightarrow> Inl (ErrPaymentNotFound i) | Some p \<Rightarrow> Inr p)"

definition store_get_by_key :: "string \<Rightarrow> mem_payment_store \<Rightarrow> payment option" where
  "store_get_by_key key s = mp_by_key s key"

definition store_save :: "payment \<Rightarrow> mem_payment_store \<Rightarrow> mem_payment_store" where
  "store_save p s =
     s\<lparr>mp_by_id := (mp_by_id s)(pm_id p \<mapsto> p),
       mp_by_key := (if pm_key p \<noteq> [] then (mp_by_key s)(pm_key p \<mapsto> p) else mp_by_key s)\<rparr>"

section \<open>The Postgres stores (db/store.go, db/idempotency.go)\<close>

text \<open>
  A row of the table \<^verbatim>\<open>payments\<close>. JSON coding is not part of the repository and is an argument. A
  statement may fail for reasons of the database, given by \<open>pg_fault\<close>.
\<close>

record pg_row =
  row_id :: string
  row_key :: string
  row_debit :: string
  row_credit :: string
  row_units :: int
  row_code :: string
  row_numeric :: int
  row_decimals :: int
  row_ledger :: int
  row_rails :: int
  row_status :: int
  row_failure :: string
  row_metadata :: string
  row_created :: nat
  row_updated :: nat

record json_coder =
  js_marshal :: "(string \<rightharpoonup> string) option \<Rightarrow> string"
  js_unmarshal :: "string \<Rightarrow> (string \<rightharpoonup> string) option option"

datatype pg_statement = QueryId string | QueryKey string | Upsert string

record pg_db =
  pg_rows :: "pg_row list"
  pg_fault :: "pg_statement \<Rightarrow> string option"

fun rails_int :: "payment_rails \<Rightarrow> int" where
  "rails_int RailsInternal = 0"
| "rails_int RailsACH = 1"
| "rails_int RailsSEPA = 2"
| "rails_int RailsSWIFT = 3"
| "rails_int RailsCrypto = 4"
| "rails_int (RailsUnknown k) = k"

definition rails_of_int :: "int \<Rightarrow> payment_rails" where
  "rails_of_int k =
     (if k = 0 then RailsInternal else if k = 1 then RailsACH else if k = 2 then RailsSEPA
      else if k = 3 then RailsSWIFT else if k = 4 then RailsCrypto else RailsUnknown k)"

fun status_int :: "payment_status \<Rightarrow> int" where
  "status_int StatusPending = 0"
| "status_int StatusAuthorized = 1"
| "status_int StatusCleared = 2"
| "status_int StatusSettled = 3"
| "status_int StatusFailed = 4"
| "status_int StatusReversed = 5"
| "status_int (StatusUnknown k) = k"

definition status_of_int :: "int \<Rightarrow> payment_status" where
  "status_of_int k =
     (if k = 0 then StatusPending else if k = 1 then StatusAuthorized else if k = 2 then StatusCleared
      else if k = 3 then StatusSettled else if k = 4 then StatusFailed else if k = 5 then StatusReversed
      else StatusUnknown k)"

text \<open>The conversions \<^verbatim>\<open>int32\<close> and \<^verbatim>\<open>int16\<close> of the arguments of the insert statement.\<close>

definition payment_row :: "json_coder \<Rightarrow> payment \<Rightarrow> pg_row" where
  "payment_row J p =
     \<lparr>row_id = pm_id p, row_key = pm_key p, row_debit = pm_debit p, row_credit = pm_credit p,
      row_units = mo_minor_units (pm_amount p), row_code = pc_code (mo_currency (pm_amount p)),
      row_numeric = uint (pc_numeric (mo_currency (pm_amount p))),
      row_decimals = uint (pc_decimals (mo_currency (pm_amount p))),
      row_ledger = sint (pm_ledger p), row_rails = signed_take_bit 15 (rails_int (pm_rails p)),
      row_status = signed_take_bit 15 (status_int (pm_status p)), row_failure = pm_failure p,
      row_metadata = js_marshal J (pm_metadata p), row_created = pm_created p, row_updated = pm_updated p\<rparr>"

definition scan_payment :: "json_coder \<Rightarrow> pg_row \<Rightarrow> (store_error, payment) result" where
  "scan_payment J r =
     (let p = \<lparr>pm_id = row_id r, pm_key = row_key r, pm_debit = row_debit r, pm_credit = row_credit r,
               pm_amount = \<lparr>mo_minor_units = row_units r,
                            mo_currency = \<lparr>pc_code = row_code r, pc_numeric = word_of_int (row_numeric r),
                                           pc_decimals = word_of_int (row_decimals r)\<rparr>\<rparr>,
               pm_ledger = word_of_int (row_ledger r), pm_rails = rails_of_int (row_rails r),
               pm_status = status_of_int (row_status r), pm_failure = row_failure r,
               pm_created = row_created r, pm_updated = row_updated r, pm_metadata = None\<rparr>
      in if row_metadata r \<noteq> [] \<and> row_metadata r \<noteq> ''null''
         then case js_unmarshal J (row_metadata r) of
                None \<Rightarrow> Inl (ScanError (row_metadata r))
              | Some m \<Rightarrow> Inr (p\<lparr>pm_metadata := m\<rparr>)
         else Inr p)"

text \<open>What the column types of the migration accept: \<^verbatim>\<open>VARCHAR(8)\<close> and \<^verbatim>\<open>SMALLINT\<close>.\<close>

definition row_fits :: "pg_row \<Rightarrow> bool" where
  "row_fits r \<longleftrightarrow> length (row_code r) \<le> 8 \<and> row_numeric r < 2 ^ 15 \<and> row_decimals r < 2 ^ 15"

definition pg_get_by_id :: "json_coder \<Rightarrow> string \<Rightarrow> pg_db \<Rightarrow> (store_error, payment) result" where
  "pg_get_by_id J i db =
     (case pg_fault db (QueryId i) of
        Some e \<Rightarrow> Inl (DbError e)
      | None \<Rightarrow> (case find (\<lambda>r. row_id r = i) (pg_rows db) of
                   None \<Rightarrow> Inl (ErrPaymentNotFound i)
                 | Some r \<Rightarrow> scan_payment J r))"

definition pg_get_by_key :: "json_coder \<Rightarrow> string \<Rightarrow> pg_db \<Rightarrow> (store_error, payment option) result" where
  "pg_get_by_key J key db =
     (case pg_fault db (QueryKey key) of
        Some e \<Rightarrow> Inl (DbError e)
      | None \<Rightarrow> (case find (\<lambda>r. row_key r = key) (pg_rows db) of
                   None \<Rightarrow> Inr None
                 | Some r \<Rightarrow> (case scan_payment J r of Inl e \<Rightarrow> Inl e | Inr p \<Rightarrow> Inr (Some p))))"

text \<open>The upsert of \<^verbatim>\<open>Save\<close> on a table with primary key \<^verbatim>\<open>id\<close> and a unique index on \<^verbatim>\<open>idempotency_key\<close>.\<close>

definition pg_save :: "json_coder \<Rightarrow> payment \<Rightarrow> pg_db \<Rightarrow> (store_error, unit) result \<times> pg_db" where
  "pg_save J p db =
     (let new = payment_row J p
      in case pg_fault db (Upsert (pm_id p)) of
           Some e \<Rightarrow> (Inl (DbError e), db)
         | None \<Rightarrow>
           if \<not> row_fits new then (Inl (DbError ''value out of range''), db)
           else if \<exists>r \<in> set (pg_rows db). row_id r = row_id new
           then (Inr (), db\<lparr>pg_rows := map (\<lambda>r. if row_id r = row_id new
                    then r\<lparr>row_status := row_status new, row_failure := row_failure new,
                           row_metadata := row_metadata new, row_updated := row_updated new\<rparr>
                    else r) (pg_rows db)\<rparr>)
           else if \<exists>r \<in> set (pg_rows db). row_key r = row_key new
           then (Inl (UniqueViolation (row_key new)), db)
           else (Inr (), db\<lparr>pg_rows := pg_rows db @ [new]\<rparr>))"

definition pg_idem_get :: "json_coder \<Rightarrow> string \<Rightarrow> pg_db \<Rightarrow> payment option" where
  "pg_idem_get J key db = (case pg_get_by_key J key db of Inl _ \<Rightarrow> None | Inr p \<Rightarrow> p)"

definition pg_idem_set :: "string \<Rightarrow> payment \<Rightarrow> pg_db \<Rightarrow> pg_db" where
  "pg_idem_set key p db = db"

section \<open>The processor (processor.go)\<close>

text \<open>The store interfaces over a common state \<open>'s\<close>.\<close>

record 's store_api =
  sa_get :: "string \<Rightarrow> nat \<Rightarrow> 's \<Rightarrow> payment option \<times> 's"
  sa_set :: "string \<Rightarrow> payment \<Rightarrow> nat \<Rightarrow> 's \<Rightarrow> 's"
  sa_save :: "payment \<Rightarrow> 's \<Rightarrow> (store_error, unit) result \<times> 's"

definition mem_store_api :: "(mem_idempotency \<times> mem_payment_store) store_api" where
  "mem_store_api =
     \<lparr>sa_get = \<lambda>key now (i, s). (let (r, i') = idem_get key now i in (r, (i', s))),
      sa_set = \<lambda>key p now (i, s). (idem_set key p now i, s),
      sa_save = \<lambda>p (i, s). (Inr (), (i, store_save p s))\<rparr>"

definition pg_store_api :: "json_coder \<Rightarrow> pg_db store_api" where
  "pg_store_api J =
     \<lparr>sa_get = \<lambda>key now db. (pg_idem_get J key db, db),
      sa_set = \<lambda>key p now db. pg_idem_set key p db,
      sa_save = pg_save J\<rparr>"

text \<open>
  The processor with its collaborators: the engine client is a function on the state \<open>'g\<close> of the engine
  behind it; the shard router and the coordinator may be absent.
\<close>

record ('s, 'g, 'h, 'k, 'e) processor =
  pp_store :: "'s store_api"
  pp_authorizer :: authorizer_config
  pp_router :: router_config
  pp_submit :: "payment \<Rightarrow> 'g \<Rightarrow> ('e, bool \<times> string) result \<times> 'g"
  pp_shard_router :: "shard_router option"
  pp_transfers :: "('h, 'k, 'e) transfer_api"

record ('s, 'g, 'h, 'e) pay_state =
  ps_stores :: 's
  ps_engine :: 'g
  ps_coordinator :: "('e coordinator \<times> 'h) option"

datatype 'e process_error =
  StoreFailed string store_error | RoutingFailed string | CrossShardFailed string "'e cross_shard_error"
| EngineFailed string 'e

definition new_payment :: "string \<Rightarrow> nat \<Rightarrow> process_payment_request \<Rightarrow> payment" where
  "new_payment uuid now req =
     \<lparr>pm_id = uuid, pm_key = pr_key req, pm_debit = pr_debit req, pm_credit = pr_credit req, pm_amount = pr_amount req,
      pm_ledger = pr_ledger req, pm_rails = RailsInternal, pm_status = StatusPending, pm_failure = [],
      pm_created = now, pm_updated = now, pm_metadata = pr_metadata req\<rparr>"

text \<open>\<^verbatim>\<open>hash/fnv\<close>, the 64-bit FNV-1a hash.\<close>

definition fnv1a :: "string \<Rightarrow> u64" where
  "fnv1a s = foldl (\<lambda>h c. (h XOR word_of_nat (of_char c)) * 1099511628211) 14695981039346656037 s"

definition account_to_u64 :: "string \<Rightarrow> u64" where
  "account_to_u64 i = fnv1a i"

text \<open>The last steps of every path: remember the key, save, return.\<close>

definition record_payment ::
  "('s, 'g, 'h, 'k, 'e) processor \<Rightarrow> nat \<Rightarrow> payment \<Rightarrow> ('s, 'g, 'h, 'e) pay_state \<Rightarrow>
   ('e process_error, payment) result \<times> ('s, 'g, 'h, 'e) pay_state" where
  "record_payment P now p S =
     (case sa_save (pp_store P) p (sa_set (pp_store P) (pm_key p) p now (ps_stores S)) of
        (Inl e, s) \<Rightarrow> (Inl (StoreFailed (pm_id p) e), S\<lparr>ps_stores := s\<rparr>)
      | (Inr _, s) \<Rightarrow> (Inr p, S\<lparr>ps_stores := s\<rparr>))"

definition cross_shard_payment :: "payment \<Rightarrow> cross_shard_request" where
  "cross_shard_payment p =
     \<lparr>cs_from = account_to_u64 (pm_debit p), cs_to = account_to_u64 (pm_credit p), cs_amount = mo_minor_units (pm_amount p),
      cs_currency = pc_code (mo_currency (pm_amount p)), cs_key = pm_key p\<rparr>"

definition crosses_shards :: "(real \<Rightarrow> real) \<Rightarrow> shard_router option \<Rightarrow> payment \<Rightarrow> bool option" where
  "crosses_shards rnd router p =
     (case router of
        None \<Rightarrow> Some False
      | Some R \<Rightarrow> is_cross_shard rnd R (account_to_u64 (pm_debit p)) (account_to_u64 (pm_credit p)))"

text \<open>Steps 5 and 6: the engine for the internal rail, and the record.\<close>

definition submit_payment ::
  "('s, 'g, 'h, 'k, 'e) processor \<Rightarrow> (nat \<Rightarrow> nat) \<Rightarrow> payment \<Rightarrow> ('s, 'g, 'h, 'e) pay_state \<Rightarrow>
   ('e process_error, payment) result \<times> ('s, 'g, 'h, 'e) pay_state" where
  "submit_payment P ck p S =
     (if pm_rails p = RailsInternal
      then case pp_submit P p (ps_engine S) of
             (Inl e, g) \<Rightarrow> (Inl (EngineFailed (pm_id p) e), S\<lparr>ps_engine := g\<rparr>)
           | (Inr (committed, transfer_id), g) \<Rightarrow>
               record_payment P (ck 5)
                 (if committed then p\<lparr>pm_status := StatusSettled, pm_updated := ck 4\<rparr>
                  else p\<lparr>pm_status := StatusFailed, pm_failure := ''engine rejected'', pm_updated := ck 4\<rparr>)
                 (S\<lparr>ps_engine := g\<rparr>)
      else record_payment P (ck 5) (p\<lparr>pm_status := StatusCleared, pm_updated := ck 4\<rparr>) S)"

text \<open>Step 4b: the coordinator when the accounts lie on different shards.\<close>

definition execute_payment ::
  "(real \<Rightarrow> real) \<Rightarrow> ('s, 'g, 'h, 'k, 'e) processor \<Rightarrow> (nat \<Rightarrow> nat) \<Rightarrow> payment \<Rightarrow> ('s, 'g, 'h, 'e) pay_state \<Rightarrow>
   (('e process_error, payment) result \<times> ('s, 'g, 'h, 'e) pay_state) option" where
  "execute_payment rnd P ck p S =
     Option.bind (crosses_shards rnd (pp_shard_router P) p) (\<lambda>cross.
       case (if cross then ps_coordinator S else None) of
         None \<Rightarrow> Some (submit_payment P ck p S)
       | Some c \<Rightarrow>
         map_option (\<lambda>(c', outcome).
             case outcome of
               Inl e \<Rightarrow> (Inl (CrossShardFailed (pm_id p) e), S\<lparr>ps_coordinator := Some c'\<rparr>)
             | Inr _ \<Rightarrow> record_payment P (ck 5) (p\<lparr>pm_status := StatusSettled, pm_updated := ck 4\<rparr>)
                         (S\<lparr>ps_coordinator := Some c'\<rparr>))
           (cross_shard_execute rnd (pp_transfers P) (cross_shard_payment p) c))"

text \<open>
  \<open>None\<close> stands for a call that does not return. The clock readings \<open>ck\<close> of the call are numbered
  0 at the lookup, 2 when the payment is built, 3 after the authorization, 4 and 5 at the end.
\<close>

definition process_payment ::
  "(real \<Rightarrow> real) \<Rightarrow> ('s, 'g, 'h, 'k, 'e) processor \<Rightarrow> (nat \<Rightarrow> nat) \<Rightarrow> string \<Rightarrow> process_payment_request \<Rightarrow>
   ('s, 'g, 'h, 'e) pay_state \<Rightarrow> (('e process_error, payment) result \<times> ('s, 'g, 'h, 'e) pay_state) option" where
  "process_payment rnd P ck uuid req S =
     (case sa_get (pp_store P) (pr_key req) (ck 0) (ps_stores S) of
        (Some existing, s) \<Rightarrow> Some (Inr existing, S\<lparr>ps_stores := s\<rparr>)
      | (None, s) \<Rightarrow>
        (let S0 = S\<lparr>ps_stores := s\<rparr>; p = new_payment uuid (ck 2) req; result = authorize (pp_authorizer P) p
         in if \<not> ar_approved result
            then Some (record_payment P (ck 4)
                   (p\<lparr>pm_status := StatusFailed, pm_failure := ar_reason result, pm_updated := ck 3\<rparr>) S0)
            else let p = p\<lparr>pm_status := StatusAuthorized, pm_updated := ck 3\<rparr>
                 in case pay_route (pp_router P) p of
                      None \<Rightarrow> Some (Inl (RoutingFailed uuid), S0)
                    | Some rails \<Rightarrow> execute_payment rnd P ck (p\<lparr>pm_rails := rails\<rparr>) S0))"

section \<open>How a call ends\<close>

lemma record_payment_engine [simp]:
  "ps_engine (snd (record_payment P now p S)) = ps_engine S"
  "ps_coordinator (snd (record_payment P now p S)) = ps_coordinator S"
  by (simp_all add: record_payment_def split: prod.split sum.split)

lemma record_payment_keeps:
  "record_payment P now p S = (r, S') \<Longrightarrow> ps_engine S' = ps_engine S \<and> ps_coordinator S' = ps_coordinator S"
  by (auto simp: record_payment_def split: prod.splits sum.splits)

lemma record_payment_Inr: "record_payment P now p S = (Inr q, S') \<Longrightarrow> q = p"
  by (auto simp: record_payment_def split: prod.splits sum.splits)

text \<open>
  A call that misses the idempotency store either records a payment under the key and the identifier
  of the request, or fails and leaves the stores as the lookup left them.
\<close>

definition proper_payment :: "payment \<Rightarrow> bool" where
  "proper_payment p \<longleftrightarrow> (\<forall>k. pm_rails p \<noteq> RailsUnknown k \<and> pm_status p \<noteq> StatusUnknown k)"

text \<open>
  A payment as the processor leaves it: cleared, settled or failed, with a reason exactly when failed,
  and unless failed admitted by the authorizer and on the rail the router chose, the internal one never
  merely cleared.
\<close>

definition payment_final :: "authorizer_config \<Rightarrow> router_config \<Rightarrow> payment \<Rightarrow> bool" where
  "payment_final acfg rcfg p \<longleftrightarrow>
     pm_status p \<in> {StatusCleared, StatusSettled, StatusFailed} \<and> (\<forall>k. pm_rails p \<noteq> RailsUnknown k) \<and>
     (pm_status p = StatusFailed \<longleftrightarrow> pm_failure p \<noteq> []) \<and>
     (pm_status p \<noteq> StatusFailed \<longrightarrow> payment_admissible acfg p \<and> pay_route rcfg p = Some (pm_rails p)) \<and>
     (pm_status p = StatusCleared \<longrightarrow> pm_rails p \<noteq> RailsInternal) \<and> pm_created p \<le> pm_updated p"

lemma payment_final_proper: "payment_final acfg rcfg p \<Longrightarrow> proper_payment p"
  by (auto simp: payment_final_def proper_payment_def)

text \<open>A payment that has passed authorization and routing.\<close>

definition payment_routed :: "('s, 'g, 'h, 'k, 'e) processor \<Rightarrow> (nat \<Rightarrow> nat) \<Rightarrow> payment \<Rightarrow> bool" where
  "payment_routed P ck p \<longleftrightarrow>
     payment_admissible (pp_authorizer P) p \<and> pay_route (pp_router P) p = Some (pm_rails p) \<and>
     pm_failure p = [] \<and> pm_created p = ck 2"

lemma admissible_update [simp]:
  "payment_admissible cfg (p\<lparr>pm_status := s\<rparr>) = payment_admissible cfg p"
  "payment_admissible cfg (p\<lparr>pm_updated := u\<rparr>) = payment_admissible cfg p"
  "payment_admissible cfg (p\<lparr>pm_rails := r\<rparr>) = payment_admissible cfg p"
  by (simp_all add: payment_admissible_def split: option.split)

lemma pay_route_update [simp]:
  "pay_route cfg (p\<lparr>pm_status := s\<rparr>) = pay_route cfg p"
  "pay_route cfg (p\<lparr>pm_updated := u\<rparr>) = pay_route cfg p"
  "pay_route cfg (p\<lparr>pm_rails := r\<rparr>) = pay_route cfg p"
  by (simp_all add: pay_route_def router_rules_def routing_rules Let_def split: option.split)

lemma payment_routed_final:
  assumes "payment_routed P ck p" "mono ck"
  shows "payment_final (pp_authorizer P) (pp_router P) (p\<lparr>pm_status := StatusSettled, pm_updated := ck 4\<rparr>)"
    and "pm_rails p \<noteq> RailsInternal \<Longrightarrow>
      payment_final (pp_authorizer P) (pp_router P) (p\<lparr>pm_status := StatusCleared, pm_updated := ck 4\<rparr>)"
    and "payment_final (pp_authorizer P) (pp_router P)
      (p\<lparr>pm_status := StatusFailed, pm_failure := ''engine rejected'', pm_updated := ck 4\<rparr>)"
  using assms pay_route_known [of "pp_router P" p "pm_rails p"] monoD [OF assms(2), of 2 4]
  by (simp_all add: payment_routed_def payment_final_def)

definition records_or_fails ::
  "('s, 'g, 'h, 'k, 'e) processor \<Rightarrow> (nat \<Rightarrow> nat) \<Rightarrow> string \<Rightarrow> string \<Rightarrow> 's \<Rightarrow>
   ('e process_error, payment) result \<Rightarrow> ('s, 'g, 'h, 'e) pay_state \<Rightarrow> bool" where
  "records_or_fails P ck key uuid s r S' \<longleftrightarrow>
     (\<exists>p j S1. payment_final (pp_authorizer P) (pp_router P) p \<and> (j = 4 \<or> j = 5) \<and> pm_key p = key \<and> pm_id p = uuid \<and> ps_stores S1 = s \<and> record_payment P (ck j) p S1 = (r, S')) \<or>
     (\<exists>e. r = Inl e \<and> ps_stores S' = s)"

lemma records_or_failsI:
  "record_payment P (ck j) p S1 = (r, S') \<Longrightarrow> payment_final (pp_authorizer P) (pp_router P) p \<Longrightarrow> j = 4 \<or> j = 5 \<Longrightarrow> ps_stores S1 = s \<Longrightarrow>
   records_or_fails P ck (pm_key p) (pm_id p) s r S'"
  unfolding records_or_fails_def by blast

lemma submit_payment_ends:
  assumes "submit_payment P ck p S = (r, S')" and routed: "payment_routed P ck p" "mono ck"
  shows "records_or_fails P ck (pm_key p) (pm_id p) (ps_stores S) r S'"
proof (cases "pm_rails p = RailsInternal")
  case False
  then show ?thesis
    using assms records_or_failsI [of P ck 5 "p\<lparr>pm_status := StatusCleared, pm_updated := ck 4\<rparr>" S r S' "ps_stores S"]
    by (simp add: submit_payment_def payment_routed_final [OF routed])
next
  case True
  obtain x g where x: "pp_submit P p (ps_engine S) = (x, g)"
    by fastforce
  show ?thesis
  proof (cases x)
    case (Inl e)
    then show ?thesis
      using assms True x by (auto simp: submit_payment_def records_or_fails_def)
  next
    case (Inr y)
    obtain c i where y: "y = (c, i)"
      by fastforce
    show ?thesis
      using assms True x Inr y
        records_or_failsI [of P ck 5 "if c then p\<lparr>pm_status := StatusSettled, pm_updated := ck 4\<rparr>
            else p\<lparr>pm_status := StatusFailed, pm_failure := ''engine rejected'', pm_updated := ck 4\<rparr>"
          "S\<lparr>ps_engine := g\<rparr>" r S' "ps_stores S"]
      by (cases c) (simp_all add: submit_payment_def payment_routed_final [OF routed])
  qed
qed

lemma execute_payment_ends:
  assumes "execute_payment rnd P ck p S = Some (r, S')" and routed: "payment_routed P ck p" "mono ck"
  shows "records_or_fails P ck (pm_key p) (pm_id p) (ps_stores S) r S'"
proof -
  obtain cross where cross: "crosses_shards rnd (pp_shard_router P) p = Some cross"
    using assms by (auto simp: execute_payment_def bind_eq_Some_conv)
  show ?thesis
  proof (cases "if cross then ps_coordinator S else None")
    case None
    then show ?thesis
      using assms cross by (intro submit_payment_ends [OF _ routed]) (simp add: execute_payment_def)
  next
    case (Some c)
    then obtain c' o' where ex: "cross_shard_execute rnd (pp_transfers P) (cross_shard_payment p) c = Some (c', o')"
      and rest: "(case o' of
            Inl e \<Rightarrow> (Inl (CrossShardFailed (pm_id p) e), S\<lparr>ps_coordinator := Some c'\<rparr>)
          | Inr _ \<Rightarrow> record_payment P (ck 5) (p\<lparr>pm_status := StatusSettled, pm_updated := ck 4\<rparr>)
                      (S\<lparr>ps_coordinator := Some c'\<rparr>)) = (r, S')"
      using assms cross by (fastforce simp: execute_payment_def)
    show ?thesis
    proof (cases o')
      case (Inl e)
      then show ?thesis
        using rest by (auto simp: records_or_fails_def)
    next
      case (Inr u)
      then show ?thesis
        using rest records_or_failsI [of P ck 5 "p\<lparr>pm_status := StatusSettled, pm_updated := ck 4\<rparr>"
            "S\<lparr>ps_coordinator := Some c'\<rparr>" r S' "ps_stores S"] by (simp add: payment_routed_final [OF routed])
    qed
  qed
qed

lemma process_payment_ends:
  assumes "process_payment rnd P ck uuid req S = Some (r, S')"
    and "sa_get (pp_store P) (pr_key req) (ck 0) (ps_stores S) = (None, s)" "mono ck"
  shows "records_or_fails P ck (pr_key req) uuid s r S'"
proof -
  define p where "p = new_payment uuid (ck 2) req"
  have p: "pm_key p = pr_key req" "pm_id p = uuid" and r0: "pm_rails p = RailsInternal" "pm_failure p = []" "pm_created p = ck 2"
    by (simp_all add: p_def new_payment_def)
  let ?S0 = "S\<lparr>ps_stores := s\<rparr>"
  let ?p1 = "p\<lparr>pm_status := StatusAuthorized, pm_updated := ck 3\<rparr>"
  show ?thesis
  proof (cases "ar_approved (authorize (pp_authorizer P) p)")
    case False
    have final: "payment_final (pp_authorizer P) (pp_router P) (p\<lparr>pm_status := StatusFailed,
          pm_failure := ar_reason (authorize (pp_authorizer P) p), pm_updated := ck 3\<rparr>)"
      using r0 authorize_reason [OF False] monoD [OF \<open>mono ck\<close>, of 2 3] by (simp add: payment_final_def)
    show ?thesis
      using assms False p records_or_failsI [of P ck 4 "p\<lparr>pm_status := StatusFailed,
          pm_failure := ar_reason (authorize (pp_authorizer P) p), pm_updated := ck 3\<rparr>" ?S0 r S' s]
      by (simp add: process_payment_def Let_def final flip: p_def)
  next
    case True
    then show ?thesis
    proof (cases "pay_route (pp_router P) ?p1")
      case None
      then show ?thesis
        using pay_route_total by blast
    next
      case (Some rails)
      then have "execute_payment rnd P ck (?p1\<lparr>pm_rails := rails\<rparr>) ?S0 = Some (r, S')"
        using assms True by (simp add: process_payment_def Let_def flip: p_def)
      moreover have "payment_routed P ck (?p1\<lparr>pm_rails := rails\<rparr>)"
        using Some True r0 by (simp add: payment_routed_def authorize_approved)
      ultimately show ?thesis
        using execute_payment_ends [of rnd P ck "?p1\<lparr>pm_rails := rails\<rparr>" ?S0 r S'] \<open>mono ck\<close> by (simp add: p)
    qed
  qed
qed

lemma process_payment_hit:
  "sa_get (pp_store P) (pr_key req) (ck 0) (ps_stores S) = (Some p, ps_stores S) \<Longrightarrow>
   process_payment rnd P ck uuid req S = Some (Inr p, S)"
  by (simp add: process_payment_def)

section \<open>What the processor needs of its stores\<close>

text \<open>
  \<open>recalls s key p d\<close>: until time \<open>d\<close> the stores answer \<open>key\<close> with \<open>p\<close>. A lookup finds what is recalled and
  forgets nothing else that is; setting and saving under one key keeps what another key recalls; and
  what is set and then saved under a fresh identifier is recalled for the life time of the stores.
\<close>

locale payment_stores =
  fixes A :: "'s store_api"
    and ok :: "'s \<Rightarrow> bool"
    and has_id :: "'s \<Rightarrow> string \<Rightarrow> bool"
    and recalls :: "'s \<Rightarrow> string \<Rightarrow> payment \<Rightarrow> nat \<Rightarrow> bool"
    and life :: "'s \<Rightarrow> nat"
  assumes get_hit: "recalls s key p d \<Longrightarrow> t \<le> d \<Longrightarrow> sa_get A key t s = (Some p, s)"
    and get_keeps: "recalls s key p d \<Longrightarrow> t \<le> d \<Longrightarrow> recalls (snd (sa_get A key' t s)) key p d"
    and get_ok: "ok s \<Longrightarrow> ok (snd (sa_get A key t s))"
    and get_ids: "has_id (snd (sa_get A key t s)) = has_id s"
    and get_life: "life (snd (sa_get A key t s)) = life s"
    and set_keeps: "recalls s key p d \<Longrightarrow> key' \<noteq> key \<Longrightarrow> recalls (sa_set A key' p' t s) key p d"
    and set_ok: "ok s \<Longrightarrow> ok (sa_set A key p t s)"
    and set_ids: "has_id (sa_set A key p t s) = has_id s"
    and save_keeps: "recalls s key p d \<Longrightarrow> ok s \<Longrightarrow> pm_key p' \<noteq> key \<Longrightarrow> \<not> has_id s (pm_id p') \<Longrightarrow>
          recalls (snd (sa_save A p' s)) key p d"
    and save_ok: "ok s \<Longrightarrow> ok (snd (sa_save A p s))"
    and save_ids: "has_id (snd (sa_save A p s)) i \<Longrightarrow> has_id s i \<or> i = pm_id p"
    and stored: "ok s \<Longrightarrow> proper_payment p \<Longrightarrow> \<not> has_id s (pm_id p) \<Longrightarrow> sa_save A p (sa_set A (pm_key p) p t s) = (Inr (), s') \<Longrightarrow>
          d \<le> t + life s \<Longrightarrow> recalls s' (pm_key p) p d"
begin

lemma record_payment_stores:
  assumes "pp_store P = A" "record_payment P now p S = (r, S')"
  shows "ps_stores S' = snd (sa_save A p (sa_set A (pm_key p) p now (ps_stores S)))"
    and "r = Inr q \<Longrightarrow> q = p \<and> sa_save A p (sa_set A (pm_key p) p now (ps_stores S)) = (Inr (), ps_stores S')"
  using assms by (auto simp: record_payment_def split: prod.splits sum.splits)

lemma process_keeps:
  assumes P: "pp_store P = A" and run: "process_payment rnd P ck uuid req S = Some (r, S')"
    and rec: "recalls (ps_stores S) key p d" and time: "ck 0 \<le> d"
    and ok: "ok (ps_stores S)" and fresh: "\<not> has_id (ps_stores S) uuid" and ck: "mono ck"
  shows "recalls (ps_stores S') key p d"
proof (cases "pr_key req = key")
  case True
  then have "process_payment rnd P ck uuid req S = Some (Inr p, S)"
    using get_hit [OF rec time] P by (intro process_payment_hit) simp
  then show ?thesis
    using run rec by simp
next
  case False
  obtain x s where x: "sa_get A (pr_key req) (ck 0) (ps_stores S) = (x, s)"
    by fastforce
  have s: "recalls s key p d" "ok s" "\<not> has_id s uuid"
    using get_keeps [OF rec time, of "pr_key req"] get_ok [OF ok, of "pr_key req" "ck 0"]
      get_ids [of "pr_key req" "ck 0" "ps_stores S"] fresh by (simp_all add: x)
  show ?thesis
  proof (cases x)
    case (Some q)
    then show ?thesis
      using run x P s by (auto simp: process_payment_def)
  next
    case None
    then have "records_or_fails P ck (pr_key req) uuid s r S'"
      using process_payment_ends [OF run _ ck] x P by simp
    then consider q j S1 where "pm_key q = pr_key req" "pm_id q = uuid" "ps_stores S1 = s" "record_payment P (ck j) q S1 = (r, S')"
      | "ps_stores S' = s"
      unfolding records_or_fails_def by blast
    then show ?thesis
    proof cases
      case 1
      let ?t = "sa_set A (pm_key q) q (ck j) s"
      have "recalls ?t key p d" "ok ?t" "\<not> has_id ?t (pm_id q)"
        using s False 1 set_keeps [OF s(1), of "pm_key q"] set_ok [OF s(2)] set_ids by simp_all
      then show ?thesis
        using save_keeps [of ?t key p d q] False 1 record_payment_stores(1) [OF P 1(4)] by simp
    next
      case 2
      then show ?thesis
        using s by simp
    qed
  qed
qed

lemma process_ok:
  assumes P: "pp_store P = A" and run: "process_payment rnd P ck uuid req S = Some (r, S')" and ok: "ok (ps_stores S)" and ck: "mono ck"
  shows "ok (ps_stores S')" and "has_id (ps_stores S') i \<Longrightarrow> has_id (ps_stores S) i \<or> i = uuid"
proof -
  obtain x s where x: "sa_get A (pr_key req) (ck 0) (ps_stores S) = (x, s)"
    by fastforce
  have s: "ok s" "has_id s = has_id (ps_stores S)"
    using get_ok [OF ok, of "pr_key req" "ck 0"] get_ids [of "pr_key req" "ck 0" "ps_stores S"] by (simp_all add: x)
  have "ok (ps_stores S') \<and> (has_id (ps_stores S') i \<longrightarrow> has_id (ps_stores S) i \<or> i = uuid)"
  proof (cases x)
    case (Some q)
    then show ?thesis
      using run x P s by (auto simp: process_payment_def)
  next
    case None
    then have "records_or_fails P ck (pr_key req) uuid s r S'"
      using process_payment_ends [OF run _ ck] x P by simp
    then consider q j S1 where "pm_id q = uuid" "ps_stores S1 = s" "record_payment P (ck j) q S1 = (r, S')"
      | "ps_stores S' = s"
      unfolding records_or_fails_def by blast
    then show ?thesis
    proof cases
      case 1
      then show ?thesis
        using save_ok [OF set_ok [OF s(1)]] save_ids [of q "sa_set A (pm_key q) q (ck j) s" i] s(2) set_ids
          record_payment_stores(1) [OF P 1(3)] by auto
    qed (use s in simp)
  qed
  then show "ok (ps_stores S')" "has_id (ps_stores S') i \<Longrightarrow> has_id (ps_stores S) i \<or> i = uuid"
    by simp_all
qed

lemma process_stored:
  assumes P: "pp_store P = A" and run: "process_payment rnd P ck uuid req S = Some (Inr p, S')" and ok: "ok (ps_stores S)"
    and miss: "fst (sa_get A (pr_key req) (ck 0) (ps_stores S)) = None" and fresh: "\<not> has_id (ps_stores S) uuid"
    and "mono ck" "d \<le> ck 0 + life (ps_stores S)"
  shows "recalls (ps_stores S') (pr_key req) p d"
proof -
  obtain s where s: "sa_get A (pr_key req) (ck 0) (ps_stores S) = (None, s)"
    using miss by (cases "sa_get A (pr_key req) (ck 0) (ps_stores S)") auto
  have s': "ok s" "\<not> has_id s uuid" "life s = life (ps_stores S)"
    using get_ok [OF ok, of "pr_key req" "ck 0"] get_ids [of "pr_key req" "ck 0" "ps_stores S"] fresh
      get_life [of "pr_key req" "ck 0" "ps_stores S"] by (simp_all add: s)
  obtain q j S1 where q: "j = 4 \<or> j = 5" "pm_key q = pr_key req" "pm_id q = uuid" "ps_stores S1 = s"
    "record_payment P (ck j) q S1 = (Inr p, S')" "proper_payment q"
    using process_payment_ends [OF run _ \<open>mono ck\<close>] s P by (auto simp: records_or_fails_def dest: payment_final_proper)
  have "ck 0 \<le> ck j"
    using q(1) \<open>mono ck\<close> by (auto intro: monoD)
  then show ?thesis
    using stored [of s q "ck j" "ps_stores S'" d] record_payment_stores(2) [OF P q(5) refl] q s' assms(7) by auto
qed

end

fun process_all ::
  "(real \<Rightarrow> real) \<Rightarrow> ('s, 'g, 'h, 'k, 'e) processor \<Rightarrow> ((nat \<Rightarrow> nat) \<times> string \<times> process_payment_request) list \<Rightarrow>
   ('s, 'g, 'h, 'e) pay_state \<Rightarrow> ('s, 'g, 'h, 'e) pay_state option" where
  "process_all rnd P [] S = Some S"
| "process_all rnd P ((ck, uuid, req) # steps) S =
     Option.bind (process_payment rnd P ck uuid req S) (\<lambda>(_, S1). process_all rnd P steps S1)"

context payment_stores
begin

lemma process_all_keeps:
  assumes P: "pp_store P = A" and "process_all rnd P steps S = Some S'"
    and "recalls (ps_stores S) key p d" "ok (ps_stores S)"
    and "\<forall>(ck, uuid, req) \<in> set steps. ck 0 \<le> d \<and> mono ck \<and> \<not> has_id (ps_stores S) uuid"
    and "distinct (map (fst \<circ> snd) steps)"
  shows "recalls (ps_stores S') key p d"
  using assms(2-)
proof (induction steps arbitrary: S)
  case (Cons st steps)
  obtain ck uuid req where st: "st = (ck, uuid, req)"
    by (cases st) auto
  obtain r S1 where S1: "process_payment rnd P ck uuid req S = Some (r, S1)" "process_all rnd P steps S1 = Some S'"
    using Cons.prems(1) by (auto simp: st bind_eq_Some_conv)
  have hd: "ck 0 \<le> d" "\<not> has_id (ps_stores S) uuid" "mono ck"
    using Cons.prems(4) by (auto simp: st)
  have "\<not> has_id (ps_stores S1) u" if "(c, u, q) \<in> set steps" for c u q
    using that Cons.prems(4,5) process_ok(2) [OF P S1(1) Cons.prems(3) hd(3), of u] by (force simp: st)
  then have "\<forall>(ck, uuid, req) \<in> set steps. ck 0 \<le> d \<and> mono ck \<and> \<not> has_id (ps_stores S1) uuid"
    using Cons.prems(4) by auto
  then show ?case
    using Cons.IH [OF S1(2)] process_keeps [OF P S1(1) Cons.prems(2) hd(1) Cons.prems(3) hd(2,3)]
      process_ok(1) [OF P S1(1) Cons.prems(3) hd(3)] Cons.prems(5) by simp
qed simp

lemma idempotent_run:
  assumes P: "pp_store P = A" and run: "process_payment rnd P ck uuid req S = Some (Inr p, S1)" and ok: "ok (ps_stores S)"
    and miss: "fst (sa_get A (pr_key req) (ck 0) (ps_stores S)) = None" and "mono ck"
    and steps: "process_all rnd P steps S1 = Some S2"
    and times: "\<forall>(ck', uuid', req') \<in> set steps. mono ck' \<and> ck' 0 \<le> ck 0 + life (ps_stores S)" "ck2 0 \<le> ck 0 + life (ps_stores S)"
    and ids: "distinct (uuid # map (fst \<circ> snd) steps)" "\<forall>u \<in> set (uuid # map (fst \<circ> snd) steps). \<not> has_id (ps_stores S) u"
    and key: "pr_key req2 = pr_key req"
  shows "process_payment rnd P ck2 uuid2 req2 S2 = Some (Inr p, S2)"
proof -
  let ?d = "ck 0 + life (ps_stores S)"
  have r: "recalls (ps_stores S1) (pr_key req) p ?d"
    using ids(2) by (intro process_stored [OF P run ok miss _ \<open>mono ck\<close>]) simp_all
  have "\<not> has_id (ps_stores S1) u" if "(c, u, q) \<in> set steps" for c u q
    using that ids process_ok(2) [OF P run ok \<open>mono ck\<close>, of u] by force
  then have "recalls (ps_stores S2) (pr_key req) p ?d"
    using times(1) ids(1) by (intro process_all_keeps [OF P steps r process_ok(1) [OF P run ok \<open>mono ck\<close>]]) auto
  from get_hit [OF this times(2)] show ?thesis
    using P key by (intro process_payment_hit) simp
qed

end

section \<open>The two pairs of stores\<close>

definition mem_has_id :: "mem_idempotency \<times> mem_payment_store \<Rightarrow> string \<Rightarrow> bool" where
  "mem_has_id st i \<longleftrightarrow> mp_by_id (snd st) i \<noteq> None"

definition mem_recalls :: "mem_idempotency \<times> mem_payment_store \<Rightarrow> string \<Rightarrow> payment \<Rightarrow> nat \<Rightarrow> bool" where
  "mem_recalls st key p d \<longleftrightarrow>
     (\<exists>e. mi_entries (fst st) key = Some e \<and> ie_payment e = p \<and> d \<le> ie_stored_at e + mi_ttl (fst st))"

interpretation mem: payment_stores mem_store_api "\<lambda>_. True" mem_has_id mem_recalls "\<lambda>st. mi_ttl (fst st)"
  by unfold_locales
    (auto simp: mem_store_api_def mem_has_id_def mem_recalls_def idem_get_def idem_set_def store_save_def
      split: option.splits if_splits)

text \<open>What the database code relies on in the JSON package.\<close>

definition json_ok :: "json_coder \<Rightarrow> bool" where
  "json_ok J \<longleftrightarrow> js_marshal J None = ''null'' \<and>
     (\<forall>m. js_marshal J (Some m) \<noteq> [] \<and> js_marshal J (Some m) \<noteq> ''null'' \<and>
          js_unmarshal J (js_marshal J (Some m)) = Some (Some m))"

lemma rails_int_inverse: "\<forall>k. r \<noteq> RailsUnknown k \<Longrightarrow> rails_of_int (signed_take_bit 15 (rails_int r)) = r"
  by (cases r) (simp_all add: rails_of_int_def)

lemma status_int_inverse: "\<forall>k. s \<noteq> StatusUnknown k \<Longrightarrow> status_of_int (signed_take_bit 15 (status_int s)) = s"
  by (cases s) (simp_all add: status_of_int_def)

lemma scan_payment_row:
  assumes "json_ok J" "proper_payment p"
  shows "scan_payment J (payment_row J p) = Inr p"
  using assms
  by (cases p; cases "pm_metadata p"; cases "pm_amount p"; cases "mo_currency (pm_amount p)")
    (auto simp: scan_payment_def payment_row_def json_ok_def proper_payment_def rails_int_inverse status_int_inverse Let_def)

definition pg_ok :: "json_coder \<Rightarrow> pg_db \<Rightarrow> bool" where
  "pg_ok J db \<longleftrightarrow> json_ok J \<and> (\<forall>st. pg_fault db st = None)"

definition pg_has_id :: "pg_db \<Rightarrow> string \<Rightarrow> bool" where
  "pg_has_id db i \<longleftrightarrow> (\<exists>r \<in> set (pg_rows db). row_id r = i)"

definition pg_recalls :: "json_coder \<Rightarrow> pg_db \<Rightarrow> string \<Rightarrow> payment \<Rightarrow> nat \<Rightarrow> bool" where
  "pg_recalls J db key p d \<longleftrightarrow> pg_get_by_key J key db = Inr (Some p)"

lemma find_append: "find P (xs @ ys) = (case find P xs of Some x \<Rightarrow> Some x | None \<Rightarrow> find P ys)"
  by (induction xs) auto

lemma pg_save_fresh:
  assumes "pg_ok J db" "\<not> pg_has_id db (pm_id p)"
  shows "pg_save J p db = (if \<not> row_fits (payment_row J p) then (Inl (DbError ''value out of range''), db)
    else if \<exists>r \<in> set (pg_rows db). row_key r = pm_key p then (Inl (UniqueViolation (pm_key p)), db)
    else (Inr (), db\<lparr>pg_rows := pg_rows db @ [payment_row J p]\<rparr>))"
  using assms by (auto simp: pg_save_def pg_ok_def pg_has_id_def payment_row_def Let_def)

lemma pg_get_by_key_append:
  assumes "row_key r \<noteq> key"
  shows "pg_get_by_key J key (db\<lparr>pg_rows := pg_rows db @ [r]\<rparr>) = pg_get_by_key J key db"
  using assms by (simp add: pg_get_by_key_def find_append split: option.split)

lemma pg_save_recalls:
  assumes "pg_ok J db" "proper_payment p" "\<not> pg_has_id db (pm_id p)" "pg_save J p db = (Inr (), db')"
  shows "pg_get_by_key J (pm_key p) db' = Inr (Some p)"
proof -
  have a: "db' = db\<lparr>pg_rows := pg_rows db @ [payment_row J p]\<rparr>" "\<not> (\<exists>r \<in> set (pg_rows db). row_key r = pm_key p)"
    using assms(4) unfolding pg_save_fresh [OF assms(1,3)] by (auto split: if_splits)
  then have "find (\<lambda>r. row_key r = pm_key p) (pg_rows db) = None"
    by (simp add: find_None_iff)
  moreover have "row_key (payment_row J p) = pm_key p"
    by (simp add: payment_row_def)
  ultimately show ?thesis
    using assms(1,2) scan_payment_row by (simp add: pg_get_by_key_def a(1) find_append pg_ok_def)
qed

interpretation pg: payment_stores "pg_store_api J" "pg_ok J" pg_has_id "pg_recalls J" "\<lambda>_. L"
  for J :: json_coder and L :: nat
proof unfold_locales
  show "pg_recalls J (snd (sa_save (pg_store_api J) p' s)) key p d"
    if "pg_recalls J s key p d" "pg_ok J s" "pm_key p' \<noteq> key" "\<not> pg_has_id s (pm_id p')" for s key p d p'
    using that pg_get_by_key_append [of "payment_row J p'" key J s]
    by (simp add: pg_store_api_def pg_save_fresh pg_recalls_def payment_row_def)
  show "pg_recalls J s' (pm_key p) p d"
    if "pg_ok J s" "proper_payment p" "\<not> pg_has_id s (pm_id p)"
      "sa_save (pg_store_api J) p (sa_set (pg_store_api J) (pm_key p) p t s) = (Inr (), s')" for s p t s' d
    using that pg_save_recalls by (simp add: pg_store_api_def pg_idem_set_def pg_recalls_def)
qed (auto simp: pg_store_api_def pg_idem_get_def pg_idem_set_def pg_recalls_def pg_ok_def pg_has_id_def pg_save_def
      payment_row_def Let_def split: option.splits if_splits)

section \<open>The engine and the coordinator\<close>

text \<open>Whether a payment that the processor reports as settled was committed, and by whom.\<close>

definition settled_by ::
  "(real \<Rightarrow> real) \<Rightarrow> ('s, 'g, 'h, 'k, 'e) processor \<Rightarrow> payment \<Rightarrow> ('s, 'g, 'h, 'e) pay_state \<Rightarrow> ('s, 'g, 'h, 'e) pay_state \<Rightarrow> bool" where
  "settled_by rnd P p S S' \<longleftrightarrow>
     (pm_rails p = RailsInternal \<and> (\<exists>i. pp_submit P p (ps_engine S) = (Inr (True, i), ps_engine S')) \<and>
      ps_coordinator S' = ps_coordinator S) \<or>
     (crosses_shards rnd (pp_shard_router P) p = Some True \<and> ps_engine S' = ps_engine S \<and>
      (\<exists>c c'. ps_coordinator S = Some c \<and> ps_coordinator S' = Some c' \<and>
        cross_shard_execute rnd (pp_transfers P) (cross_shard_payment p) c = Some (c', Inr ())))"

lemma submit_payment_effects:
  assumes "submit_payment P ck p S = (r, S')"
  shows "ps_coordinator S' = ps_coordinator S"
    and "ps_engine S' = (if pm_rails p = RailsInternal then snd (pp_submit P p (ps_engine S)) else ps_engine S)"
    and "r = Inr q \<Longrightarrow> pm_status q = StatusSettled \<Longrightarrow> settled_by rnd P p S S'"
proof -
  have snd_eq: "S' = snd (submit_payment P ck p S)"
    using assms by simp
  show "ps_coordinator S' = ps_coordinator S"
    "ps_engine S' = (if pm_rails p = RailsInternal then snd (pp_submit P p (ps_engine S)) else ps_engine S)"
    unfolding snd_eq by (simp_all add: submit_payment_def split: prod.split sum.split)
  then show "settled_by rnd P p S S'" if "r = Inr q" "pm_status q = StatusSettled"
    using assms that
    by (auto simp: submit_payment_def settled_by_def split: if_splits prod.splits sum.splits dest!: record_payment_Inr)
qed

lemma execute_payment_effects:
  assumes "execute_payment rnd P ck p S = Some (r, S')"
  shows "ps_engine S' \<noteq> ps_engine S \<Longrightarrow> pm_rails p = RailsInternal \<and> ps_engine S' = snd (pp_submit P p (ps_engine S))"
    and "r = Inr q \<Longrightarrow> pm_status q = StatusSettled \<Longrightarrow> settled_by rnd P p S S'"
proof -
  obtain cross where cross: "crosses_shards rnd (pp_shard_router P) p = Some cross"
    using assms by (auto simp: execute_payment_def bind_eq_Some_conv)
  have "(ps_engine S' \<noteq> ps_engine S \<longrightarrow> pm_rails p = RailsInternal \<and> ps_engine S' = snd (pp_submit P p (ps_engine S))) \<and>
    (r = Inr q \<longrightarrow> pm_status q = StatusSettled \<longrightarrow> settled_by rnd P p S S')"
  proof (cases "if cross then ps_coordinator S else None")
    case None
    then have "submit_payment P ck p S = (r, S')"
      using assms cross by (simp add: execute_payment_def)
    from submit_payment_effects [OF this] show ?thesis
      by auto
  next
    case (Some c)
    then have c: "cross" "ps_coordinator S = Some c"
      by (auto split: if_splits)
    obtain c' out where ex: "cross_shard_execute rnd (pp_transfers P) (cross_shard_payment p) c = Some (c', out)"
      and rest: "(case out of
            Inl e \<Rightarrow> (Inl (CrossShardFailed (pm_id p) e), S\<lparr>ps_coordinator := Some c'\<rparr>)
          | Inr _ \<Rightarrow> record_payment P (ck 5) (p\<lparr>pm_status := StatusSettled, pm_updated := ck 4\<rparr>)
                      (S\<lparr>ps_coordinator := Some c'\<rparr>)) = (r, S')"
      using assms cross c by (fastforce simp: execute_payment_def)
    have s': "ps_engine S' = ps_engine S \<and> ps_coordinator S' = Some c'"
      using rest by (auto split: sum.splits dest: record_payment_keeps)
    moreover have "out = Inr ()" if "r = Inr q"
      using rest that by (cases out) auto
    ultimately show ?thesis
      using c cross ex by (auto simp: settled_by_def)
  qed
  then show "ps_engine S' \<noteq> ps_engine S \<Longrightarrow> pm_rails p = RailsInternal \<and> ps_engine S' = snd (pp_submit P p (ps_engine S))"
    "r = Inr q \<Longrightarrow> pm_status q = StatusSettled \<Longrightarrow> settled_by rnd P p S S'"
    by blast+
qed

text \<open>The payment as it leaves authorization and routing.\<close>

definition routed_payment :: "router_config \<Rightarrow> (nat \<Rightarrow> nat) \<Rightarrow> string \<Rightarrow> process_payment_request \<Rightarrow> payment" where
  "routed_payment cfg ck uuid req =
     (let p = (new_payment uuid (ck 2) req)\<lparr>pm_status := StatusAuthorized, pm_updated := ck 3\<rparr>
      in case pay_route cfg p of None \<Rightarrow> p | Some rails \<Rightarrow> p\<lparr>pm_rails := rails\<rparr>)"

lemma settled_by_stores: "settled_by rnd P p (S\<lparr>ps_stores := s\<rparr>) S' = settled_by rnd P p S S'"
  by (simp add: settled_by_def)

lemma process_payment_admitted:
  assumes "sa_get (pp_store P) (pr_key req) (ck 0) (ps_stores S) = (None, s)"
    and "ar_approved (authorize (pp_authorizer P) (new_payment uuid (ck 2) req))"
  shows "process_payment rnd P ck uuid req S =
    execute_payment rnd P ck (routed_payment (pp_router P) ck uuid req) (S\<lparr>ps_stores := s\<rparr>)"
  using assms pay_route_total [of "pp_router P" "new_payment uuid (ck 2) req"]
  by (auto simp: process_payment_def routed_payment_def Let_def split: option.splits)

lemma process_payment_executes:
  assumes run: "process_payment rnd P ck uuid req S = Some (r, S')"
    and miss: "sa_get (pp_store P) (pr_key req) (ck 0) (ps_stores S) = (None, s)"
    and ok: "ar_approved (authorize (pp_authorizer P) (new_payment uuid (ck 2) req))"
  shows "execute_payment rnd P ck (routed_payment (pp_router P) ck uuid req) (S\<lparr>ps_stores := s\<rparr>) = Some (r, S')"
  using run process_payment_admitted [OF miss ok] by simp

lemma process_payment_refused:
  assumes run: "process_payment rnd P ck uuid req S = Some (r, S')"
    and miss: "sa_get (pp_store P) (pr_key req) (ck 0) (ps_stores S) = (None, s)"
    and ok: "\<not> ar_approved (authorize (pp_authorizer P) (new_payment uuid (ck 2) req))"
  shows "ps_engine S' = ps_engine S" and "ps_coordinator S' = ps_coordinator S"
    and "r = Inr q \<Longrightarrow> pm_status q = StatusFailed"
proof -
  let ?p = "new_payment uuid (ck 2) req"
  have e: "record_payment P (ck 4) (?p\<lparr>pm_status := StatusFailed, pm_failure := ar_reason (authorize (pp_authorizer P) ?p),
      pm_updated := ck 3\<rparr>) (S\<lparr>ps_stores := s\<rparr>) = (r, S')"
    using run miss ok by (simp add: process_payment_def Let_def)
  from record_payment_keeps [OF e] show "ps_engine S' = ps_engine S" "ps_coordinator S' = ps_coordinator S"
    by simp_all
  show "pm_status q = StatusFailed" if "r = Inr q"
    using e that by (auto dest!: record_payment_Inr)
qed


section \<open>The stores stay well formed\<close>

text \<open>
  Every stored payment is final and filed under its own identifier; every entry of the two key indexes
  is filed under its own key and is the payment stored under its identifier.
\<close>

definition mem_stores_wf :: "authorizer_config \<Rightarrow> router_config \<Rightarrow> mem_idempotency \<times> mem_payment_store \<Rightarrow> bool" where
  "mem_stores_wf acfg rcfg st \<longleftrightarrow>
     (\<forall>i p. mp_by_id (snd st) i = Some p \<longrightarrow> pm_id p = i \<and> payment_final acfg rcfg p) \<and>
     (\<forall>k p. mp_by_key (snd st) k = Some p \<longrightarrow> k \<noteq> [] \<and> pm_key p = k \<and> mp_by_id (snd st) (pm_id p) = Some p) \<and>
     (\<forall>k e. mi_entries (fst st) k = Some e \<longrightarrow>
        pm_key (ie_payment e) = k \<and> mp_by_id (snd st) (pm_id (ie_payment e)) = Some (ie_payment e))"

lemma mem_stores_wf_get:
  "mem_stores_wf acfg rcfg st \<Longrightarrow> mem_stores_wf acfg rcfg (snd (sa_get mem_store_api key now st))"
  by (cases st) (auto simp: mem_stores_wf_def mem_store_api_def idem_get_def split: option.splits if_splits)

lemma mem_stores_wf_hit:
  "mem_stores_wf acfg rcfg st \<Longrightarrow> sa_get mem_store_api key now st = (Some p, st') \<Longrightarrow>
   payment_final acfg rcfg p \<and> mp_by_id (snd st') (pm_id p) = Some p"
  unfolding mem_stores_wf_def
  by (cases st) (auto simp: mem_store_api_def idem_get_def split: option.splits if_splits, blast)

lemma mem_stores_wf_record:
  assumes wf: "mem_stores_wf acfg rcfg st" and "payment_final acfg rcfg p" and fresh: "\<not> mem_has_id st (pm_id p)"
  shows "mem_stores_wf acfg rcfg (snd (sa_save mem_store_api p (sa_set mem_store_api (pm_key p) p now st)))"
proof -
  obtain i s where st: "st = (i, s)"
    by fastforce
  have w1: "pm_id q = k \<and> payment_final acfg rcfg q" if "mp_by_id s k = Some q" for k q
    using that wf unfolding mem_stores_wf_def st by simp
  have w2: "k \<noteq> [] \<and> pm_key q = k \<and> mp_by_id s (pm_id q) = Some q" if "mp_by_key s k = Some q" for k q
    using that wf unfolding mem_stores_wf_def st by simp
  have w3: "pm_key (ie_payment e) = k \<and> mp_by_id s (pm_id (ie_payment e)) = Some (ie_payment e)"
    if "mi_entries i k = Some e" for k e
    using that wf unfolding mem_stores_wf_def st by simp
  have new: "pm_id q \<noteq> pm_id p" if "mp_by_id s (pm_id q) = Some q" for q
    using that fresh by (auto simp: st mem_has_id_def)
  let ?st = "(idem_set (pm_key p) p now i, store_save p s)"
  have "\<forall>k q. mp_by_id (snd ?st) k = Some q \<longrightarrow> pm_id q = k \<and> payment_final acfg rcfg q"
    using w1 assms(2) by (simp add: store_save_def)
  moreover have "\<forall>k q. mp_by_key (snd ?st) k = Some q \<longrightarrow>
      k \<noteq> [] \<and> pm_key q = k \<and> mp_by_id (snd ?st) (pm_id q) = Some q"
    using w2 new by (simp add: store_save_def)
  moreover have "\<forall>k e. mi_entries (fst ?st) k = Some e \<longrightarrow>
      pm_key (ie_payment e) = k \<and> mp_by_id (snd ?st) (pm_id (ie_payment e)) = Some (ie_payment e)"
    using w3 new by (simp add: store_save_def idem_set_def)
  ultimately show ?thesis
    by (simp add: mem_stores_wf_def mem_store_api_def st)
qed

lemma process_well_typed:
  assumes P: "pp_store P = mem_store_api" and run: "process_payment rnd P ck uuid req S = Some (r, S')" and ck: "mono ck"
    and wf: "mem_stores_wf (pp_authorizer P) (pp_router P) (ps_stores S)" and fresh: "\<not> mem_has_id (ps_stores S) uuid"
  shows "mem_stores_wf (pp_authorizer P) (pp_router P) (ps_stores S')"
    and "r = Inr p \<Longrightarrow> payment_final (pp_authorizer P) (pp_router P) p \<and> store_get_by_id (pm_id p) (snd (ps_stores S')) = Inr p"
proof -
  let ?wf = "mem_stores_wf (pp_authorizer P) (pp_router P)"
  obtain x s where x: "sa_get mem_store_api (pr_key req) (ck 0) (ps_stores S) = (x, s)"
    by (cases "sa_get mem_store_api (pr_key req) (ck 0) (ps_stores S)")
  have s: "?wf s" "\<not> mem_has_id s uuid"
    using mem_stores_wf_get [OF wf, of "pr_key req" "ck 0"] mem.get_ids [of "pr_key req" "ck 0" "ps_stores S"] fresh
    by (simp_all add: x)
  have "?wf (ps_stores S') \<and> (r = Inr p \<longrightarrow>
    payment_final (pp_authorizer P) (pp_router P) p \<and> mp_by_id (snd (ps_stores S')) (pm_id p) = Some p)"
  proof (cases x)
    case (Some q)
    then show ?thesis
      using run x P s mem_stores_wf_hit [OF wf, of "pr_key req" "ck 0" q s] by (auto simp: process_payment_def)
  next
    case None
    then have "records_or_fails P ck (pr_key req) uuid s r S'"
      using process_payment_ends [OF run _ ck] x P by simp
    then consider q j S1 where "payment_final (pp_authorizer P) (pp_router P) q" "pm_id q = uuid" "ps_stores S1 = s"
        "record_payment P (ck j) q S1 = (r, S')" | e where "r = Inl e" "ps_stores S' = s"
      unfolding records_or_fails_def by blast
    then show ?thesis
    proof cases
      case 1
      have "ps_stores S' = snd (sa_save mem_store_api q (sa_set mem_store_api (pm_key q) q (ck j) s))"
        using mem.record_payment_stores(1) [OF P 1(4)] 1(3) by simp
      moreover have "mp_by_id (snd \<dots>) (pm_id q) = Some q"
        by (cases s) (simp add: mem_store_api_def store_save_def)
      ultimately show ?thesis
        using mem_stores_wf_record [OF s(1) 1(1), of "ck j"] s(2) 1 record_payment_Inr [of P "ck j" q S1 p S'] by auto
    qed (use s in simp)
  qed
  then show "?wf (ps_stores S')"
    "r = Inr p \<Longrightarrow> payment_final (pp_authorizer P) (pp_router P) p \<and> store_get_by_id (pm_id p) (snd (ps_stores S')) = Inr p"
    by (simp_all add: store_get_by_id_def)
qed

lemma process_all_well_typed:
  assumes P: "pp_store P = mem_store_api"
    and "process_all rnd P steps S = Some S'" "mem_stores_wf (pp_authorizer P) (pp_router P) (ps_stores S)"
    and "\<forall>(ck, uuid, req) \<in> set steps. mono ck \<and> \<not> mem_has_id (ps_stores S) uuid" "distinct (map (fst \<circ> snd) steps)"
  shows "mem_stores_wf (pp_authorizer P) (pp_router P) (ps_stores S') \<and>
    (\<forall>i. mem_has_id (ps_stores S') i \<longrightarrow> mem_has_id (ps_stores S) i \<or> i \<in> set (map (fst \<circ> snd) steps))"
  using assms(2-)
proof (induction steps arbitrary: S)
  case (Cons st steps)
  obtain ck uuid req where st: "st = (ck, uuid, req)"
    by (cases st) auto
  obtain r S1 where S1: "process_payment rnd P ck uuid req S = Some (r, S1)" "process_all rnd P steps S1 = Some S'"
    using Cons.prems(1) by (auto simp: st bind_eq_Some_conv)
  have hd: "mono ck" "\<not> mem_has_id (ps_stores S) uuid"
    using Cons.prems(3) by (auto simp: st)
  note ids = mem.process_ok(2) [OF P S1(1) TrueI hd(1)]
  have "\<not> mem_has_id (ps_stores S1) u" if "(c, u, q) \<in> set steps" for c u q
    using that Cons.prems(3,4) ids by (force simp: st)
  then have "\<forall>(ck, uuid, req) \<in> set steps. mono ck \<and> \<not> mem_has_id (ps_stores S1) uuid"
    using Cons.prems(3) by auto
  from Cons.IH [OF S1(2) process_well_typed(1) [OF P S1(1) hd(1) Cons.prems(2) hd(2)] this] show ?case
    using Cons.prems(4) ids by (auto simp: st)
qed simp

text \<open>
  C19. The payments the service keeps are well formed: starting from empty stores, after any sequence
  of requests with fresh identifiers, each stored payment is filed under its identifier and its key,
  is cleared, settled or failed, carries a reason exactly when it failed, and otherwise satisfies the
  authorizer and is on the rail the router chose for it (never merely cleared on the internal one);
  and every payment that a further request returns is well formed and can be retrieved.
\<close>

theorem payments_well_typed:
  assumes "pp_store P = mem_store_api" and "ps_stores S = (mem_idempotency_new ttl, mem_payment_store_new)"
    and "process_all rnd P steps S = Some S1" and "\<forall>(ck, uuid, req) \<in> set steps. mono ck" "mono ck"
    and "distinct (uuid # map (fst \<circ> snd) steps)"
    and "process_payment rnd P ck uuid req S1 = Some (r, S2)"
  shows "mem_stores_wf (pp_authorizer P) (pp_router P) (ps_stores S2) \<and>
    (\<forall>p. r = Inr p \<longrightarrow> payment_final (pp_authorizer P) (pp_router P) p \<and>
       store_get_by_id (pm_id p) (snd (ps_stores S2)) = Inr p)"
proof -
  have 0: "mem_stores_wf (pp_authorizer P) (pp_router P) (ps_stores S)" "\<not> mem_has_id (ps_stores S) i" for i
    by (simp_all add: assms(2) mem_stores_wf_def mem_has_id_def mem_idempotency_new_def mem_payment_store_new_def)
  have "mem_stores_wf (pp_authorizer P) (pp_router P) (ps_stores S1)" "\<not> mem_has_id (ps_stores S1) uuid"
    using process_all_well_typed [OF assms(1,3) 0(1)] 0(2) assms(4,6) by auto
  then show ?thesis
    using process_well_typed [OF assms(1,7,5)] by blast
qed


section \<open>A payment between two local accounts\<close>

definition ex_processor :: "(mem_idempotency \<times> mem_payment_store, nat, nat, unit, string) processor" where
  "ex_processor =
     \<lparr>pp_store = mem_store_api, pp_authorizer = default_authorizer_config,
      pp_router = default_router_config\<lparr>rc_local := [''a'', ''b'']\<rparr>,
      pp_submit = \<lambda>p g. (Inr (True, ''t''), Suc g), pp_shard_router = None, pp_transfers = ex_api\<rparr>"

definition ex_pay_request :: process_payment_request where
  "ex_pay_request =
     \<lparr>pr_key = ''k'', pr_debit = ''a'', pr_credit = ''b'', pr_amount = new_money 500 PayUSD, pr_ledger = 1,
      pr_metadata = Some [''reference'' \<mapsto> ''r'']\<rparr>"

definition ex_pay_state :: "(mem_idempotency \<times> mem_payment_store, nat, nat, string) pay_state" where
  "ex_pay_state =
     \<lparr>ps_stores = (mem_idempotency_new 100, mem_payment_store_new), ps_engine = 0, ps_coordinator = None\<rparr>"

definition ex_payment :: payment where
  "ex_payment =
     \<lparr>pm_id = ''u'', pm_key = ''k'', pm_debit = ''a'', pm_credit = ''b'', pm_amount = new_money 500 PayUSD, pm_ledger = 1,
      pm_rails = RailsInternal, pm_status = StatusSettled, pm_failure = [], pm_created = 2, pm_updated = 4,
      pm_metadata = Some [''reference'' \<mapsto> ''r'']\<rparr>"

definition ex_pay_state1 :: "(mem_idempotency \<times> mem_payment_store, nat, nat, string) pay_state" where
  "ex_pay_state1 =
     \<lparr>ps_stores = (\<lparr>mi_entries = [''k'' \<mapsto> \<lparr>ie_payment = ex_payment, ie_stored_at = 5\<rparr>], mi_ttl = 100\<rparr>,
                   \<lparr>mp_by_id = [''u'' \<mapsto> ex_payment], mp_by_key = [''k'' \<mapsto> ex_payment]\<rparr>),
      ps_engine = 1, ps_coordinator = None\<rparr>"

lemma ex_route: "pm_debit p = ''a'' \<Longrightarrow> pm_credit p = ''b'' \<Longrightarrow> pay_route (pp_router ex_processor) p = Some RailsInternal"
  by (simp add: pay_route_internal ex_processor_def)

lemma ex_admissible: "payment_admissible (pp_authorizer ex_processor) (new_payment u n ex_pay_request)"
  by (simp add: payment_admissible_def ex_processor_def ex_pay_request_def new_payment_def default_authorizer_config_def
      new_money_def PayUSD_def)

lemma ex_routed: "routed_payment (pp_router ex_processor) (\<lambda>n. n) ''u'' ex_pay_request =
    ex_payment\<lparr>pm_status := StatusAuthorized, pm_updated := 3\<rparr>"
  by (simp add: routed_payment_def ex_route new_payment_def ex_pay_request_def ex_payment_def)

lemma ex_miss: "sa_get (pp_store ex_processor) (pr_key ex_pay_request) n (ps_stores ex_pay_state) = (None, ps_stores ex_pay_state)"
  by (simp add: ex_processor_def mem_store_api_def idem_get_def ex_pay_state_def mem_idempotency_new_def)

lemma ex_process: "process_payment rnd ex_processor (\<lambda>n. n) ''u'' ex_pay_request ex_pay_state = Some (Inr ex_payment, ex_pay_state1)"
proof -
  have "process_payment rnd ex_processor (\<lambda>n. n) ''u'' ex_pay_request ex_pay_state =
      execute_payment rnd ex_processor (\<lambda>n. n) (ex_payment\<lparr>pm_status := StatusAuthorized, pm_updated := 3\<rparr>) ex_pay_state"
    using process_payment_admitted [of ex_processor ex_pay_request "\<lambda>n. n" ex_pay_state "ps_stores ex_pay_state" "''u''" rnd]
    by (simp add: ex_miss ex_routed authorize_approved ex_admissible)
  then show ?thesis
    by (simp add: execute_payment_def crosses_shards_def ex_processor_def submit_payment_def record_payment_def mem_store_api_def
      idem_set_def store_save_def ex_payment_def ex_pay_state_def ex_pay_state1_def mem_idempotency_new_def mem_payment_store_new_def)
qed


theorem payments_well_typed_witness:
  "mem_stores_wf (pp_authorizer ex_processor) (pp_router ex_processor) (ps_stores ex_pay_state1) \<and>
   payment_final (pp_authorizer ex_processor) (pp_router ex_processor) ex_payment"
  using payments_well_typed [of ex_processor ex_pay_state 100 "\<lambda>x. x" "[]" ex_pay_state "\<lambda>n. n" "''u''" ex_pay_request
      "Inr ex_payment" ex_pay_state1] ex_process
  by (simp add: mono_def ex_pay_state_def ex_processor_def)


section \<open>Observations\<close>

text \<open>The same with Postgres, without a time limit, as long as no statement fails.\<close>

lemma pg_process_idempotent:
  assumes "pp_store P = pg_store_api J" "pg_ok J (ps_stores S)"
    and "process_payment rnd P ck uuid req S = Some (Inr p, S1)" "pg_idem_get J (pr_key req) (ps_stores S) = None" "mono ck"
    and "process_all rnd P steps S1 = Some S2" "\<forall>(ck', uuid', req') \<in> set steps. mono ck'"
    and "distinct (uuid # map (fst \<circ> snd) steps)"
    and "\<forall>u \<in> set (uuid # map (fst \<circ> snd) steps). \<not> pg_has_id (ps_stores S) u" "pr_key req2 = pr_key req"
  shows "process_payment rnd P ck2 uuid2 req2 S2 = Some (Inr p, S2)"
proof -
  define L where "L = ck2 0 + sum_list (map (\<lambda>(ck', uuid', req'). ck' 0) steps)"
  have "ck' 0 \<le> ck 0 + L" if "(ck', u, q) \<in> set steps" for ck' u q
    using member_le_sum_list [of "ck' 0" "map (\<lambda>(ck', uuid', req'). ck' 0) steps"] that by (force simp: L_def)
  then have "\<forall>(ck', uuid', req') \<in> set steps. mono ck' \<and> ck' 0 \<le> ck 0 + L" "ck2 0 \<le> ck 0 + L"
    using assms(7) by (auto simp: L_def)
  moreover have "fst (sa_get (pg_store_api J) (pr_key req) (ck 0) (ps_stores S)) = None"
    using assms(4) by (simp add: pg_store_api_def)
  ultimately show ?thesis
    using pg.idempotent_run [of P J rnd ck uuid req S p S1 steps S2 L ck2 req2 uuid2] assms by blast
qed

text \<open>A cleaning run removes nothing that is still recalled.\<close>

lemma evict_expired_keeps:
  "mem_recalls (i, s) key p d \<Longrightarrow> now \<le> d \<Longrightarrow> mem_recalls (evict_expired now i, s) key p d"
  by (auto simp: mem_recalls_def evict_expired_def)

text \<open>
  A failed lookup counts as a miss: with the payment of a key stored, a request with that key is sent
  to the engine again, and only then does the store refuse it.
\<close>

lemma pg_lookup_failure_resubmits:
  assumes P: "pp_store P = pg_store_api J" "pp_shard_router P = None" and fault: "pg_fault (ps_stores S) (QueryKey (pr_key req)) = Some e"
    and adm: "payment_admissible (pp_authorizer P) (new_payment uuid (ck 2) req)"
    and loc: "pr_debit req \<in> set (rc_local (pp_router P))" "pr_credit req \<in> set (rc_local (pp_router P))"
    and run: "process_payment rnd P ck uuid req S = Some (r, S')"
  shows "ps_engine S' = snd (pp_submit P (routed_payment (pp_router P) ck uuid req) (ps_engine S))"
proof -
  have miss: "sa_get (pp_store P) (pr_key req) (ck 0) (ps_stores S) = (None, ps_stores S)"
    using fault by (simp add: P pg_store_api_def pg_idem_get_def pg_get_by_key_def)
  have "pay_route (pp_router P) (new_payment uuid (ck 2) req) = Some RailsInternal"
    using loc by (simp add: pay_route_internal new_payment_def)
  then have "pm_rails (routed_payment (pp_router P) ck uuid req) = RailsInternal"
    by (simp add: routed_payment_def)
  moreover have "submit_payment P ck (routed_payment (pp_router P) ck uuid req) S = (r, S')"
    using process_payment_executes [OF run miss] adm P(2)
    by (simp add: authorize_approved execute_payment_def crosses_shards_def)
  ultimately show ?thesis
    using submit_payment_effects(2) by fastforce
qed

text \<open>With the configuration of the server, which has no local accounts, the engine is never called.\<close>

lemma default_router_never_submits:
  assumes "pp_router P = default_router_config" "process_payment rnd P ck uuid req S = Some (r, S')"
    and "sa_get (pp_store P) (pr_key req) (ck 0) (ps_stores S) = (None, s)"
  shows "ps_engine S' = ps_engine S"
proof (cases "ar_approved (authorize (pp_authorizer P) (new_payment uuid (ck 2) req))")
  case True
  have "pay_route default_router_config p \<noteq> Some RailsInternal" for p
    by (simp add: pay_route_internal default_router_config_def)
  then have "pm_rails (routed_payment (pp_router P) ck uuid req) \<noteq> RailsInternal"
    using pay_route_total [of "pp_router P" "new_payment uuid (ck 2) req"]
    by (auto simp: routed_payment_def assms(1) Let_def split: option.split)
  then show ?thesis
    using execute_payment_effects(1) [OF process_payment_executes [OF assms(2,3) True]] by auto
next
  case False
  then show ?thesis
    using process_payment_refused(1) [OF assms(2,3)] by simp
qed

text \<open>Requests without a key share the empty one: the second of two different payments is answered with the first.\<close>

lemma empty_key_shared:
  assumes "mem_recalls (ps_stores S) [] p d" "pp_store P = mem_store_api" "ck 0 \<le> d" "pr_key req = []"
  shows "process_payment rnd P ck uuid req S = Some (Inr p, S)"
  using mem.get_hit [OF assms(1,3)] assms(2,4) by (intro process_payment_hit) simp

end
