(* ===== verification/Blz_EngineClient.thy ===== *)
theory Blz_EngineClient
  imports Blz_Payments Blz_Transport
begin

text \<open>
  The clients through which the payments service reaches the Rust engine: the connection pool and the
  request client (\<^verbatim>\<open>services/payments/internal/engine/client.go\<close>) and the two-phase transfer client
  (\<^verbatim>\<open>transfer_client.go\<close>), and their composition with the connection loop of the Rust transport.

  The Go request and response structures mirror the Rust ones and are the same records. MessagePack
  coding is a record of two functions. A connection is a value of type \<open>'c\<close>; what happens on it when
  a frame is written is the argument \<open>wire\<close>: an error of the write, or the bytes the peer sends before
  the connection closes or its deadline passes.
\<close>

section \<open>The connection pool (client.go)\<close>

record 'c conn_pool =
  cp_conns :: "'c list"
  cp_max :: nat

text \<open>\<open>dial i\<close> is the outcome of the \<open>i\<close>-th dial.\<close>

definition pool_size :: "int \<Rightarrow> nat" where
  "pool_size max_size = (if max_size \<le> 0 then 1 else nat max_size)"

definition new_connection_pool :: "(nat \<Rightarrow> 'c option) \<Rightarrow> int \<Rightarrow> 'c conn_pool option" where
  "new_connection_pool dial max_size =
     (let conns = List.map_filter dial [0..<pool_size max_size]
      in if conns = [] then None else Some \<lparr>cp_conns = conns, cp_max = pool_size max_size\<rparr>)"

text \<open>\<open>None\<close>: the pool is empty and the call ends only when its context is cancelled.\<close>

definition pool_acquire :: "'c conn_pool \<Rightarrow> ('c \<times> 'c conn_pool) option" where
  "pool_acquire P = (case cp_conns P of [] \<Rightarrow> None | c # cs \<Rightarrow> Some (c, P\<lparr>cp_conns := cs\<rparr>))"

definition pool_put :: "'c \<Rightarrow> 'c conn_pool \<Rightarrow> 'c conn_pool" where
  "pool_put c P = (if length (cp_conns P) < cp_max P then P\<lparr>cp_conns := cp_conns P @ [c]\<rparr> else P)"

text \<open>
  A broken connection is closed; the dial of its replacement runs in the background and is the separate
  operation \<open>pool_replace\<close>.
\<close>

definition pool_release :: "'c \<Rightarrow> bool \<Rightarrow> 'c conn_pool \<Rightarrow> 'c conn_pool" where
  "pool_release c broken P = (if broken then P else pool_put c P)"

definition pool_replace :: "'c option \<Rightarrow> 'c conn_pool \<Rightarrow> 'c conn_pool" where
  "pool_replace dialled P = (case dialled of None \<Rightarrow> P | Some c \<Rightarrow> pool_put c P)"

definition pool_close :: "'c conn_pool \<Rightarrow> 'c conn_pool" where
  "pool_close P = P\<lparr>cp_conns := []\<rparr>"

section \<open>Requests (client.go)\<close>

record go_msgpack =
  gm_marshal :: "transaction_request \<Rightarrow> (string, u8 list) result"
  gm_unmarshal :: "u8 list \<Rightarrow> (string, transaction_response) result"

datatype client_error =
  MarshalFailed string | AcquireCancelled | WriteFailed string | ReadHeaderFailed | ResponseTooLarge nat
| ReadPayloadFailed | UnmarshalFailed string | ServerError string | EngineRejected | NoPending string
| PoolInitFailed | PoolMissing

type_synonym ('c, 'w) wire = "'c \<Rightarrow> u8 list \<Rightarrow> 'w \<Rightarrow> (string, u8 list) result \<times> 'w"

definition payment_request :: "payment \<Rightarrow> transaction_request" where
  "payment_request p =
     \<lparr>tq_request_id = pm_id p, tq_debit_account_id = pm_debit p, tq_credit_account_id = pm_credit p,
      tq_amount = show_i64 (mo_minor_units (pm_amount p)), tq_currency = pc_code (mo_currency (pm_amount p)),
      tq_ledger_id = pm_ledger p, tq_code = 1, tq_flags = 0, tq_pending_transfer_id = []\<rparr>"

definition marshal_request :: "go_msgpack \<Rightarrow> payment \<Rightarrow> (client_error, u8 list) result" where
  "marshal_request G p = map_err MarshalFailed (gm_marshal G (payment_request p))"

definition read_response :: "go_msgpack \<Rightarrow> u8 list \<Rightarrow> (client_error, bool \<times> string) result" where
  "read_response G bytes =
     (if length bytes < 4 then Inl ReadHeaderFailed
      else let resp_len = from_be_bytes (take 4 bytes); rest = drop 4 bytes
           in if resp_len > 1048576 then Inl (ResponseTooLarge resp_len)
              else if length rest < resp_len then Inl ReadPayloadFailed
              else case gm_unmarshal G (take resp_len rest) of
                     Inl e \<Rightarrow> Inl (UnmarshalFailed e)
                   | Inr resp \<Rightarrow>
                     (case ts_error resp of
                        Some e \<Rightarrow> Inl (ServerError e)
                      | None \<Rightarrow> Inr (ts_committed resp, case ts_transfer_id resp of None \<Rightarrow> [] | Some i \<Rightarrow> i)))"

definition send_receive ::
  "go_msgpack \<Rightarrow> ('c, 'w) wire \<Rightarrow> 'c \<Rightarrow> u8 list \<Rightarrow> 'w \<Rightarrow> (client_error, bool \<times> string) result \<times> 'w" where
  "send_receive G wire c payload w =
     (case wire c (to_be_bytes 4 (length payload mod 2 ^ 32) @ payload) w of
        (Inl e, w1) \<Rightarrow> (Inl (WriteFailed e), w1)
      | (Inr bytes, w1) \<Rightarrow> (read_response G bytes, w1))"

definition tcp_submit ::
  "go_msgpack \<Rightarrow> ('c, 'w) wire \<Rightarrow> payment \<Rightarrow> 'c conn_pool \<times> 'w \<Rightarrow>
   (client_error, bool \<times> string) result \<times> ('c conn_pool \<times> 'w)" where
  "tcp_submit G wire p st =
     (case marshal_request G p of
        Inl e \<Rightarrow> (Inl e, st)
      | Inr payload \<Rightarrow>
      (case pool_acquire (fst st) of
        None \<Rightarrow> (Inl AcquireCancelled, st)
      | Some (c, pool) \<Rightarrow>
        (let (r, w) = send_receive G wire c payload (snd st)
         in (r, (pool_release c (is_err r) pool, w)))))"

section \<open>Two-phase transfers (transfer_client.go)\<close>

definition flagPending :: u8 where "flagPending = 0x02"
definition flagPost :: u8 where "flagPost = 0x08"
definition flagVoid :: u8 where "flagVoid = 0x10"

record pending_info =
  pi_debit :: string
  pi_credit :: string
  pi_amount :: string
  pi_currency :: string
  pi_ledger :: u32

record 'c transfer_client =
  tc_addr :: string
  tc_once :: bool
  tc_pool :: "'c conn_pool option"
  tc_pending :: "string \<rightharpoonup> pending_info"

definition new_tcp_transfer_client :: "string \<Rightarrow> 'c transfer_client" where
  "new_tcp_transfer_client addr = \<lparr>tc_addr = addr, tc_once = False, tc_pool = None, tc_pending = Map.empty\<rparr>"

definition currency_to_ledger_id :: "string \<Rightarrow> u32" where
  "currency_to_ledger_id c =
     (if c = ''USD'' then 1 else if c = ''EUR'' then 2 else if c = ''GBP'' then 3 else if c = ''JPY'' then 4
      else if c = ''VND'' then 5 else if c = ''BTC'' then 6 else if c = ''ETH'' then 7 else 1)"

text \<open>\<open>dial addr\<close> is the outcome of the one dial of the pool of a client.\<close>

definition get_pool :: "(string \<Rightarrow> 'c option) \<Rightarrow> 'c transfer_client \<Rightarrow> (client_error, 'c conn_pool) result \<times> 'c transfer_client" where
  "get_pool dial c =
     (if \<not> tc_once c
      then case new_connection_pool (\<lambda>_. dial (tc_addr c)) 1 of
             None \<Rightarrow> (Inl PoolInitFailed, c\<lparr>tc_once := True\<rparr>)
           | Some p \<Rightarrow> (Inr p, c\<lparr>tc_once := True, tc_pool := Some p\<rparr>)
      else case tc_pool c of None \<Rightarrow> (Inl PoolMissing, c) | Some p \<Rightarrow> (Inr p, c))"

definition send_request ::
  "go_msgpack \<Rightarrow> ('c, 'w) wire \<Rightarrow> (string \<Rightarrow> 'c option) \<Rightarrow> transaction_request \<Rightarrow> 'c transfer_client \<times> 'w \<Rightarrow>
   (client_error, string) result \<times> ('c transfer_client \<times> 'w)" where
  "send_request G wire dial req st =
     (case gm_marshal G req of
        Inl e \<Rightarrow> (Inl (MarshalFailed e), st)
      | Inr payload \<Rightarrow>
      (case get_pool dial (fst st) of
        (Inl e, c) \<Rightarrow> (Inl e, (c, snd st))
      | (Inr pool, c) \<Rightarrow>
      (case pool_acquire pool of
        None \<Rightarrow> (Inl AcquireCancelled, (c, snd st))
      | Some (conn, pool1) \<Rightarrow>
        (let (r, w) = send_receive G wire conn payload (snd st);
             c1 = c\<lparr>tc_pool := Some (pool_release conn (is_err r) pool1)\<rparr>
         in case r of
              Inl e \<Rightarrow> (Inl e, (c1, w))
            | Inr (committed, i) \<Rightarrow> (if \<not> committed then Inl EngineRejected else Inr i, (c1, w))))))"

definition submit_pending ::
  "go_msgpack \<Rightarrow> ('c, 'w) wire \<Rightarrow> (string \<Rightarrow> 'c option) \<Rightarrow> string \<Rightarrow> cross_shard_request \<Rightarrow> 'c transfer_client \<times> 'w \<Rightarrow>
   (client_error, string) result \<times> ('c transfer_client \<times> 'w)" where
  "submit_pending G wire dial uuid req st =
     (let info = \<lparr>pi_debit = show_nat (unat (cs_from req)), pi_credit = show_nat (unat (cs_to req)),
                  pi_amount = show_i64 (cs_amount req), pi_currency = cs_currency req,
                  pi_ledger = currency_to_ledger_id (cs_currency req)\<rparr>
      in case send_request G wire dial
                \<lparr>tq_request_id = uuid, tq_debit_account_id = pi_debit info, tq_credit_account_id = pi_credit info,
                 tq_amount = pi_amount info, tq_currency = pi_currency info, tq_ledger_id = pi_ledger info,
                 tq_code = 1, tq_flags = flagPending, tq_pending_transfer_id = []\<rparr> st of
           (Inl e, st1) \<Rightarrow> (Inl e, st1)
         | (Inr i, (c, w)) \<Rightarrow> (Inr i, (c\<lparr>tc_pending := (tc_pending c)(i \<mapsto> info)\<rparr>, w)))"

text \<open>The second phase; \<^verbatim>\<open>Commit\<close> and \<^verbatim>\<open>Void\<close> differ in the flag only.\<close>

definition finish_pending ::
  "u8 \<Rightarrow> go_msgpack \<Rightarrow> ('c, 'w) wire \<Rightarrow> (string \<Rightarrow> 'c option) \<Rightarrow> string \<Rightarrow> string \<Rightarrow> 'c transfer_client \<times> 'w \<Rightarrow>
   (client_error, unit) result \<times> ('c transfer_client \<times> 'w)" where
  "finish_pending flag G wire dial uuid i st =
     (case tc_pending (fst st) i of
        None \<Rightarrow> (Inl (NoPending i), st)
      | Some info \<Rightarrow>
        (let c = (fst st)\<lparr>tc_pending := (tc_pending (fst st))(i := None)\<rparr>
         in case send_request G wire dial
                   \<lparr>tq_request_id = uuid, tq_debit_account_id = pi_debit info, tq_credit_account_id = pi_credit info,
                    tq_amount = pi_amount info, tq_currency = pi_currency info, tq_ledger_id = pi_ledger info,
                    tq_code = 1, tq_flags = flag, tq_pending_transfer_id = i\<rparr> (c, snd st) of
              (Inl e, st1) \<Rightarrow> (Inl e, st1)
            | (Inr _, st1) \<Rightarrow> (Inr (), st1)))"

definition tcp_commit ::
  "go_msgpack \<Rightarrow> ('c, 'w) wire \<Rightarrow> (string \<Rightarrow> 'c option) \<Rightarrow> string \<Rightarrow> string \<Rightarrow> 'c transfer_client \<times> 'w \<Rightarrow>
   (client_error, unit) result \<times> ('c transfer_client \<times> 'w)" where
  "tcp_commit = finish_pending flagPost"

definition tcp_void ::
  "go_msgpack \<Rightarrow> ('c, 'w) wire \<Rightarrow> (string \<Rightarrow> 'c option) \<Rightarrow> string \<Rightarrow> string \<Rightarrow> 'c transfer_client \<times> 'w \<Rightarrow>
   (client_error, unit) result \<times> ('c transfer_client \<times> 'w)" where
  "tcp_void = finish_pending flagVoid"

subsection \<open>The factory of the server (cmd/server/main.go)\<close>

text \<open>
  The clients made so far, in order, the state behind the connections and the number of UUIDs drawn.
  Every call of the factory makes a new client.
\<close>

record ('c, 'w) transfer_world =
  tw_clients :: "'c transfer_client list"
  tw_wire :: 'w
  tw_drawn :: nat

definition make_client :: "string \<Rightarrow> ('c, 'w) transfer_world \<Rightarrow> ('c, 'w) transfer_world \<times> nat" where
  "make_client addr W = (W\<lparr>tw_clients := tw_clients W @ [new_tcp_transfer_client addr]\<rparr>, length (tw_clients W))"

definition on_client ::
  "(string \<Rightarrow> 'c transfer_client \<times> 'w \<Rightarrow> 'r \<times> ('c transfer_client \<times> 'w)) \<Rightarrow> (nat \<Rightarrow> string) \<Rightarrow> nat \<Rightarrow> ('c, 'w) transfer_world \<Rightarrow>
   ('c, 'w) transfer_world \<times> 'r" where
  "on_client f uuids k W =
     (let (r, (c, w)) = f (uuids (tw_drawn W)) (tw_clients W ! k, tw_wire W)
      in (W\<lparr>tw_clients := (tw_clients W)[k := c], tw_wire := w, tw_drawn := Suc (tw_drawn W)\<rparr>, r))"

definition tcp_transfer_api ::
  "go_msgpack \<Rightarrow> ('c, 'w) wire \<Rightarrow> (string \<Rightarrow> 'c option) \<Rightarrow> (nat \<Rightarrow> string) \<Rightarrow>
   (('c, 'w) transfer_world, nat, client_error) transfer_api" where
  "tcp_transfer_api G wire dial uuids =
     \<lparr>api_factory = make_client,
      api_submit_pending = \<lambda>k req. on_client (\<lambda>uuid. submit_pending G wire dial uuid req) uuids k,
      api_commit = \<lambda>k i. on_client (\<lambda>uuid. tcp_commit G wire dial uuid i) uuids k,
      api_void = \<lambda>k i. on_client (\<lambda>uuid. tcp_void G wire dial uuid i) uuids k\<rparr>"

section \<open>The pool is bounded\<close>

definition pool_ok :: "'c conn_pool \<Rightarrow> bool" where
  "pool_ok P \<longleftrightarrow> length (cp_conns P) \<le> cp_max P"

lemma new_connection_pool_ok: "new_connection_pool dial n = Some P \<Longrightarrow> pool_ok P \<and> cp_conns P \<noteq> []"
  using length_filter_le [of "\<lambda>x. dial x \<noteq> None" "[0..<pool_size n]"]
  by (auto simp: new_connection_pool_def pool_ok_def Let_def List.map_filter_def split: if_splits)

lemma pool_ops_ok:
  assumes "pool_ok P"
  shows "pool_acquire P = Some (c, P') \<Longrightarrow> pool_ok P'" and "pool_ok (pool_release c broken P)"
    and "pool_ok (pool_replace d P)" and "pool_ok (pool_close P)"
  using assms by (auto simp: pool_ok_def pool_acquire_def pool_release_def pool_put_def pool_replace_def pool_close_def
      split: list.splits option.splits)

lemma tcp_submit_pool_ok: "pool_ok (fst st) \<Longrightarrow> pool_ok (fst (snd (tcp_submit G wire p st)))"
  by (auto simp: tcp_submit_def Let_def pool_ops_ok split: sum.split option.split prod.split)

text \<open>
  A failed request costs the pool a connection until a replacement is dialled, and with an empty pool
  a request reaches no engine.
\<close>

lemma tcp_submit_empty_pool:
  "cp_conns (fst st) = [] \<Longrightarrow> snd (tcp_submit G wire p st) = st \<and> is_err (fst (tcp_submit G wire p st))"
  by (simp add: tcp_submit_def pool_acquire_def split: sum.split)

section \<open>The client against the Rust server\<close>

text \<open>
  One frame on a persistent connection to the server of \<open>Blz_Transport\<close>: the state is the number of the
  request and the ring.
\<close>

definition server_wire ::
  "('d, 'x) externs \<Rightarrow> (string \<Rightarrow> uuid_bytes option) \<Rightarrow> rmp \<Rightarrow> surroundings \<Rightarrow> ('c, nat \<times> transaction_event ring) wire" where
  "server_wire X up M E c bytes w =
     (let (r, s) = conn_loop X up M E (fst w) (snd w) \<lparr>st_in = bytes, st_out = [], st_room = None\<rparr>
      in (Inr (st_out s), (Suc (fst w), r)))"

text \<open>What the two sides rely on in their MessagePack packages: each decodes what the other encodes.\<close>

definition msgpack_interop :: "go_msgpack \<Rightarrow> rmp \<Rightarrow> bool" where
  "msgpack_interop G M \<longleftrightarrow>
     (\<forall>req bs. gm_marshal G req = Inr bs \<longrightarrow> rmp_request_from_slice M bs = Inr req) \<and>
     (\<forall>resp bs. rmp_response_to_vec M resp = Inr bs \<longrightarrow> gm_unmarshal G bs = Inr resp)"

lemma server_wire_serves:
  assumes "length p \<le> MAX_FRAME_SIZE" "rmp_response_to_vec M (snd (serve_request X up M E k r p)) = Inr bs"
  shows "server_wire X up M E c (frame_encode p) (k, r) = (Inr (frame_encode bs), (Suc k, fst (serve_request X up M E k r p)))"
proof -
  let ?s = "\<lparr>st_in = frame_encode p, st_out = [], st_room = None\<rparr> :: tcp_stream"
  obtain r1 resp where sv: "serve_request X up M E k r p = (r1, resp)"
    by fastforce
  have "read_frame ?s = (Inr p, ?s\<lparr>st_in := []\<rparr>)"
    using read_frame_encode [OF assms(1), of ?s "[]"] by simp
  moreover have "send_response M (?s\<lparr>st_in := []\<rparr>) resp = \<lparr>st_in = [], st_out = frame_encode bs, st_room = None\<rparr>"
    using assms(2) by (simp add: sv send_response_eq taken_def room_after_def)
  moreover have "conn_loop X up M E (Suc k) r1 \<lparr>st_in = [], st_out = frame_encode bs, st_room = None\<rparr> =
      (r1, \<lparr>st_in = [], st_out = frame_encode bs, st_room = None\<rparr>)"
    by (subst conn_loop.simps) (simp add: read_frame_def read_exact_def)
  ultimately have "conn_loop X up M E k r ?s = (r1, \<lparr>st_in = [], st_out = frame_encode bs, st_room = None\<rparr>)"
    by (subst conn_loop.simps) (simp add: sv)
  then show ?thesis
    by (simp add: server_wire_def sv)
qed

lemma read_response_frame:
  assumes "length bs \<le> MAX_FRAME_SIZE" "gm_unmarshal G bs = Inr resp"
  shows "read_response G (frame_encode bs) =
    (case ts_error resp of Some e \<Rightarrow> Inl (ServerError e)
     | None \<Rightarrow> Inr (ts_committed resp, case ts_transfer_id resp of None \<Rightarrow> [] | Some i \<Rightarrow> i))"
  using assms frame_encode_length [OF assms(1), of "[]"]
  by (simp add: read_response_def Let_def MAX_FRAME_SIZE_def) (simp add: frame_encode_def)

text \<open>The client sees exactly the response of the server to the marshalled request.\<close>

lemma send_receive_server:
  assumes I: "msgpack_interop G M" and bs: "length bs \<le> MAX_FRAME_SIZE" and sv: "serve_request X up M E k r bs = (r1, resp)"
    and out: "rmp_response_to_vec M resp = Inr out" "length out \<le> MAX_FRAME_SIZE"
  shows "send_receive G (server_wire X up M E) c bs (k, r) =
    (case ts_error resp of Some e \<Rightarrow> Inl (ServerError e)
     | None \<Rightarrow> Inr (ts_committed resp, case ts_transfer_id resp of None \<Rightarrow> [] | Some i \<Rightarrow> i), (Suc k, r1))"
proof -
  have "gm_unmarshal G out = Inr resp"
    using I out(1) unfolding msgpack_interop_def by blast
  then show ?thesis
    unfolding send_receive_def frame_encode_def [symmetric]
    using server_wire_serves [OF bs, of M X up E k r out c] out read_response_frame [OF out(2)] by (simp add: sv)
qed

text \<open>A response of the server reports either a commit with a transfer or an error.\<close>

lemma serve_request_response:
  "ts_error (snd (serve_request X up M E k r p)) = None \<longleftrightarrow> ts_committed (snd (serve_request X up M E k r p))"
  by (simp add: serve_request_def error_response_def timeout_response_def build_response_def
      split: sum.split prod.split option.split transaction_result.split)

lemma tcp_submit_server:
  assumes "msgpack_interop G M" "cp_conns pool = c # cs" "gm_marshal G (payment_request p) = Inr bs" "length bs \<le> MAX_FRAME_SIZE"
    and resp: "resp = snd (serve_request X up M E k r bs)" and "rmp_response_to_vec M resp = Inr out" "length out \<le> MAX_FRAME_SIZE"
  shows "fst (tcp_submit G (server_wire X up M E) p (pool, (k, r))) =
       (case ts_error resp of Some e \<Rightarrow> Inl (ServerError e)
        | None \<Rightarrow> Inr (True, case ts_transfer_id resp of None \<Rightarrow> [] | Some i \<Rightarrow> i))"
proof -
  obtain r1 where sv: "serve_request X up M E k r bs = (r1, resp)"
    using resp by (cases "serve_request X up M E k r bs") simp
  have "ts_committed resp" if "ts_error resp = None"
    using serve_request_response [of X up M E k r bs] that by (simp add: sv)
  then show ?thesis
    using send_receive_server [OF assms(1,4) sv assms(6,7), of c]
    by (simp add: tcp_submit_def marshal_request_def assms(2,3) pool_acquire_def split: option.split)
qed


definition ex_dong_payment :: payment where
  "ex_dong_payment =
     \<lparr>pm_id = ''7'', pm_key = ''k'', pm_debit = ''1'', pm_credit = ''2'', pm_amount = new_money 5 PayVND, pm_ledger = 5,
      pm_rails = RailsInternal, pm_status = StatusAuthorized, pm_failure = [], pm_created = 0, pm_updated = 0,
      pm_metadata = None\<rparr>"

definition ex_response :: transaction_response where
  "ex_response =
     \<lparr>ts_request_id = ''7'', ts_committed = True, ts_transfer_id = Some (replicate 16 (char_of (1 :: nat))), ts_error = None,
      ts_timestamp_ns = 0\<rparr>"

definition ex_go :: go_msgpack where
  "ex_go =
     \<lparr>gm_marshal = \<lambda>req. if req = ex_transaction_request then Inr [1] else Inl ''unknown'',
      gm_unmarshal = \<lambda>bs. if bs = [2] then Inr ex_response else Inl ''unknown''\<rparr>"

definition ex_rmp2 :: rmp where
  "ex_rmp2 = ex_rmp\<lparr>rmp_response_to_vec := \<lambda>resp. if resp = ex_response then Inr [2] else Inl ''unknown''\<rparr>"

lemma ex_interop: "msgpack_interop ex_go ex_rmp2"
  by (auto simp: msgpack_interop_def ex_go_def ex_rmp2_def ex_rmp_def split: if_splits)

lemma ex_dong_request: "payment_request ex_dong_payment = ex_transaction_request"
  by (simp add: payment_request_def ex_dong_payment_def ex_transaction_request_def new_money_def PayVND_def show_i64_def
      show_nat.simps digit_char_def char_of_def bit_0)

lemma ex_served: "snd (serve_request ref_externs (\<lambda>_. None) ex_rmp2 ex_surroundings 0 ex_ring [1]) = ex_response"
proof -
  have "deserialize_request ex_rmp2 [1] = Inr ex_transaction_request"
    by (simp add: deserialize_request_def ex_rmp2_def ex_rmp_def)
  moreover obtain ev where "build_event ref_externs (\<lambda>_. None) (Timestamp 0) (replicate 16 1) ex_transaction_request = Inr ev"
    by (simp add: build_event_def ex_transaction_request_def id64_from_str_def parse_uint_def char_digit_def ledger_id_new_def
        rd_of_str_def rd_parse_abs_def rd_mk_def ledger_id_to_currency_def or_else_def amount_new_def MAX_SCALE_def
        amount_to_minor_units_def currency_scale_def rd_mul_def Let_def)
  moreover obtain r1 s where "publish_event ex_ring ev = (r1, Inr s)"
    by (simp add: publish_event_def ex_ring_def ring_buffer_new_def is_power_of_two_def has_available_capacity_def
        next_sequence_def sequence_increment_def Let_def)
  moreover have "u_show ref_externs (as_uuid (UuidId (replicate 16 1))) = replicate 16 (char_of (1 :: nat))"
    by (simp add: ref_externs_def as_uuid_def)
  ultimately show ?thesis
    by (simp add: serve_request_def ex_surroundings_def build_response_def ex_response_def)
      (simp add: ex_transaction_request_def)
qed


section \<open>Amounts across the wire\<close>

text \<open>
  The client sends the number of minor units; the server reads it as a decimal in major units and
  multiplies it by the scale of the currency. The event is over the scale times the payment.
\<close>

lemma build_event_amount:
  assumes "build_event X up now v4 req = Inr ev"
  obtains a c am m where "d_of_str X (tq_amount req) = Some a" "tq_ledger_id req \<noteq> 0"
    "or_else (ledger_id_to_currency X (LedgerId (tq_ledger_id req))) (parse_currency X (tq_currency req)) = Inr c"
    "amount_new X a c = Inr am" "amount_to_minor_units X am = Inr m" "ev_amount_units ev = word_of_nat m"
  using assms unfolding build_event_def and_then_Inr_iff ok_or_Inr_iff Let_def
  by (auto simp: ledger_id_new_def transaction_event_new_def split: if_splits)

lemma scaled_units:
  assumes laws: "dec_arith X val" "dec_conv X val" and a: "val a = of_nat n" "d_scale X a = 0"
    and new: "amount_new X a c = Inr am" and units: "amount_to_minor_units X am = Inr m"
    and small: "n * unat (currency_scale X c) < 2 ^ 96"
  shows "m = n * unat (currency_scale X c)"
proof -
  have am: "amt_value am = a" "amt_currency am = c"
    using new by (auto simp: amount_new_def split: if_splits)
  let ?s = "d_of_u64 X (currency_scale X c)"
  define k where "k = unat (currency_scale X c)"
  have s: "val ?s = of_nat k" "d_scale X ?s = 0"
    using laws(2) by (simp_all add: dec_conv_def k_def)
  have "\<bar>int (n * k)\<bar> < 2 ^ 96"
    using small unfolding k_def [symmetric] by (simp flip: of_nat_less_iff [where 'a = int])
  moreover have "val a * val ?s * 10 ^ (0 + 0) = of_int (int (n * k))"
    by (simp add: a(1) s(1))
  ultimately have "representable (val a * val ?s) (0 + 0)"
    unfolding representable_def by (intro conjI exI [of _ "int (n * k)"]) simp_all
  then obtain d where d: "d_mul X a ?s = Some d" "val d = val a * val ?s"
    using dec_mulE [OF laws(1), of a ?s] a(2) s(2) by auto
  have "val d = of_nat (n * k)"
    by (simp add: d(2) a(1) s(1))
  then have "d_to_u128 X d = Some (n * k)"
    using laws(2) by (simp add: dec_conv_def)
  then show ?thesis
    using units d(1) by (auto simp: amount_to_minor_units_def am k_def split: if_splits)
qed

lemma engine_amount_rescaled:
  assumes laws: "dec_arith X val" "dec_conv X val" and units: "mo_minor_units (pm_amount p) = int n" "n < 2 ^ 63"
    and ev: "build_event X up now v4 (payment_request p) = Inr ev"
    and cur: "or_else (ledger_id_to_currency X (LedgerId (pm_ledger p))) (parse_currency X (pc_code (mo_currency (pm_amount p)))) = Inr c"
    and small: "n * unat (currency_scale X c) < 2 ^ 96"
  shows "ev_amount_units ev = word_of_nat (n * unat (currency_scale X c))"
proof -
  have amt: "tq_amount (payment_request p) = show_nat n"
    by (simp add: payment_request_def units show_i64_def)
  have "n < 2 ^ 96"
    using units(2) by (rule less_trans) simp
  then obtain a where a: "d_of_str X (show_nat n) = Some a" "val a = of_nat n" "d_scale X a = 0"
    using laws(2) unfolding dec_conv_def by blast
  obtain a' c' am m where m: "d_of_str X (tq_amount (payment_request p)) = Some a'"
    "or_else (ledger_id_to_currency X (LedgerId (tq_ledger_id (payment_request p))))
       (parse_currency X (tq_currency (payment_request p))) = Inr c'"
    "amount_new X a' c' = Inr am" "amount_to_minor_units X am = Inr m" "ev_amount_units ev = word_of_nat m"
    using build_event_amount [OF ev] by metis
  have "a' = a" "c' = c"
    using m(1,2) a(1) cur by (simp_all only: amt) (simp_all add: payment_request_def)
  then show ?thesis
    using scaled_units [OF laws a(2,3) _ m(4) small] m(3,5) by simp
qed

section \<open>Two-phase transfers of the server\<close>

lemma send_request_pending: "tc_pending (fst (snd (send_request G wire dial req st))) = tc_pending (fst st)"
  by (simp add: send_request_def get_pool_def Let_def split: sum.split option.split prod.split if_split)

text \<open>What a client finishes it has begun itself, and only once.\<close>

lemma finish_pending_once:
  "tc_pending (fst (snd (finish_pending flag G wire dial uuid i st))) i = None"
proof (cases "tc_pending (fst st) i")
  case (Some info)
  let ?c = "(fst st)\<lparr>tc_pending := (tc_pending (fst st))(i := None)\<rparr>"
  have "fst (snd (finish_pending flag G wire dial uuid i st)) = fst (snd (send_request G wire dial
      \<lparr>tq_request_id = uuid, tq_debit_account_id = pi_debit info, tq_credit_account_id = pi_credit info,
       tq_amount = pi_amount info, tq_currency = pi_currency info, tq_ledger_id = pi_ledger info,
       tq_code = 1, tq_flags = flag, tq_pending_transfer_id = i\<rparr> (?c, snd st)))"
    by (simp add: finish_pending_def Some Let_def split: sum.split prod.split)
  then show ?thesis
    by (simp add: send_request_pending)
qed (simp add: finish_pending_def)

lemma on_client_other: "j \<noteq> k \<Longrightarrow> tw_clients (fst (on_client f uuids k W)) ! j = tw_clients W ! j"
  by (simp add: on_client_def Let_def split: prod.split)

lemma commit_without_pending:
  assumes "tc_pending (tw_clients W ! k) i = None"
  shows "snd (on_client (\<lambda>uuid. tcp_commit G wire dial uuid i) uuids k W) = Inl (NoPending i)"
  using assms by (simp add: on_client_def tcp_commit_def finish_pending_def)

text \<open>
  The factory gives the destination a client of its own, which knows nothing of the transfer that the
  client of the source has pending: the commit always fails, and no transfer across shards succeeds.
\<close>

lemma cross_shard_never_commits:
  assumes run: "cross_shard_execute rnd (tcp_transfer_api G wire dial uuids) req (C, W) = Some ((C', W'), r)"
    and cache: "\<forall>key. co_cache C key \<noteq> Some (Inr ())"
  shows "r \<noteq> Inr () \<and> (\<forall>key. co_cache C' key \<noteq> Some (Inr ()))"
proof (cases "co_cache C (cs_key req)")
  case None
  let ?api = "tcp_transfer_api G wire dial uuids"
  have r: "r \<noteq> Inr ()"
  proof
    assume "r = Inr ()"
    with run have run': "cross_shard_execute rnd ?api req (C, W) = Some ((C', W'), Inr ())"
      by simp
    obtain n m W1 k1 W2 k2 W3 i where
      "route_by_account rnd (co_router C) (cs_from req) = Some (Inr n)" "route_by_account rnd (co_router C) (cs_to req) = Some (Inr m)" and
      1: "api_factory ?api (ni_address n) W = (W1, k1)" and 2: "api_factory ?api (ni_address m) W1 = (W2, k2)"
      and 3: "api_submit_pending ?api k1 req W2 = (W3, Inr i)" and 4: "api_commit ?api k2 i W3 = (W', Inr ())"
      by (rule execute_success [OF run' None])
    have k: "k2 \<noteq> k1" "tw_clients W2 ! k2 = new_tcp_transfer_client (ni_address m)"
      using 1 2 by (auto simp: tcp_transfer_api_def make_client_def nth_append)
    have "tw_clients W3 ! k2 = tw_clients W2 ! k2"
      using 3 on_client_other [OF k(1), of "\<lambda>uuid. submit_pending G wire dial uuid req" uuids W2]
      by (simp add: tcp_transfer_api_def)
    then have "tc_pending (tw_clients W3 ! k2) i = None"
      by (simp add: k(2) new_tcp_transfer_client_def)
    from commit_without_pending [OF this, of G wire dial uuids] 4 show False
      by (simp add: tcp_transfer_api_def)
  qed
  then show ?thesis
    using execute_fresh [OF run None] cache r by (auto simp: cache_store_def split: if_splits)
next
  case (Some r')
  then have "C' = C"
    using execute_router(2) [OF run Some] by simp
  moreover have "r = r' \<or> is_err r"
    using run Some by (auto simp: cross_shard_execute_def Let_def bind_eq_Some_conv split: if_splits)
  ultimately show ?thesis
    using cache Some by auto
qed

end
