(* ===== verification/Blz_Float.thy ===== *)
theory Blz_Float
  imports Blz_Prelude Complex_Main
begin

text \<open>
  Floating-point arithmetic as the components use it: a double is a real, and every operation rounds its exact
  result by an argument \<open>rnd\<close>, of which \<open>double_round\<close> states the laws of double precision; and the fixed-point
  format of doubles.
\<close>

text \<open>
  Double precision: integers up to \<open>2 ^ 53\<close> are exact, and a result in the normal range has a relative
  error of at most \<open>2 ^ -53\<close>.
\<close>

definition double_round :: "(real \<Rightarrow> real) \<Rightarrow> bool" where
  "double_round rnd \<longleftrightarrow>
     (\<forall>k :: int. \<bar>k\<bar> \<le> 2 ^ 53 \<longrightarrow> rnd (of_int k) = of_int k) \<and>
     (\<forall>x. 1 / 2 ^ 1022 \<le> \<bar>x\<bar> \<longrightarrow> \<bar>x\<bar> \<le> 2 ^ 1023 \<longrightarrow> \<bar>rnd x - x\<bar> \<le> \<bar>x\<bar> / 2 ^ 53)"

text \<open>The format \<^verbatim>\<open>{:.k}\<close> of a double that is not negative: the nearest decimal of \<open>k\<close> places, ties to even.\<close>

definition round_half_even :: "real \<Rightarrow> int" where
  "round_half_even x =
     (let f = \<lfloor>x\<rfloor>; d = x - of_int f
      in if d < 1 / 2 then f else if d > 1 / 2 then f + 1 else if even f then f else f + 1)"

definition fmt_fixed :: "nat \<Rightarrow> real \<Rightarrow> string" where
  "fmt_fixed k x =
     (let n = nat (round_half_even (x * 10 ^ k))
      in show_nat (n div 10 ^ k) @ ''.'' @ pad_left k (show_nat (n mod 10 ^ k)))"

lemma unat_word_of_nat_less: "n < 2 ^ LENGTH('a) \<Longrightarrow> unat (word_of_nat n :: 'a :: len word) = n"
  by (simp add: unat_of_nat take_bit_nat_eq_self)

lemma double_round_int:
  assumes "double_round rnd" "\<bar>k\<bar> \<le> 2 ^ 53"
  shows "rnd (of_int k) = of_int k"
  using assms unfolding double_round_def by blast

lemma double_round_zero: "double_round rnd \<Longrightarrow> rnd 0 = 0"
  using double_round_int [of rnd 0] by simp

lemma double_round_err:
  assumes "double_round rnd" "1 / 2 ^ 1022 \<le> \<bar>x\<bar>" "\<bar>x\<bar> \<le> 2 ^ 1023"
  shows "\<bar>rnd x - x\<bar> \<le> \<bar>x\<bar> / 2 ^ 53"
  using assms unfolding double_round_def by blast

lemma double_round_id: "double_round (\<lambda>x. x)"
  by (simp add: double_round_def)

lemma round_half_even_near:
  assumes "\<bar>x - of_int n\<bar> < 1 / 2"
  shows "round_half_even x = n"
proof (cases "of_int n \<le> x")
  case True
  then have "\<lfloor>x\<rfloor> = n"
    using assms by linarith
  then show ?thesis
    using True assms unfolding round_half_even_def Let_def by simp
next
  case False
  then have "\<lfloor>x\<rfloor> = n - 1"
    using assms by linarith
  then show ?thesis
    using False assms unfolding round_half_even_def Let_def by simp
qed

end
