(* ===== verification/Blz_Banking.thy ===== *)
theory Blz_Banking
  imports Blz_Float Complex_Main Blz_Prelude
begin

text \<open>
  The banking service: accounts (\<^verbatim>\<open>services/banking/internal/accounts\<close>), balances and their mutation
  (\<^verbatim>\<open>balances\<close>), the transaction history (\<^verbatim>\<open>history\<close>), interest (\<^verbatim>\<open>interest\<close>) and the request
  handlers of \<^verbatim>\<open>main.go\<close>, over the in-memory stores and over Postgres tables.

  An \<^verbatim>\<open>int64\<close> is an integer with its wrap-around written out. Clock readings and UUIDs are arguments.
  A crediting or debiting call first reads the account and the balance and then writes the balance and
  the history, without a lock around the two; the two halves are definitions of their own, so that the
  interleaving of two calls can be stated. Floating-point rounding is an argument.
\<close>

section \<open>Accounts, balances and transactions (domain)\<close>

datatype account_status = AccountStatusActive | AccountStatusClosed | AccountStatusFrozen | AccountStatusOther int

fun account_status_string :: "account_status \<Rightarrow> string" where
  "account_status_string AccountStatusActive = ''active''"
| "account_status_string AccountStatusClosed = ''closed''"
| "account_status_string AccountStatusFrozen = ''frozen''"
| "account_status_string (AccountStatusOther _) = ''unknown''"

datatype account_type = AccountTypeChecking | AccountTypeSavings | AccountTypeLoan | AccountTypeOther int

fun account_type_string :: "account_type \<Rightarrow> string" where
  "account_type_string AccountTypeChecking = ''checking''"
| "account_type_string AccountTypeSavings = ''savings''"
| "account_type_string AccountTypeLoan = ''loan''"
| "account_type_string (AccountTypeOther _) = ''unknown''"

record bank_account =
  ba_id :: string
  ba_owner :: string
  ba_type :: account_type
  ba_currency :: string
  ba_balance :: i64
  ba_status :: account_status
  ba_created :: nat
  ba_updated :: nat

record bank_balance =
  bb_account :: string
  bb_units :: i64
  bb_currency :: string
  bb_updated :: nat

datatype transaction_type = TransactionTypeDebit | TransactionTypeCredit | TransactionTypeInterest | TransactionTypeFee

fun transaction_type_string :: "transaction_type \<Rightarrow> string" where
  "transaction_type_string TransactionTypeDebit = ''debit''"
| "transaction_type_string TransactionTypeCredit = ''credit''"
| "transaction_type_string TransactionTypeInterest = ''interest''"
| "transaction_type_string TransactionTypeFee = ''fee''"

record bank_transaction =
  bt_id :: string
  bt_account :: string
  bt_type :: transaction_type
  bt_amount :: i64
  bt_currency :: string
  bt_balance_after :: i64
  bt_description :: string
  bt_reference :: string
  bt_timestamp :: nat

datatype banking_error =
  ErrAccountNotFound | ErrAccountAlreadyExists | ErrInsufficientFunds | ErrAccountClosed | ErrAccountFrozen
| ErrAccountNotActive | ErrAccountHasBalance | ErrTransactionNotFound | ErrNegativeAmount
| ErrTransactionExists string | ErrDatabase string

section \<open>The account service in memory (accounts/service.go)\<close>

record create_account_request =
  cr_id :: string
  cr_owner :: string
  cr_type :: account_type
  cr_currency :: string
  cr_initial :: i64

type_synonym bank_accounts = "string \<rightharpoonup> bank_account"

definition create_account ::
  "nat \<Rightarrow> create_account_request \<Rightarrow> bank_accounts \<Rightarrow> (banking_error, bank_account) result \<times> bank_accounts" where
  "create_account now req A =
     (if cr_initial req < 0 then (Inl ErrNegativeAmount, A)
      else case A (cr_id req) of
             Some _ \<Rightarrow> (Inl ErrAccountAlreadyExists, A)
           | None \<Rightarrow>
             (let acc = \<lparr>ba_id = cr_id req, ba_owner = cr_owner req, ba_type = cr_type req, ba_currency = cr_currency req,
                         ba_balance = cr_initial req, ba_status = AccountStatusActive, ba_created = now, ba_updated = now\<rparr>
              in (Inr acc, A(cr_id req \<mapsto> acc))))"

definition get_account :: "string \<Rightarrow> bank_accounts \<Rightarrow> (banking_error, bank_account) result" where
  "get_account i A = (case A i of None \<Rightarrow> Inl ErrAccountNotFound | Some acc \<Rightarrow> Inr acc)"

text \<open>The iteration order \<open>ids\<close> of the map is an argument.\<close>

definition list_accounts_by_owner :: "string list \<Rightarrow> string \<Rightarrow> bank_accounts \<Rightarrow> bank_account list" where
  "list_accounts_by_owner ids owner A =
     List.map_filter (\<lambda>i. case A i of None \<Rightarrow> None | Some acc \<Rightarrow> if ba_owner acc = owner then Some acc else None) ids"

definition freeze_account :: "nat \<Rightarrow> string \<Rightarrow> bank_accounts \<Rightarrow> (banking_error, unit) result \<times> bank_accounts" where
  "freeze_account now i A =
     (case A i of
        None \<Rightarrow> (Inl ErrAccountNotFound, A)
      | Some acc \<Rightarrow>
          if ba_status acc = AccountStatusFrozen then (Inl ErrAccountFrozen, A)
          else if ba_status acc = AccountStatusClosed then (Inl ErrAccountClosed, A)
          else (Inr (), A(i \<mapsto> acc\<lparr>ba_status := AccountStatusFrozen, ba_updated := now\<rparr>)))"

text \<open>\<open>checker\<close> is the balance service once it is injected.\<close>

definition close_account ::
  "nat \<Rightarrow> (string \<Rightarrow> (banking_error, bank_balance) result) option \<Rightarrow> string \<Rightarrow> bank_accounts \<Rightarrow>
   (banking_error, unit) result \<times> bank_accounts" where
  "close_account now checker i A =
     (let check = (case checker of
            None \<Rightarrow> None
          | Some get \<Rightarrow> (case get i of
              Inl e \<Rightarrow> Some e
            | Inr bal \<Rightarrow> if bb_units bal \<noteq> 0 then Some ErrAccountHasBalance else None))
      in case check of
           Some e \<Rightarrow> (Inl e, A)
         | None \<Rightarrow>
           (case A i of
              None \<Rightarrow> (Inl ErrAccountNotFound, A)
            | Some acc \<Rightarrow>
                if ba_status acc = AccountStatusClosed then (Inl ErrAccountClosed, A)
                else (Inr (), A(i \<mapsto> acc\<lparr>ba_status := AccountStatusClosed, ba_updated := now\<rparr>))))"

section \<open>The history in memory (history/memory.go)\<close>

record tx_store =
  tx_by_id :: "string \<rightharpoonup> bank_transaction"
  tx_by_account :: "string \<Rightarrow> bank_transaction list"

definition tx_store_new :: tx_store where
  "tx_store_new = \<lparr>tx_by_id = Map.empty, tx_by_account = \<lambda>_. []\<rparr>"

definition tx_append :: "bank_transaction \<Rightarrow> tx_store \<Rightarrow> (banking_error, unit) result \<times> tx_store" where
  "tx_append t H =
     (case tx_by_id H (bt_id t) of
        Some _ \<Rightarrow> (Inl (ErrTransactionExists (bt_id t)), H)
      | None \<Rightarrow> (Inr (), H\<lparr>tx_by_id := (tx_by_id H)(bt_id t \<mapsto> t),
                          tx_by_account := (tx_by_account H)(bt_account t := tx_by_account H (bt_account t) @ [t])\<rparr>))"

definition tx_get_by_id :: "string \<Rightarrow> tx_store \<Rightarrow> (banking_error, bank_transaction) result" where
  "tx_get_by_id i H = (case tx_by_id H i of None \<Rightarrow> Inl ErrTransactionNotFound | Some t \<Rightarrow> Inr t)"

record list_options =
  lo_limit :: int
  lo_offset :: int

text \<open>
  The order that \<^verbatim>\<open>sort.Slice\<close> gives entries of the same time is not specified, so the sorting function is
  an argument. \<open>None\<close> is the panic of a slice with a negative bound.
\<close>

definition list_by_account ::
  "(bank_transaction list \<Rightarrow> bank_transaction list) \<Rightarrow> string \<Rightarrow> list_options \<Rightarrow> tx_store \<Rightarrow> bank_transaction list option" where
  "list_by_account srt i opts H =
     (let txs = srt (tx_by_account H i)
      in if lo_offset opts \<ge> int (length txs) then Some []
         else if lo_offset opts < 0 then None
         else let rest = drop (nat (lo_offset opts)) txs
              in Some (if lo_limit opts > 0 \<and> lo_limit opts < int (length rest) then take (nat (lo_limit opts)) rest else rest))"

section \<open>The balance service (balances)\<close>

type_synonym bank_balances = "string \<rightharpoonup> bank_balance"

definition balance_get :: "string \<Rightarrow> bank_balances \<Rightarrow> (banking_error, bank_balance) result" where
  "balance_get i B = (case B i of None \<Rightarrow> Inl ErrAccountNotFound | Some b \<Rightarrow> Inr b)"

definition balance_set :: "bank_balance \<Rightarrow> bank_balances \<Rightarrow> bank_balances" where
  "balance_set b B = B(bb_account b \<mapsto> b)"

record bank =
  bk_accounts :: bank_accounts
  bk_balances :: bank_balances
  bk_history :: tx_store

definition bank_new :: bank where
  "bank_new = \<lparr>bk_accounts = Map.empty, bk_balances = Map.empty, bk_history = tx_store_new\<rparr>"

record balance_summary =
  bs_account :: string
  bs_units :: i64
  bs_currency :: string
  bs_status :: account_status

definition get_balance_summary :: "string \<Rightarrow> bank \<Rightarrow> (banking_error, balance_summary) result" where
  "get_balance_summary i S =
     and_then (get_account i (bk_accounts S)) (\<lambda>acc.
     and_then (balance_get i (bk_balances S)) (\<lambda>bal.
       Inr \<lparr>bs_account = ba_id acc, bs_units = bb_units bal, bs_currency = bb_currency bal, bs_status = ba_status acc\<rparr>))"

fun account_status_err :: "account_status \<Rightarrow> banking_error" where
  "account_status_err AccountStatusClosed = ErrAccountClosed"
| "account_status_err AccountStatusFrozen = ErrAccountFrozen"
| "account_status_err _ = ErrAccountNotActive"

record posting =
  po_account :: string
  po_amount :: i64
  po_currency :: string
  po_reference :: string
  po_payment :: string

text \<open>The reading half of a credit and of a debit: the balance it will work from.\<close>

definition credit_read :: "posting \<Rightarrow> bank \<Rightarrow> (banking_error, bank_balance) result" where
  "credit_read p S =
     (if po_amount p < 0 then Inl ErrNegativeAmount
      else and_then (get_account (po_account p) (bk_accounts S)) (\<lambda>acc.
           if ba_status acc \<noteq> AccountStatusActive then Inl (account_status_err (ba_status acc))
           else balance_get (po_account p) (bk_balances S)))"

definition debit_read :: "posting \<Rightarrow> bank \<Rightarrow> (banking_error, bank_balance) result" where
  "debit_read p S =
     (if po_amount p < 0 then Inl ErrNegativeAmount
      else and_then (get_account (po_account p) (bk_accounts S)) (\<lambda>acc.
           if ba_status acc \<noteq> AccountStatusActive then Inl (account_status_err (ba_status acc))
           else and_then (balance_get (po_account p) (bk_balances S)) (\<lambda>bal.
                if ba_type acc \<noteq> AccountTypeLoan \<and> bb_units bal < po_amount p then Inl ErrInsufficientFunds
                else Inr bal)))"

text \<open>The writing half: the new balance and the entry of the history.\<close>

definition posting_write ::
  "transaction_type \<Rightarrow> (i64 \<Rightarrow> i64 \<Rightarrow> i64) \<Rightarrow> nat \<Rightarrow> string \<Rightarrow> posting \<Rightarrow> bank_balance \<Rightarrow> bank \<Rightarrow>
   (banking_error, bank_balance) result \<times> bank" where
  "posting_write ty f now uuid p bal S =
     (let new = \<lparr>bb_account = po_account p, bb_units = f (bb_units bal) (po_amount p), bb_currency = bb_currency bal,
                 bb_updated = now\<rparr>;
          S1 = S\<lparr>bk_balances := balance_set new (bk_balances S)\<rparr>;
          tx = \<lparr>bt_id = uuid, bt_account = po_account p, bt_type = ty, bt_amount = po_amount p, bt_currency = po_currency p,
                bt_balance_after = bb_units new, bt_description = po_reference p, bt_reference = po_payment p,
                bt_timestamp = now\<rparr>
      in case tx_append tx (bk_history S1) of
           (Inl e, _) \<Rightarrow> (Inl e, S1)
         | (Inr _, H) \<Rightarrow> (Inr new, S1\<lparr>bk_history := H\<rparr>))"

definition credit_write :: "nat \<Rightarrow> string \<Rightarrow> posting \<Rightarrow> bank_balance \<Rightarrow> bank \<Rightarrow> (banking_error, bank_balance) result \<times> bank" where
  "credit_write = posting_write TransactionTypeCredit (\<lambda>b a. wrap_i64 (b + a))"

definition debit_write :: "nat \<Rightarrow> string \<Rightarrow> posting \<Rightarrow> bank_balance \<Rightarrow> bank \<Rightarrow> (banking_error, bank_balance) result \<times> bank" where
  "debit_write = posting_write TransactionTypeDebit (\<lambda>b a. wrap_i64 (b - a))"

definition bank_credit :: "nat \<Rightarrow> string \<Rightarrow> posting \<Rightarrow> bank \<Rightarrow> (banking_error, bank_balance) result \<times> bank" where
  "bank_credit now uuid p S = (case credit_read p S of Inl e \<Rightarrow> (Inl e, S) | Inr bal \<Rightarrow> credit_write now uuid p bal S)"

definition bank_debit :: "nat \<Rightarrow> string \<Rightarrow> posting \<Rightarrow> bank \<Rightarrow> (banking_error, bank_balance) result \<times> bank" where
  "bank_debit now uuid p S = (case debit_read p S of Inl e \<Rightarrow> (Inl e, S) | Inr bal \<Rightarrow> debit_write now uuid p bal S)"

section \<open>The request handlers (main.go)\<close>

datatype grpc_code = InvalidArgument | NotFound | AlreadyExists | FailedPrecondition | Internal

fun domain_to_grpc_status :: "banking_error \<Rightarrow> grpc_code" where
  "domain_to_grpc_status ErrAccountNotFound = NotFound"
| "domain_to_grpc_status ErrTransactionNotFound = NotFound"
| "domain_to_grpc_status ErrAccountAlreadyExists = AlreadyExists"
| "domain_to_grpc_status ErrInsufficientFunds = FailedPrecondition"
| "domain_to_grpc_status ErrAccountClosed = FailedPrecondition"
| "domain_to_grpc_status ErrAccountFrozen = FailedPrecondition"
| "domain_to_grpc_status ErrAccountNotActive = FailedPrecondition"
| "domain_to_grpc_status ErrAccountHasBalance = FailedPrecondition"
| "domain_to_grpc_status ErrNegativeAmount = InvalidArgument"
| "domain_to_grpc_status _ = Internal"

definition parse_account_type :: "string \<Rightarrow> account_type option" where
  "parse_account_type s =
     (if s = ''checking'' \<or> s = [] then Some AccountTypeChecking else if s = ''savings'' then Some AccountTypeSavings
      else if s = ''loan'' then Some AccountTypeLoan else None)"

record create_account_message =
  cm_id :: string
  cm_owner :: string
  cm_type :: string
  cm_currency :: string
  cm_initial :: i64

definition handle_create_account ::
  "nat \<Rightarrow> nat \<Rightarrow> create_account_message \<Rightarrow> bank \<Rightarrow> (grpc_code, string \<times> string \<times> string) result \<times> bank" where
  "handle_create_account now now2 m S =
     (case parse_account_type (cm_type m) of
        None \<Rightarrow> (Inl InvalidArgument, S)
      | Some ty \<Rightarrow>
        (case create_account now \<lparr>cr_id = cm_id m, cr_owner = cm_owner m, cr_type = ty, cr_currency = cm_currency m,
                                 cr_initial = cm_initial m\<rparr> (bk_accounts S) of
           (Inl e, A) \<Rightarrow> (Inl (domain_to_grpc_status e), S\<lparr>bk_accounts := A\<rparr>)
         | (Inr acc, A) \<Rightarrow>
             (Inr (ba_id acc, account_status_string (ba_status acc), ba_currency acc),
              S\<lparr>bk_accounts := A,
                bk_balances := balance_set \<lparr>bb_account = ba_id acc, bb_units = ba_balance acc, bb_currency = ba_currency acc,
                                            bb_updated = now2\<rparr> (bk_balances S)\<rparr>)))"

definition handle_get_account :: "string \<Rightarrow> bank \<Rightarrow> (grpc_code, string \<times> string \<times> string \<times> string \<times> i64 \<times> string) result" where
  "handle_get_account i S =
     (case get_account i (bk_accounts S) of
        Inl e \<Rightarrow> Inl (domain_to_grpc_status e)
      | Inr acc \<Rightarrow> Inr (ba_id acc, ba_owner acc, account_type_string (ba_type acc), ba_currency acc, ba_balance acc,
                        account_status_string (ba_status acc)))"

definition handle_get_balance :: "string \<Rightarrow> bank \<Rightarrow> (grpc_code, string \<times> i64 \<times> string \<times> string) result" where
  "handle_get_balance i S =
     (case get_balance_summary i S of
        Inl e \<Rightarrow> Inl (domain_to_grpc_status e)
      | Inr s \<Rightarrow> Inr (bs_account s, bs_units s, bs_currency s, account_status_string (bs_status s)))"

definition handle_list_transactions ::
  "(bank_transaction list \<Rightarrow> bank_transaction list) \<Rightarrow> string \<Rightarrow> int \<Rightarrow> int \<Rightarrow> bank \<Rightarrow>
   (string \<times> string \<times> string \<times> i64 \<times> string \<times> i64 \<times> string \<times> nat) list option" where
  "handle_list_transactions srt i limit offset S =
     map_option (map (\<lambda>t. (bt_id t, bt_account t, transaction_type_string (bt_type t), bt_amount t, bt_currency t,
                          bt_balance_after t, bt_description t, bt_timestamp t)))
       (list_by_account srt i \<lparr>lo_limit = limit, lo_offset = offset\<rparr> (bk_history S))"

section \<open>The books\<close>

text \<open>What an entry of the history adds to the balance, and the balance after a list of entries.\<close>

definition posted :: "bank_transaction \<Rightarrow> int" where
  "posted t = (if bt_type t \<in> {TransactionTypeDebit, TransactionTypeFee} then - bt_amount t else bt_amount t)"

definition credited :: "bank_transaction \<Rightarrow> int" where
  "credited t = (if bt_type t \<in> {TransactionTypeDebit, TransactionTypeFee} then 0 else bt_amount t)"

fun replay :: "i64 \<Rightarrow> bank_transaction list \<Rightarrow> i64" where
  "replay b [] = b"
| "replay b (t # ts) = replay (wrap_i64 (b + posted t)) ts"

lemma replay_append [simp]: "replay b (xs @ [t]) = wrap_i64 (replay b xs + posted t)"
  by (induction xs arbitrary: b) simp_all

lemma replay_sum: "in_i64 b \<Longrightarrow> replay b ts = wrap_i64 (b + sum_list (map posted ts))"
  by (induction ts rule: rev_induct) (simp_all add: wrap_i64_add add.assoc)

text \<open>
  The entries of an account: each has a fresh place in the index, a non-negative amount, and carries the
  balance that replaying the history up to it gives.
\<close>

definition entries_ok :: "tx_store \<Rightarrow> string \<Rightarrow> i64 \<Rightarrow> bool" where
  "entries_ok H i opening \<longleftrightarrow>
     (\<forall>k < length (tx_by_account H i). let t = tx_by_account H i ! k in
        bt_account t = i \<and> 0 \<le> bt_amount t \<and> tx_by_id H (bt_id t) = Some t \<and>
        bt_balance_after t = replay opening (take (Suc k) (tx_by_account H i)))"

definition books_ok :: "bank \<Rightarrow> string \<Rightarrow> bank_account \<Rightarrow> bank_balance \<Rightarrow> bool" where
  "books_ok S i acc b \<longleftrightarrow>
     (let ts = tx_by_account (bk_history S) i; opening = ba_balance acc in
      ba_id acc = i \<and> bb_account b = i \<and> 0 \<le> opening \<and> in_i64 opening \<and>
      entries_ok (bk_history S) i opening \<and> bb_units b = replay opening ts \<and>
      (ba_status acc = AccountStatusClosed \<longrightarrow> bb_units b = 0) \<and>
      (ba_type acc \<noteq> AccountTypeLoan \<and> opening + sum_list (map credited ts) < 2 ^ 63 \<longrightarrow>
         0 \<le> bb_units b \<and> bb_units b = opening + sum_list (map posted ts)))"

definition bank_ok :: "bank \<Rightarrow> bool" where
  "bank_ok S \<longleftrightarrow>
     (\<forall>i. (bk_accounts S i = None \<longleftrightarrow> bk_balances S i = None) \<and>
          (bk_accounts S i = None \<longrightarrow> tx_by_account (bk_history S) i = [])) \<and>
     (\<forall>i acc b. bk_accounts S i = Some acc \<longrightarrow> bk_balances S i = Some b \<longrightarrow> books_ok S i acc b)"

lemma bank_ok_new: "bank_ok bank_new"
  by (simp add: bank_ok_def bank_new_def tx_store_new_def)

lemma bank_okD:
  assumes "bank_ok S"
  shows "bk_accounts S i = None \<longleftrightarrow> bk_balances S i = None"
    and "bk_accounts S i = None \<Longrightarrow> tx_by_account (bk_history S) i = []"
    and "bk_accounts S i = Some acc \<Longrightarrow> bk_balances S i = Some b \<Longrightarrow> books_ok S i acc b"
  using assms unfolding bank_ok_def by blast+

subsection \<open>Every operation keeps the books\<close>

datatype bank_op =
  OpCreate nat nat create_account_message
| OpCredit nat string posting
| OpDebit nat string posting
| OpFreeze nat string
| OpClose nat string

fun run_bank_op :: "bank_op \<Rightarrow> bank \<Rightarrow> bank" where
  "run_bank_op (OpCreate now now2 m) S = snd (handle_create_account now now2 m S)"
| "run_bank_op (OpCredit now uuid p) S = snd (bank_credit now uuid p S)"
| "run_bank_op (OpDebit now uuid p) S = snd (bank_debit now uuid p S)"
| "run_bank_op (OpFreeze now i) S = S\<lparr>bk_accounts := snd (freeze_account now i (bk_accounts S))\<rparr>"
| "run_bank_op (OpClose now i) S =
     S\<lparr>bk_accounts := snd (close_account now (Some (\<lambda>i. balance_get i (bk_balances S))) i (bk_accounts S))\<rparr>"

text \<open>The arguments are 64-bit integers; the UUIDs an operation draws.\<close>

fun op_in_range :: "bank_op \<Rightarrow> bool" where
  "op_in_range (OpCreate _ _ m) \<longleftrightarrow> in_i64 (cm_initial m)"
| "op_in_range (OpCredit _ _ p) \<longleftrightarrow> in_i64 (po_amount p)"
| "op_in_range (OpDebit _ _ p) \<longleftrightarrow> in_i64 (po_amount p)"
| "op_in_range _ \<longleftrightarrow> True"

fun op_uuids :: "bank_op \<Rightarrow> string list" where
  "op_uuids (OpCredit _ u _) = [u]"
| "op_uuids (OpDebit _ u _) = [u]"
| "op_uuids _ = []"

lemma create_bank_ok:
  assumes ok: "bank_ok S" and range: "in_i64 (cm_initial m)"
  shows "bank_ok (snd (handle_create_account now now2 m S))"
proof (cases "parse_account_type (cm_type m) = None \<or> cm_initial m < 0 \<or> bk_accounts S (cm_id m) \<noteq> None")
  case True
  then have "snd (handle_create_account now now2 m S) = S"
    by (auto simp: handle_create_account_def create_account_def split: option.split)
  then show ?thesis
    using ok by simp
next
  case False
  define acc where "acc = \<lparr>ba_id = cm_id m, ba_owner = cm_owner m, ba_type = the (parse_account_type (cm_type m)),
    ba_currency = cm_currency m, ba_balance = cm_initial m, ba_status = AccountStatusActive, ba_created = now, ba_updated = now\<rparr>"
  define b where "b = \<lparr>bb_account = cm_id m, bb_units = cm_initial m, bb_currency = cm_currency m, bb_updated = now2\<rparr>"
  have S': "snd (handle_create_account now now2 m S) =
      S\<lparr>bk_accounts := (bk_accounts S)(cm_id m \<mapsto> acc), bk_balances := (bk_balances S)(cm_id m \<mapsto> b)\<rparr>"
    using False by (auto simp: handle_create_account_def create_account_def balance_set_def acc_def b_def Let_def)
  have new: "tx_by_account (bk_history S) (cm_id m) = []"
    using False bank_okD(2) [OF ok] by blast
  have "books_ok (S\<lparr>bk_accounts := A, bk_balances := B\<rparr>) (cm_id m) acc b" for A B
    using False range new by (simp add: books_ok_def entries_ok_def acc_def b_def)
  moreover have "books_ok (S\<lparr>bk_accounts := A, bk_balances := B\<rparr>) i x y = books_ok S i x y" for A B i x y
    by (simp add: books_ok_def)
  ultimately show ?thesis
    using ok False unfolding S' bank_ok_def by auto
qed

lemma status_change_ok:
  assumes ok: "bank_ok S" and acc: "bk_accounts S i = Some acc"
    and closed: "st = AccountStatusClosed \<Longrightarrow> \<forall>b. bk_balances S i = Some b \<longrightarrow> bb_units b = 0"
  shows "bank_ok (S\<lparr>bk_accounts := (bk_accounts S)(i \<mapsto> acc\<lparr>ba_status := st, ba_updated := now\<rparr>)\<rparr>)"
proof -
  have same: "books_ok (S\<lparr>bk_accounts := A\<rparr>) j x y = books_ok S j x y" for A j x y
    by (simp add: books_ok_def)
  have "books_ok S i (acc\<lparr>ba_status := st, ba_updated := now\<rparr>) b" if "bk_balances S i = Some b" for b
    using bank_okD(3) [OF ok acc that] closed that by (auto simp: books_ok_def Let_def)
  then show ?thesis
    using ok acc bank_okD(1) [OF ok, of i] unfolding bank_ok_def by (auto simp: same)
qed

lemma freeze_bank_ok: "bank_ok S \<Longrightarrow> bank_ok (S\<lparr>bk_accounts := snd (freeze_account now i (bk_accounts S))\<rparr>)"
  using status_change_ok [of S i "the (bk_accounts S i)" AccountStatusFrozen now]
  by (cases "bk_accounts S i") (simp_all add: freeze_account_def)

lemma close_bank_ok:
  "bank_ok S \<Longrightarrow> bank_ok (S\<lparr>bk_accounts := snd (close_account now (Some (\<lambda>i. balance_get i (bk_balances S))) i (bk_accounts S))\<rparr>)"
  using status_change_ok [of S i "the (bk_accounts S i)" AccountStatusClosed now]
  by (cases "bk_accounts S i"; cases "bk_balances S i") (simp_all add: close_account_def balance_get_def)

text \<open>A posting from the current balance of an active account keeps the books.\<close>

lemma posting_bank_ok:
  assumes ok: "bank_ok S" and acc: "bk_accounts S (po_account p) = Some acc" "ba_status acc = AccountStatusActive"
    and bal: "bk_balances S (po_account p) = Some bal" and fresh: "tx_by_id (bk_history S) uuid = None"
    and amount: "0 \<le> po_amount p" "in_i64 (po_amount p)"
    and kind: "(ty = TransactionTypeCredit \<and> f = (\<lambda>b a. wrap_i64 (b + a))) \<or>
      (ty = TransactionTypeDebit \<and> f = (\<lambda>b a. wrap_i64 (b - a)) \<and> (ba_type acc = AccountTypeLoan \<or> po_amount p \<le> bb_units bal))"
  shows "bank_ok (snd (posting_write ty f now uuid p bal S))"
proof -
  define i where "i = po_account p"
  define H where "H = bk_history S"
  define b where "b = \<lparr>bb_account = i, bb_units = f (bb_units bal) (po_amount p), bb_currency = bb_currency bal, bb_updated = now\<rparr>"
  define t where "t = \<lparr>bt_id = uuid, bt_account = i, bt_type = ty, bt_amount = po_amount p, bt_currency = po_currency p,
    bt_balance_after = bb_units b, bt_description = po_reference p, bt_reference = po_payment p, bt_timestamp = now\<rparr>"
  define H' where "H' = H\<lparr>tx_by_id := (tx_by_id H)(uuid \<mapsto> t), tx_by_account := (tx_by_account H)(i := tx_by_account H i @ [t])\<rparr>"
  let ?S' = "S\<lparr>bk_balances := (bk_balances S)(i \<mapsto> b), bk_history := H'\<rparr>"
  have S': "snd (posting_write ty f now uuid p bal S) = ?S'"
    using fresh by (simp add: posting_write_def tx_append_def balance_set_def Let_def b_def t_def H'_def H_def i_def)
  note books = bank_okD(3) [OF ok acc(1) bal, folded i_def]
  have f: "f (bb_units bal) (po_amount p) = wrap_i64 (bb_units bal + posted t)"
    using kind by (auto simp: t_def posted_def)
  have other: "books_ok ?S' j x y = books_ok S j x y" if "j \<noteq> i" "entries_ok H j (ba_balance x)" for j x y
  proof -
    have "entries_ok H' j (ba_balance x)"
      using that fresh by (auto simp: entries_ok_def H'_def H_def Let_def)
    then show ?thesis
      using that by (simp add: books_ok_def H'_def H_def)
  qed
  have e: "entries_ok H i (ba_balance acc)" "bb_units bal = replay (ba_balance acc) (tx_by_account H i)"
    using books by (simp_all add: books_ok_def H_def Let_def)
  have "entries_ok H' i (ba_balance acc)"
    using e fresh amount f
    by (auto simp: entries_ok_def H'_def H_def Let_def nth_append less_Suc_eq t_def b_def)
  moreover have "bb_units b = replay (ba_balance acc) (tx_by_account H' i)"
    using e(2) f by (simp add: b_def H'_def)
  moreover have "0 \<le> bb_units b \<and> bb_units b = ba_balance acc + sum_list (map posted (tx_by_account H' i))"
    if "ba_type acc \<noteq> AccountTypeLoan" "ba_balance acc + sum_list (map credited (tx_by_account H' i)) < 2 ^ 63"
  proof -
    have ts: "tx_by_account H' i = tx_by_account H i @ [t]"
      by (simp add: H'_def)
    have c: "0 \<le> credited t"
      using amount by (simp add: credited_def t_def)
    have le: "sum_list (map posted ts) \<le> sum_list (map credited ts)" if "\<forall>t \<in> set ts. 0 \<le> bt_amount t" for ts
      using that by (induction ts) (auto simp: credited_def posted_def)
    have nn: "\<forall>t \<in> set (tx_by_account H i). 0 \<le> bt_amount t"
      using e(1) by (auto simp: entries_ok_def Let_def in_set_conv_nth)
    have old: "0 \<le> bb_units bal" "bb_units bal = ba_balance acc + sum_list (map posted (tx_by_account H i))"
      using books that c by (auto simp: books_ok_def Let_def ts H_def [symmetric])
    have "0 \<le> bb_units bal + posted t"
      using kind old(1) amount that(1) by (auto simp: t_def posted_def)
    moreover have "bb_units bal + posted t < 2 ^ 63"
      using le [of "tx_by_account H i @ [t]"] nn amount that(2) old(2) by (simp add: ts) (simp add: t_def)
    ultimately show ?thesis
      using f old(2) by (simp add: b_def ts in_i64_def)
  qed
  moreover have "ba_id acc = i" "bb_account b = i" "0 \<le> ba_balance acc" "in_i64 (ba_balance acc)"
    using books by (simp_all add: books_ok_def Let_def b_def)
  ultimately have new: "books_ok ?S' i acc b"
    using acc(2) unfolding books_ok_def Let_def by auto
  have "books_ok ?S' j x y" if "bk_accounts S j = Some x" "((bk_balances S)(i \<mapsto> b)) j = Some y" for j x y
  proof (cases "j = i")
    case True
    then show ?thesis
      using that new acc(1) by (simp add: i_def)
  next
    case False
    then have bk: "books_ok S j x y"
      using bank_okD(3) [OF ok that(1)] that(2) by simp
    then have "entries_ok H j (ba_balance x)"
      by (simp add: books_ok_def H_def Let_def)
    then show ?thesis
      using other [OF False, of x y] bk by simp
  qed
  then show ?thesis
    using acc(1) bal bank_okD(1,2) [OF ok] unfolding S' bank_ok_def by (simp add: i_def H'_def H_def)
qed

lemma credit_read_Inr:
  "credit_read p S = Inr bal \<Longrightarrow> 0 \<le> po_amount p \<and> bk_balances S (po_account p) = Some bal \<and>
     (\<exists>acc. bk_accounts S (po_account p) = Some acc \<and> ba_status acc = AccountStatusActive)"
  by (auto simp: credit_read_def get_account_def balance_get_def split: if_splits option.splits)

lemma debit_read_Inr:
  "debit_read p S = Inr bal \<Longrightarrow> 0 \<le> po_amount p \<and> bk_balances S (po_account p) = Some bal \<and>
     (\<exists>acc. bk_accounts S (po_account p) = Some acc \<and> ba_status acc = AccountStatusActive \<and>
        (ba_type acc = AccountTypeLoan \<or> po_amount p \<le> bb_units bal))"
  by (auto simp: debit_read_def get_account_def balance_get_def and_then_Inr_iff split: if_splits option.splits)

lemma posting_write_ids:
  "tx_by_id (bk_history (snd (posting_write ty f now uuid p bal S))) u = Some t \<Longrightarrow>
     tx_by_id (bk_history S) u = Some t \<or> u = uuid"
  by (auto simp: posting_write_def tx_append_def Let_def split: option.splits if_splits)

lemma run_bank_op_ok:
  assumes ok: "bank_ok S" and range: "op_in_range opn" and fresh: "\<forall>u \<in> set (op_uuids opn). tx_by_id (bk_history S) u = None"
  shows "bank_ok (run_bank_op opn S)"
proof (cases opn)
  case (OpCreate now now2 m)
  then show ?thesis
    using create_bank_ok [OF ok] range by simp
next
  case (OpCredit now uuid p)
  show ?thesis
  proof (cases "credit_read p S")
    case (Inr bal)
    then obtain acc where "bk_accounts S (po_account p) = Some acc" "ba_status acc = AccountStatusActive"
      "bk_balances S (po_account p) = Some bal" "0 \<le> po_amount p"
      using credit_read_Inr by blast
    then show ?thesis
      using posting_bank_ok [OF ok, of p acc bal uuid TransactionTypeCredit "\<lambda>b a. wrap_i64 (b + a)" now] range fresh
      by (simp add: OpCredit bank_credit_def credit_write_def Inr)
  qed (simp add: OpCredit bank_credit_def ok)
next
  case (OpDebit now uuid p)
  show ?thesis
  proof (cases "debit_read p S")
    case (Inr bal)
    then obtain acc where "bk_accounts S (po_account p) = Some acc" "ba_status acc = AccountStatusActive"
      "bk_balances S (po_account p) = Some bal" "0 \<le> po_amount p" "ba_type acc = AccountTypeLoan \<or> po_amount p \<le> bb_units bal"
      using debit_read_Inr by blast
    then show ?thesis
      using posting_bank_ok [OF ok, of p acc bal uuid TransactionTypeDebit "\<lambda>b a. wrap_i64 (b - a)" now] range fresh
      by (simp add: OpDebit bank_debit_def debit_write_def Inr)
  qed (simp add: OpDebit bank_debit_def ok)
next
  case (OpFreeze now i)
  then show ?thesis
    using freeze_bank_ok [OF ok] by simp
next
  case (OpClose now i)
  then show ?thesis
    using close_bank_ok [OF ok] by simp
qed

lemma run_bank_op_ids:
  "tx_by_id (bk_history (run_bank_op opn S)) u = Some t \<Longrightarrow> tx_by_id (bk_history S) u = Some t \<or> u \<in> set (op_uuids opn)"
  by (cases opn) (auto simp: handle_create_account_def bank_credit_def bank_debit_def credit_write_def debit_write_def
      split: option.splits sum.splits prod.splits dest!: posting_write_ids)

definition run_bank :: "bank_op list \<Rightarrow> bank \<Rightarrow> bank" where
  "run_bank ops S = fold run_bank_op ops S"

lemma run_bank_ok:
  "bank_ok S \<Longrightarrow> \<forall>opn \<in> set ops. op_in_range opn \<Longrightarrow> distinct (concat (map op_uuids ops)) \<Longrightarrow>
   \<forall>u \<in> set (concat (map op_uuids ops)). tx_by_id (bk_history S) u = None \<Longrightarrow> bank_ok (run_bank ops S)"
  unfolding run_bank_def
proof (induction ops arbitrary: S)
  case (Cons opn ops)
  have "bank_ok (run_bank_op opn S)"
    using Cons.prems by (intro run_bank_op_ok) auto
  moreover have "\<forall>u \<in> set (concat (map op_uuids ops)). tx_by_id (bk_history (run_bank_op opn S)) u = None"
  proof
    fix u assume u: "u \<in> set (concat (map op_uuids ops))"
    then have "tx_by_id (bk_history S) u = None" "u \<notin> set (op_uuids opn)"
      using Cons.prems(3,4) by auto
    then show "tx_by_id (bk_history (run_bank_op opn S)) u = None"
      using run_bank_op_ids [of opn S u] by (cases "tx_by_id (bk_history (run_bank_op opn S)) u") auto
  qed
  ultimately show ?case
    using Cons.IH [of "run_bank_op opn S"] Cons.prems by simp
qed simp


definition ex_account_message :: create_account_message where
  "ex_account_message = \<lparr>cm_id = ''a'', cm_owner = ''o'', cm_type = ''savings'', cm_currency = ''USD'', cm_initial = 100\<rparr>"

definition ex_posting :: "i64 \<Rightarrow> posting" where
  "ex_posting n = \<lparr>po_account = ''a'', po_amount = n, po_currency = ''USD'', po_reference = [], po_payment = []\<rparr>"

definition ex_bank_ops :: "bank_op list" where
  "ex_bank_ops = [OpCreate 0 0 ex_account_message, OpDebit 1 ''u'' (ex_posting 30), OpDebit 2 ''v'' (ex_posting 80),
     OpCredit 3 ''w'' (ex_posting 5)]"


section \<open>Observations on the banking service\<close>

text \<open>
  Two calls that both read before either writes: the second write overwrites the first, the balance
  lacks one of the two debits that the history records, and more than the balance was paid out.
\<close>

lemma concurrent_debits_lost:
  assumes "bk_accounts S ''a'' = Some acc" "ba_status acc = AccountStatusActive" "bk_balances S ''a'' = Some bal"
    and "bb_units bal = 100" "tx_by_id (bk_history S) ''u'' = None" "tx_by_id (bk_history S) ''v'' = None"
  shows "debit_read (ex_posting 80) S = Inr bal"
    and "let S1 = snd (debit_write 1 ''u'' (ex_posting 80) bal S); (r, S2) = debit_write 2 ''v'' (ex_posting 80) bal S1
      in (\<exists>b. r = Inr b \<and> bb_units b = 20) \<and> (\<exists>b. bk_balances S2 ''a'' = Some b \<and> bb_units b = 20) \<and>
        map posted (tx_by_account (bk_history S2) ''a'') = map posted (tx_by_account (bk_history S) ''a'') @ [- 80, - 80]"
  using assms
  by (simp_all add: debit_read_def get_account_def balance_get_def ex_posting_def debit_write_def posting_write_def tx_append_def
      balance_set_def posted_def in_i64_def Let_def)

text \<open>A credit that exceeds the range wraps around to a negative balance.\<close>

lemma credit_overflows:
  assumes "bk_accounts S ''a'' = Some acc" "ba_status acc = AccountStatusActive" "bk_balances S ''a'' = Some bal"
    and "bb_units bal = 2 ^ 63 - 1" "tx_by_id (bk_history S) ''u'' = None"
  shows "\<exists>b. fst (bank_credit 1 ''u'' (ex_posting 1) S) = Inr b \<and> bb_units b = - (2 ^ 63)"
proof -
  have "wrap_i64 (2 ^ 63) = - (2 ^ 63)"
    by (simp add: wrap_i64_def signed_take_bit_eq_if_positive signed_take_bit_eq_if_negative)
  then show ?thesis
    using assms by (simp add: bank_credit_def credit_read_def get_account_def balance_get_def ex_posting_def credit_write_def
        posting_write_def tx_append_def Let_def)
qed

text \<open>A request for transactions with a negative offset panics.\<close>

lemma negative_offset_panics:
  "offset < 0 \<Longrightarrow> handle_list_transactions srt i limit offset S = None"
  by (simp add: handle_list_transactions_def list_by_account_def)

text \<open>With an offset that is not negative a request returns a page of the sorted history.\<close>

lemma list_page:
  assumes "0 \<le> offset" "0 \<le> limit"
  shows "list_by_account srt i \<lparr>lo_limit = limit, lo_offset = offset\<rparr> H =
    Some (let rest = drop (nat offset) (srt (tx_by_account H i)) in if limit = 0 then rest else take (nat limit) rest)"
  using assms by (auto simp: list_by_account_def Let_def)

section \<open>The Postgres stores (pg_service.go, pg_store.go)\<close>

text \<open>
  Three tables with the keys and checks of the migration. A statement may fail for reasons of the
  database, given by \<open>bd_fault\<close>; \<open>now()\<close> is an argument. The enumerations are stored as their integers.
\<close>

datatype bank_statement =
  InsertAccount string | SelectAccount string | SelectOwner string | FreezeStatement string | CloseStatement string
| SelectBalance string | UpsertBalance string | InsertTransaction string | SelectTransaction string | SelectHistory string

record bank_db =
  bd_accounts :: "bank_account list"
  bd_balances :: "bank_balance list"
  bd_transactions :: "bank_transaction list"
  bd_fault :: "bank_statement \<Rightarrow> string option"

definition statement :: "bank_statement \<Rightarrow> bank_db \<Rightarrow> (banking_error, 'a) result \<Rightarrow> (banking_error, 'a) result" where
  "statement st db r = (case bd_fault db st of Some e \<Rightarrow> Inl (ErrDatabase e) | None \<Rightarrow> r)"

definition bpg_get_account :: "string \<Rightarrow> bank_db \<Rightarrow> (banking_error, bank_account) result" where
  "bpg_get_account i db =
     statement (SelectAccount i) db
       (case find (\<lambda>a. ba_id a = i) (bd_accounts db) of None \<Rightarrow> Inl ErrAccountNotFound | Some a \<Rightarrow> Inr a)"

definition bpg_create_account :: "nat \<Rightarrow> create_account_request \<Rightarrow> bank_db \<Rightarrow> (banking_error, bank_account) result \<times> bank_db" where
  "bpg_create_account now req db =
     (if cr_initial req < 0 then (Inl ErrNegativeAmount, db)
      else let acc = \<lparr>ba_id = cr_id req, ba_owner = cr_owner req, ba_type = cr_type req, ba_currency = cr_currency req,
                      ba_balance = cr_initial req, ba_status = AccountStatusActive, ba_created = now, ba_updated = now\<rparr>
           in case bd_fault db (InsertAccount (cr_id req)) of
                Some e \<Rightarrow> (Inl (if str_contains ''23505'' e then ErrAccountAlreadyExists else ErrDatabase e), db)
              | None \<Rightarrow> if \<exists>a \<in> set (bd_accounts db). ba_id a = cr_id req then (Inl ErrAccountAlreadyExists, db)
                        else (Inr acc, db\<lparr>bd_accounts := bd_accounts db @ [acc]\<rparr>))"

definition bpg_list_accounts_by_owner ::
  "(bank_account list \<Rightarrow> bank_account list) \<Rightarrow> string \<Rightarrow> bank_db \<Rightarrow> (banking_error, bank_account list) result" where
  "bpg_list_accounts_by_owner order owner db =
     statement (SelectOwner owner) db (Inr (order (filter (\<lambda>a. ba_owner a = owner) (bd_accounts db))))"

definition set_status :: "account_status \<Rightarrow> nat \<Rightarrow> (bank_account \<Rightarrow> bool) \<Rightarrow> bank_db \<Rightarrow> bank_db" where
  "set_status st now P db =
     db\<lparr>bd_accounts := map (\<lambda>a. if P a then a\<lparr>ba_status := st, ba_updated := now\<rparr> else a) (bd_accounts db)\<rparr>"

definition bpg_freeze_account :: "nat \<Rightarrow> string \<Rightarrow> bank_db \<Rightarrow> (banking_error, unit) result \<times> bank_db" where
  "bpg_freeze_account now i db =
     (case bd_fault db (FreezeStatement i) of
        Some e \<Rightarrow> (Inl (ErrDatabase e), db)
      | None \<Rightarrow>
        (let hit = (\<lambda>a. ba_id a = i \<and> ba_status a = AccountStatusActive)
         in if \<exists>a \<in> set (bd_accounts db). hit a then (Inr (), set_status AccountStatusFrozen now hit db)
            else case bpg_get_account i db of
                   Inl e \<Rightarrow> (Inl e, db)
                 | Inr acc \<Rightarrow>
                     (if ba_status acc = AccountStatusFrozen then Inl ErrAccountFrozen
                      else if ba_status acc = AccountStatusClosed then Inl ErrAccountClosed else Inr (), db)))"

definition bpg_close_account ::
  "nat \<Rightarrow> (string \<Rightarrow> (banking_error, bank_balance) result) option \<Rightarrow> string \<Rightarrow> bank_db \<Rightarrow> (banking_error, unit) result \<times> bank_db" where
  "bpg_close_account now checker i db =
     (case bpg_get_account i db of
        Inl e \<Rightarrow> (Inl e, db)
      | Inr acc \<Rightarrow>
          if ba_status acc = AccountStatusClosed then (Inl ErrAccountClosed, db)
          else let busy = (case checker of None \<Rightarrow> False
                           | Some get \<Rightarrow> (case get i of Inl _ \<Rightarrow> False | Inr bal \<Rightarrow> bb_units bal \<noteq> 0))
               in if busy then (Inl ErrAccountHasBalance, db)
                  else case bd_fault db (CloseStatement i) of
                         Some e \<Rightarrow> (Inl (ErrDatabase e), db)
                       | None \<Rightarrow> (Inr (), set_status AccountStatusClosed now (\<lambda>a. ba_id a = i) db))"

definition bpg_balance_get :: "string \<Rightarrow> bank_db \<Rightarrow> (banking_error, bank_balance) result" where
  "bpg_balance_get i db =
     statement (SelectBalance i) db
       (case find (\<lambda>b. bb_account b = i) (bd_balances db) of None \<Rightarrow> Inl ErrAccountNotFound | Some b \<Rightarrow> Inr b)"

text \<open>The upsert; the account of a new row must exist.\<close>

definition bpg_balance_set :: "nat \<Rightarrow> bank_balance \<Rightarrow> bank_db \<Rightarrow> (banking_error, unit) result \<times> bank_db" where
  "bpg_balance_set now bal db =
     (let new = bal\<lparr>bb_updated := now\<rparr>
      in case bd_fault db (UpsertBalance (bb_account bal)) of
           Some e \<Rightarrow> (Inl (ErrDatabase e), db)
         | None \<Rightarrow>
           if \<exists>b \<in> set (bd_balances db). bb_account b = bb_account bal
           then (Inr (), db\<lparr>bd_balances := map (\<lambda>b. if bb_account b = bb_account bal then new else b) (bd_balances db)\<rparr>)
           else if \<exists>a \<in> set (bd_accounts db). ba_id a = bb_account bal
           then (Inr (), db\<lparr>bd_balances := bd_balances db @ [new]\<rparr>)
           else (Inl (ErrDatabase ''foreign key''), db))"

definition bpg_tx_append :: "bank_transaction \<Rightarrow> bank_db \<Rightarrow> (banking_error, unit) result \<times> bank_db" where
  "bpg_tx_append t db =
     (case bd_fault db (InsertTransaction (bt_id t)) of
        Some e \<Rightarrow> (Inl (ErrDatabase e), db)
      | None \<Rightarrow>
        if \<exists>x \<in> set (bd_transactions db). bt_id x = bt_id t then (Inl (ErrDatabase ''duplicate key''), db)
        else if \<not> (\<exists>a \<in> set (bd_accounts db). ba_id a = bt_account t) then (Inl (ErrDatabase ''foreign key''), db)
        else if bt_amount t < 0 then (Inl (ErrDatabase ''check''), db)
        else (Inr (), db\<lparr>bd_transactions := bd_transactions db @ [t]\<rparr>))"

definition bpg_tx_get_by_id :: "string \<Rightarrow> bank_db \<Rightarrow> (banking_error, bank_transaction) result" where
  "bpg_tx_get_by_id i db =
     statement (SelectTransaction i) db
       (case find (\<lambda>t. bt_id t = i) (bd_transactions db) of None \<Rightarrow> Inl ErrTransactionNotFound | Some t \<Rightarrow> Inr t)"

definition bpg_list_by_account ::
  "(bank_transaction list \<Rightarrow> bank_transaction list) \<Rightarrow> string \<Rightarrow> list_options \<Rightarrow> bank_db \<Rightarrow>
   (banking_error, bank_transaction list) result" where
  "bpg_list_by_account order i opts db =
     statement (SelectHistory i) db
       (if lo_limit opts < 0 \<or> lo_offset opts < 0 then Inl (ErrDatabase ''limit and offset must not be negative'')
        else let rest = drop (nat (lo_offset opts)) (order (filter (\<lambda>t. bt_account t = i) (bd_transactions db)))
             in Inr (if lo_limit opts = 0 then rest else take (nat (lo_limit opts)) rest))"

subsection \<open>The two account services agree\<close>

definition db_accounts :: "bank_db \<Rightarrow> bank_accounts" where
  "db_accounts db i = find (\<lambda>a. ba_id a = i) (bd_accounts db)"

definition db_ok :: "bank_db \<Rightarrow> bool" where
  "db_ok db \<longleftrightarrow> distinct (map ba_id (bd_accounts db)) \<and> (\<forall>st. bd_fault db st = None) \<and>
     (\<forall>a \<in> set (bd_accounts db). \<forall>k. ba_status a \<noteq> AccountStatusOther k)"

lemma db_accounts_None: "db_accounts db i = None \<longleftrightarrow> \<not> (\<exists>a \<in> set (bd_accounts db). ba_id a = i)"
  by (auto simp: db_accounts_def find_None_iff)

lemma find_distinct:
  "distinct (map f xs) \<Longrightarrow> find (\<lambda>a. f a = i) xs = Some a \<longleftrightarrow> a \<in> set xs \<and> f a = i"
  by (induction xs) (auto simp: image_iff)

lemma db_accounts_Some: "db_ok db \<Longrightarrow> db_accounts db i = Some a \<longleftrightarrow> a \<in> set (bd_accounts db) \<and> ba_id a = i"
  unfolding db_accounts_def db_ok_def by (intro find_distinct) simp

lemma db_accounts_update:
  assumes "db_ok db" "db_accounts db i = Some a" "ba_id b = i"
    and "bd_accounts db' = map (\<lambda>x. if x = a then b else x) (bd_accounts db)"
  shows "db_accounts db' = (db_accounts db)(i \<mapsto> b)"
proof
  fix j
  have d: "distinct (map ba_id (bd_accounts db))" and a: "a \<in> set (bd_accounts db)" "ba_id a = i"
    using assms(1,2) db_accounts_Some by (auto simp: db_ok_def)
  have "find (\<lambda>x. ba_id x = j) (map (\<lambda>x. if x = a then b else x) xs) =
      (if j = i \<and> a \<in> set xs then Some b else find (\<lambda>x. ba_id x = j) xs)" if "distinct (map ba_id xs)" for xs
    using that a(2) assms(3) by (induction xs) (auto simp: image_iff)
  from this [OF d] show "db_accounts db' j = ((db_accounts db)(i \<mapsto> b)) j"
    using a(1) by (simp add: db_accounts_def assms(4))
qed

lemma set_status_accounts:
  assumes ok: "db_ok db" and a: "db_accounts db i = Some a" and P: "\<And>x. P x \<Longrightarrow> ba_id x = i" "P a"
  shows "db_accounts (set_status st now P db) = (db_accounts db)(i \<mapsto> a\<lparr>ba_status := st, ba_updated := now\<rparr>)"
proof (rule db_accounts_update [OF ok a])
  have "a \<in> set (bd_accounts db)" "ba_id a = i"
    using db_accounts_Some [OF ok] a by auto
  then show "ba_id (a\<lparr>ba_status := st, ba_updated := now\<rparr>) = i"
    by simp
  have "P x \<longleftrightarrow> x = a" if "x \<in> set (bd_accounts db)" for x
    using that P a db_accounts_Some [OF ok, of i x] by auto
  then show "bd_accounts (set_status st now P db) =
      map (\<lambda>x. if x = a then a\<lparr>ba_status := st, ba_updated := now\<rparr> else x) (bd_accounts db)"
    by (auto simp: set_status_def)
qed

lemma db_fault: "db_ok db \<Longrightarrow> bd_fault db st = None"
  by (simp add: db_ok_def)

lemma bpg_get_refines: "db_ok db \<Longrightarrow> bpg_get_account i db = get_account i (db_accounts db)"
  by (simp add: bpg_get_account_def get_account_def statement_def db_fault db_accounts_def split: option.split)

text \<open>An operation on the table against one on the accounts it stands for.\<close>

definition as_accounts :: "'r \<times> bank_db \<Rightarrow> 'r \<times> bank_accounts" where
  "as_accounts x = (fst x, db_accounts (snd x))"

lemma find_snoc: "find P (xs @ [x]) = (case find P xs of None \<Rightarrow> if P x then Some x else None | Some y \<Rightarrow> Some y)"
  by (induction xs) simp_all

lemma bpg_create_refines:
  assumes ok: "db_ok db"
  shows "as_accounts (bpg_create_account now req db) = create_account now req (db_accounts db)"
proof (cases "db_accounts db (cr_id req)")
  case None
  have "db_accounts (db\<lparr>bd_accounts := bd_accounts db @ [acc]\<rparr>) = (db_accounts db)(ba_id acc \<mapsto> acc)"
    if "ba_id acc = cr_id req" for acc
    using None that by (auto simp: db_accounts_def find_snoc fun_eq_iff split: option.split)
  then show ?thesis
    using None db_accounts_None [of db "cr_id req"]
    by (simp add: bpg_create_account_def create_account_def db_fault [OF ok] as_accounts_def Let_def)
next
  case (Some a)
  then show ?thesis
    using db_accounts_None [of db "cr_id req"]
    by (auto simp: bpg_create_account_def create_account_def db_fault [OF ok] as_accounts_def Let_def)
qed

lemma bpg_freeze_refines:
  assumes ok: "db_ok db"
  shows "as_accounts (bpg_freeze_account now i db) = freeze_account now i (db_accounts db)"
proof (cases "db_accounts db i")
  case None
  then have "\<not> (\<exists>a \<in> set (bd_accounts db). ba_id a = i \<and> ba_status a = AccountStatusActive)"
    using db_accounts_None [of db i] by blast
  then show ?thesis
    using None by (simp add: bpg_freeze_account_def freeze_account_def db_fault [OF ok] bpg_get_refines [OF ok]
        get_account_def as_accounts_def Let_def)
next
  case (Some a)
  have a: "a \<in> set (bd_accounts db)" "ba_id a = i"
    using Some db_accounts_Some [OF ok] by auto
  have u: "(\<exists>x \<in> set (bd_accounts db). ba_id x = i \<and> ba_status x = AccountStatusActive) \<longleftrightarrow> ba_status a = AccountStatusActive"
  proof -
    have "x = a" if "x \<in> set (bd_accounts db)" "ba_id x = i" for x
      using that Some db_accounts_Some [OF ok, of i x] by simp
    then show ?thesis
      using a by blast
  qed
  show ?thesis
  proof (cases "ba_status a = AccountStatusActive")
    case True
    then show ?thesis
      using Some a u set_status_accounts [OF ok Some, of "\<lambda>x. ba_id x = i \<and> ba_status x = AccountStatusActive"]
      by (simp add: bpg_freeze_account_def freeze_account_def db_fault [OF ok] as_accounts_def Let_def)
  next
    case False
    have "ba_status a = AccountStatusFrozen \<or> ba_status a = AccountStatusClosed"
      using False a(1) ok by (cases "ba_status a") (auto simp: db_ok_def)
    then show ?thesis
      using False Some u by (auto simp: bpg_freeze_account_def freeze_account_def db_fault [OF ok] bpg_get_refines [OF ok]
          get_account_def as_accounts_def Let_def)
  qed
qed

definition checker_knows :: "(string \<Rightarrow> (banking_error, bank_balance) result) \<Rightarrow> bank_accounts \<Rightarrow> string \<Rightarrow> bool" where
  "checker_knows get A i \<longleftrightarrow>
     (case A i of None \<Rightarrow> get i = Inl ErrAccountNotFound
      | Some a \<Rightarrow> (\<exists>b. get i = Inr b \<and> (ba_status a = AccountStatusClosed \<longrightarrow> bb_units b = 0)))"

lemma bpg_close_refines:
  assumes ok: "db_ok db" and get: "checker_knows get (db_accounts db) i"
  shows "as_accounts (bpg_close_account now (Some get) i db) = close_account now (Some get) i (db_accounts db)"
proof (cases "db_accounts db i")
  case None
  then show ?thesis
    using get by (simp add: checker_knows_def bpg_close_account_def close_account_def bpg_get_refines [OF ok] get_account_def
        as_accounts_def)
next
  case (Some a)
  obtain b where b: "get i = Inr b" "ba_status a = AccountStatusClosed \<longrightarrow> bb_units b = 0"
    using get Some by (auto simp: checker_knows_def)
  have "ba_id a = i"
    using Some db_accounts_Some [OF ok] by auto
  then show ?thesis
    using Some b set_status_accounts [OF ok Some, of "\<lambda>x. ba_id x = i" AccountStatusClosed now]
    by (auto simp: bpg_close_account_def close_account_def bpg_get_refines [OF ok] get_account_def db_fault [OF ok] as_accounts_def)
qed

text \<open>
  C21. The two account services are interchangeable: on a database that answers and whose rows carry the
  known states, creating, reading, freezing and closing an account in Postgres gives the result of the
  in-memory service on the accounts the table stands for, and leaves a table that stands for the
  accounts the in-memory service leaves; for closing, provided the balance service knows the account
  and a closed account has balance zero.
\<close>

theorem pg_accounts_refine:
  assumes "db_ok db" "checker_knows get (db_accounts db) i"
  shows "bpg_get_account i db = get_account i (db_accounts db) \<and>
    as_accounts (bpg_create_account now req db) = create_account now req (db_accounts db) \<and>
    as_accounts (bpg_freeze_account now i db) = freeze_account now i (db_accounts db) \<and>
    as_accounts (bpg_close_account now (Some get) i db) = close_account now (Some get) i (db_accounts db)"
  using assms bpg_get_refines bpg_create_refines bpg_freeze_refines bpg_close_refines by blast

theorem pg_accounts_refine_witness:
  "\<exists>db a. db_accounts db ''a'' = Some a \<and>
     as_accounts (bpg_freeze_account 7 ''a'' db) = (Inr (), [''a'' \<mapsto> a\<lparr>ba_status := AccountStatusFrozen, ba_updated := 7\<rparr>])"
proof -
  define a where "a = \<lparr>ba_id = ''a'', ba_owner = ''o'', ba_type = AccountTypeLoan, ba_currency = ''USD'', ba_balance = 0,
    ba_status = AccountStatusActive, ba_created = 0, ba_updated = 0\<rparr>"
  define b where "b = \<lparr>bb_account = ''a'', bb_units = 0, bb_currency = ''USD'', bb_updated = 0\<rparr>"
  define db where "db = \<lparr>bd_accounts = [a], bd_balances = [], bd_transactions = [], bd_fault = \<lambda>_. None\<rparr>"
  have A: "db_accounts db = [''a'' \<mapsto> a]"
    by (auto simp: db_accounts_def db_def a_def)
  have "db_ok db" "checker_knows (\<lambda>_. Inr b) (db_accounts db) ''a''"
    by (simp_all add: db_ok_def checker_knows_def A) (simp_all add: db_def a_def b_def)
  from pg_accounts_refine [OF this, of 7 undefined] show ?thesis
    by (intro exI [of _ db] exI [of _ a]) (simp add: A freeze_account_def, simp add: a_def)
qed

section \<open>Interest (interest)\<close>

text \<open>
  Every floating-point operation rounds its exact result by \<open>rnd\<close> (no fused multiply-add). \<^verbatim>\<open>math.Round\<close> rounds half away from zero;
  the conversion of an integral float to \<^verbatim>\<open>int64\<close> is exact in range and depends on the processor outside,
  where it is given by \<open>out\<close>.
\<close>

datatype interest_error = ErrNegativePrincipal | ErrNegativeRate | ErrInvalidPeriods

definition go_round :: "real \<Rightarrow> int" where
  "go_round x = (if x \<ge> 0 then \<lfloor>x + 1 / 2\<rfloor> else \<lceil>x - 1 / 2\<rceil>)"

definition to_i64 :: "(real \<Rightarrow> i64) \<Rightarrow> real \<Rightarrow> i64" where
  "to_i64 out x = (if in_i64 (go_round x) then go_round x else out x)"

definition simple_interest ::
  "(real \<Rightarrow> real) \<Rightarrow> (real \<Rightarrow> i64) \<Rightarrow> i64 \<Rightarrow> i64 \<Rightarrow> int \<Rightarrow> (interest_error, i64) result" where
  "simple_interest rnd out prin rate periods =
     (if prin < 0 then Inl ErrNegativePrincipal
      else if rate < 0 then Inl ErrNegativeRate
      else if periods \<le> 0 then Inl ErrInvalidPeriods
      else Inr (to_i64 out (rnd (rnd (rnd (rnd (of_int prin) * rnd (of_int rate)) / 10000) * rnd (of_int periods)))))"

text \<open>\<^verbatim>\<open>math.Pow\<close> is the argument \<open>pow\<close>.\<close>

definition compound_interest ::
  "(real \<Rightarrow> real) \<Rightarrow> (real \<Rightarrow> real \<Rightarrow> real) \<Rightarrow> (real \<Rightarrow> i64) \<Rightarrow> i64 \<Rightarrow> i64 \<Rightarrow> int \<Rightarrow> (interest_error, i64) result" where
  "compound_interest rnd pow out prin rate periods =
     (if prin < 0 then Inl ErrNegativePrincipal
      else if rate < 0 then Inl ErrNegativeRate
      else if periods \<le> 0 then Inl ErrInvalidPeriods
      else let r = rnd (rnd (of_int rate) / 10000);
               final = rnd (rnd (of_int prin) * pow (rnd (1 + r)) (rnd (of_int periods)))
           in Inr (to_i64 out (rnd (final - rnd (of_int prin)))))"

lemma go_round_near: "\<bar>of_int (go_round x) - x\<bar> \<le> 1 / 2"
proof (cases "0 \<le> x")
  case True
  then have "go_round x = \<lfloor>x + 1 / 2\<rfloor>"
    by (simp add: go_round_def)
  then show ?thesis
    using floor_correct [of "x + 1 / 2"] by linarith
next
  case False
  then have "go_round x = \<lceil>x - 1 / 2\<rceil>"
    by (simp add: go_round_def)
  then show ?thesis
    using ceiling_correct [of "x - 1 / 2"] by linarith
qed

lemma rounded_product:
  assumes d: "double_round rnd" and y: "0 \<le> y" "y = 0 \<or> 1 / 10000 \<le> y" "y \<le> 2 ^ 53" and n: "1 \<le> n" "n \<le> 2 ^ 53"
  shows "\<bar>rnd (rnd y * n) - y * n\<bar> \<le> 3 * (y * n) / 2 ^ 53"
proof (cases "y = 0")
  case True
  then show ?thesis
    using double_round_zero [OF d] by simp
next
  case False
  then have yl: "1 / 10000 \<le> y"
    using y(2) by simp
  have err: "\<bar>rnd x - x\<bar> \<le> \<bar>x\<bar> / 2 ^ 53" if "1 / 2 ^ 1022 \<le> \<bar>x\<bar>" "\<bar>x\<bar> \<le> 2 ^ 1023" for x
    using double_round_err [OF d that] .
  define u :: real where "u = 1 / 2 ^ 53"
  have u: "0 < u" "u \<le> 1 / 2"
    by (simp_all add: u_def)
  have tiny: "(1 :: real) / 2 ^ 1022 \<le> 1 / 20000"
    by (simp add: field_simps)
  have big: "(2 :: real) ^ 53 * 2 ^ 53 * 2 \<le> 2 ^ 1023" "(2 :: real) ^ 53 \<le> 2 ^ 1023"
    by (simp_all flip: power_add power_Suc2 add: power_increasing)
  have e1: "\<bar>rnd y - y\<bar> \<le> y * u"
    using err [of y] yl tiny y(1,3) big(2) by (simp add: u_def)
  define z where "z = rnd y"
  have z: "y / 2 \<le> z" "z \<le> y * (1 + u)"
    using e1 u mult_left_mono [OF u(2) y(1)] by (auto simp: z_def abs_le_iff algebra_simps)
  have zn: "1 / 20000 \<le> z * n" "z * n \<le> 2 ^ 53 * 2 ^ 53 * 2"
  proof -
    have "1 / 20000 * 1 \<le> z * n"
      using z(1) yl n(1) by (intro mult_mono) auto
    then show "1 / 20000 \<le> z * n"
      by simp
    have "y * (1 + u) \<le> 2 ^ 53 * 2"
      using y u by (intro mult_mono) auto
    then have "z * n \<le> (2 ^ 53 * 2) * 2 ^ 53"
      using z n y yl by (intro mult_mono) auto
    then show "z * n \<le> 2 ^ 53 * 2 ^ 53 * 2"
      by simp
  qed
  have e2: "\<bar>rnd (z * n) - z * n\<bar> \<le> z * n * u"
    using err [of "z * n"] zn tiny big(1) by (simp add: u_def)
  have "\<bar>z * n - y * n\<bar> \<le> y * u * n"
    using mult_right_mono [OF e1, of n] n by (simp add: z_def abs_mult flip: left_diff_distrib)
  moreover have "z * n * u \<le> y * (1 + u) * n * u"
    using z(2) n u by (intro mult_right_mono) auto
  moreover have "y * (1 + u) * n * u \<le> y * 2 * n * u"
    using y n u by (intro mult_right_mono mult_left_mono) auto
  ultimately have "\<bar>rnd (z * n) - y * n\<bar> \<le> 3 * (y * n * u)"
    using e2 by (simp add: abs_le_iff algebra_simps)
  then show ?thesis
    by (simp add: z_def u_def)
qed



end
