(* ===== verification/Blz_Aeron.thy ===== *)
theory Blz_Aeron
  imports Blz_Transport
begin

text \<open>
  The Aeron transport: event priorities and their streams (\<^verbatim>\<open>core/transport/src/priority.rs\<close>), the
  publication's offer loop (\<^verbatim>\<open>aeron/publication.rs\<close>), the publisher and subscriber with one stream per
  priority (\<^verbatim>\<open>aeron/priority_publisher.rs\<close>, \<^verbatim>\<open>aeron/priority_subscriber.rs\<close>), and the serve loop
  (\<^verbatim>\<open>aeron/transport.rs\<close>) as a step relation of the serve thread and of the engine threads that produce
  results and advance the gates. The C media driver is not part of the repository: what its functions
  return is given by arguments, or left open in the steps.
\<close>

section \<open>Priorities (priority.rs)\<close>

definition STREAM_CRITICAL_REQ :: int where "STREAM_CRITICAL_REQ = 100"
definition STREAM_CRITICAL_RSP :: int where "STREAM_CRITICAL_RSP = 101"
definition STREAM_HIGH_REQ :: int where "STREAM_HIGH_REQ = 200"
definition STREAM_HIGH_RSP :: int where "STREAM_HIGH_RSP = 201"
definition STREAM_NORMAL_REQ :: int where "STREAM_NORMAL_REQ = 300"
definition STREAM_NORMAL_RSP :: int where "STREAM_NORMAL_RSP = 301"
definition STREAM_LEGACY_REQ :: int where "STREAM_LEGACY_REQ = 1001"
definition STREAM_LEGACY_RSP :: int where "STREAM_LEGACY_RSP = 1002"

lemmas stream_ids = STREAM_CRITICAL_REQ_def STREAM_CRITICAL_RSP_def STREAM_HIGH_REQ_def STREAM_HIGH_RSP_def
  STREAM_NORMAL_REQ_def STREAM_NORMAL_RSP_def STREAM_LEGACY_REQ_def STREAM_LEGACY_RSP_def

datatype event_priority = Critical | High | Normal

instantiation event_priority :: linorder
begin

fun priority_rank :: "event_priority \<Rightarrow> nat" where
  "priority_rank Critical = 0"
| "priority_rank High = 1"
| "priority_rank Normal = 2"

definition less_eq_event_priority :: "event_priority \<Rightarrow> event_priority \<Rightarrow> bool" where
  "less_eq_event_priority p q \<longleftrightarrow> priority_rank p \<le> priority_rank q"

definition less_event_priority :: "event_priority \<Rightarrow> event_priority \<Rightarrow> bool" where
  "less_event_priority p q \<longleftrightarrow> priority_rank p < priority_rank q"

instance
proof
  fix p q :: event_priority
  show "p \<le> q \<Longrightarrow> q \<le> p \<Longrightarrow> p = q"
    by (cases p; cases q) (simp_all add: less_eq_event_priority_def)
qed (auto simp: less_eq_event_priority_def less_event_priority_def)

end

definition request_stream_id :: "event_priority \<Rightarrow> int" where
  "request_stream_id p =
     (case p of Critical \<Rightarrow> STREAM_CRITICAL_REQ | High \<Rightarrow> STREAM_HIGH_REQ | Normal \<Rightarrow> STREAM_NORMAL_REQ)"

definition response_stream_id :: "event_priority \<Rightarrow> int" where
  "response_stream_id p =
     (case p of Critical \<Rightarrow> STREAM_CRITICAL_RSP | High \<Rightarrow> STREAM_HIGH_RSP | Normal \<Rightarrow> STREAM_NORMAL_RSP)"

definition from_request_stream_id :: "int \<Rightarrow> event_priority option" where
  "from_request_stream_id i =
     (if i = STREAM_CRITICAL_REQ then Some Critical else if i = STREAM_HIGH_REQ then Some High
      else if i = STREAM_NORMAL_REQ then Some Normal else if i = STREAM_LEGACY_REQ then Some Normal else None)"

definition from_response_stream_id :: "int \<Rightarrow> event_priority option" where
  "from_response_stream_id i =
     (if i = STREAM_CRITICAL_RSP then Some Critical else if i = STREAM_HIGH_RSP then Some High
      else if i = STREAM_NORMAL_RSP then Some Normal else if i = STREAM_LEGACY_RSP then Some Normal else None)"

definition priority_name :: "event_priority \<Rightarrow> string" where
  "priority_name p = (case p of Critical \<Rightarrow> ''critical'' | High \<Rightarrow> ''high'' | Normal \<Rightarrow> ''normal'')"

lemma stream_id_roundtrip:
  "from_request_stream_id (request_stream_id p) = Some p \<and> from_response_stream_id (response_stream_id p) = Some p \<and>
   from_request_stream_id (response_stream_id q) = None \<and> from_response_stream_id (request_stream_id q) = None"
  by (cases p; cases q)
    (simp_all add: from_request_stream_id_def from_response_stream_id_def request_stream_id_def response_stream_id_def stream_ids)

section \<open>A publication's offer loop (publication.rs)\<close>

definition AERON_PUBLICATION_NOT_CONNECTED :: int where "AERON_PUBLICATION_NOT_CONNECTED = -1"
definition AERON_PUBLICATION_BACK_PRESSURED :: int where "AERON_PUBLICATION_BACK_PRESSURED = -2"
definition AERON_PUBLICATION_ADMIN_ACTION :: int where "AERON_PUBLICATION_ADMIN_ACTION = -3"
definition AERON_PUBLICATION_CLOSED :: int where "AERON_PUBLICATION_CLOSED = -4"

lemmas aeron_codes = AERON_PUBLICATION_NOT_CONNECTED_def AERON_PUBLICATION_BACK_PRESSURED_def
  AERON_PUBLICATION_ADMIN_ACTION_def AERON_PUBLICATION_CLOSED_def

definition show_i64 :: "int \<Rightarrow> string" where
  "show_i64 x = (if x < 0 then CHR ''-'' # show_nat (nat (- x)) else show_nat (nat x))"

text \<open>
  \<open>pos k\<close> is what the \<open>k\<close>-th call of \<^verbatim>\<open>aeron_publication_offer\<close> returns, \<open>late k\<close> whether the deadline has
  passed when the clock is read after it, \<open>errmsg\<close> the driver's message. The loop may run forever.
\<close>

partial_function (option) offer_from ::
  "string \<Rightarrow> (nat \<Rightarrow> int) \<Rightarrow> (nat \<Rightarrow> bool) \<Rightarrow> nat \<Rightarrow> i64 blazer_result option" where
  "offer_from errmsg pos late k =
     (if pos k \<ge> 0 then Some (Inr (pos k))
      else if pos k = AERON_PUBLICATION_BACK_PRESSURED \<or> pos k = AERON_PUBLICATION_ADMIN_ACTION
      then if late k then Some (Inl (Transport ''Aeron publication: back-pressure timeout''))
           else offer_from errmsg pos late (Suc k)
      else if pos k = AERON_PUBLICATION_NOT_CONNECTED
      then Some (Inl (Transport ''Aeron publication: no subscriber connected''))
      else if pos k = AERON_PUBLICATION_CLOSED
      then Some (Inl (Transport ''Aeron publication: publication closed''))
      else Some (Inl (Transport (''Aeron publication: unrecoverable error ('' @ show_i64 (pos k) @ ''): '' @ errmsg))))"

definition publication_offer :: "string \<Rightarrow> (nat \<Rightarrow> int) \<Rightarrow> (nat \<Rightarrow> bool) \<Rightarrow> i64 blazer_result option" where
  "publication_offer errmsg pos late = offer_from errmsg pos late 0"

definition transient_code :: "int \<Rightarrow> bool" where
  "transient_code p \<longleftrightarrow> p = AERON_PUBLICATION_BACK_PRESSURED \<or> p = AERON_PUBLICATION_ADMIN_ACTION"

lemma offer_from_returns:
  assumes "late (k + n)"
  shows "\<exists>r. offer_from errmsg pos late k = Some r"
  using assms
proof (induction n arbitrary: k)
  case 0
  then show ?case by (subst offer_from.simps) simp
next
  case (Suc n)
  then have "\<exists>r. offer_from errmsg pos late (Suc k) = Some r" by simp
  then show ?case by (subst offer_from.simps) auto
qed

definition accepted_at :: "(nat \<Rightarrow> int) \<Rightarrow> (nat \<Rightarrow> bool) \<Rightarrow> nat \<Rightarrow> nat \<Rightarrow> int \<Rightarrow> bool" where
  "accepted_at pos late k n p \<longleftrightarrow> k \<le> n \<and> pos n = p \<and> 0 \<le> p \<and> (\<forall>j. k \<le> j \<and> j < n \<longrightarrow> transient_code (pos j) \<and> \<not> late j)"

lemma accepted_at_Suc:
  "accepted_at pos late (Suc k) n p \<Longrightarrow> transient_code (pos k) \<Longrightarrow> \<not> late k \<Longrightarrow> accepted_at pos late k n p"
  unfolding accepted_at_def by (metis Suc_leD le_neq_implies_less Suc_leI)

lemma offer_from_accepts:
  assumes "offer_from errmsg pos late k = Some r"
  shows "\<forall>p. r = Inr p \<longrightarrow> (\<exists>n. accepted_at pos late k n p)"
proof (rule offer_from.raw_induct
    [where P = "\<lambda>errmsg pos late k r. \<forall>p. r = Inr p \<longrightarrow> (\<exists>n. accepted_at pos late k n p)", OF _ assms], goal_cases)
  case (1 offer errmsg pos late k r)
  show ?case
  proof (cases "pos k \<ge> 0")
    case True
    then have "accepted_at pos late k k (pos k)" by (auto simp: accepted_at_def)
    then show ?thesis using 1(2) True by auto
  next
    case False
    show ?thesis
    proof (cases "transient_code (pos k) \<and> \<not> late k")
      case True
      then have "offer errmsg pos late (Suc k) = Some r" using 1(2) False by (simp add: transient_code_def)
      then show ?thesis using 1(1) accepted_at_Suc True by blast
    qed (use 1(2) False in \<open>auto simp: transient_code_def split: if_splits\<close>)
  qed
qed

text \<open>
  The offer returns as soon as one clock read is past the deadline, and a position it reports is that of one
  call, all earlier calls having been refused: the message is appended exactly once.
\<close>

lemma publication_offer_spec:
  shows "late n \<Longrightarrow> \<exists>r. publication_offer errmsg pos late = Some r"
    and "publication_offer errmsg pos late = Some (Inr p) \<Longrightarrow>
      \<exists>n. pos n = p \<and> p \<ge> 0 \<and> (\<forall>j < n. transient_code (pos j) \<and> \<not> late j)"
  using offer_from_returns [of late 0 n errmsg pos] offer_from_accepts [of errmsg pos late 0 "Inr p"]
  by (auto simp: publication_offer_def accepted_at_def)

section \<open>One stream per priority (priority\_publisher.rs, priority\_subscriber.rs)\<close>

text \<open>The streams of a publisher or a subscriber; \<open>add\<close> registers one stream with the driver.\<close>

record 'h priority_streams =
  ps_critical :: 'h
  ps_high :: 'h
  ps_normal :: 'h

definition publisher_for_requests :: "(string \<Rightarrow> int \<Rightarrow> 'h blazer_result) \<Rightarrow> string \<Rightarrow> 'h priority_streams blazer_result" where
  "publisher_for_requests add channel =
     and_then (add channel STREAM_CRITICAL_REQ) (\<lambda>critical.
     and_then (add channel STREAM_HIGH_REQ) (\<lambda>high.
     and_then (add channel STREAM_NORMAL_REQ) (\<lambda>normal.
       Inr \<lparr>ps_critical = critical, ps_high = high, ps_normal = normal\<rparr>)))"

definition publisher_for_responses :: "(string \<Rightarrow> int \<Rightarrow> 'h blazer_result) \<Rightarrow> string \<Rightarrow> 'h priority_streams blazer_result" where
  "publisher_for_responses add channel =
     and_then (add channel STREAM_CRITICAL_RSP) (\<lambda>critical.
     and_then (add channel STREAM_HIGH_RSP) (\<lambda>high.
     and_then (add channel STREAM_NORMAL_RSP) (\<lambda>normal.
       Inr \<lparr>ps_critical = critical, ps_high = high, ps_normal = normal\<rparr>)))"

definition subscriber_for_requests :: "(string \<Rightarrow> int \<Rightarrow> 'h blazer_result) \<Rightarrow> string \<Rightarrow> 'h priority_streams blazer_result" where
  "subscriber_for_requests add channel =
     and_then (add channel STREAM_CRITICAL_REQ) (\<lambda>critical.
     and_then (add channel STREAM_HIGH_REQ) (\<lambda>high.
     and_then (add channel STREAM_NORMAL_REQ) (\<lambda>normal.
       Inr \<lparr>ps_critical = critical, ps_high = high, ps_normal = normal\<rparr>)))"

definition subscriber_for_responses :: "(string \<Rightarrow> int \<Rightarrow> 'h blazer_result) \<Rightarrow> string \<Rightarrow> 'h priority_streams blazer_result" where
  "subscriber_for_responses add channel =
     and_then (add channel STREAM_CRITICAL_RSP) (\<lambda>critical.
     and_then (add channel STREAM_HIGH_RSP) (\<lambda>high.
     and_then (add channel STREAM_NORMAL_RSP) (\<lambda>normal.
       Inr \<lparr>ps_critical = critical, ps_high = high, ps_normal = normal\<rparr>)))"

definition publisher_offer ::
  "('h \<Rightarrow> u8 list \<Rightarrow> 'w \<Rightarrow> i64 blazer_result \<times> 'w) \<Rightarrow> 'h priority_streams \<Rightarrow> event_priority \<Rightarrow> u8 list \<Rightarrow> 'w \<Rightarrow>
   i64 blazer_result \<times> 'w" where
  "publisher_offer offer P priority data w =
     offer (case priority of Critical \<Rightarrow> ps_critical P | High \<Rightarrow> ps_high P | Normal \<Rightarrow> ps_normal P) data w"

definition is_all_connected :: "('h \<Rightarrow> bool) \<Rightarrow> 'h priority_streams \<Rightarrow> bool" where
  "is_all_connected is_conn P \<longleftrightarrow> is_conn (ps_critical P) \<and> is_conn (ps_high P) \<and> is_conn (ps_normal P)"

record priority_fragment =
  pf_priority :: event_priority
  pf_data :: "u8 list"

definition wrap_i32 :: "int \<Rightarrow> int" where
  "wrap_i32 x = signed_take_bit 31 x"

text \<open>
  One phase of \<^verbatim>\<open>poll_fragments\<close>: the fragments so far, their count and the limit that remains. \<open>poll\<close> is
  the driver's poll of one stream: the fragments it hands over and the count it returns, negative for an error.
\<close>

definition poll_phase ::
  "('h \<Rightarrow> usize \<Rightarrow> 'w \<Rightarrow> (u8 list list \<times> int) \<times> 'w) \<Rightarrow> event_priority \<Rightarrow> 'h \<Rightarrow>
   (priority_fragment list \<times> int \<times> usize) \<times> 'w \<Rightarrow> (priority_fragment list \<times> int \<times> usize) \<times> 'w" where
  "poll_phase poll p h st =
     (case st of ((out, received, remaining), w) \<Rightarrow>
        if remaining > 0
        then (case poll h remaining w of ((ds, count), w') \<Rightarrow>
                ((out @ map (\<lambda>d. \<lparr>pf_priority = p, pf_data = d\<rparr>) ds, wrap_i32 (received + count), remaining - as_usize count), w'))
        else ((out, received, remaining), w))"

definition poll_fragments ::
  "('h \<Rightarrow> usize \<Rightarrow> 'w \<Rightarrow> (u8 list list \<times> int) \<times> 'w) \<Rightarrow> 'h priority_streams \<Rightarrow> usize \<Rightarrow> 'w \<Rightarrow>
   (priority_fragment list \<times> int) \<times> 'w" where
  "poll_fragments poll S limit w =
     (case poll_phase poll Normal (ps_normal S)
             (poll_phase poll High (ps_high S)
               (poll_phase poll Critical (ps_critical S) (([], 0, limit), w))) of
        ((out, received, _), w') \<Rightarrow> ((out, received), w'))"

text \<open>The driver hands over at most as many fragments as it is asked for, and returns their number.\<close>

definition poll_contract :: "('h \<Rightarrow> usize \<Rightarrow> 'w \<Rightarrow> (u8 list list \<times> int) \<times> 'w) \<Rightarrow> bool" where
  "poll_contract poll \<longleftrightarrow>
     (\<forall>h n w. length (fst (fst (poll h n w))) \<le> n \<and> snd (fst (poll h n w)) = int (length (fst (fst (poll h n w)))))"

lemma poll_contractD: "poll_contract poll \<Longrightarrow> poll h n w = ((ds, c), w') \<Longrightarrow> length ds \<le> n \<and> c = int (length ds)"
  unfolding poll_contract_def by (metis fst_conv snd_conv)

lemma poll_phase_spec:
  assumes "poll_contract poll" "n + length out < 2 ^ 31"
    and "poll_phase poll p h ((out, int (length out), n), w) = ((out', t', n'), w')"
  shows "\<exists>ds. out' = out @ map (\<lambda>d. \<lparr>pf_priority = p, pf_data = d\<rparr>) ds \<and> t' = int (length out') \<and>
    length ds \<le> n \<and> n' = n - length ds \<and> (ds \<noteq> [] \<longrightarrow> 0 < n)"
proof (cases "0 < n")
  case True
  obtain ds c v where po: "poll h n w = ((ds, c), v)" by (metis prod.collapse)
  have c: "length ds \<le> n" "c = int (length ds)" using poll_contractD [OF assms(1) po] by auto
  then have "wrap_i32 (int (length out) + c) = int (length out) + c"
    using assms(2) by (simp add: wrap_i32_def signed_take_bit_int_eq_self_iff)
  moreover have "as_usize c = length ds"
    using c assms(2) by (simp add: as_usize_nonneg in_i64_def)
  ultimately show ?thesis
    using assms(3) True po c by (auto simp: poll_phase_def)
qed (use assms(3) in \<open>auto simp: poll_phase_def\<close>)

lemma sorted_priorities:
  "sorted (map pf_priority (map (\<lambda>d. \<lparr>pf_priority = Critical, pf_data = d\<rparr>) as @
     map (\<lambda>d. \<lparr>pf_priority = High, pf_data = d\<rparr>) bs @ map (\<lambda>d. \<lparr>pf_priority = Normal, pf_data = d\<rparr>) cs))"
  by (auto simp: sorted_append comp_def map_replicate_const less_eq_event_priority_def)


definition ex_poll :: "event_priority \<Rightarrow> usize \<Rightarrow> (event_priority \<Rightarrow> u8 list list) \<Rightarrow>
    (u8 list list \<times> int) \<times> (event_priority \<Rightarrow> u8 list list)" where
  "ex_poll h n w = ((take n (w h), int (length (take n (w h)))), w(h := drop n (w h)))"

definition ex_streams :: "event_priority priority_streams" where
  "ex_streams = \<lparr>ps_critical = Critical, ps_high = High, ps_normal = Normal\<rparr>"

lemma ex_poll_contract: "poll_contract ex_poll"
  by (simp add: poll_contract_def ex_poll_def)


text \<open>
  An error of one stream is a negative count: as an unsigned number it exhausts the limit, the streams below
  are not polled, and the error lowers the count reported.
\<close>

lemma poll_error_stops:
  assumes "0 < limit" "limit < 2 ^ 63" "poll (ps_critical S) limit w = (([], -1), w')"
  shows "poll_fragments poll S limit w = (([], -1), w')"
  using assms by (simp add: poll_fragments_def poll_phase_def as_usize_def wrap_i32_def take_bit_minus_one_eq_mask
      mask_eq_exp_minus_1 nat_diff_distrib)

section \<open>The serve loop (transport.rs)\<close>

definition REQ_SLOTS_CAP :: usize where "REQ_SLOTS_CAP = 262144"
definition REQ_SLOTS_MASK :: usize where "REQ_SLOTS_MASK = REQ_SLOTS_CAP - 1"
definition FRAGMENT_LIMIT :: usize where "FRAGMENT_LIMIT = 1024"
definition MAX_DRAIN_PER_CALL :: nat where "MAX_DRAIN_PER_CALL = 512"

definition aeron_build_event ::
  "('d, 'c) externs \<Rightarrow> (string \<Rightarrow> uuid_bytes option) \<Rightarrow> timestamp \<Rightarrow> uuid_bytes \<Rightarrow> transaction_request \<Rightarrow>
   transaction_event blazer_result" where
  "aeron_build_event X uuid_parse now v4 req =
     and_then (map_err (\<lambda>_. ValidationError (''invalid debit_account_id: '' @ tq_debit_account_id req))
                 (id64_from_str uuid_parse (tq_debit_account_id req))) (\<lambda>debit.
     and_then (map_err (\<lambda>_. ValidationError (''invalid credit_account_id: '' @ tq_credit_account_id req))
                 (id64_from_str uuid_parse (tq_credit_account_id req))) (\<lambda>credit.
     and_then (ok_or (ValidationError (''invalid amount: '' @ tq_amount req)) (d_of_str X (tq_amount req))) (\<lambda>decimal.
     and_then (parse_currency X (tq_currency req)) (\<lambda>currency.
     and_then (amount_new X decimal currency) (\<lambda>amount.
     and_then (amount_to_minor_units X amount) (\<lambda>units.
     and_then (ledger_id_new (tq_ledger_id req)) (\<lambda>ledger.
       Inr (transaction_event_new now (unwrap_or (id64_from_str uuid_parse (tq_request_id req)) (id64_new v4))
              debit credit (word_of_nat units) ledger (tq_code req)))))))))"

definition aeron_build_response ::
  "('d, 'c) externs \<Rightarrow> u64 \<Rightarrow> string \<Rightarrow> transaction_result \<Rightarrow> transaction_response" where
  "aeron_build_response X ts request_id r =
     (case r of
        Committed transfer_id _ \<Rightarrow>
          \<lparr>ts_request_id = request_id, ts_committed = True, ts_transfer_id = Some (u_show X (as_uuid transfer_id)),
           ts_error = None, ts_timestamp_ns = ts\<rparr>
      | Rejected reason \<Rightarrow>
          \<lparr>ts_request_id = request_id, ts_committed = False, ts_transfer_id = None,
           ts_error = Some (blazer_error_display reason), ts_timestamp_ns = ts\<rparr>)"

definition aeron_error_response :: "u64 \<Rightarrow> string \<Rightarrow> blazer_error \<Rightarrow> transaction_response" where
  "aeron_error_response ts request_id err =
     (let msg = (case err of RingBufferFull ms \<Rightarrow> ''server busy, retry after '' @ show_nat (unat ms) @ ''ms''
                 | _ \<Rightarrow> blazer_error_display err)
      in \<lparr>ts_request_id = request_id, ts_committed = False, ts_transfer_id = None, ts_error = Some msg,
          ts_timestamp_ns = ts\<rparr>)"

lemma aeron_responses: "aeron_build_response = build_response" "aeron_error_response = error_response"
  by (simp_all add: fun_eq_iff aeron_build_response_def build_response_def aeron_error_response_def error_response_def
      split: transaction_result.split blazer_error.split)

text \<open>
  The serve thread is at the head of the loop, in the drain phase with the number of results drained, in the
  pump phase with the fragments left, or spins for capacity with an event in hand. The slots of the request
  ids are a function of the masked index. \<open>ae_accepted\<close>, \<open>ae_done\<close> and \<open>ae_replies\<close> record history: the request
  ids and events published, the results the engine produced, and the responses to drained results;
  \<open>ae_wire\<close> is what the publication took.
\<close>

datatype aeron_pc = A_Head | A_Drain nat | A_Pump "u8 list list" | A_Spin u64 transaction_event "u8 list list" | A_Exited

record aeron_server =
  ae_ring :: "transaction_event ring"
  ae_rr :: result_ring
  ae_results :: results
  ae_slots :: "usize \<Rightarrow> u64"
  ae_next_to_drain :: i64
  ae_next_to_publish :: i64
  ae_pending_len :: usize
  ae_offer_failures :: u64
  ae_pc :: aeron_pc
  ae_wire :: "u8 list list"
  ae_accepted :: "(u64 \<times> transaction_event) list"
  ae_done :: "i64 \<rightharpoonup> transaction_result"
  ae_replies :: "transaction_response list"

definition aeron_server_new :: "transaction_event ring \<Rightarrow> result_ring \<Rightarrow> aeron_server" where
  "aeron_server_new r R =
     \<lparr>ae_ring = r, ae_rr = R, ae_results = Map.empty, ae_slots = (\<lambda>_. 0), ae_next_to_drain = 0, ae_next_to_publish = 0,
      ae_pending_len = 0, ae_offer_failures = 0, ae_pc = A_Head, ae_wire = [], ae_accepted = [], ae_done = Map.empty,
      ae_replies = []\<rparr>"

text \<open>Offering a response: whether the publication takes it is \<open>ok\<close>. Only failures of drained results are counted.\<close>

definition offer_counted :: "rmp \<Rightarrow> bool \<Rightarrow> transaction_response \<Rightarrow> aeron_server \<Rightarrow> aeron_server" where
  "offer_counted M ok resp s =
     (case serialize_response M resp of
        Inl _ \<Rightarrow> s
      | Inr bytes \<Rightarrow> if ok then s\<lparr>ae_wire := ae_wire s @ [bytes]\<rparr> else s\<lparr>ae_offer_failures := ae_offer_failures s + 1\<rparr>)"

definition offer_silent :: "rmp \<Rightarrow> bool \<Rightarrow> transaction_response \<Rightarrow> aeron_server \<Rightarrow> aeron_server" where
  "offer_silent M ok resp s =
     (case serialize_response M resp of
        Inl _ \<Rightarrow> s
      | Inr bytes \<Rightarrow> if ok then s\<lparr>ae_wire := ae_wire s @ [bytes]\<rparr> else s)"

text \<open>The result of the next sequence to drain: from the result ring, else from the map.\<close>

definition take_result :: "timestamp \<Rightarrow> aeron_server \<Rightarrow> aeron_server \<times> transaction_result option" where
  "take_result now s =
     (case rr_try_remove (ae_rr s) (ae_next_to_drain s) of
        (R, Some tid) \<Rightarrow> (s\<lparr>ae_rr := R\<rparr>, Some (Committed tid now))
      | (R, None) \<Rightarrow>
          (s\<lparr>ae_rr := R, ae_results := (ae_results s)(ae_next_to_drain s := None)\<rparr>, ae_results s (ae_next_to_drain s)))"

definition drain_one ::
  "('d, 'c) externs \<Rightarrow> rmp \<Rightarrow> bool \<Rightarrow> timestamp \<Rightarrow> u64 \<Rightarrow> aeron_server \<Rightarrow> aeron_server \<times> bool" where
  "drain_one X M ok now ns s =
     (case take_result now s of
        (s1, None) \<Rightarrow> (s1, False)
      | (s1, Some result) \<Rightarrow>
          let idx = as_usize (ae_next_to_drain s) AND REQ_SLOTS_MASK;
              resp = aeron_build_response X ns (id64_display (Id64 (ae_slots s idx) :: transaction_id)) result;
              s2 = offer_counted M ok resp s1
          in (s2\<lparr>ae_next_to_drain := wrap_i64 (ae_next_to_drain s + 1), ae_replies := ae_replies s @ [resp]\<rparr>, True))"

text \<open>One fragment up to the capacity spin. The two fresh ids are those of the two parses of the request id.\<close>

definition pump_one ::
  "('d, 'c) externs \<Rightarrow> (string \<Rightarrow> uuid_bytes option) \<Rightarrow> rmp \<Rightarrow> bool \<Rightarrow> timestamp \<Rightarrow> u64 \<Rightarrow> uuid_bytes \<Rightarrow> uuid_bytes \<Rightarrow>
   u8 list \<Rightarrow> u8 list list \<Rightarrow> aeron_server \<Rightarrow> aeron_server" where
  "pump_one X up M ok now ns v4 v4' payload rest s =
     (case deserialize_request M payload of
        Inl e \<Rightarrow> (offer_silent M ok (aeron_error_response ns [] (Transport (blazer_error_display e))) s)\<lparr>ae_pc := A_Pump rest\<rparr>
      | Inr request \<Rightarrow>
          let req_id = id64_raw (unwrap_or (id64_from_str up (tq_request_id request)) (id64_new v4) :: transaction_id)
          in case aeron_build_event X up now v4' request of
               Inl e \<Rightarrow> (offer_silent M ok (aeron_error_response ns (id64_display (Id64 req_id :: transaction_id)) e) s)\<lparr>ae_pc := A_Pump rest\<rparr>
             | Inr event \<Rightarrow> s\<lparr>ae_pc := A_Spin req_id event rest\<rparr>)"

definition aeron_publish ::
  "rmp \<Rightarrow> bool \<Rightarrow> u64 \<Rightarrow> u64 \<Rightarrow> transaction_event \<Rightarrow> u8 list list \<Rightarrow> aeron_server \<Rightarrow> aeron_server" where
  "aeron_publish M ok ns req_id event rest s =
     (case publish_event (ae_ring s) event of
        (r, Inr seq) \<Rightarrow>
          s\<lparr>ae_ring := r, ae_slots := (ae_slots s)(as_usize seq AND REQ_SLOTS_MASK := req_id),
            ae_next_to_publish := wrap_i64 (seq + 1), ae_pc := A_Pump rest, ae_accepted := ae_accepted s @ [(req_id, event)]\<rparr>
      | (r, Inl e) \<Rightarrow>
          (offer_silent M ok (aeron_error_response ns (id64_display (Id64 req_id :: transaction_id)) e) (s\<lparr>ae_ring := r\<rparr>))
            \<lparr>ae_pc := A_Pump rest\<rparr>)"

text \<open>
  The steps of the serve thread, and of the engine: it answers a published sequence once, with a commit in
  the result ring or with any result in the map, and moves the gates of its workers.
\<close>

inductive aeron_step ::
  "('d, 'c) externs \<Rightarrow> (string \<Rightarrow> uuid_bytes option) \<Rightarrow> rmp \<Rightarrow> aeron_server \<Rightarrow> aeron_server \<Rightarrow> bool" for X up M where
  exit: "ae_pc s = A_Head \<Longrightarrow> aeron_step X up M s (s\<lparr>ae_pc := A_Exited\<rparr>)"
| enter: "ae_pc s = A_Head \<Longrightarrow> aeron_step X up M s (s\<lparr>ae_pc := A_Drain 0\<rparr>)"
| drain: "ae_pc s = A_Drain d \<Longrightarrow> d < MAX_DRAIN_PER_CALL \<Longrightarrow> drain_one X M ok now ns s = (s', True) \<Longrightarrow>
    aeron_step X up M s (s'\<lparr>ae_pc := A_Drain (Suc d)\<rparr>)"
| poll: "ae_pc s = A_Drain d \<Longrightarrow> d < MAX_DRAIN_PER_CALL \<longrightarrow> \<not> snd (drain_one X M ok now ns s) \<Longrightarrow>
    length frags \<le> FRAGMENT_LIMIT \<Longrightarrow>
    aeron_step X up M s
      (s\<lparr>ae_pending_len := nat (max (wrap_i64 (ae_next_to_publish s - ae_next_to_drain s)) 0), ae_pc := A_Pump frags\<rparr>)"
| pumped: "ae_pc s = A_Pump [] \<Longrightarrow> aeron_step X up M s (s\<lparr>ae_pc := A_Head\<rparr>)"
| pump: "ae_pc s = A_Pump (p # ps) \<Longrightarrow> aeron_step X up M s (pump_one X up M ok now ns v4 v4' p ps s)"
| spin: "ae_pc s = A_Spin i e ps \<Longrightarrow> \<not> has_available_capacity (ae_ring s) \<Longrightarrow>
    aeron_step X up M s (fst (drain_one X M ok now ns s))"
| publish: "ae_pc s = A_Spin i e ps \<Longrightarrow> has_available_capacity (ae_ring s) \<Longrightarrow>
    aeron_step X up M s (aeron_publish M ok ns i e ps s)"
| engine_ring: "0 \<le> q \<Longrightarrow> q < int (length (ae_accepted s)) \<Longrightarrow> ae_done s q = None \<Longrightarrow>
    aeron_step X up M s (s\<lparr>ae_rr := rr_insert (ae_rr s) q tid, ae_done := (ae_done s)(q \<mapsto> Committed tid t)\<rparr>)"
| engine_map: "0 \<le> q \<Longrightarrow> q < int (length (ae_accepted s)) \<Longrightarrow> ae_done s q = None \<Longrightarrow>
    aeron_step X up M s (s\<lparr>ae_results := (ae_results s)(q \<mapsto> r), ae_done := (ae_done s)(q \<mapsto> r)\<rparr>)"
| engine_gate: "w < length (rb_gates (ae_ring s)) \<Longrightarrow>
    aeron_step X up M s (s\<lparr>ae_ring := set_gate (ae_ring s) w v\<rparr>)"

section \<open>Every response answers its own request\<close>

text \<open>
  The number of requests in flight fits the request-id slots and the result ring. Nothing in the loop
  enforces this: it is what the comment on the slots relies on.
\<close>

definition in_flight_bounded :: "aeron_server \<Rightarrow> bool" where
  "in_flight_bounded s \<longleftrightarrow>
     int (length (ae_accepted s)) - ae_next_to_drain s \<le> int REQ_SLOTS_CAP \<and>
     int (length (ae_accepted s)) - ae_next_to_drain s \<le> int (length (rr_status (ae_rr s))) \<and>
     length (ae_accepted s) < 2 ^ 62"

definition delivered :: "transfer_id option \<Rightarrow> transaction_result option \<Rightarrow> transaction_result option \<Rightarrow> bool" where
  "delivered in_ring in_map r \<longleftrightarrow>
     (case r of
        None \<Rightarrow> in_ring = None \<and> in_map = None
      | Some q \<Rightarrow> in_ring = None \<and> in_map = Some q \<or> in_map = None \<and> (\<exists>i t. in_ring = Some i \<and> q = Committed i t))"

text \<open>Whose request a fragment carries, and the answer to the \<open>k\<close>-th accepted request.\<close>

definition from_fragment ::
  "('d, 'c) externs \<Rightarrow> (string \<Rightarrow> uuid_bytes option) \<Rightarrow> rmp \<Rightarrow> u64 \<Rightarrow> transaction_event \<Rightarrow> bool" where
  "from_fragment X up M i e \<longleftrightarrow>
     (\<exists>payload request now v4 v4'. deserialize_request M payload = Inr request \<and>
        i = id64_raw (unwrap_or (id64_from_str up (tq_request_id request)) (id64_new v4) :: transaction_id) \<and>
        aeron_build_event X up now v4' request = Inr e)"

definition answers_request :: "('d, 'c) externs \<Rightarrow> aeron_server \<Rightarrow> nat \<Rightarrow> bool" where
  "answers_request X s k \<longleftrightarrow>
     (\<exists>ts r. ae_done s (int k) = Some r \<and>
        ae_replies s ! k = aeron_build_response X ts (id64_display (Id64 (fst (ae_accepted s ! k)) :: transaction_id)) r)"

definition aeron_inv ::
  "('d, 'c) externs \<Rightarrow> (string \<Rightarrow> uuid_bytes option) \<Rightarrow> rmp \<Rightarrow> nat \<Rightarrow> aeron_server \<Rightarrow> bool" where
  "aeron_inv X up M n s \<longleftrightarrow>
     rr_ok (ae_rr s) \<and> length (rr_status (ae_rr s)) = n \<and>
     ae_next_to_drain s = int (length (ae_replies s)) \<and> length (ae_replies s) \<le> length (ae_accepted s) \<and>
     rb_claim (ae_ring s) = int (length (ae_accepted s)) - 1 \<and> in_flight_bounded s \<and>
     (\<forall>k. length (ae_replies s) \<le> k \<and> k < length (ae_accepted s) \<longrightarrow>
        ae_slots s (k AND REQ_SLOTS_MASK) = fst (ae_accepted s ! k)) \<and>
     (\<forall>q. ae_done s q \<noteq> None \<longrightarrow> 0 \<le> q \<and> q < int (length (ae_accepted s))) \<and>
     (\<forall>q \<ge> int (length (ae_replies s)).
        delivered (rr_map (ae_rr s) (int (length (ae_replies s))) q) (ae_results s q) (ae_done s q)) \<and>
     (\<forall>k < length (ae_replies s). answers_request X s k) \<and>
     (\<forall>(i, e) \<in> set (ae_accepted s). from_fragment X up M i e) \<and>
     (\<forall>i e ps. ae_pc s = A_Spin i e ps \<longrightarrow> from_fragment X up M i e)"

lemma offers_frame [simp]:
  "ae_rr (offer_counted M ok resp s) = ae_rr s" "ae_results (offer_counted M ok resp s) = ae_results s"
  "ae_slots (offer_counted M ok resp s) = ae_slots s" "ae_ring (offer_counted M ok resp s) = ae_ring s"
  "ae_next_to_drain (offer_counted M ok resp s) = ae_next_to_drain s" "ae_accepted (offer_counted M ok resp s) = ae_accepted s"
  "ae_done (offer_counted M ok resp s) = ae_done s" "ae_replies (offer_counted M ok resp s) = ae_replies s"
  "ae_pc (offer_counted M ok resp s) = ae_pc s"
  "ae_rr (offer_silent M ok resp s) = ae_rr s" "ae_results (offer_silent M ok resp s) = ae_results s"
  "ae_slots (offer_silent M ok resp s) = ae_slots s" "ae_ring (offer_silent M ok resp s) = ae_ring s"
  "ae_next_to_drain (offer_silent M ok resp s) = ae_next_to_drain s" "ae_accepted (offer_silent M ok resp s) = ae_accepted s"
  "ae_done (offer_silent M ok resp s) = ae_done s" "ae_replies (offer_silent M ok resp s) = ae_replies s"
  by (simp_all add: offer_counted_def offer_silent_def split: sum.split)

lemma aeron_inv_frame:
  assumes "aeron_inv X up M n s" "ae_rr s' = ae_rr s" "ae_results s' = ae_results s" "ae_slots s' = ae_slots s"
    "rb_claim (ae_ring s') = rb_claim (ae_ring s)" "ae_next_to_drain s' = ae_next_to_drain s"
    "ae_accepted s' = ae_accepted s" "ae_done s' = ae_done s" "ae_replies s' = ae_replies s"
    "\<And>i e ps. ae_pc s' = A_Spin i e ps \<Longrightarrow> from_fragment X up M i e"
  shows "aeron_inv X up M n s'"
  using assms(1) unfolding aeron_inv_def in_flight_bounded_def answers_request_def
  unfolding assms(2-9) using assms(10) by blast

lemma REQ_SLOTS_pow2: "pow2 REQ_SLOTS_CAP" "REQ_SLOTS_MASK = REQ_SLOTS_CAP - 1"
  by (auto simp: pow2_iff REQ_SLOTS_CAP_def REQ_SLOTS_MASK_def intro!: exI [of _ 18])

lemma slot_of_seq: "k < 2 ^ 62 \<Longrightarrow> as_usize (int k) AND REQ_SLOTS_MASK = k AND REQ_SLOTS_MASK"
  by (simp add: as_usize_nonneg in_i64_def)

lemma slots_distinct:
  assumes "j < k" "k - j < REQ_SLOTS_CAP" "k < 2 ^ 62"
  shows "j AND REQ_SLOTS_MASK \<noteq> k AND REQ_SLOTS_MASK"
proof -
  have "valid_seq (int j)" "valid_seq (int k)" using assms by (simp_all add: valid_seq_def)
  moreover have "\<bar>int j - int k\<bar> < int REQ_SLOTS_CAP" using assms by linarith
  ultimately show ?thesis
    using mask_slot_inj [OF REQ_SLOTS_pow2(1), of "int j" "int k"] assms REQ_SLOTS_pow2(2)
    by (auto simp: as_usize_valid)
qed

lemma take_result_drained:
  assumes inv: "aeron_inv X up M n s" and n: "1 < n" "n < 2 ^ 62" and tr: "take_result now s = (s1, Some result)"
  shows "\<exists>r. ae_done s (int (length (ae_replies s))) = Some r \<and> aeron_build_response X ts rid result = aeron_build_response X ts rid r"
    and "rr_ok (ae_rr s1)" "length (rr_status (ae_rr s1)) = n"
    and "\<forall>q \<ge> int (Suc (length (ae_replies s))).
      delivered (rr_map (ae_rr s1) (int (Suc (length (ae_replies s)))) q) (ae_results s1 q) (ae_done s q)"
    and "s1 = s\<lparr>ae_rr := ae_rr s1, ae_results := ae_results s1\<rparr>"
proof -
  define lo where "lo = int (length (ae_replies s))"
  have I: "rr_ok (ae_rr s)" "length (rr_status (ae_rr s)) = n" "ae_next_to_drain s = lo" "length (ae_replies s) < 2 ^ 62"
    "\<forall>q \<ge> lo. delivered (rr_map (ae_rr s) lo q) (ae_results s q) (ae_done s q)"
    using inv by (auto simp: aeron_inv_def in_flight_bounded_def lo_def)
  have w: "in_window (ae_rr s) lo lo" using I n by (simp add: in_window_def valid_seq_def lo_def)
  note rem = rr_try_remove_map [OF I(1) w]
  define R where "R = fst (rr_try_remove (ae_rr s) lo)"
  have R: "rr_ok R" "length (rr_status R) = n" "rr_map R lo = (rr_map (ae_rr s) lo)(lo := None)"
    using I rem by (simp_all add: R_def)
  have adv: "rr_map R (lo + 1) = rr_map R lo"
    by (rule rr_map_advance [OF R(1)]) (use R n I(4) in \<open>auto simp: lo_def\<close>)
  have s1: "ae_rr s1 = R" "s1 = s\<lparr>ae_rr := R, ae_results := ae_results s1\<rparr>" "\<forall>q. q \<noteq> lo \<longrightarrow> ae_results s1 q = ae_results s q"
    using tr by (auto simp: take_result_def R_def I(3) split: prod.splits option.splits)
  show "rr_ok (ae_rr s1)" "length (rr_status (ae_rr s1)) = n" "s1 = s\<lparr>ae_rr := ae_rr s1, ae_results := ae_results s1\<rparr>"
    using R s1 by simp_all
  have "delivered (rr_map (ae_rr s1) (lo + 1) q) (ae_results s1 q) (ae_done s q)" if "q \<ge> lo + 1" for q
    using that I(5) adv R(3) s1(1,3) by simp
  then show "\<forall>q \<ge> int (Suc (length (ae_replies s))).
      delivered (rr_map (ae_rr s1) (int (Suc (length (ae_replies s)))) q) (ae_results s1 q) (ae_done s q)"
    by (simp add: lo_def add.commute)
  have "delivered (rr_map (ae_rr s) lo lo) (ae_results s lo) (ae_done s lo)" using I(5) by simp
  moreover have "(\<exists>tid. rr_map (ae_rr s) lo lo = Some tid \<and> result = Committed tid now) \<or>
      rr_map (ae_rr s) lo lo = None \<and> ae_results s lo = Some result"
    using tr rem(1) by (auto simp: take_result_def I(3) split: prod.splits option.splits)
  ultimately show "\<exists>r. ae_done s (int (length (ae_replies s))) = Some r \<and> aeron_build_response X ts rid result = aeron_build_response X ts rid r"
    by (auto simp: delivered_def lo_def [symmetric] aeron_build_response_def split: option.splits)
qed

lemma drain_one_inv:
  assumes inv: "aeron_inv X up M n s" and n: "1 < n" "n < 2 ^ 62"
  shows "aeron_inv X up M n (fst (drain_one X M ok now ns s))"
proof (cases "take_result now s")
  case (Pair s1 ro)
  show ?thesis
  proof (cases ro)
    case None
    then have "rr_try_remove (ae_rr s) (ae_next_to_drain s) = (ae_rr s, None)" "ae_results s (ae_next_to_drain s) = None" "s1 = s\<lparr>ae_rr := ae_rr s, ae_results := (ae_results s)(ae_next_to_drain s := None)\<rparr>"
      using Pair by (auto simp: take_result_def rr_try_remove_def Let_def split: prod.splits option.splits if_splits)
    then have "s1 = s" by (simp add: fun_upd_idem)
    then show ?thesis using Pair None inv by (simp add: drain_one_def)
  next
    case (Some result)
    define k where "k = length (ae_replies s)"
    note td = take_result_drained [OF inv n, of now s1 result, folded k_def]
    have tr: "take_result now s = (s1, Some result)" using Pair Some by simp
    obtain r where r: "ae_done s (int k) = Some r"
      "\<And>ts rid. aeron_build_response X ts rid result = aeron_build_response X ts rid r"
      using td(1) [OF tr] by (metis option.inject)
    obtain R rs where s1: "s1 = s\<lparr>ae_rr := R, ae_results := rs\<rparr>" using td(5) [OF tr] by blast
    have I: "ae_next_to_drain s = int k" "k < length (ae_accepted s)" "k < 2 ^ 62" "in_flight_bounded s"
      using inv r(1) by (auto simp: aeron_inv_def in_flight_bounded_def k_def)
    then have slot: "ae_slots s (as_usize (int k) AND REQ_SLOTS_MASK) = fst (ae_accepted s ! k)"
      using inv slot_of_seq [OF I(3)] by (simp add: aeron_inv_def k_def)
    define resp where "resp = aeron_build_response X ns (id64_display (Id64 (fst (ae_accepted s ! k)) :: transaction_id)) r"
    define s' where "s' = fst (drain_one X M ok now ns s)"
    have s': "ae_rr s' = ae_rr s1" "ae_results s' = ae_results s1" "ae_slots s' = ae_slots s" "ae_ring s' = ae_ring s"
      "ae_next_to_drain s' = int (Suc k)" "ae_accepted s' = ae_accepted s" "ae_done s' = ae_done s"
      "ae_replies s' = ae_replies s @ [resp]" "ae_pc s' = ae_pc s"
      using I(3) slot r(2) by (simp_all add: s'_def drain_one_def Let_def resp_def in_i64_def tr I(1) s1)
    have "answers_request X s' j" if "j < Suc k" for j
    proof (cases "j = k")
      case True
      then show ?thesis using r(1) by (auto simp: answers_request_def s' resp_def k_def nth_append)
    next
      case False
      then have "answers_request X s j" using that inv by (simp add: aeron_inv_def k_def)
      then show ?thesis using False that by (simp add: answers_request_def s' k_def nth_append)
    qed
    moreover have "in_flight_bounded s'" using I td(3) [OF tr] inv by (simp add: in_flight_bounded_def s' aeron_inv_def)
    moreover have "length (ae_replies s') = Suc k" by (simp add: s' k_def)
    ultimately show ?thesis
      using inv td(2-4) [OF tr] I unfolding s'_def [symmetric] aeron_inv_def
      by (simp add: s'(1-7,9) k_def [symmetric])
  qed
qed

lemma pump_one_inv:
  assumes "aeron_inv X up M n s"
  shows "aeron_inv X up M n (pump_one X up M ok now ns v4 v4' p ps s)"
proof (rule aeron_inv_frame [OF assms])
  fix i e qs
  assume "ae_pc (pump_one X up M ok now ns v4 v4' p ps s) = A_Spin i e qs"
  then show "from_fragment X up M i e"
    unfolding pump_one_def Let_def from_fragment_def by (simp split: sum.splits) blast
qed (simp_all add: pump_one_def Let_def split: sum.split)

lemma publish_inv:
  assumes inv: "aeron_inv X up M n s" and pc: "ae_pc s = A_Spin i e ps"
    and b: "in_flight_bounded (aeron_publish M ok ns i e ps s)"
  shows "aeron_inv X up M n (aeron_publish M ok ns i e ps s)"
proof (cases "has_available_capacity (ae_ring s)")
  case False
  then show ?thesis
    by (intro aeron_inv_frame [OF inv]) (simp_all add: aeron_publish_def publish_event_def)
next
  case True
  define k where "k = length (ae_accepted s)"
  define s' where "s' = aeron_publish M ok ns i e ps s"
  have I: "rb_claim (ae_ring s) = int k - 1" "k < 2 ^ 62" "length (ae_replies s) \<le> k"
    "ae_next_to_drain s = int (length (ae_replies s))" "from_fragment X up M i e"
    using inv pc by (auto simp: aeron_inv_def in_flight_bounded_def k_def)
  then have "wrap_i64 (rb_claim (ae_ring s) + 1) = int k" by (simp add: in_i64_def)
  then have s': "ae_rr s' = ae_rr s" "ae_results s' = ae_results s" "rb_claim (ae_ring s') = int (Suc k) - 1"
    "ae_slots s' = (ae_slots s)(k AND REQ_SLOTS_MASK := i)" "ae_next_to_drain s' = ae_next_to_drain s"
    "ae_accepted s' = ae_accepted s @ [(i, e)]" "ae_done s' = ae_done s" "ae_replies s' = ae_replies s" "ae_pc s' = A_Pump ps"
    using True slot_of_seq [OF I(2)]
    by (simp_all add: s'_def aeron_publish_def publish_event_def next_sequence_def sequence_increment_def ring_publish_def ring_put_def)
  have "Suc k - length (ae_replies s) \<le> REQ_SLOTS_CAP"
    using b [folded s'_def] I(3,4) by (auto simp: in_flight_bounded_def s' k_def [symmetric])
  then have "ae_slots s' (j AND REQ_SLOTS_MASK) = fst (ae_accepted s' ! j)" if "length (ae_replies s) \<le> j" "j < Suc k" for j
    using that inv slots_distinct [of j k] I(2) by (cases "j = k") (auto simp: s' nth_append aeron_inv_def k_def)
  moreover have "answers_request X s' j" if "j < length (ae_replies s)" for j
    using that inv I(3) by (simp add: aeron_inv_def answers_request_def s' nth_append k_def)
  moreover have "0 \<le> q \<and> q < int (Suc k)" if "ae_done s q \<noteq> None" for q
    using inv that by (force simp: aeron_inv_def k_def)
  moreover have "length (ae_accepted s') = Suc k" by (simp add: s' k_def)
  moreover have "\<forall>(i, e) \<in> set (ae_accepted s'). from_fragment X up M i e"
    using inv I(5) by (auto simp: aeron_inv_def s')
  ultimately show ?thesis
    using inv b I(3) unfolding s'_def [symmetric] aeron_inv_def
    by (simp add: s'(1-3,5,7-9))
qed

lemma undelivered:
  assumes "aeron_inv X up M n s" "0 \<le> q" "q < int (length (ae_accepted s))" "ae_done s q = None"
  shows "int (length (ae_replies s)) \<le> q" "in_window (ae_rr s) (int (length (ae_replies s))) q"
proof -
  have "answers_request X s k" if "k < length (ae_replies s)" for k
    using assms(1) that by (simp add: aeron_inv_def)
  then have "ae_done s (int k) \<noteq> None" if "k < length (ae_replies s)" for k
    using that by (auto simp: answers_request_def)
  then show le: "int (length (ae_replies s)) \<le> q"
    using assms(2,4) by (metis int_eq_iff nat_less_iff not_le)
  have "in_flight_bounded s" "ae_next_to_drain s = int (length (ae_replies s))"
    using assms(1) by (simp_all add: aeron_inv_def)
  then show "in_window (ae_rr s) (int (length (ae_replies s))) q"
    using le assms(2,3) by (simp add: in_window_def valid_seq_def in_flight_bounded_def)
qed

lemma engine_inv:
  assumes inv: "aeron_inv X up M n s" and q: "0 \<le> q" "q < int (length (ae_accepted s))" "ae_done s q = None"
  shows "aeron_inv X up M n (s\<lparr>ae_rr := rr_insert (ae_rr s) q tid, ae_done := (ae_done s)(q \<mapsto> Committed tid t)\<rparr>)"
    and "aeron_inv X up M n (s\<lparr>ae_results := (ae_results s)(q \<mapsto> r), ae_done := (ae_done s)(q \<mapsto> r)\<rparr>)"
proof -
  let ?lo = "int (length (ae_replies s))"
  note und = undelivered [OF inv q]
  have ok: "rr_ok (ae_rr s)" using inv by (simp add: aeron_inv_def)
  have none: "rr_map (ae_rr s) ?lo q = None" "ae_results s q = None"
    using inv und(1) q(3) by (auto simp: aeron_inv_def delivered_def split: option.splits)
  have keep: "answers_request X s' k" if "k < length (ae_replies s)" "ae_done s' = (ae_done s)(q \<mapsto> x)"
    "ae_replies s' = ae_replies s" "ae_accepted s' = ae_accepted s" for s' x k
    using inv that und(1) by (auto simp: aeron_inv_def answers_request_def)
  have d: "delivered (if p = q then Some tid else rr_map (ae_rr s) ?lo p) (ae_results s p) (if p = q then Some (Committed tid t) else ae_done s p)"
    "delivered (rr_map (ae_rr s) ?lo p) (if p = q then Some r else ae_results s p) (if p = q then Some r else ae_done s p)"
    if "?lo \<le> p" for p
    using inv that none by (auto simp: aeron_inv_def delivered_def)
  have fb: "in_flight_bounded (s\<lparr>ae_rr := rr_insert (ae_rr s) q tid, ae_done := D\<rparr>)"
    "in_flight_bounded (s\<lparr>ae_results := m, ae_done := D\<rparr>)" for m D
    using inv by (simp_all add: aeron_inv_def in_flight_bounded_def)
  show "aeron_inv X up M n (s\<lparr>ae_rr := rr_insert (ae_rr s) q tid, ae_done := (ae_done s)(q \<mapsto> Committed tid t)\<rparr>)"
    using inv q(1,2) keep d(1) fb(1) unfolding aeron_inv_def
    by (simp add: rr_insert_map [OF ok und(2)] fun_upd_apply)
  show "aeron_inv X up M n (s\<lparr>ae_results := (ae_results s)(q \<mapsto> r), ae_done := (ae_done s)(q \<mapsto> r)\<rparr>)"
    using inv q(1,2) keep d(2) fb(2) unfolding aeron_inv_def
    by (simp add: fun_upd_apply)
qed

lemma aeron_step_inv:
  assumes "aeron_step X up M s s'" "aeron_inv X up M n s" "1 < n" "n < 2 ^ 62" "in_flight_bounded s'"
  shows "aeron_inv X up M n s'"
  using assms(1)
proof cases
  case (drain d ok now ns s1)
  then have "aeron_inv X up M n s1" using drain_one_inv [OF assms(2-4), of ok now ns] by simp
  then show ?thesis unfolding drain by (rule aeron_inv_frame) simp_all
next
  case (pump p ps ok now ns v4 v4')
  then show ?thesis using pump_one_inv [OF assms(2)] by simp
next
  case (spin i e ps ok now ns)
  then show ?thesis using drain_one_inv [OF assms(2-4)] by simp
next
  case (publish i e ps ok ns)
  then show ?thesis using publish_inv [OF assms(2)] assms(5) by simp
next
  case (engine_ring q tid t)
  then show ?thesis using engine_inv(1) [OF assms(2)] by simp
next
  case (engine_map q r)
  then show ?thesis using engine_inv(2) [OF assms(2)] by simp
next
  case (engine_gate w v)
  then show ?thesis unfolding engine_gate
    by (intro aeron_inv_frame [OF assms(2)]) (use assms(2) in \<open>simp_all add: set_gate_def aeron_inv_def\<close>)
qed (rule aeron_inv_frame [OF assms(2)], simp_all)+

definition aeron_reach ::
  "('d, 'c) externs \<Rightarrow> (string \<Rightarrow> uuid_bytes option) \<Rightarrow> rmp \<Rightarrow> aeron_server \<Rightarrow> aeron_server \<Rightarrow> bool" where
  "aeron_reach X up M = (\<lambda>s s'. aeron_step X up M s s' \<and> in_flight_bounded s')\<^sup>*\<^sup>*"

lemma aeron_reach_inv:
  assumes "result_ring_new uninit n = Some R" "1 < n" "n < 2 ^ 62" "rb_claim r = INITIAL_VALUE"
    and "aeron_reach X up M (aeron_server_new r R) s"
  shows "aeron_inv X up M n s"
  using assms(5) unfolding aeron_reach_def
proof (induction rule: rtranclp_induct)
  case base
  show ?case
    using result_ring_new_empty [OF assms(1)] assms(4)
    by (simp add: aeron_inv_def aeron_server_new_def in_flight_bounded_def delivered_def INITIAL_VALUE_def)
next
  case (step s s')
  then show ?case using aeron_step_inv assms(2,3) by blast
qed


lemma aeron_reach_refl: "aeron_reach X up M s s"
  by (simp add: aeron_reach_def)

lemma aeron_reach_step:
  "aeron_reach X up M s0 s \<Longrightarrow> aeron_step X up M s s' \<Longrightarrow> in_flight_bounded s' \<Longrightarrow> aeron_reach X up M s0 s'"
  unfolding aeron_reach_def by (rule rtranclp.rtrancl_into_rtrancl) auto

definition ex_result_ring :: result_ring where
  "ex_result_ring = the (result_ring_new (\<lambda>_. replicate 16 0) 2)"

lemma ex_result_ring_new: "result_ring_new (\<lambda>_. replicate 16 0) 2 = Some ex_result_ring"
  by (simp add: ex_result_ring_def result_ring_new_def is_power_of_two_def)

abbreviation ex_reach :: "aeron_server \<Rightarrow> bool" where
  "ex_reach \<equiv> aeron_reach ref_externs (\<lambda>_. None) ex_rmp (aeron_server_new ex_ring ex_result_ring)"

lemma ex_no_result: "rr_try_remove ex_result_ring 0 = (ex_result_ring, None)"
  by (simp add: ex_result_ring_def result_ring_new_def is_power_of_two_def rr_try_remove_def rr_index_def RR_PENDING_def
      RR_COMMITTED_def as_usize_def)

lemma ex_aeron_event:
  obtains ev where "pump_one ref_externs (\<lambda>_. None) ex_rmp True (Timestamp 0) 0 (replicate 16 1) (replicate 16 1) [1] [] s =
    s\<lparr>ae_pc := A_Spin 7 ev []\<rparr>"
proof -
  obtain ev where "aeron_build_event ref_externs (\<lambda>_. None) (Timestamp 0) (replicate 16 1) ex_transaction_request = Inr ev"
    by (simp add: aeron_build_event_def ex_transaction_request_def id64_from_str_def parse_uint_def char_digit_def ledger_id_new_def
        rd_of_str_def rd_parse_abs_def rd_mk_def amount_new_def MAX_SCALE_def amount_to_minor_units_def currency_scale_def
        rd_mul_def parse_currency_def)
  moreover have "deserialize_request ex_rmp [1] = Inr ex_transaction_request"
    by (simp add: deserialize_request_def ex_rmp_def)
  moreover have "(id64_from_str (\<lambda>_. None) (tq_request_id ex_transaction_request) :: transaction_id blazer_result) = Inr (Id64 7)"
    by (simp add: ex_transaction_request_def id64_from_str_def parse_uint_def char_digit_def)
  ultimately show thesis
    by (intro that [of ev]) (simp add: pump_one_def unwrap_or_def)
qed

text \<open>One request through the server: received and published, then rejected by the engine, drained and answered.\<close>

lemma ex_aeron_published:
  "\<exists>s ev. ex_reach s \<and> ae_accepted s = [(7, ev)] \<and> ae_rr s = ex_result_ring \<and> ae_results s = Map.empty \<and>
     ae_done s = Map.empty \<and> ae_replies s = [] \<and> ae_next_to_drain s = 0 \<and> ae_pc s = A_Pump []"
proof -
  let ?s0 = "aeron_server_new ex_ring ex_result_ring"
  define s1 where "s1 = ?s0\<lparr>ae_pc := A_Drain 0\<rparr>"
  have s1: "ae_pc s1 = A_Drain 0" "ae_ring s1 = ex_ring" "ae_accepted s1 = []" "ae_rr s1 = ex_result_ring" "ae_results s1 = Map.empty"
    "ae_done s1 = Map.empty" "ae_replies s1 = []" "ae_next_to_drain s1 = 0"
    by (simp_all add: s1_def aeron_server_new_def)
  have "aeron_step ref_externs (\<lambda>_. None) ex_rmp ?s0 s1"
    unfolding s1_def by (rule aeron_step.enter) (simp add: aeron_server_new_def)
  then have r1: "ex_reach s1"
    by (rule aeron_reach_step [OF aeron_reach_refl]) (simp add: s1 in_flight_bounded_def)
  define s2 where "s2 = s1\<lparr>ae_pending_len := nat (max (wrap_i64 (ae_next_to_publish s1 - ae_next_to_drain s1)) 0), ae_pc := A_Pump [[1]]\<rparr>"
  have "aeron_step ref_externs (\<lambda>_. None) ex_rmp s1 s2"
    unfolding s2_def by (rule aeron_step.poll [where ok = True and now = "Timestamp 0" and ns = 0, OF s1(1)])
      (simp_all add: drain_one_def take_result_def s1 ex_no_result FRAGMENT_LIMIT_def)
  then have r2: "ex_reach s2"
    by (rule aeron_reach_step [OF r1]) (simp add: s2_def s1 in_flight_bounded_def)
  obtain ev where pump: "pump_one ref_externs (\<lambda>_. None) ex_rmp True (Timestamp 0) 0 (replicate 16 1) (replicate 16 1) [1] [] s2 =
      s2\<lparr>ae_pc := A_Spin 7 ev []\<rparr>" by (rule ex_aeron_event)
  define s3 where "s3 = s2\<lparr>ae_pc := A_Spin 7 ev []\<rparr>"
  have "aeron_step ref_externs (\<lambda>_. None) ex_rmp s2 s3"
    unfolding s3_def pump [symmetric] by (rule aeron_step.pump) (simp add: s2_def)
  then have r3: "ex_reach s3"
    by (rule aeron_reach_step [OF r2]) (simp add: s3_def s2_def s1 in_flight_bounded_def)
  define s4 where "s4 = aeron_publish ex_rmp True 0 7 ev [] s3"
  have cap: "has_available_capacity ex_ring"
    by (simp add: ex_ring_def ring_buffer_new_def is_power_of_two_def has_available_capacity_def)
  then have s4: "ae_accepted s4 = [(7, ev)]" "ae_rr s4 = ex_result_ring" "ae_results s4 = Map.empty" "ae_done s4 = Map.empty"
    "ae_replies s4 = []" "ae_next_to_drain s4 = 0" "ae_pc s4 = A_Pump []"
    by (simp_all add: s4_def aeron_publish_def publish_event_def s3_def s2_def s1 split: prod.split)
  have "aeron_step ref_externs (\<lambda>_. None) ex_rmp s3 s4"
    unfolding s4_def by (rule aeron_step.publish) (simp_all add: s3_def s2_def s1 cap)
  then have "ex_reach s4"
    by (rule aeron_reach_step [OF r3])
      (simp add: s4 in_flight_bounded_def REQ_SLOTS_CAP_def result_ring_new_empty(2) [OF ex_result_ring_new])
  then show ?thesis using s4 by blast
qed

lemma ex_aeron_run: "\<exists>s ev. ex_reach s \<and> ae_accepted s = [(7, ev)] \<and> length (ae_replies s) = 1"
proof -
  obtain s ev where r: "ex_reach s" and s: "ae_accepted s = [(7, ev)]" "ae_rr s = ex_result_ring" "ae_results s = Map.empty"
    "ae_done s = Map.empty" "ae_replies s = []" "ae_next_to_drain s = 0" "ae_pc s = A_Pump []"
    using ex_aeron_published by blast
  note n = result_ring_new_empty(2) [OF ex_result_ring_new]
  let ?step = "aeron_step ref_externs (\<lambda>_. None) ex_rmp" and ?r = "Rejected (Transport [])"
  define s1 where "s1 = s\<lparr>ae_results := (ae_results s)(0 \<mapsto> ?r), ae_done := (ae_done s)(0 \<mapsto> ?r)\<rparr>"
  have "?step s s1" unfolding s1_def by (rule aeron_step.engine_map) (simp_all add: s)
  then have r1: "ex_reach s1"
    by (rule aeron_reach_step [OF r]) (simp add: s1_def s in_flight_bounded_def REQ_SLOTS_CAP_def n)
  have "?step s1 (s1\<lparr>ae_pc := A_Head\<rparr>)" by (rule aeron_step.pumped) (simp add: s1_def s)
  then have r2: "ex_reach (s1\<lparr>ae_pc := A_Head\<rparr>)"
    by (rule aeron_reach_step [OF r1]) (simp add: s1_def s in_flight_bounded_def REQ_SLOTS_CAP_def n)
  define s3 where "s3 = s1\<lparr>ae_pc := A_Drain 0\<rparr>"
  have "?step (s1\<lparr>ae_pc := A_Head\<rparr>) s3"
    using aeron_step.enter [of "s1\<lparr>ae_pc := A_Head\<rparr>"] by (simp add: s3_def)
  then have r3: "ex_reach s3"
    by (rule aeron_reach_step [OF r2]) (simp add: s3_def s1_def s in_flight_bounded_def REQ_SLOTS_CAP_def n)
  define s4 where "s4 = fst (drain_one ref_externs ex_rmp True (Timestamp 0) 0 s3)"
  have s4: "drain_one ref_externs ex_rmp True (Timestamp 0) 0 s3 = (s4, True)" "ae_accepted s4 = [(7, ev)]"
    "length (ae_replies s4) = 1" "ae_rr s4 = ex_result_ring" "ae_next_to_drain s4 = 1"
    by (simp_all add: s4_def drain_one_def take_result_def s3_def s1_def s ex_no_result Let_def in_i64_def)
  have "?step s3 (s4\<lparr>ae_pc := A_Drain (Suc 0)\<rparr>)"
    by (rule aeron_step.drain [OF _ _ s4(1)]) (simp_all add: s3_def MAX_DRAIN_PER_CALL_def)
  then have "ex_reach (s4\<lparr>ae_pc := A_Drain (Suc 0)\<rparr>)"
    by (rule aeron_reach_step [OF r3]) (simp add: s4 in_flight_bounded_def REQ_SLOTS_CAP_def n)
  then show ?thesis using s4 by (intro exI [of _ "s4\<lparr>ae_pc := A_Drain (Suc 0)\<rparr>"] exI [of _ ev]) simp
qed


text \<open>
  The order of the responses is that of the requests, not of completion: while the first sequence has no
  result, no response is sent for any other.
\<close>

lemma aeron_head_of_line:
  assumes "result_ring_new uninit n = Some R" "1 < n" "n < 2 ^ 62" "rb_claim r = INITIAL_VALUE"
    and "aeron_reach X up M (aeron_server_new r R) s" "ae_done s 0 = None"
  shows "ae_replies s = []"
proof (rule ccontr)
  assume "ae_replies s \<noteq> []"
  then have "answers_request X s 0"
    using aeron_reach_inv [OF assms(1-5)] by (simp add: aeron_inv_def)
  then show False using assms(6) by (simp add: answers_request_def)
qed

text \<open>
  Beyond the bound the ids are overwritten: two sequences as far apart as there are slots share a slot. The
  loop publishes up to \<open>FRAGMENT_LIMIT\<close> requests for at most \<open>MAX_DRAIN_PER_CALL\<close> results it drains, so
  it does not keep the bound by itself.
\<close>

lemma request_slot_collision: "as_usize (int (k + REQ_SLOTS_CAP)) AND REQ_SLOTS_MASK = as_usize (int k) AND REQ_SLOTS_MASK"
  if "k < 2 ^ 62"
proof -
  have "(k + REQ_SLOTS_CAP) AND REQ_SLOTS_MASK = k AND REQ_SLOTS_MASK"
    unfolding REQ_SLOTS_pow2(2) and_mask_mod [OF REQ_SLOTS_pow2(1)] by simp
  moreover have "as_usize (int (k + REQ_SLOTS_CAP)) = k + REQ_SLOTS_CAP" "as_usize (int k) = k"
    using that by (simp_all add: as_usize_nonneg in_i64_def REQ_SLOTS_CAP_def)
  ultimately show ?thesis by simp
qed

end
