(* ===== verification/Blz_Datagram.thy ===== *)
theory Blz_Datagram
  imports Blz_Transport Blz_Sharded Blz_Float
begin

text \<open>
  The datagram transports over the sharded pipeline: the UDP server (\<^verbatim>\<open>core/transport/src/udp_transport.rs\<close>), the
  io\_uring UDP server (the second half of \<^verbatim>\<open>io_uring_transport.rs\<close>), the frame parser of the AF\_XDP
  receive cursor and its client (\<^verbatim>\<open>afxdp/rx.rs\<close>, \<^verbatim>\<open>afxdp/client.rs\<close>), and the back-pressure guard
  (\<^verbatim>\<open>backpressure.rs\<close>). The UDP server is a step relation: its receive loop, the tasks that wait for
  results, the task that sends the responses, and the engine, which adds results and moves gates at any time.
\<close>

section \<open>The datagram (udp\_transport.rs)\<close>

definition HEADER_SIZE :: usize where "HEADER_SIZE = 8"
definition PAYLOAD_SIZE :: usize where "PAYLOAD_SIZE = 48"
definition PACKET_SIZE :: usize where "PACKET_SIZE = HEADER_SIZE + PAYLOAD_SIZE"
definition MAX_IN_FLIGHT :: nat where "MAX_IN_FLIGHT = 2048"
definition RESPONSE_CHANNEL :: nat where "RESPONSE_CHANNEL = 65536"

lemmas udp_sizes = HEADER_SIZE_def PAYLOAD_SIZE_def PACKET_SIZE_def MAX_IN_FLIGHT_def RESPONSE_CHANNEL_def

text \<open>The bytes \<open>[a..b]\<close> of a slice, and the integer they encode.\<close>

definition byte_slice :: "nat \<Rightarrow> nat \<Rightarrow> 'a list \<Rightarrow> 'a list" where
  "byte_slice a b xs = take (b - a) (drop a xs)"

definition be_word :: "nat \<Rightarrow> nat \<Rightarrow> u8 list \<Rightarrow> 'w :: len word" where
  "be_word a b bs = word_of_nat (from_be_bytes (byte_slice a b bs))"

definition udp_ledger :: "u32 \<Rightarrow> ledger_id" where
  "udp_ledger n = (if n = 0 then LedgerId_USD else if n = 1 then LedgerId_EUR else if n = 2 then LedgerId_GBP else LedgerId_USD)"

definition deserialize_event_static :: "timestamp \<Rightarrow> u8 list \<Rightarrow> transaction_event blazer_result" where
  "deserialize_event_static now bs =
     (if length bs \<noteq> PAYLOAD_SIZE
      then Inl (Internal (''Invalid UDP packet size: expected '' @ show_nat PAYLOAD_SIZE @ '' bytes, got '' @ show_nat (length bs)))
      else let tx_id = be_word 0 8 bs; debit_id = be_word 8 16 bs; credit_id = be_word 16 24 bs; amount = be_word 24 32 bs;
               timestamp_nanos = be_word 32 40 bs; ledger_u32 = be_word 40 44 bs; code = be_word 44 46 bs; flags_byte = bs ! 46;
               event = transaction_event_new now (Id64 tx_id) (Id64 debit_id) (Id64 credit_id) amount (udp_ledger ledger_u32) code
           in Inr (event\<lparr>ev_ingestion_timestamp := from_nanos timestamp_nanos, ev_flags := flags_from_raw flags_byte\<rparr>))"

section \<open>The server (udp\_transport.rs)\<close>

record 'p udp_task =
  ut_sequence :: u64
  ut_event :: transaction_event
  ut_shard :: usize
  ut_ring_seq :: i64
  ut_peer :: 'p

text \<open>
  The receive loop waits for a datagram, or for a permit with a task in hand; a panic of the loop ends it.
  \<open>us_seen\<close> records the datagrams received, with their senders.
\<close>

datatype 'p udp_pc = U_Recv | U_Permit "'p udp_task" | U_Stopped | U_Panicked

record ('d, 'c, 'p) udp_server =
  us_pipeline :: "('d, 'c) sharded_pipeline"
  us_received :: u64
  us_sent :: u64
  us_buf :: "u8 list"
  us_pc :: "'p udp_pc"
  us_tasks :: "'p udp_task list"
  us_channel :: "(u8 list \<times> 'p) list"
  us_wire :: "(u8 list \<times> 'p) list"
  us_seen :: "('p \<times> u8 list) list"

definition udp_server_new :: "('d, 'c) sharded_pipeline \<Rightarrow> ('d, 'c, 'p) udp_server" where
  "udp_server_new P =
     \<lparr>us_pipeline = P, us_received = 0, us_sent = 0, us_buf = replicate PACKET_SIZE 0, us_pc = U_Recv, us_tasks = [],
      us_channel = [], us_wire = [], us_seen = []\<rparr>"

text \<open>
  One datagram: \<^verbatim>\<open>recv_from\<close> copies at most as many bytes as the buffer holds and reports that number. The
  remainder by the shard count panics for no shards, as does the index into them. \<open>env\<close> is what the
  shard's worker does while the publication waits.
\<close>

definition udp_receive ::
  "timestamp \<Rightarrow> (nat \<Rightarrow> transaction_event ring \<Rightarrow> transaction_event ring) \<Rightarrow> 'p \<Rightarrow> u8 list \<Rightarrow>
   ('d, 'c, 'p) udp_server \<Rightarrow> ('d, 'c, 'p) udp_server" where
  "udp_receive now env peer datagram s =
     (let len = min (length datagram) PACKET_SIZE;
          buf = take len datagram @ drop len (us_buf s);
          s1 = s\<lparr>us_buf := buf, us_received := us_received s + 1, us_seen := us_seen s @ [(peer, datagram)]\<rparr>
      in if len \<noteq> PACKET_SIZE then s1
         else case deserialize_event_static now (byte_slice HEADER_SIZE PACKET_SIZE buf) of
           Inl _ \<Rightarrow> s1
         | Inr event \<Rightarrow>
             if sp_shard_count (us_pipeline s) = 0 then s1\<lparr>us_pc := U_Panicked\<rparr>
             else let shard_id = unat (as_u64 (ev_debit_account_id event)) mod sp_shard_count (us_pipeline s)
                  in case sharded_publish_event env (us_pipeline s) event of
                       None \<Rightarrow> s1\<lparr>us_pc := U_Panicked\<rparr>
                     | Some (P, Inl _) \<Rightarrow> s1\<lparr>us_pipeline := P\<rparr>
                     | Some (P, Inr ring_seq) \<Rightarrow>
                         (case shard_results shard_id P of
                            None \<Rightarrow> s1\<lparr>us_pipeline := P, us_pc := U_Panicked\<rparr>
                          | Some _ \<Rightarrow>
                              s1\<lparr>us_pipeline := P,
                                 us_pc := U_Permit \<lparr>ut_sequence = be_word 0 8 buf, ut_event = event, ut_shard = shard_id,
                                                    ut_ring_seq = ring_seq, ut_peer = peer\<rparr>\<rparr>))"

definition shard_lookup :: "('d, 'c) sharded_pipeline \<Rightarrow> usize \<Rightarrow> i64 \<Rightarrow> transaction_result option" where
  "shard_lookup P shard q = Option.bind (shard_results shard P) (\<lambda>es. map_of es q)"

text \<open>The code of what the waiting task saw: a result, or the timeout.\<close>

definition result_code :: "transaction_result option \<Rightarrow> u64" where
  "result_code r = (case r of Some (Committed _ _) \<Rightarrow> 0 | Some (Rejected _) \<Rightarrow> 1 | None \<Rightarrow> 1)"

definition udp_response :: "u64 \<Rightarrow> u64 \<Rightarrow> u8 list" where
  "udp_response sequence code = to_be_bytes 8 (unat sequence) @ to_be_bytes 8 (unat code)"

text \<open>The engine only adds results; the shards stay the same while the server holds the pipeline.\<close>

definition engine_grows :: "('d, 'c) sharded_pipeline \<Rightarrow> ('d, 'c) sharded_pipeline \<Rightarrow> bool" where
  "engine_grows P P' \<longleftrightarrow> sp_ok P' \<and> sp_shard_count P' = sp_shard_count P \<and>
     (\<forall>i q r. shard_lookup P i q = Some r \<longrightarrow> shard_lookup P' i q = Some r)"

inductive udp_step :: "('d, 'c, 'p) udp_server \<Rightarrow> ('d, 'c, 'p) udp_server \<Rightarrow> bool" where
  stop: "us_pc s = U_Recv \<Longrightarrow> udp_step s (s\<lparr>us_pc := U_Stopped\<rparr>)"
| receive: "us_pc s = U_Recv \<Longrightarrow> udp_step s (udp_receive now env peer datagram s)"
| permit: "us_pc s = U_Permit t \<Longrightarrow> length (us_tasks s) < MAX_IN_FLIGHT \<Longrightarrow>
    udp_step s (s\<lparr>us_pc := U_Recv, us_tasks := us_tasks s @ [t]\<rparr>)"
| answer: "us_tasks s = ts @ t # us \<Longrightarrow> r = None \<or> r = shard_lookup (us_pipeline s) (ut_shard t) (ut_ring_seq t) \<Longrightarrow>
    length (us_channel s) < RESPONSE_CHANNEL \<Longrightarrow>
    udp_step s (s\<lparr>us_tasks := ts @ us,
                  us_channel := us_channel s @ [(udp_response (ut_sequence t) (result_code r), ut_peer t)]\<rparr>)"
| send: "us_channel s = m # ms \<Longrightarrow>
    udp_step s (s\<lparr>us_channel := ms, us_wire := us_wire s @ [m], us_sent := us_sent s + 1\<rparr>)"
| send_failed: "us_channel s = m # ms \<Longrightarrow> udp_step s (s\<lparr>us_channel := ms\<rparr>)"
| engine: "engine_grows (us_pipeline s) P \<Longrightarrow> udp_step s (s\<lparr>us_pipeline := P\<rparr>)"

section \<open>Every response answers a datagram of its peer\<close>

text \<open>The event of a task was decoded from a datagram of its peer and published at its sequence in the shard its debit account routes to.\<close>

definition udp_task_ok :: "('d, 'c, 'p) udp_server \<Rightarrow> 'p udp_task \<Rightarrow> u8 list \<Rightarrow> bool" where
  "udp_task_ok s t d \<longleftrightarrow>
     (ut_peer t, d) \<in> set (us_seen s) \<and> PACKET_SIZE \<le> length d \<and> ut_sequence t = be_word 0 8 d \<and>
     (\<exists>now. deserialize_event_static now (byte_slice HEADER_SIZE PACKET_SIZE d) = Inr (ut_event t)) \<and>
     (\<exists>env P P' :: ('d, 'c) sharded_pipeline. sharded_publish_event env P (ut_event t) = Some (P', Inr (ut_ring_seq t))) \<and>
     ut_shard t = route_to_shard (as_u64 (ev_debit_account_id (ut_event t))) (sp_shard_count (us_pipeline s))"

definition answer_ok :: "('d, 'c, 'p) udp_server \<Rightarrow> u8 list \<times> 'p \<Rightarrow> bool" where
  "answer_ok s m \<longleftrightarrow>
     (\<exists>t d r. udp_task_ok s t d \<and> m = (udp_response (ut_sequence t) (result_code r), ut_peer t) \<and>
        (r = None \<or> r = shard_lookup (us_pipeline s) (ut_shard t) (ut_ring_seq t)))"

definition udp_inv :: "('d, 'c, 'p) udp_server \<Rightarrow> bool" where
  "udp_inv s \<longleftrightarrow>
     sp_ok (us_pipeline s) \<and> length (us_tasks s) \<le> MAX_IN_FLIGHT \<and> length (us_channel s) \<le> RESPONSE_CHANNEL \<and>
     length (us_tasks s) + length (us_channel s) + length (us_wire s) + (case us_pc s of U_Permit _ \<Rightarrow> 1 | _ \<Rightarrow> 0) \<le> length (us_seen s) \<and>
     us_received s = word_of_nat (length (us_seen s)) \<and> us_sent s = word_of_nat (length (us_wire s)) \<and>
     (\<forall>t. us_pc s = U_Permit t \<or> t \<in> set (us_tasks s) \<longrightarrow> (\<exists>d. udp_task_ok s t d)) \<and>
     (\<forall>m \<in> set (us_channel s) \<union> set (us_wire s). answer_ok s m)"

lemma udp_task_ok_grow:
  fixes s s' :: "('d, 'c, 'p) udp_server"
  assumes "udp_task_ok s t d" "set (us_seen s) \<subseteq> set (us_seen s')"
    "sp_shard_count (us_pipeline s') = sp_shard_count (us_pipeline s)"
  shows "udp_task_ok s' t d"
  using assms(1) subsetD [OF assms(2)] unfolding udp_task_ok_def assms(3) by simp

lemma answer_ok_grow:
  fixes s s' :: "('d, 'c, 'p) udp_server"
  assumes "answer_ok s m" "set (us_seen s) \<subseteq> set (us_seen s')"
    "sp_shard_count (us_pipeline s') = sp_shard_count (us_pipeline s)"
    "\<And>i q r. shard_lookup (us_pipeline s) i q = Some r \<Longrightarrow> shard_lookup (us_pipeline s') i q = Some r"
  shows "answer_ok s' m"
proof -
  obtain t d r where t: "udp_task_ok s t d" "m = (udp_response (ut_sequence t) (result_code r), ut_peer t)"
    "r = None \<or> r = shard_lookup (us_pipeline s) (ut_shard t) (ut_ring_seq t)"
    using assms(1) by (auto simp: answer_ok_def)
  have "r = None \<or> r = shard_lookup (us_pipeline s') (ut_shard t) (ut_ring_seq t)"
    using t(3) assms(4) [of "ut_shard t" "ut_ring_seq t"]
    by (cases "shard_lookup (us_pipeline s) (ut_shard t) (ut_ring_seq t)") auto
  with udp_task_ok_grow [OF t(1) assms(2,3)] t(2) show ?thesis
    unfolding answer_ok_def by (intro exI [of _ t] exI [of _ d] exI [of _ r]) simp
qed

lemma shard_lookup_same_results:
  assumes "map pl_results (sp_shards P) = map pl_results (sp_shards P')"
  shows "shard_lookup P i q = shard_lookup P' i q"
proof -
  have "length (sp_shards P) = length (sp_shards P')" using arg_cong [OF assms, of length] by simp
  moreover have "i < length (sp_shards P) \<Longrightarrow> pl_results (sp_shards P ! i) = pl_results (sp_shards P' ! i)"
    using arg_cong [OF assms, of "\<lambda>xs. xs ! i"] calculation by simp
  ultimately show ?thesis by (simp add: shard_lookup_def shard_results_def)
qed

text \<open>A publication leaves the results of all shards alone.\<close>

lemma publish_keeps:
  assumes "sp_ok P" "sharded_publish_event env P e = Some (P', r)"
  shows "sp_ok P'" "sp_shard_count P' = sp_shard_count P" "shard_lookup P' = shard_lookup P"
proof -
  have P': "sp_ok P' \<and> sp_shard_count P' = sp_shard_count P \<and> map pl_results (sp_shards P') = map pl_results (sp_shards P)"
    using sharded_publish_ok [OF assms(1), of env e] assms(2) by auto
  then show "sp_ok P'" "sp_shard_count P' = sp_shard_count P" by simp_all
  show "shard_lookup P' = shard_lookup P"
    by (intro ext shard_lookup_same_results) (simp add: P')
qed

lemma udp_receive_frame:
  "us_seen (udp_receive now env peer d s) = us_seen s @ [(peer, d)]"
  "us_received (udp_receive now env peer d s) = us_received s + 1"
  "us_sent (udp_receive now env peer d s) = us_sent s" "us_tasks (udp_receive now env peer d s) = us_tasks s"
  "us_channel (udp_receive now env peer d s) = us_channel s" "us_wire (udp_receive now env peer d s) = us_wire s"
  by (simp_all add: udp_receive_def Let_def split: sum.split option.split prod.split)

lemma packet_fields:
  assumes "PACKET_SIZE \<le> length d"
  shows "be_word 0 8 (take PACKET_SIZE d @ xs) = (be_word 0 8 d :: u64)"
    "byte_slice HEADER_SIZE PACKET_SIZE (take PACKET_SIZE d @ xs) = byte_slice HEADER_SIZE PACKET_SIZE d"
  using assms by (auto simp: be_word_def byte_slice_def udp_sizes drop_take)

lemma udp_receive_dropped:
  assumes "length d < PACKET_SIZE \<or> is_err (deserialize_event_static now (byte_slice HEADER_SIZE PACKET_SIZE d))"
  shows "us_pipeline (udp_receive now env peer d s) = us_pipeline s" "us_pc (udp_receive now env peer d s) = us_pc s"
proof -
  have "us_pipeline (udp_receive now env peer d s) = us_pipeline s \<and> us_pc (udp_receive now env peer d s) = us_pc s"
  proof (cases "length d < PACKET_SIZE")
    case False
    then have len: "PACKET_SIZE \<le> length d" by simp
    obtain x where "deserialize_event_static now (byte_slice HEADER_SIZE PACKET_SIZE d) = Inl x"
      using assms False by (cases "deserialize_event_static now (byte_slice HEADER_SIZE PACKET_SIZE d)") auto
    then show ?thesis
      by (simp add: udp_receive_def Let_def min_absorb2 [OF len] packet_fields(2) [OF len])
  qed (simp add: udp_receive_def Let_def)
  then show "us_pipeline (udp_receive now env peer d s) = us_pipeline s" "us_pc (udp_receive now env peer d s) = us_pc s"
    by simp_all
qed

lemma udp_receive_published:
  assumes len: "PACKET_SIZE \<le> length d" and e: "deserialize_event_static now (byte_slice HEADER_SIZE PACKET_SIZE d) = Inr e"
    and ok: "sp_ok (us_pipeline s)" and P: "sharded_publish_event env (us_pipeline s) e = Some (P, r)"
  shows "us_pipeline (udp_receive now env peer d s) = P"
    "us_pc (udp_receive now env peer d s) =
      (case r of Inl _ \<Rightarrow> us_pc s
       | Inr q \<Rightarrow> U_Permit \<lparr>ut_sequence = be_word 0 8 d, ut_event = e,
           ut_shard = unat (as_u64 (ev_debit_account_id e)) mod sp_shard_count (us_pipeline s), ut_ring_seq = q, ut_peer = peer\<rparr>)"
proof -
  have "pow2 (sp_shard_count (us_pipeline s))" using ok by (simp add: sp_ok_def)
  then have n: "sp_shard_count (us_pipeline s) \<noteq> 0" using pow2_pos by fastforce
  then have "unat (as_u64 (ev_debit_account_id e)) mod sp_shard_count (us_pipeline s) < length (sp_shards P)"
    using publish_keeps [OF ok P] by (simp add: sp_ok_def)
  then obtain es where es: "shard_results (unat (as_u64 (ev_debit_account_id e)) mod sp_shard_count (us_pipeline s)) P = Some es"
    by (simp add: shard_results_def)
  show "us_pipeline (udp_receive now env peer d s) = P"
    "us_pc (udp_receive now env peer d s) =
      (case r of Inl _ \<Rightarrow> us_pc s
       | Inr q \<Rightarrow> U_Permit \<lparr>ut_sequence = be_word 0 8 d, ut_event = e,
           ut_shard = unat (as_u64 (ev_debit_account_id e)) mod sp_shard_count (us_pipeline s), ut_ring_seq = q, ut_peer = peer\<rparr>)"
    using n by (cases r; simp add: udp_receive_def Let_def min_absorb2 [OF len] packet_fields [OF len] e P es)+
qed

text \<open>What one datagram does: either nothing is left to do, or one task that waits for its result.\<close>

lemma udp_receive_cases:
  fixes s s' :: "('d, 'c, 'p) udp_server"
  assumes ok: "sp_ok (us_pipeline s)" and pc: "us_pc s = U_Recv" and s': "s' = udp_receive now env peer d s"
  shows "sp_ok (us_pipeline s')" "sp_shard_count (us_pipeline s') = sp_shard_count (us_pipeline s)"
    "shard_lookup (us_pipeline s') = shard_lookup (us_pipeline s)"
    "us_pc s' = U_Recv \<or> (\<exists>t. us_pc s' = U_Permit t \<and> udp_task_ok s' t d)"
proof -
  have "sp_ok (us_pipeline s') \<and> sp_shard_count (us_pipeline s') = sp_shard_count (us_pipeline s) \<and>
      shard_lookup (us_pipeline s') = shard_lookup (us_pipeline s) \<and>
      (us_pc s' = U_Recv \<or> (\<exists>t. us_pc s' = U_Permit t \<and> udp_task_ok s' t d))"
  proof (cases "length d < PACKET_SIZE \<or> is_err (deserialize_event_static now (byte_slice HEADER_SIZE PACKET_SIZE d))")
    case True
    show ?thesis using ok pc by (simp add: s' udp_receive_dropped [OF True])
  next
    case False
    then obtain e where len: "PACKET_SIZE \<le> length d" and e: "deserialize_event_static now (byte_slice HEADER_SIZE PACKET_SIZE d) = Inr e"
      by (cases "deserialize_event_static now (byte_slice HEADER_SIZE PACKET_SIZE d)") auto
    obtain P r where P: "sharded_publish_event env (us_pipeline s) e = Some (P, r)"
      using sharded_publish_ok [OF ok, of env e] by blast
    note pub = udp_receive_published [OF len e ok P, of peer] and keep = publish_keeps [OF ok P]
    have n: "pow2 (sp_shard_count (us_pipeline s))" using ok by (simp add: sp_ok_def)
    have "us_pc s' = U_Recv \<or> (\<exists>t. us_pc s' = U_Permit t \<and> udp_task_ok s' t d)"
    proof (cases r)
      case (Inr q)
      have "\<exists>now. deserialize_event_static now (byte_slice HEADER_SIZE PACKET_SIZE d) = Inr e"
        using e by (rule exI)
      moreover have "\<exists>env P P' :: ('d, 'c) sharded_pipeline. sharded_publish_event env P e = Some (P', Inr q)"
        using P unfolding Inr by (intro exI)
      ultimately show ?thesis
        by (simp add: s' pub Inr udp_task_ok_def udp_receive_frame len keep(2) route_to_shard_mod [OF n])
    qed (simp add: s' pub pc)
    then show ?thesis using keep by (simp add: s' pub)
  qed
  then show "sp_ok (us_pipeline s')" "sp_shard_count (us_pipeline s') = sp_shard_count (us_pipeline s)"
    "shard_lookup (us_pipeline s') = shard_lookup (us_pipeline s)"
    "us_pc s' = U_Recv \<or> (\<exists>t. us_pc s' = U_Permit t \<and> udp_task_ok s' t d)"
    by simp_all
qed

lemma udp_inv_new: "sp_ok P \<Longrightarrow> udp_inv (udp_server_new P)"
  by (simp add: udp_inv_def udp_server_new_def)

lemma udp_inv_receive:
  fixes s :: "('d, 'c, 'p) udp_server"
  assumes inv: "udp_inv s" and pc: "us_pc s = U_Recv"
  shows "udp_inv (udp_receive now env peer d s)"
proof -
  define s' where "s' = udp_receive now env peer d s"
  have ok: "sp_ok (us_pipeline s)" using inv by (simp add: udp_inv_def)
  note c = udp_receive_cases [OF ok pc s'_def] and f = udp_receive_frame [of now env peer d s, folded s'_def]
  have task: "\<exists>d. udp_task_ok s' t d" if t: "us_pc s' = U_Permit t \<or> t \<in> set (us_tasks s')" for t
  proof (cases "us_pc s' = U_Permit t")
    case True
    then have "udp_task_ok s' t d" using c(4) by auto
    then show ?thesis by (rule exI)
  next
    case False
    then obtain d' where "udp_task_ok s t d'" using t inv by (auto simp: f udp_inv_def)
    then have "udp_task_ok s' t d'" by (rule udp_task_ok_grow) (simp_all add: f c(2) subset_insertI)
    then show ?thesis by (rule exI)
  qed
  have ans: "answer_ok s' m" if "m \<in> set (us_channel s') \<union> set (us_wire s')" for m
  proof -
    have "answer_ok s m" using that inv by (simp add: f udp_inv_def)
    then show ?thesis by (rule answer_ok_grow) (simp_all add: f c(2,3) subset_insertI)
  qed
  have "(case us_pc s' of U_Permit _ \<Rightarrow> 1 | _ \<Rightarrow> 0) \<le> Suc 0" by (simp split: udp_pc.split)
  then show ?thesis
    using inv c(1) task ans unfolding udp_inv_def s'_def [symmetric] by (simp add: f pc)
qed

lemma udp_step_inv:
  assumes "udp_step s s'" "udp_inv s"
  shows "udp_inv s'"
  using assms(1)
proof cases
  case receive
  then show ?thesis using udp_inv_receive [OF assms(2)] by simp
next
  case (permit t)
  have tk: "udp_task_ok s' u d" if "udp_task_ok s u d" for u d
    using that by (rule udp_task_ok_grow) (simp_all add: permit(1))
  have an: "answer_ok s' m" if "answer_ok s m" for m
    using that by (rule answer_ok_grow) (simp_all add: permit(1))
  have "\<exists>d. udp_task_ok s' u d" if "u = t \<or> u \<in> set (us_tasks s)" for u
    using assms(2) that permit(2) tk unfolding udp_inv_def by metis
  moreover have "\<forall>m \<in> set (us_channel s) \<union> set (us_wire s). answer_ok s' m"
    using assms(2) an by (simp add: udp_inv_def)
  ultimately show ?thesis
    using assms(2) permit(2,3) unfolding udp_inv_def by (simp add: permit(1))
next
  case (answer ts t us r)
  have tk: "udp_task_ok s' u d" if "udp_task_ok s u d" for u d
    using that by (rule udp_task_ok_grow) (simp_all add: answer(1))
  have an: "answer_ok s' m" if "answer_ok s m" for m
    using that by (rule answer_ok_grow) (simp_all add: answer(1))
  obtain d where "udp_task_ok s t d" using assms(2) answer(2) unfolding udp_inv_def by auto
  then have "answer_ok s' (udp_response (ut_sequence t) (result_code r), ut_peer t)"
    using answer(3) tk unfolding answer_ok_def by (intro exI [of _ t] exI [of _ d] exI [of _ r]) (simp add: answer(1))
  moreover have "\<exists>d. udp_task_ok s' u d" if "us_pc s = U_Permit u \<or> u \<in> set ts \<or> u \<in> set us" for u
    using assms(2) that answer(2) tk unfolding udp_inv_def by (metis Un_iff list.set_intros(2) set_append)
  moreover have "\<forall>m \<in> set (us_channel s) \<union> set (us_wire s). answer_ok s' m"
    using assms(2) an by (simp add: udp_inv_def)
  ultimately show ?thesis
    using assms(2) answer(2,4) unfolding udp_inv_def by (simp add: answer(1))
next
  case (engine P)
  have g: "sp_ok P" "sp_shard_count P = sp_shard_count (us_pipeline s)"
    "\<And>i q r. shard_lookup (us_pipeline s) i q = Some r \<Longrightarrow> shard_lookup P i q = Some r"
    using engine(2) by (simp_all add: engine_grows_def)
  have tk: "udp_task_ok s' u d" if "udp_task_ok s u d" for u d
    using that by (rule udp_task_ok_grow) (simp_all add: engine(1) g)
  have an: "answer_ok s' m" if "answer_ok s m" for m
    using that by (rule answer_ok_grow) (simp_all add: engine(1) g)
  have "\<exists>d. udp_task_ok s' u d" if "us_pc s = U_Permit u \<or> u \<in> set (us_tasks s)" for u
    using assms(2) that tk unfolding udp_inv_def by metis
  moreover have "\<forall>m \<in> set (us_channel s) \<union> set (us_wire s). answer_ok s' m"
    using assms(2) an by (simp add: udp_inv_def)
  ultimately show ?thesis
    using assms(2) g(1) unfolding udp_inv_def by (simp add: engine(1))
qed (insert assms(2), simp_all add: udp_inv_def udp_task_ok_def answer_ok_def)

lemma response_echoes:
  assumes "PACKET_SIZE \<le> length d"
  shows "take 8 (udp_response (be_word 0 8 d) code) = take 8 d"
    "drop 8 (udp_response q code) = to_be_bytes 8 (unat code)"
proof -
  have "length (take 8 d) = 8" using assms by (simp add: udp_sizes)
  then have "from_be_bytes (take 8 d) < 2 ^ 64" using from_be_bytes_bound [of "take 8 d"] by simp
  then have "unat (be_word 0 8 d :: u64) = from_be_bytes (take 8 d)"
    by (simp add: be_word_def byte_slice_def unat_word_of_nat_less)
  then show "take 8 (udp_response (be_word 0 8 d) code) = take 8 d"
    using to_from_be_bytes [of "take 8 d"] \<open>length (take 8 d) = 8\<close> by (simp add: udp_response_def)
  show "drop 8 (udp_response q code) = to_be_bytes 8 (unat code)" by (simp add: udp_response_def)
qed

lemma commit_code:
  assumes "to_be_bytes 8 (unat (result_code r)) = to_be_bytes 8 0"
  shows "\<exists>i ts. r = Some (Committed i ts)"
proof -
  have "from_be_bytes (to_be_bytes 8 (unat (result_code r))) = unat (result_code r)"
    by (rule from_to_be_bytes) (simp add: result_code_def split: option.split transaction_result.split)
  moreover have "from_be_bytes (to_be_bytes 8 0) = 0" by (rule from_to_be_bytes) simp
  ultimately show ?thesis
    using assms by (auto simp: result_code_def split: option.splits transaction_result.splits)
qed


text \<open>One datagram through a server with one shard: received, published, committed by the engine, answered and sent.\<close>

definition ex_shards :: "(refdec, refcur) sharded_pipeline \<Rightarrow> transaction_event ring \<Rightarrow> entries \<Rightarrow> (refdec, refcur) sharded_pipeline" where
  "ex_shards P r es =
     P\<lparr>sp_shards := [\<lparr>pl_ring_buffer = r, pl_shutdown = False, pl_results = es,
                       pl_result_ring = \<lparr>rr_status = [0], rr_transfer_ids = [replicate 16 0], rr_mask = 0\<rparr>\<rparr>]\<rparr>"

lemma ex_shards_ok: "sp_ok P \<Longrightarrow> sp_shard_count P = 1 \<Longrightarrow> sp_ok (ex_shards P r es)"
  by (simp add: sp_ok_def ex_shards_def)

lemma ex_publish:
  assumes "sp_shard_count P = 1"
  shows "\<exists>r. sharded_publish_event (\<lambda>_ r. r) (ex_shards P ex_ring []) e = Some (ex_shards P r [], Inr 0)"
proof -
  have cap: "has_available_capacity ex_ring"
    by (simp add: ex_ring_def ring_buffer_new_def is_power_of_two_def has_available_capacity_def)
  have "publish_event ex_ring e = (fst (publish_event ex_ring e), Inr 0)"
    by (simp add: publish_event_def cap next_sequence_def sequence_increment_def)
      (simp add: ex_ring_def ring_buffer_new_def is_power_of_two_def INITIAL_VALUE_def in_i64_def)
  then obtain r where "publish_event ex_ring e = (r, Inr 0)" by blast
  then show ?thesis
    using assms by (intro exI [of _ r]) (simp add: sharded_publish_event_def ex_shards_def route_to_shard_def await_capacity.simps cap)
qed

lemma zero_bytes: "from_be_bytes (replicate n 0) = 0"
  unfolding from_be_bytes_def by (induction n) simp_all

lemma ex_udp_run:
  assumes ok: "sp_ok P" "sp_shard_count P = 1"
  shows "\<exists>s :: (refdec, refcur, unit) udp_server. udp_step\<^sup>*\<^sup>* (udp_server_new (ex_shards P ex_ring [])) s \<and>
    us_wire s = [(udp_response 0 0, ())]"
proof -
  let ?c = "Committed (UuidId (replicate 16 1)) (Timestamp 0)" and ?d = "replicate 56 (0 :: u8)"
  define s0 :: "(refdec, refcur, unit) udp_server" where "s0 = udp_server_new (ex_shards P ex_ring [])"
  have len: "PACKET_SIZE \<le> length ?d" by (simp add: udp_sizes)
  obtain e where e: "deserialize_event_static (Timestamp 0) (byte_slice HEADER_SIZE PACKET_SIZE ?d) = Inr e"
    by (simp add: deserialize_event_static_def byte_slice_def udp_sizes Let_def)
  obtain r where P: "sharded_publish_event (\<lambda>_ r. r) (us_pipeline s0) e = Some (ex_shards P r [], Inr 0)"
    using ex_publish [OF ok(2), of e] by (auto simp: s0_def udp_server_new_def)
  have ok0: "sp_ok (us_pipeline s0)" "sp_shard_count (us_pipeline s0) = 1"
    using ex_shards_ok [OF ok] ok(2) by (simp_all add: s0_def udp_server_new_def ex_shards_def)
  define s1 where "s1 = udp_receive (Timestamp 0) (\<lambda>_ r. r) () ?d s0"
  define t where "t = \<lparr>ut_sequence = be_word 0 8 ?d, ut_event = e, ut_shard = 0, ut_ring_seq = 0, ut_peer = ()\<rparr>"
  have s1: "us_pc s1 = U_Permit t" "us_pipeline s1 = ex_shards P r []" "us_tasks s1 = []" "us_channel s1 = []" "us_wire s1 = []"
    using udp_receive_published [OF len e ok0(1) P, of "()"]
    by (simp_all add: s1_def t_def ok0(2) udp_receive_frame) (simp_all add: s0_def udp_server_new_def)
  have 1: "udp_step s0 s1" unfolding s1_def by (rule udp_step.receive) (simp add: s0_def udp_server_new_def)
  define s2 where "s2 = s1\<lparr>us_pc := U_Recv, us_tasks := us_tasks s1 @ [t]\<rparr>"
  have 2: "udp_step s1 s2" unfolding s2_def by (rule udp_step.permit) (simp_all add: s1 udp_sizes)
  define s3 where "s3 = s2\<lparr>us_pipeline := ex_shards P r [(0, ?c)]\<rparr>"
  have 3: "udp_step s2 s3" unfolding s3_def
    by (rule udp_step.engine) (use ex_shards_ok [OF ok] in
      \<open>simp add: s2_def s1 engine_grows_def shard_lookup_def shard_results_def\<close>, simp add: ex_shards_def)
  define s4 where "s4 = s3\<lparr>us_tasks := [] @ [], us_channel := us_channel s3 @ [(udp_response (ut_sequence t) (result_code (Some ?c)), ut_peer t)]\<rparr>"
  have 4: "udp_step s3 s4" unfolding s4_def
    by (rule udp_step.answer) (simp_all add: s3_def s2_def s1 udp_sizes t_def shard_lookup_def shard_results_def ex_shards_def)
  define s5 where "s5 = s4\<lparr>us_channel := [], us_wire := us_wire s4 @ [(udp_response 0 0, ())], us_sent := us_sent s4 + 1\<rparr>"
  have "be_word 0 8 ?d = (0 :: u64)"
    by (simp add: be_word_def byte_slice_def zero_bytes)
  then have 5: "udp_step s4 s5" unfolding s5_def
    by (intro udp_step.send) (simp add: s4_def s3_def s2_def s1 t_def result_code_def)
  have "udp_step\<^sup>*\<^sup>* s0 s5" using 1 2 3 4 5 by (meson rtranclp.rtrancl_refl rtranclp.rtrancl_into_rtrancl)
  moreover have "us_wire s5 = [(udp_response 0 0, ())]" by (simp add: s5_def s4_def s3_def s2_def s1)
  ultimately show ?thesis unfolding s0_def by blast
qed


text \<open>
  Where the wire numbering and the engine's differ: the ledger whose id is 1 everywhere else is read as euro,
  and every number from 3 on as dollar. With three shards the waiting task looks into another shard than the
  one the event was published to. A datagram longer than a packet is cut and accepted.
\<close>

lemma udp_ledger_shifted: "udp_ledger 1 = LedgerId_EUR" "LedgerId_USD = LedgerId 1" "3 \<le> n \<Longrightarrow> udp_ledger n = LedgerId_USD"
proof -
  show "udp_ledger 1 = LedgerId_EUR" "LedgerId_USD = LedgerId 1" by (simp_all add: udp_ledger_def LedgerId_USD_def)
  show "udp_ledger n = LedgerId_USD" if "3 \<le> n"
    using that by (auto simp: udp_ledger_def word_le_nat_alt)
qed

lemma udp_three_shards: "unat (1 :: u64) mod 3 = 1" "route_to_shard 1 3 = 0"
  by (simp_all add: route_to_shard_def)

lemma udp_oversized_accepted:
  assumes "PACKET_SIZE \<le> length d"
  shows "us_pc (udp_receive now env peer d s) = us_pc (udp_receive now env peer (take PACKET_SIZE d) s)"
  using assms by (simp add: udp_receive_def Let_def split: sum.split option.split prod.split)

text \<open>A client that writes the documented layout is understood.\<close>

definition udp_payload :: "u64 \<Rightarrow> u64 \<Rightarrow> u64 \<Rightarrow> u64 \<Rightarrow> u64 \<Rightarrow> u32 \<Rightarrow> u16 \<Rightarrow> u8 \<Rightarrow> u8 \<Rightarrow> u8 list" where
  "udp_payload tx debit credit amount nanos ledger code flags pad =
     to_be_bytes 8 (unat tx) @ to_be_bytes 8 (unat debit) @ to_be_bytes 8 (unat credit) @ to_be_bytes 8 (unat amount) @
     to_be_bytes 8 (unat nanos) @ to_be_bytes 4 (unat ledger) @ to_be_bytes 2 (unat code) @ [flags, pad]"

lemma unat_be_bytes:
  "(word_of_nat (from_be_bytes (to_be_bytes 8 (unat x))) :: u64) = x"
  "(word_of_nat (from_be_bytes (to_be_bytes 4 (unat y))) :: u32) = y"
  "(word_of_nat (from_be_bytes (to_be_bytes 2 (unat z))) :: u16) = z"
  using unsigned_less [of x, where 'a = nat] unsigned_less [of y, where 'a = nat] unsigned_less [of z, where 'a = nat]
  by (simp_all add: from_to_be_bytes)

lemma udp_payload_decoded:
  "deserialize_event_static now (udp_payload tx debit credit amount nanos ledger code flags pad) =
     Inr ((transaction_event_new now (Id64 tx) (Id64 debit) (Id64 credit) amount (udp_ledger ledger) code)
       \<lparr>ev_ingestion_timestamp := from_nanos nanos, ev_flags := flags_from_raw flags\<rparr>)"
  by (simp add: deserialize_event_static_def udp_payload_def be_word_def byte_slice_def udp_sizes nth_append unat_be_bytes)

section \<open>The io\_uring UDP server (io\_uring\_transport.rs)\<close>

definition udp_deserialize_event :: "timestamp \<Rightarrow> u8 list \<Rightarrow> transaction_event blazer_result" where
  "udp_deserialize_event now bs =
     (if length bs \<noteq> PAYLOAD_SIZE
      then Inl (Internal (''io_uring UDP: invalid payload size: expected '' @ show_nat PAYLOAD_SIZE @ '', got '' @ show_nat (length bs)))
      else let tx_id = be_word 0 8 bs; debit_id = be_word 8 16 bs; credit_id = be_word 16 24 bs; amount = be_word 24 32 bs;
               timestamp_nanos = be_word 32 40 bs; ledger_u32 = be_word 40 44 bs; code = be_word 44 46 bs; flags_byte = bs ! 46;
               ledger_id = (if ledger_u32 = (0 :: u32) then LedgerId_USD else if ledger_u32 = 1 then LedgerId_EUR
                            else if ledger_u32 = 2 then LedgerId_GBP else LedgerId_USD);
               event = transaction_event_new now (Id64 tx_id) (Id64 debit_id) (Id64 credit_id) amount ledger_id code
           in Inr (event\<lparr>ev_ingestion_timestamp := from_nanos timestamp_nanos, ev_flags := flags_from_raw flags_byte\<rparr>))"

text \<open>Both servers decode a payload of the right size alike.\<close>

lemma udp_decoders_agree:
  "length bs = PAYLOAD_SIZE \<Longrightarrow> udp_deserialize_event now bs = deserialize_event_static now bs"
  by (simp add: udp_deserialize_event_def deserialize_event_static_def udp_ledger_def)

section \<open>AF\_XDP frames (afxdp/rx.rs)\<close>

definition ETH_HDR :: usize where "ETH_HDR = 14"
definition IPV4_HDR :: usize where "IPV4_HDR = 20"
definition UDP_HDR :: usize where "UDP_HDR = 8"
definition MAGIC_LEN :: usize where "MAGIC_LEN = 4"
definition PAYLOAD_OFFSET :: usize where "PAYLOAD_OFFSET = ETH_HDR + IPV4_HDR + UDP_HDR + MAGIC_LEN"

lemmas xdp_sizes = ETH_HDR_def IPV4_HDR_def UDP_HDR_def MAGIC_LEN_def PAYLOAD_OFFSET_def

text \<open>
  The header part of \<^verbatim>\<open>process_frame\<close>: the source address and port and the payload. An index or a slice out
  of range panics: \<open>None\<close>.
\<close>

definition parse_frame :: "u8 list \<Rightarrow> (u8 list \<times> u16 \<times> u8 list) blazer_result option" where
  "parse_frame frame =
     (if length frame < PAYLOAD_OFFSET + 1
      then Some (Inl (Transport (''frame too short: '' @ show_nat (length frame) @ '' bytes'')))
      else if byte_slice (ETH_HDR + IPV4_HDR + UDP_HDR) (ETH_HDR + IPV4_HDR + UDP_HDR + MAGIC_LEN) frame \<noteq> BLZL_MAGIC
      then Some (Inl (Transport ''bad Blazil magic''))
      else let ip_start = ETH_HDR; src_ip = byte_slice (ip_start + 12) (ip_start + 16) frame;
               ip_hlen = unat (frame ! ip_start AND 0x0F) * 4; udp_start = ip_start + ip_hlen
           in if udp_start + 1 \<ge> length frame then None
              else let src_port = be_word udp_start (udp_start + 2) frame; start = ETH_HDR + ip_hlen + UDP_HDR + MAGIC_LEN
                   in if start > length frame then None else Some (Inr (src_ip, src_port, drop start frame)))"

text \<open>With a header without options the payload is what follows the magic word.\<close>

lemma parse_frame_plain:
  assumes "PAYLOAD_OFFSET < length frame" "byte_slice 42 46 frame = BLZL_MAGIC" "frame ! 14 AND 0x0F = 5"
  shows "parse_frame frame = Some (Inr (byte_slice 26 30 frame, be_word 34 36 frame, drop PAYLOAD_OFFSET frame))"
  using assms by (simp add: parse_frame_def xdp_sizes Let_def)

text \<open>
  The magic word is looked up where a header without options ends, but the payload where the header says it
  ends: a short frame that announces options passes the checks and ends the receive thread.
\<close>

lemma parse_frame_panics: "parse_frame (replicate 14 0 @ [0x4F] @ replicate 27 0 @ BLZL_MAGIC @ [0]) = None"
  by (simp add: parse_frame_def xdp_sizes Let_def byte_slice_def BLZL_MAGIC_def nth_append)

section \<open>The back-pressure guard (backpressure.rs)\<close>

text \<open>The guard shares the ring it watches, which is an argument of its operations.\<close>

record backpressure_guard =
  bg_high_watermark :: real
  bg_consumer_cursor :: i64

definition backpressure_guard_new :: "real \<Rightarrow> backpressure_guard" where
  "backpressure_guard_new high_watermark =
     \<lparr>bg_high_watermark = high_watermark, bg_consumer_cursor = INITIAL_VALUE\<rparr>"

definition pressure_ratio :: "(real \<Rightarrow> real) \<Rightarrow> 'e ring \<Rightarrow> backpressure_guard \<Rightarrow> real" where
  "pressure_ratio rnd r g =
     (let producer = rb_cursor r; consumer = bg_consumer_cursor g; capacity = wrap_i64 (int (rb_capacity r))
      in if capacity = 0 then 0
         else let pending = wrap_i64 (producer - consumer)
              in if pending \<le> 0 then 0
                 else min (rnd (rnd (real_of_int pending) / rnd (real_of_int capacity))) 1)"

definition is_pressured :: "(real \<Rightarrow> real) \<Rightarrow> 'e ring \<Rightarrow> backpressure_guard \<Rightarrow> bool" where
  "is_pressured rnd r g \<longleftrightarrow> pressure_ratio rnd r g > bg_high_watermark g"

text \<open>The ratio lies between 0 and 1 and is 0 exactly when nothing is pending.\<close>

lemma pressure_ratio_bounds:
  assumes "double_round rnd" "0 < rb_capacity r" "rb_capacity r \<le> 2 ^ 53"
    "- (2 ^ 53) \<le> rb_cursor r - bg_consumer_cursor g" "rb_cursor r - bg_consumer_cursor g \<le> 2 ^ 53"
  shows "0 \<le> pressure_ratio rnd r g" "pressure_ratio rnd r g \<le> 1"
    "pressure_ratio rnd r g = 0 \<longleftrightarrow> rb_cursor r \<le> bg_consumer_cursor g"
proof -
  define p where "p = rb_cursor r - bg_consumer_cursor g"
  define c where "c = int (rb_capacity r)"
  have r: "pressure_ratio rnd r g = (if p \<le> 0 then 0 else min (rnd (real_of_int p / real_of_int c)) 1)"
    using assms double_round_int [OF assms(1), of p] double_round_int [OF assms(1), of c]
    by (simp add: pressure_ratio_def Let_def p_def c_def in_i64_def)
  have "0 < rnd (real_of_int p / real_of_int c)" if "0 < p"
  proof -
    define x where "x = real_of_int p / real_of_int c"
    have c: "0 < real_of_int c" "real_of_int c \<le> 2 ^ 53" "1 \<le> real_of_int p" "real_of_int p \<le> 2 ^ 53"
      using assms that by (simp_all add: c_def p_def)
    then have lo: "1 / 2 ^ 53 \<le> x" by (simp add: x_def field_simps)
    have "1 \<le> real_of_int c" using assms(2) by (simp add: c_def)
    then have "x \<le> real_of_int p" using c(1,3) by (simp add: x_def divide_le_eq)
    moreover have pos: "0 < x" using c(1,3) by (simp add: x_def)
    ultimately have hi: "x \<le> 2 ^ 53" using c by simp
    have "\<bar>rnd x - x\<bar> \<le> \<bar>x\<bar> / 2 ^ 53"
    proof (rule double_round_err [OF assms(1)])
      have "(1 :: real) / 2 ^ 1022 \<le> 1 / 2 ^ 53" by (intro divide_left_mono power_increasing) simp_all
      then show "1 / 2 ^ 1022 \<le> \<bar>x\<bar>" using lo by linarith
      have "(2 :: real) ^ 53 \<le> 2 ^ 1023" by (rule power_increasing) simp_all
      then show "\<bar>x\<bar> \<le> 2 ^ 1023" using pos hi by linarith
    qed
    moreover have "\<bar>x\<bar> / 2 ^ 53 < x" using pos by simp
    ultimately show ?thesis unfolding x_def [symmetric] by linarith
  qed
  then show "0 \<le> pressure_ratio rnd r g" "pressure_ratio rnd r g \<le> 1"
    "pressure_ratio rnd r g = 0 \<longleftrightarrow> rb_cursor r \<le> bg_consumer_cursor g"
    unfolding r by (auto simp: p_def min_def not_le)
qed

end
