(* ===== verification/Blz_Screening.thy ===== *)
theory Blz_Screening
  imports Blz_Float
begin

text \<open>
  Compliance screening (\<^verbatim>\<open>libs/screening/src\<close>): transactions and screening results (\<^verbatim>\<open>types.rs\<close>), the rule-based
  screener (\<^verbatim>\<open>mock.rs\<close>), the real-time router with its deadline (\<^verbatim>\<open>realtime.rs\<close>), the batch worker (\<^verbatim>\<open>batch.rs\<close>),
  the hold store (\<^verbatim>\<open>hold.rs\<close>) and the three HTTP providers (\<^verbatim>\<open>providers\<close>).

  A screener threads a world \<open>'w\<close>, the state of everything outside the process. The HTTP client with JSON coding
  is an argument of each provider: one call takes the URL, the headers, the body and the world, and returns
  the decoded response or an error. Doubles are reals and \<open>rnd\<close> rounds a real to a double. Strings are UTF-8
  bytes.
\<close>

section \<open>Transactions and results (types.rs, error.rs)\<close>

datatype screening_mode = RealTime | Batch

datatype risk_level = Low | Medium | High | Critical

datatype screening_result =
    Clear
  | Flag string risk_level
  | Hold string bool
  | Reject string bool

fun is_clear :: "screening_result \<Rightarrow> bool" where
  "is_clear Clear = True"
| "is_clear _ = False"

fun is_blocked :: "screening_result \<Rightarrow> bool" where
  "is_blocked (Hold _ _) = True"
| "is_blocked (Reject _ _) = True"
| "is_blocked _ = False"

fun requires_sar :: "screening_result \<Rightarrow> bool" where
  "requires_sar (Reject _ True) = True"
| "requires_sar _ = False"

record screen_tx =
  tx_transaction_id :: string
  tx_amount :: u64
  tx_currency :: string
  tx_sender_id :: string
  tx_receiver_id :: string
  tx_metadata :: "string \<rightharpoonup> string"
  tx_timestamp :: int

definition screen_tx_new :: "string \<Rightarrow> u64 \<Rightarrow> string \<Rightarrow> string \<Rightarrow> string \<Rightarrow> int \<Rightarrow> screen_tx" where
  "screen_tx_new transaction_id amount currency sender_id receiver_id now =
     \<lparr>tx_transaction_id = transaction_id, tx_amount = amount, tx_currency = currency, tx_sender_id = sender_id,
      tx_receiver_id = receiver_id, tx_metadata = Map.empty, tx_timestamp = now\<rparr>"

definition tx_with_metadata :: "string \<Rightarrow> string \<Rightarrow> screen_tx \<Rightarrow> screen_tx" where
  "tx_with_metadata key value tx = tx\<lparr>tx_metadata := (tx_metadata tx)(key \<mapsto> value)\<rparr>"

datatype screening_error =
    InvalidProviderResponse string string
  | ProviderCommunication string string
  | HoldStore string
  | SarSerialization string
  | BatchChannelClosed

section \<open>The rule-based screener (mock.rs)\<close>

definition DEFAULT_FLAG_THRESHOLD :: u64 where
  "DEFAULT_FLAG_THRESHOLD = 1000000"

definition DEFAULT_REJECT_THRESHOLD :: u64 where
  "DEFAULT_REJECT_THRESHOLD = 5000000"

record mock_screener =
  flag_threshold :: u64
  reject_threshold :: u64
  blocklist :: "string list"

definition mock_with_thresholds :: "u64 \<Rightarrow> u64 \<Rightarrow> mock_screener" where
  "mock_with_thresholds f r = \<lparr>flag_threshold = f, reject_threshold = r, blocklist = []\<rparr>"

definition mock_screener_new :: mock_screener where
  "mock_screener_new = mock_with_thresholds DEFAULT_FLAG_THRESHOLD DEFAULT_REJECT_THRESHOLD"

definition with_blocklist :: "string list \<Rightarrow> mock_screener \<Rightarrow> mock_screener" where
  "with_blocklist ids s = s\<lparr>blocklist := blocklist s @ ids\<rparr>"

definition mock_screen :: "mock_screener \<Rightarrow> screen_tx \<Rightarrow> screening_mode \<Rightarrow> screening_result" where
  "mock_screen s tx mode =
     (if tx_sender_id tx \<in> set (blocklist s)
      then Reject (''sender '' @ tx_sender_id tx @ '' is on the compliance deny-list'') True
      else if tx_amount tx \<ge> reject_threshold s
      then Reject (''amount '' @ show_nat (unat (tx_amount tx)) @ '' exceeds rejection threshold '' @
                   show_nat (unat (reject_threshold s))) True
      else if tx_amount tx \<ge> flag_threshold s
      then Flag (''amount '' @ show_nat (unat (tx_amount tx)) @ '' exceeds flag threshold '' @
                 show_nat (unat (flag_threshold s))) High
      else Clear)"

section \<open>The real-time router (realtime.rs)\<close>

type_synonym 'w screener = "screen_tx \<Rightarrow> screening_mode \<Rightarrow> 'w \<Rightarrow> screening_result \<times> 'w"

text \<open>
  \<open>late tx w\<close> is \<open>None\<close> when the call answers within the deadline of 50 ms, and otherwise the world the
  abandoned call leaves behind. The second result is \<^verbatim>\<open>timed_out\<close>.
\<close>

definition realtime_screen ::
  "'w screener \<Rightarrow> (screen_tx \<Rightarrow> 'w \<Rightarrow> 'w option) \<Rightarrow> screen_tx \<Rightarrow> 'w \<Rightarrow> screening_result \<times> bool \<times> 'w" where
  "realtime_screen sc late tx w =
     (case late tx w of
        None \<Rightarrow> (let (result, w1) = sc tx RealTime w in (result, False, w1))
      | Some w1 \<Rightarrow> (Clear, True, w1))"

section \<open>Provider configuration (providers/mod.rs)\<close>

datatype screen_region = Apac | NorthAmerica | Eu

fun as_tag :: "screen_region \<Rightarrow> string" where
  "as_tag Apac = ''APAC''"
| "as_tag NorthAmerica = ''NA''"
| "as_tag Eu = ''EU''"

record provider_config =
  pc_endpoint :: string
  pc_api_key :: string
  pc_api_secret :: "string option"
  pc_client_id :: "string option"
  pc_region :: screen_region
  pc_timeout_ms :: nat
  pc_max_retries :: nat

definition config_sardine :: "screen_region \<Rightarrow> string \<Rightarrow> string \<Rightarrow> provider_config" where
  "config_sardine region client_id secret_key =
     \<lparr>pc_endpoint = ''https://api.sardine.ai'', pc_api_key = secret_key, pc_api_secret = None,
      pc_client_id = Some client_id, pc_region = region, pc_timeout_ms = 45, pc_max_retries = 2\<rparr>"

definition config_elliptic :: "screen_region \<Rightarrow> string \<Rightarrow> string \<Rightarrow> provider_config" where
  "config_elliptic region api_key api_secret =
     \<lparr>pc_endpoint = ''https://aml-api.elliptic.co'', pc_api_key = api_key, pc_api_secret = Some api_secret,
      pc_client_id = None, pc_region = region, pc_timeout_ms = 45, pc_max_retries = 2\<rparr>"

definition config_chainalysis :: "string \<Rightarrow> provider_config" where
  "config_chainalysis api_key =
     \<lparr>pc_endpoint = ''https://api.chainalysis.com'', pc_api_key = api_key, pc_api_secret = None,
      pc_client_id = None, pc_region = NorthAmerica, pc_timeout_ms = 5000, pc_max_retries = 2\<rparr>"

definition config_with_timeout :: "nat \<Rightarrow> provider_config \<Rightarrow> provider_config" where
  "config_with_timeout ms c = c\<lparr>pc_timeout_ms := ms\<rparr>"

definition config_with_max_retries :: "nat \<Rightarrow> provider_config \<Rightarrow> provider_config" where
  "config_with_max_retries n c = c\<lparr>pc_max_retries := n\<rparr>"

section \<open>Retries\<close>

text \<open>
  \<^verbatim>\<open>subsec_jitter\<close>; \<open>now\<close> is the time since the epoch in nanoseconds, \<open>None\<close> when the clock stands before it.
\<close>

definition subsec_jitter :: "nat option \<Rightarrow> u64 \<Rightarrow> u64" where
  "subsec_jitter now max_ms =
     (if max_ms = 0 then 0
      else case now of None \<Rightarrow> 0 | Some ns \<Rightarrow> word_of_nat (ns mod 1000000000) mod max_ms)"

definition retry_base_ms :: "nat \<Rightarrow> u64" where
  "retry_base_ms attempt = 100 * push_bit (attempt mod 64) 1"

text \<open>
  The loop over \<open>attempt .. attempt + left\<close>. The second result lists the delays slept between attempts;
  \<open>clock k\<close> is the reading of the clock after attempt \<open>k\<close>.
\<close>

primrec retry_from ::
  "('w \<Rightarrow> ('e, screening_result) result \<times> 'w) \<Rightarrow> (nat \<Rightarrow> nat option) \<Rightarrow> nat \<Rightarrow> nat \<Rightarrow> 'w \<Rightarrow>
   screening_result option \<times> u64 list \<times> 'w" where
  "retry_from call clock 0 attempt w =
     (case call w of
        (Inr result, w1) \<Rightarrow> (Some result, [], w1)
      | (Inl e, w1) \<Rightarrow> (None, [], w1))"
| "retry_from call clock (Suc left) attempt w =
     (case call w of
        (Inr result, w1) \<Rightarrow> (Some result, [], w1)
      | (Inl e, w1) \<Rightarrow>
          let delay = subsec_jitter (clock attempt) (retry_base_ms attempt);
              (result, delays, w2) = retry_from call clock left (Suc attempt) w1
          in (result, delay # delays, w2))"

section \<open>Sardine (providers/sardine.rs)\<close>

record sardine_request =
  sq_session_key :: string
  sq_currency_code :: string
  sq_amount :: string
  sq_sender_id :: string
  sq_recipient_id :: string
  sq_region :: string
  sq_metadata :: "string \<rightharpoonup> string"

record sardine_response =
  sp_risk_score :: real
  sp_risk_level :: string

definition map_sardine_response :: "(real \<Rightarrow> real) \<Rightarrow> sardine_response \<Rightarrow> screening_result" where
  "map_sardine_response rnd resp =
     (let shown = ''(score='' @ fmt_fixed 3 (sp_risk_score resp) @ '', level='' @ sp_risk_level resp @ '')''
      in if sp_risk_score resp \<ge> rnd (85 / 100) then Reject (''Sardine: high-risk transaction '' @ shown) True
         else if sp_risk_score resp \<ge> rnd (60 / 100) then Hold (''Sardine: elevated risk '' @ shown) True
         else if sp_risk_score resp \<ge> rnd (30 / 100)
         then Flag (''Sardine: suspicious activity detected '' @ shown) Medium
         else Clear)"

definition sardine_build_request :: "(real \<Rightarrow> real) \<Rightarrow> provider_config \<Rightarrow> screen_tx \<Rightarrow> sardine_request" where
  "sardine_build_request rnd c tx =
     \<lparr>sq_session_key = tx_transaction_id tx, sq_currency_code = tx_currency tx,
      sq_amount = fmt_fixed 2 (rnd (rnd (of_nat (unat (tx_amount tx))) / 100)),
      sq_sender_id = tx_sender_id tx, sq_recipient_id = tx_receiver_id tx, sq_region = as_tag (pc_region c),
      sq_metadata = tx_metadata tx\<rparr>"

type_synonym ('b, 'w, 'e, 'r) http_post = "string \<Rightarrow> (string \<times> string) list \<Rightarrow> 'b \<Rightarrow> 'w \<Rightarrow> ('e, 'r) result \<times> 'w"

definition sardine_call_api ::
  "(real \<Rightarrow> real) \<Rightarrow> (sardine_request, 'w, 'e, sardine_response) http_post \<Rightarrow> provider_config \<Rightarrow> screen_tx \<Rightarrow> 'w \<Rightarrow>
   ('e, screening_result) result \<times> 'w" where
  "sardine_call_api rnd post c tx w =
     (let client_id = (case pc_client_id c of None \<Rightarrow> [] | Some s \<Rightarrow> s);
          url = pc_endpoint c @ ''/v1/payments/transactions''
      in case post url [(''Sardine-Client-Id'', client_id), (''Sardine-Secret-Key'', pc_api_key c),
                        (''Content-Type'', ''application/json'')] (sardine_build_request rnd c tx) w of
           (Inl e, w1) \<Rightarrow> (Inl e, w1)
         | (Inr parsed, w1) \<Rightarrow> (Inr (map_sardine_response rnd parsed), w1))"

definition sardine_call_with_retry ::
  "(real \<Rightarrow> real) \<Rightarrow> (sardine_request, 'w, 'e, sardine_response) http_post \<Rightarrow> (nat \<Rightarrow> nat option) \<Rightarrow> provider_config \<Rightarrow>
   screen_tx \<Rightarrow> 'w \<Rightarrow> screening_result \<times> 'w" where
  "sardine_call_with_retry rnd post clock c tx w =
     (case retry_from (sardine_call_api rnd post c tx) clock (pc_max_retries c) 0 w of
        (Some result, _, w1) \<Rightarrow> (result, w1)
      | (None, _, w1) \<Rightarrow>
          (Hold ''Sardine screening unavailable after retries. Transaction held for manual compliance review.'' True, w1))"

definition sardine_screen ::
  "(real \<Rightarrow> real) \<Rightarrow> (sardine_request, 'w, 'e, sardine_response) http_post \<Rightarrow> (nat \<Rightarrow> nat option) \<Rightarrow> provider_config \<Rightarrow>
   'w screener" where
  "sardine_screen rnd post clock c tx mode w =
     (case mode of
        RealTime \<Rightarrow>
          (case sardine_call_api rnd post c tx w of
             (Inr result, w1) \<Rightarrow> (result, w1)
           | (Inl e, w1) \<Rightarrow>
               (Hold ''Sardine screening unavailable. Transaction held for manual compliance review.'' True, w1))
      | Batch \<Rightarrow> sardine_call_with_retry rnd post clock c tx w)"

section \<open>Elliptic (providers/elliptic.rs)\<close>

record elliptic_request =
  eq_subject_type :: string
  eq_asset :: string
  eq_blockchain :: string
  eq_hash :: string
  eq_screening_type :: string
  eq_jurisdiction :: "string option"

definition map_elliptic_response :: "(real \<Rightarrow> real) \<Rightarrow> real \<Rightarrow> screening_result" where
  "map_elliptic_response rnd risk_score =
     (let shown = ''(score='' @ fmt_fixed 3 risk_score @ '')''
      in if risk_score \<ge> rnd (80 / 100) then Reject (''Elliptic: high-risk address/tx '' @ shown) True
         else if risk_score \<ge> rnd (50 / 100) then Hold (''Elliptic: elevated risk '' @ shown) True
         else if risk_score \<ge> rnd (30 / 100) then Flag (''Elliptic: suspicious indicators '' @ shown) High
         else Clear)"

definition elliptic_build_request :: "provider_config \<Rightarrow> screen_tx \<Rightarrow> elliptic_request option" where
  "elliptic_build_request c tx =
     Option.bind (tx_metadata tx ''blockchain_address'') (\<lambda>address.
     Option.bind (tx_metadata tx ''blockchain'') (\<lambda>blockchain.
     Option.bind (tx_metadata tx ''asset'') (\<lambda>asset.
       Some \<lparr>eq_subject_type = ''address'', eq_asset = asset, eq_blockchain = blockchain, eq_hash = address,
             eq_screening_type = ''destination'', eq_jurisdiction = Some (as_tag (pc_region c))\<rparr>)))"

text \<open>
  \<open>hmac\<close> is HMAC-SHA256 with hexadecimal output, \<open>json\<close> the encoder (\<open>None\<close> on failure), \<open>secs w\<close> the clock in
  seconds since the epoch.
\<close>

definition elliptic_call_api ::
  "(real \<Rightarrow> real) \<Rightarrow> (string \<Rightarrow> string \<Rightarrow> string) \<Rightarrow> (elliptic_request \<Rightarrow> string option) \<Rightarrow> ('w \<Rightarrow> nat option) \<Rightarrow>
   (string, 'w, 'e, real) http_post \<Rightarrow> provider_config \<Rightarrow> screen_tx \<Rightarrow> 'w \<Rightarrow> ('e, screening_result) result \<times> 'w" where
  "elliptic_call_api rnd hmac json secs post c tx w =
     (case elliptic_build_request c tx of
        None \<Rightarrow>
          (Inr (Hold (''Elliptic: transaction metadata missing required blockchain fields. '' @
                      ''Transaction held for manual compliance review.'') True), w)
      | Some body \<Rightarrow>
          let api_secret = (case pc_api_secret c of None \<Rightarrow> [] | Some s \<Rightarrow> s);
              path = ''/v2/wallet/synchronous'';
              body_str = (case json body of None \<Rightarrow> [] | Some s \<Rightarrow> s);
              timestamp = (case secs w of None \<Rightarrow> ''0'' | Some n \<Rightarrow> show_nat n);
              signature = hmac api_secret (timestamp @ ''POST'' @ path @ body_str)
          in case post (pc_endpoint c @ path)
                    [(''x-access-key'', pc_api_key c), (''x-access-sign'', signature), (''x-access-timestamp'', timestamp),
                     (''Content-Type'', ''application/json'')] body_str w of
               (Inl e, w1) \<Rightarrow> (Inl e, w1)
             | (Inr risk_score, w1) \<Rightarrow> (Inr (map_elliptic_response rnd risk_score), w1))"

definition elliptic_call_with_retry ::
  "(real \<Rightarrow> real) \<Rightarrow> (string \<Rightarrow> string \<Rightarrow> string) \<Rightarrow> (elliptic_request \<Rightarrow> string option) \<Rightarrow> ('w \<Rightarrow> nat option) \<Rightarrow>
   (string, 'w, 'e, real) http_post \<Rightarrow> (nat \<Rightarrow> nat option) \<Rightarrow> provider_config \<Rightarrow> screen_tx \<Rightarrow> 'w \<Rightarrow> screening_result \<times> 'w" where
  "elliptic_call_with_retry rnd hmac json secs post clock c tx w =
     (case retry_from (elliptic_call_api rnd hmac json secs post c tx) clock (pc_max_retries c) 0 w of
        (Some result, _, w1) \<Rightarrow> (result, w1)
      | (None, _, w1) \<Rightarrow>
          (Hold ''Elliptic screening unavailable after retries. Transaction held for manual compliance review.'' True, w1))"

definition elliptic_screen ::
  "(real \<Rightarrow> real) \<Rightarrow> (string \<Rightarrow> string \<Rightarrow> string) \<Rightarrow> (elliptic_request \<Rightarrow> string option) \<Rightarrow> ('w \<Rightarrow> nat option) \<Rightarrow>
   (string, 'w, 'e, real) http_post \<Rightarrow> (nat \<Rightarrow> nat option) \<Rightarrow> provider_config \<Rightarrow> 'w screener" where
  "elliptic_screen rnd hmac json secs post clock c tx mode w =
     (case mode of
        RealTime \<Rightarrow>
          (case elliptic_call_api rnd hmac json secs post c tx w of
             (Inr result, w1) \<Rightarrow> (result, w1)
           | (Inl e, w1) \<Rightarrow>
               (Hold ''Elliptic screening unavailable. Transaction held for manual compliance review.'' True, w1))
      | Batch \<Rightarrow> elliptic_call_with_retry rnd hmac json secs post clock c tx w)"

section \<open>Chainalysis (providers/chainalysis.rs)\<close>

definition em_dash :: string where
  "em_dash = [CHR 0xE2, CHR 0x80, CHR 0x94]"

record register_request =
  rq_network :: string
  rq_tx :: string
  rq_output_address :: string
  rq_external_id :: string
  rq_direction :: string

record summary_response =
  su_alert_status :: string
  su_alert_level :: "string option"

definition map_alert_level :: "string option \<Rightarrow> screening_result" where
  "map_alert_level level =
     (if level = Some ''SEVERE''
      then Reject (''Chainalysis KYT: SEVERE alert '' @ em_dash @ '' high-risk counterparty or sanctions exposure'') True
      else if level = Some ''HIGH''
      then Hold (''Chainalysis KYT: HIGH alert '' @ em_dash @ '' elevated risk, manual review required'') True
      else if level = Some ''MEDIUM''
      then Flag (''Chainalysis KYT: MEDIUM alert '' @ em_dash @ '' suspicious activity indicators'') High
      else if level = Some ''LOW''
      then Flag (''Chainalysis KYT: LOW alert '' @ em_dash @ '' minor risk indicators'') Low
      else Clear)"

definition MAX_POLL_ATTEMPTS :: nat where
  "MAX_POLL_ATTEMPTS = 6"

definition POLL_BASE_MS :: nat where
  "POLL_BASE_MS = 500"

type_synonym ('w, 'e, 'r) http_get = "string \<Rightarrow> (string \<times> string) list \<Rightarrow> 'w \<Rightarrow> ('e, 'r) result \<times> 'w"

definition auth_header :: "provider_config \<Rightarrow> string" where
  "auth_header c = ''Token '' @ pc_api_key c"

definition register_body :: "screen_tx \<Rightarrow> register_request" where
  "register_body tx =
     (let field = (\<lambda>k. case tx_metadata tx k of None \<Rightarrow> [] | Some v \<Rightarrow> v)
      in \<lparr>rq_network = field ''network'', rq_tx = field ''tx_hash'', rq_output_address = field ''output_address'',
          rq_external_id = tx_transaction_id tx, rq_direction = ''sent''\<rparr>)"

definition register_transfer ::
  "(register_request, 'w, 'e, string) http_post \<Rightarrow> provider_config \<Rightarrow> screen_tx \<Rightarrow> 'w \<Rightarrow> ('e, string) result \<times> 'w" where
  "register_transfer post c tx w =
     post (pc_endpoint c @ ''/api/kyt/v2/transfers'')
       [(''Authorization'', auth_header c), (''Content-Type'', ''application/json'')] (register_body tx) w"

text \<open>The loop of \<^verbatim>\<open>poll_summary\<close>, with \<open>left\<close> attempts to go; the second result lists the waits in milliseconds.\<close>

primrec poll_from ::
  "('w, 'e, summary_response) http_get \<Rightarrow> provider_config \<Rightarrow> string \<Rightarrow> nat \<Rightarrow> nat \<Rightarrow> 'w \<Rightarrow>
   ('e, screening_result) result \<times> nat list \<times> 'w" where
  "poll_from get c url 0 attempt w =
     (Inr (Hold ''Chainalysis KYT assessment timed out. Transaction held for manual compliance review.'' True), [], w)"
| "poll_from get c url (Suc left) attempt w =
     (case get url [(''Authorization'', auth_header c)] w of
        (Inl e, w1) \<Rightarrow> (Inl e, [], w1)
      | (Inr summary, w1) \<Rightarrow>
          if su_alert_status summary = ''COMPLETE'' then (Inr (map_alert_level (su_alert_level summary)), [], w1)
          else let delay_ms = POLL_BASE_MS * 2 ^ attempt;
                   (result, waits, w2) = poll_from get c url left (Suc attempt) w1
               in (result, delay_ms # waits, w2))"

definition poll_summary ::
  "('w, 'e, summary_response) http_get \<Rightarrow> provider_config \<Rightarrow> string \<Rightarrow> 'w \<Rightarrow> ('e, screening_result) result \<times> nat list \<times> 'w" where
  "poll_summary get c external_id w =
     poll_from get c (pc_endpoint c @ ''/api/kyt/v2/transfers/'' @ external_id @ ''/summary'') MAX_POLL_ATTEMPTS 0 w"

definition debug_list :: "string list \<Rightarrow> string" where
  "debug_list xs = ''['' @ str_join '', '' (map (\<lambda>x. CHR 0x22 # x @ [CHR 0x22]) xs) @ '']''"

definition chainalysis_screen_batch ::
  "(register_request, 'w, 'e, string) http_post \<Rightarrow> ('w, 'e, summary_response) http_get \<Rightarrow> provider_config \<Rightarrow>
   screen_tx \<Rightarrow> 'w \<Rightarrow> screening_result \<times> 'w" where
  "chainalysis_screen_batch post get c tx w =
     (let missing = filter (\<lambda>k. tx_metadata tx k = None) [''network'', ''tx_hash'', ''output_address'']
      in if missing \<noteq> []
         then (Hold (''Chainalysis KYT: missing metadata fields '' @ debug_list missing @
                     ''. Transaction held for manual compliance review.'') True, w)
         else case register_transfer post c tx w of
           (Inl e, w1) \<Rightarrow>
             (Hold ''Chainalysis KYT registration failed. Transaction held for manual compliance review.'' True, w1)
         | (Inr external_id, w1) \<Rightarrow>
             (case poll_summary get c external_id w1 of
                (Inr result, _, w2) \<Rightarrow> (result, w2)
              | (Inl e, _, w2) \<Rightarrow>
                  (Hold ''Chainalysis KYT polling failed. Transaction held for manual compliance review.'' True, w2)))"

definition chainalysis_screen ::
  "(register_request, 'w, 'e, string) http_post \<Rightarrow> ('w, 'e, summary_response) http_get \<Rightarrow> provider_config \<Rightarrow> 'w screener" where
  "chainalysis_screen post get c tx mode w =
     (case mode of
        RealTime \<Rightarrow>
          (Hold ''Chainalysis KYT requires asynchronous processing. Transaction queued for batch re-screening.'' False, w)
      | Batch \<Rightarrow> chainalysis_screen_batch post get c tx w)"

section \<open>Holds (hold.rs)\<close>

record hold_record =
  hr_transaction_id :: string
  hr_reason :: string
  hr_review_required :: bool
  hr_held_at :: int
  hr_released_at :: "int option"

definition is_released :: "hold_record \<Rightarrow> bool" where
  "is_released r \<longleftrightarrow> hr_released_at r \<noteq> None"

type_synonym hold_store = "string \<rightharpoonup> hold_record"

definition hold_place :: "hold_record \<Rightarrow> hold_store \<Rightarrow> (screening_error, unit) result \<times> hold_store" where
  "hold_place record S =
     (case S (hr_transaction_id record) of
        Some _ \<Rightarrow> (Inl (HoldStore (''hold already exists for transaction '' @ hr_transaction_id record)), S)
      | None \<Rightarrow> (Inr (), S(hr_transaction_id record \<mapsto> record)))"

definition hold_release :: "int \<Rightarrow> string \<Rightarrow> hold_store \<Rightarrow> (screening_error, hold_record) result \<times> hold_store" where
  "hold_release now transaction_id S =
     (case S transaction_id of
        None \<Rightarrow> (Inl (HoldStore (''no active hold found for transaction '' @ transaction_id)), S)
      | Some entry \<Rightarrow>
          if is_released entry
          then (Inl (HoldStore (''transaction '' @ transaction_id @ '' hold already released'')), S)
          else let entry' = entry\<lparr>hr_released_at := Some now\<rparr>
               in (Inr entry', S(transaction_id \<mapsto> entry')))"

definition hold_get :: "string \<Rightarrow> hold_store \<Rightarrow> hold_record option" where
  "hold_get transaction_id S = S transaction_id"

text \<open>\<open>ids\<close> is the order in which the map iterates over its keys.\<close>

definition active_holds :: "string list \<Rightarrow> hold_store \<Rightarrow> hold_record list" where
  "active_holds ids S = filter (\<lambda>r. \<not> is_released r) (map (\<lambda>i. the (S i)) (filter (\<lambda>i. S i \<noteq> None) ids))"

section \<open>The batch worker (batch.rs)\<close>

text \<open>
  Jobs are numbered in the order in which they enter the channel; the number stands for the one-shot channel
  of the result. \<open>bw_open\<close> are the jobs whose receiver still exists, \<open>bw_delivered\<close> the results sent to one.
  The worker ends when every sender is dropped and the channel is empty; the runtime may also abort it, and
  then the jobs in the channel are lost. \<open>bw_submitted\<close> and \<open>bw_screened\<close> record the history.
\<close>

record 'w batch_state =
  bw_queue :: "(nat \<times> screen_tx) list"
  bw_senders :: nat
  bw_running :: bool
  bw_aborted :: bool
  bw_open :: "nat list"
  bw_delivered :: "nat \<rightharpoonup> screening_result"
  bw_world :: 'w
  bw_submitted :: "screen_tx list"
  bw_screened :: "screening_result list"

text \<open>\<^verbatim>\<open>mpsc::channel\<close> panics on a capacity of zero.\<close>

definition batch_worker_new :: "nat \<Rightarrow> 'w \<Rightarrow> 'w batch_state option" where
  "batch_worker_new capacity w =
     (if capacity = 0 then None
      else Some \<lparr>bw_queue = [], bw_senders = 1, bw_running = True, bw_aborted = False, bw_open = [],
                 bw_delivered = Map.empty, bw_world = w, bw_submitted = [], bw_screened = []\<rparr>)"

text \<open>\<^verbatim>\<open>submit\<close> waits while the channel is full (\<open>None\<close>).\<close>

definition batch_submit :: "nat \<Rightarrow> screen_tx \<Rightarrow> 'w batch_state \<Rightarrow> ((screening_error, nat) result \<times> 'w batch_state) option" where
  "batch_submit capacity tx B =
     (if \<not> bw_running B then Some (Inl BatchChannelClosed, B)
      else if length (bw_queue B) \<ge> capacity then None
      else let j = length (bw_submitted B)
           in Some (Inr j, B\<lparr>bw_queue := bw_queue B @ [(j, tx)], bw_open := j # bw_open B,
                             bw_submitted := bw_submitted B @ [tx]\<rparr>))"

text \<open>One turn of the loop of \<^verbatim>\<open>run\<close>: \<open>None\<close> while \<^verbatim>\<open>recv\<close> waits.\<close>

definition batch_turn :: "'w screener \<Rightarrow> 'w batch_state \<Rightarrow> 'w batch_state option" where
  "batch_turn sc B =
     (if \<not> bw_running B then None
      else case bw_queue B of
        [] \<Rightarrow> if bw_senders B = 0 then Some (B\<lparr>bw_running := False\<rparr>) else None
      | (j, tx) # rest \<Rightarrow>
          let (result, w1) = sc tx Batch (bw_world B)
          in Some (B\<lparr>bw_queue := rest, bw_world := w1, bw_screened := bw_screened B @ [result],
                     bw_delivered := (if j \<in> set (bw_open B) then (bw_delivered B)(j \<mapsto> result) else bw_delivered B)\<rparr>))"

inductive batch_step :: "'w screener \<Rightarrow> nat \<Rightarrow> 'w batch_state \<Rightarrow> 'w batch_state \<Rightarrow> bool" for sc capacity where
  bw_submit: "0 < bw_senders B \<Longrightarrow> batch_submit capacity tx B = Some (r, B') \<Longrightarrow> batch_step sc capacity B B'"
| bw_turn: "batch_turn sc B = Some B' \<Longrightarrow> batch_step sc capacity B B'"
| bw_clone: "0 < bw_senders B \<Longrightarrow> batch_step sc capacity B (B\<lparr>bw_senders := bw_senders B + 1\<rparr>)"
| bw_drop_sender: "0 < bw_senders B \<Longrightarrow> batch_step sc capacity B (B\<lparr>bw_senders := bw_senders B - 1\<rparr>)"
| bw_drop_receiver: "batch_step sc capacity B (B\<lparr>bw_open := removeAll j (bw_open B)\<rparr>)"
| bw_abort: "bw_running B \<Longrightarrow> batch_step sc capacity B (B\<lparr>bw_running := False, bw_aborted := True, bw_queue := []\<rparr>)"

section \<open>Providers fail closed\<close>

text \<open>
  The contract of a provider behind a request: a call that returns a result which does not block the
  transaction has seen an answer that lets it pass. What holds of one call holds of the retry loop.
\<close>

locale screening_api =
  fixes call :: "screen_tx \<Rightarrow> 'w \<Rightarrow> ('e, screening_result) result \<times> 'w"
    and passes :: "screen_tx \<Rightarrow> 'w \<Rightarrow> bool"
  assumes unblocked: "call tx w = (Inr r, w') \<Longrightarrow> \<not> is_blocked r \<Longrightarrow> passes tx w"
begin

lemma retry_unblocked:
  "retry_from (call tx) clock left a w = (Some r, ds, w') \<Longrightarrow> \<not> is_blocked r \<Longrightarrow> \<exists>v. passes tx v"
proof (induction left arbitrary: a w ds w')
  case 0
  then show ?case
    by (auto split: prod.splits sum.splits dest: unblocked)
next
  case (Suc left)
  then show ?case
    by (auto simp: Let_def split: prod.splits sum.splits dest: unblocked)
qed

end

text \<open>An answer of Sardine, or of Elliptic, below its threshold for a hold.\<close>

definition sardine_passes ::
  "(real \<Rightarrow> real) \<Rightarrow> (sardine_request, 'w, 'e, sardine_response) http_post \<Rightarrow> provider_config \<Rightarrow> screen_tx \<Rightarrow> 'w \<Rightarrow> bool" where
  "sardine_passes rnd post c tx w \<longleftrightarrow>
     (\<exists>url headers resp w'. post url headers (sardine_build_request rnd c tx) w = (Inr resp, w') \<and>
        sp_risk_score resp < rnd (60 / 100))"

definition elliptic_passes ::
  "(real \<Rightarrow> real) \<Rightarrow> (elliptic_request \<Rightarrow> string option) \<Rightarrow> (string, 'w, 'e, real) http_post \<Rightarrow> provider_config \<Rightarrow>
   screen_tx \<Rightarrow> 'w \<Rightarrow> bool" where
  "elliptic_passes rnd json post c tx w \<longleftrightarrow>
     (\<exists>url headers body score w'. elliptic_build_request c tx = Some body \<and>
        post url headers (case json body of None \<Rightarrow> [] | Some s \<Rightarrow> s) w = (Inr score, w') \<and> score < rnd (50 / 100))"

text \<open>An assessment by Chainalysis, complete and neither severe nor high.\<close>

definition chainalysis_passes ::
  "(register_request, 'w, 'e, string) http_post \<Rightarrow> ('w, 'e, summary_response) http_get \<Rightarrow> provider_config \<Rightarrow>
   screen_tx \<Rightarrow> bool" where
  "chainalysis_passes post get c tx \<longleftrightarrow>
     (\<exists>w w1 v v' ident summary. register_transfer post c tx w = (Inr ident, w1) \<and>
        get (pc_endpoint c @ ''/api/kyt/v2/transfers/'' @ ident @ ''/summary'') [(''Authorization'', auth_header c)] v =
          (Inr summary, v') \<and>
        su_alert_status summary = ''COMPLETE'' \<and> su_alert_level summary \<notin> {Some ''SEVERE'', Some ''HIGH''})"

interpretation sardine: screening_api "sardine_call_api rnd post c" "sardine_passes rnd post c" for rnd post c
proof
  fix tx w r w'
  assume "sardine_call_api rnd post c tx w = (Inr r, w')" "\<not> is_blocked r"
  then show "sardine_passes rnd post c tx w"
    unfolding sardine_call_api_def map_sardine_response_def sardine_passes_def Let_def
    by (fastforce split: prod.splits sum.splits if_splits)
qed

interpretation elliptic: screening_api "elliptic_call_api rnd hmac json secs post c" "elliptic_passes rnd json post c"
  for rnd hmac json secs post c
proof
  fix tx w r w'
  assume "elliptic_call_api rnd hmac json secs post c tx w = (Inr r, w')" "\<not> is_blocked r"
  then show "elliptic_passes rnd json post c tx w"
    unfolding elliptic_call_api_def map_elliptic_response_def elliptic_passes_def Let_def
    by (fastforce split: prod.splits sum.splits if_splits option.splits)
qed

lemma poll_unblocked:
  "poll_from get c url left a w = (Inr r, ds, w') \<Longrightarrow> \<not> is_blocked r \<Longrightarrow>
   \<exists>v v' summary. get url [(''Authorization'', auth_header c)] v = (Inr summary, v') \<and>
     su_alert_status summary = ''COMPLETE'' \<and> su_alert_level summary \<notin> {Some ''SEVERE'', Some ''HIGH''}"
proof (induction left arbitrary: a w ds w')
  case 0
  then show ?case
    by auto
next
  case (Suc left)
  obtain x w1 where g: "get url [(''Authorization'', auth_header c)] w = (x, w1)"
    by fastforce
  show ?case
  proof (cases x)
    case (Inl e)
    then show ?thesis
      using Suc.prems g by simp
  next
    case (Inr summary)
    obtain r' ds' w2 where p: "poll_from get c url left (Suc a) w1 = (r', ds', w2)"
      by (cases "poll_from get c url left (Suc a) w1") auto
    show ?thesis
    proof (cases "su_alert_status summary = ''COMPLETE''")
      case True
      then have "r = map_alert_level (su_alert_level summary)"
        using Suc.prems(1) g Inr by simp
      then have "su_alert_level summary \<notin> {Some ''SEVERE'', Some ''HIGH''}"
        using Suc.prems(2) by (auto simp: map_alert_level_def)
      then show ?thesis
        using g Inr True by blast
    next
      case False
      then show ?thesis
        using Suc.IH [of "Suc a" w1 ds' w2] Suc.prems g Inr p by simp
    qed
  qed
qed

lemma sardine_unblocked:
  assumes "sardine_screen rnd post clock c tx mode w = (r, w')" "\<not> is_blocked r"
  shows "\<exists>v. sardine_passes rnd post c tx v"
proof (cases mode)
  case RealTime
  then show ?thesis
    using assms by (auto simp: sardine_screen_def split: prod.splits sum.splits dest: sardine.unblocked)
next
  case Batch
  then show ?thesis
    using assms
    by (auto simp: sardine_screen_def sardine_call_with_retry_def split: prod.splits option.splits
        dest: sardine.retry_unblocked)
qed

lemma elliptic_unblocked:
  assumes "elliptic_screen rnd hmac json secs post clock c tx mode w = (r, w')" "\<not> is_blocked r"
  shows "\<exists>v. elliptic_passes rnd json post c tx v"
proof (cases mode)
  case RealTime
  then show ?thesis
    using assms by (auto simp: elliptic_screen_def split: prod.splits sum.splits dest: elliptic.unblocked)
next
  case Batch
  then show ?thesis
    using assms
    by (auto simp: elliptic_screen_def elliptic_call_with_retry_def split: prod.splits option.splits
        dest: elliptic.retry_unblocked)
qed

lemma chainalysis_unblocked:
  assumes "chainalysis_screen post get c tx mode w = (r, w')" "\<not> is_blocked r"
  shows "mode = Batch \<and> chainalysis_passes post get c tx"
proof -
  have m: "mode = Batch"
    using assms by (cases mode) (auto simp: chainalysis_screen_def)
  then have b: "chainalysis_screen_batch post get c tx w = (r, w')"
    using assms(1) by (simp add: chainalysis_screen_def)
  obtain x w1 where g: "register_transfer post c tx w = (x, w1)"
    by fastforce
  obtain ident where x: "x = Inr ident"
    using b assms(2) g unfolding chainalysis_screen_batch_def Let_def by (cases x) (auto split: if_splits)
  obtain ds where p: "poll_summary get c ident w1 = (Inr r, ds, w')"
    using b assms(2) g x unfolding chainalysis_screen_batch_def Let_def
    by (auto split: if_splits prod.splits sum.splits)
  show ?thesis
    using m g x poll_unblocked [OF p [unfolded poll_summary_def] assms(2)] unfolding chainalysis_passes_def by blast
qed


definition ex_tx :: screen_tx where
  "ex_tx = tx_with_metadata ''network'' ''BITCOIN'' (tx_with_metadata ''tx_hash'' ''ab'' (tx_with_metadata ''output_address'' ''cd''
     (screen_tx_new ''t1'' 10050 ''USD'' ''alice'' ''bob'' 0)))"


text \<open>A level other than the four known ones clears the transaction.\<close>

lemma unknown_alert_level_clears:
  "level \<notin> {Some ''SEVERE'', Some ''HIGH'', Some ''MEDIUM'', Some ''LOW''} \<Longrightarrow> map_alert_level level = Clear"
  by (simp add: map_alert_level_def)

section \<open>Effort\<close>

lemma retry_base_ms_small: "a < 58 \<Longrightarrow> unat (retry_base_ms a) = 100 * 2 ^ a"
proof -
  assume a: "a < 58"
  have "(2 :: nat) ^ a \<le> 2 ^ 57"
    using a by (intro power_increasing) auto
  then have "100 * 2 ^ a < (2 :: nat) ^ 64"
    by simp
  then have "unat (word_of_nat (100 * 2 ^ a) :: u64) = 100 * 2 ^ a"
    by (intro unat_word_of_nat_less) simp
  moreover have "retry_base_ms a = word_of_nat (100 * 2 ^ a)"
    using a unfolding retry_base_ms_def by (simp add: push_bit_eq_mult)
  ultimately show ?thesis
    by (simp only:)
qed

lemma subsec_jitter_less: "0 < m \<Longrightarrow> subsec_jitter now m < m"
  by (auto simp: subsec_jitter_def word_gt_0 word_mod_less_divisor split: option.splits)

lemma retry_delays:
  assumes "retry_from call clock left a w = (r, ds, w')" "a + left \<le> 58"
  shows "length ds \<le> left \<and> (\<forall>i < length ds. unat (ds ! i) < 100 * 2 ^ (a + i)) \<and> (r = None \<longrightarrow> length ds = left)"
  using assms
proof (induction left arbitrary: a w r ds w')
  case 0
  then show ?case
    by (auto split: prod.splits sum.splits)
next
  case (Suc left)
  obtain x w1 where g: "call w = (x, w1)"
    by fastforce
  show ?case
  proof (cases x)
    case (Inr result)
    then show ?thesis
      using Suc.prems g by auto
  next
    case (Inl e)
    define d where "d = subsec_jitter (clock a) (retry_base_ms a)"
    obtain ds' where p: "retry_from call clock left (Suc a) w1 = (r, ds', w')" and ds: "ds = d # ds'"
      using Suc.prems(1) g Inl unfolding d_def by (auto simp: Let_def split: prod.splits)
    have b: "unat (retry_base_ms a) = 100 * 2 ^ a"
      using Suc.prems(2) by (intro retry_base_ms_small) simp
    then have "0 < retry_base_ms a"
      by (auto simp: word_gt_0)
    then have "unat d < 100 * 2 ^ a"
      using subsec_jitter_less [of "retry_base_ms a" "clock a"] b by (simp add: d_def word_less_nat_alt)
    then show ?thesis
      using Suc.IH [OF p] Suc.prems(2) ds by (auto simp: nth_Cons split: nat.splits)
  qed
qed

lemma poll_waits:
  assumes "poll_from get c url left a w = (r, waits, w')"
  shows "sum_list waits \<le> POLL_BASE_MS * 2 ^ a * (2 ^ left - 1) \<and> length waits \<le> left"
  using assms
proof (induction left arbitrary: a w r waits w')
  case 0
  then show ?case
    by simp
next
  case (Suc left)
  have step: "POLL_BASE_MS * 2 ^ a + POLL_BASE_MS * 2 ^ Suc a * (2 ^ left - 1) = POLL_BASE_MS * 2 ^ a * (2 ^ Suc left - 1)"
    by (simp add: algebra_simps diff_mult_distrib2)
  show ?case
    using Suc.prems step
    by (auto simp: Let_def split: prod.splits sum.splits if_splits dest!: Suc.IH simp del: power_Suc)
qed

text \<open>
  Screening effort is bounded: with at most 57 retries configured (the factories set two) the retry loop makes
  at most one call more than that, the delay before retry \<open>i\<close> stays below 100 * 2 ^ i milliseconds, and it
  gives up only after all retries; the polling loop of Chainalysis waits at most 31.5 seconds in total, over
  at most six polls.
\<close>

theorem screening_effort_bounded:
  assumes "pc_max_retries c \<le> 57"
    and "retry_from call clock (pc_max_retries c) 0 w = (r, delays, w')"
    and "poll_summary get c' ident v = (answer, waits, v')"
  shows "length delays \<le> pc_max_retries c \<and> (\<forall>i < length delays. unat (delays ! i) < 100 * 2 ^ i) \<and>
    (r = None \<longrightarrow> length delays = pc_max_retries c) \<and> sum_list waits \<le> 31500 \<and> length waits \<le> 6"
  using retry_delays [OF assms(2)] assms(1) poll_waits [OF assms(3) [unfolded poll_summary_def]]
  by (simp add: MAX_POLL_ATTEMPTS_def POLL_BASE_MS_def)

theorem screening_effort_bounded_witness:
  "\<exists>delays waits. retry_from (\<lambda>n. (Inl (), n)) (\<lambda>_. None) (pc_max_retries (config_chainalysis ''k'')) 0 (0 :: nat) = (None, delays, 0) \<and>
     length delays \<le> 2 \<and>
     poll_summary (\<lambda>_ _ n. (Inr \<lparr>su_alert_status = ''PROCESSING'', su_alert_level = None\<rparr> :: (unit, _) result, Suc n))
       (config_chainalysis ''k'') ''x'' 0 =
       (Inr (Hold ''Chainalysis KYT assessment timed out. Transaction held for manual compliance review.'' True), waits, 6) \<and>
     sum_list waits = 31500"
proof -
  let ?c = "config_chainalysis ''k''"
  let ?get = "\<lambda>_ _ n. (Inr \<lparr>su_alert_status = ''PROCESSING'', su_alert_level = None\<rparr> :: (unit, _) result, Suc n)"
  have r: "retry_from (\<lambda>n. (Inl (), n)) (\<lambda>_. None) (pc_max_retries ?c) 0 (0 :: nat) = (None, [0, 0], 0)"
    by (simp add: config_chainalysis_def numeral_2_eq_2 subsec_jitter_def)
  have six: "MAX_POLL_ATTEMPTS = Suc (Suc (Suc (Suc (Suc (Suc 0)))))"
    by (simp add: MAX_POLL_ATTEMPTS_def)
  have p: "poll_summary ?get ?c ''x'' 0 =
      (Inr (Hold ''Chainalysis KYT assessment timed out. Transaction held for manual compliance review.'' True),
       [500, 1000, 2000, 4000, 8000, 16000], 6)"
    by (simp add: poll_summary_def six POLL_BASE_MS_def)
  have "pc_max_retries ?c \<le> 57"
    by (simp add: config_chainalysis_def)
  from screening_effort_bounded [OF this r p] r p show ?thesis
    by auto
qed

section \<open>The amount sent to Sardine\<close>

lemma rounded_cents:
  assumes "double_round rnd" "n < 2 ^ 52"
  shows "round_half_even (rnd (rnd (of_nat n) / 100) * 100) = int n"
proof -
  have n: "rnd (of_nat n) = of_nat n"
    using double_round_int [OF assms(1), of "int n"] assms(2) by simp
  have r: "real n < 2 ^ 52"
    using assms(2) by (simp only: of_nat_less_numeral_power_cancel_iff)
  show ?thesis
  proof (cases "n = 0")
    case True
    then show ?thesis
      using double_round_zero [OF assms(1)] by (simp add: round_half_even_def)
  next
    case False
    then have y: "1 / 100 \<le> real n / 100" "real n / 100 \<le> 2 ^ 1023"
      using r order_trans [OF less_imp_le [OF r], of "2 ^ 1023"] by simp_all
    have "(1 :: real) / 2 ^ 1022 \<le> 1 / 100"
      by simp
    then have "\<bar>rnd (real n / 100) - real n / 100\<bar> \<le> \<bar>real n / 100\<bar> / 2 ^ 53"
      using y by (intro double_round_err [OF assms(1)]) simp_all
    also have "\<dots> < 1 / 200"
      using r by simp
    finally have "\<bar>rnd (real n / 100) * 100 - of_int (int n)\<bar> < 1 / 2"
      by (simp add: abs_less_iff field_simps)
    then show ?thesis
      unfolding n by (intro round_half_even_near)
  qed
qed

text \<open>
  The amount in a Sardine request is exact: for fewer than \<open>2 ^ 52\<close> minor units, the text is the number of
  whole units, a point and the two digits of the hundredths, although the conversion goes through double
  precision.
\<close>

theorem sardine_amount_exact:
  assumes "double_round rnd" "unat (tx_amount tx) < 2 ^ 52"
  shows "sq_amount (sardine_build_request rnd c tx) =
    show_nat (unat (tx_amount tx) div 100) @ ''.'' @ pad_left 2 (show_nat (unat (tx_amount tx) mod 100))"
  using rounded_cents [OF assms] by (simp add: sardine_build_request_def fmt_fixed_def Let_def)

theorem sardine_amount_exact_witness: "sq_amount (sardine_build_request (\<lambda>x. x) (config_sardine Eu [] []) ex_tx) = ''100.50''"
proof -
  have "unat (tx_amount ex_tx) = 10050"
    by (simp add: ex_tx_def tx_with_metadata_def screen_tx_new_def)
  then show ?thesis
    using sardine_amount_exact [OF double_round_id, of ex_tx "config_sardine Eu [] []"]
    by (simp add: pad_left_def show_nat.simps digit_char_def char_of_def bit_0)
qed

lemma sardine_amount_ignores_currency:
  "sq_amount (sardine_build_request rnd c (tx\<lparr>tx_currency := cur\<rparr>)) = sq_amount (sardine_build_request rnd c tx)"
  by (simp add: sardine_build_request_def)

section \<open>The life of a hold\<close>

datatype hold_op = OpHold hold_record | OpRelease int string

fun run_hold :: "hold_op \<Rightarrow> hold_store \<Rightarrow> bool \<times> hold_store" where
  "run_hold (OpHold r) S = (let (x, S') = hold_place r S in (\<not> is_err x, S'))"
| "run_hold (OpRelease now i) S = (let (x, S') = hold_release now i S in (\<not> is_err x, S'))"

definition run_holds :: "hold_op list \<Rightarrow> hold_store \<Rightarrow> hold_store" where
  "run_holds ops S = fold (\<lambda>op S. snd (run_hold op S)) ops S"

fun holds_tx :: "string \<Rightarrow> hold_op \<Rightarrow> bool" where
  "holds_tx i (OpHold r) \<longleftrightarrow> hr_transaction_id r = i"
| "holds_tx i _ \<longleftrightarrow> False"

fun releases_tx :: "string \<Rightarrow> hold_op \<Rightarrow> bool" where
  "releases_tx i (OpRelease _ j) \<longleftrightarrow> j = i"
| "releases_tx i _ \<longleftrightarrow> False"

fun fresh_op :: "hold_op \<Rightarrow> bool" where
  "fresh_op (OpHold r) \<longleftrightarrow> hr_released_at r = None"
| "fresh_op _ \<longleftrightarrow> True"

text \<open>A hold of the transaction, and a release of it after a hold.\<close>

definition was_held :: "string \<Rightarrow> hold_op list \<Rightarrow> bool" where
  "was_held i ops \<longleftrightarrow> (\<exists>op \<in> set ops. holds_tx i op)"

definition was_released :: "string \<Rightarrow> hold_op list \<Rightarrow> bool" where
  "was_released i ops \<longleftrightarrow> (\<exists>a op b. ops = a @ op # b \<and> releases_tx i op \<and> was_held i a)"

lemma was_held_snoc [simp]: "was_held i (ops @ [op]) \<longleftrightarrow> was_held i ops \<or> holds_tx i op"
  by (auto simp: was_held_def)

lemma was_released_snoc [simp]: "was_released i (ops @ [op]) \<longleftrightarrow> was_released i ops \<or> was_held i ops \<and> releases_tx i op"
proof
  assume "was_released i (ops @ [op])"
  then obtain a x b where e: "ops @ [op] = a @ x # b" and x: "releases_tx i x" "was_held i a"
    unfolding was_released_def by blast
  show "was_released i ops \<or> was_held i ops \<and> releases_tx i op"
  proof (cases b rule: rev_cases)
    case Nil
    then show ?thesis
      using e x by simp
  next
    case (snoc b' y)
    then have "ops = a @ x # b'"
      using e by simp
    then show ?thesis
      using x unfolding was_released_def by blast
  qed
next
  assume "was_released i ops \<or> was_held i ops \<and> releases_tx i op"
  then show "was_released i (ops @ [op])"
    unfolding was_released_def by (metis append_Cons append_assoc append_Nil2 append_Nil)
qed

lemma run_holds_snoc [simp]: "run_holds (ops @ [op]) S = snd (run_hold op (run_holds ops S))"
  by (simp add: run_holds_def)

lemma hold_phases:
  assumes "list_all fresh_op ops"
  shows "(run_holds ops Map.empty i \<noteq> None \<longleftrightarrow> was_held i ops) \<and>
    (\<forall>r. run_holds ops Map.empty i = Some r \<longrightarrow> hr_transaction_id r = i \<and> (is_released r \<longleftrightarrow> was_released i ops))"
  using assms
proof (induction ops rule: rev_induct)
  case Nil
  then show ?case
    by (simp add: run_holds_def was_held_def)
next
  case (snoc op ops)
  then have IH: "run_holds ops Map.empty i \<noteq> None \<longleftrightarrow> was_held i ops"
      "\<And>r. run_holds ops Map.empty i = Some r \<Longrightarrow> hr_transaction_id r = i \<and> (is_released r \<longleftrightarrow> was_released i ops)"
    by simp_all
  have nr: "\<not> was_held i ops \<Longrightarrow> \<not> was_released i ops"
    by (auto simp: was_held_def was_released_def)
  show ?case
  proof (cases op)
    case (OpHold r)
    then show ?thesis
      using IH nr snoc.prems by (auto simp: hold_place_def Let_def is_released_def split: option.splits)
  next
    case (OpRelease now j)
    then show ?thesis
      using IH by (auto simp: hold_release_def Let_def is_released_def split: option.splits)
  qed
qed

text \<open>
  C24. A hold is placed once and released once: after any calls of hold and release (with records not yet released), a
  further hold of a transaction succeeds exactly when it was never held, a release succeeds exactly when it was
  held and not released since, and the active holds are exactly the transactions in that state.
\<close>

theorem hold_lifecycle:
  assumes "list_all fresh_op ops"
  shows "(fst (run_hold (OpHold r) (run_holds ops Map.empty)) \<longleftrightarrow> \<not> was_held (hr_transaction_id r) ops) \<and>
    (fst (run_hold (OpRelease now i) (run_holds ops Map.empty)) \<longleftrightarrow> was_held i ops \<and> \<not> was_released i ops) \<and>
    (i \<in> hr_transaction_id ` set (active_holds ids (run_holds ops Map.empty)) \<longleftrightarrow>
      i \<in> set ids \<and> was_held i ops \<and> \<not> was_released i ops)"
proof -
  define S where "S = run_holds ops Map.empty"
  have ph: "S j \<noteq> None \<longleftrightarrow> was_held j ops" "S j = Some x \<Longrightarrow> hr_transaction_id x = j \<and> (is_released x \<longleftrightarrow> was_released j ops)"
    for j x
    using hold_phases [OF assms, of j] unfolding S_def by simp_all
  have "fst (run_hold (OpHold r) S) \<longleftrightarrow> \<not> was_held (hr_transaction_id r) ops"
    using ph(1) [of "hr_transaction_id r"] by (auto simp: hold_place_def split: option.splits)
  moreover have "fst (run_hold (OpRelease now i) S) \<longleftrightarrow> was_held i ops \<and> \<not> was_released i ops"
    using ph(1) [of i] ph(2) [of i] by (auto simp: hold_release_def Let_def split: option.splits)
  moreover have "i \<in> hr_transaction_id ` set (active_holds ids S) \<longleftrightarrow> i \<in> set ids \<and> was_held i ops \<and> \<not> was_released i ops"
  proof
    assume "i \<in> hr_transaction_id ` set (active_holds ids S)"
    then obtain j x where "j \<in> set ids" "S j = Some x" "\<not> is_released x" "hr_transaction_id x = i"
      unfolding active_holds_def by auto
    then show "i \<in> set ids \<and> was_held i ops \<and> \<not> was_released i ops"
      using ph(1) [of j] ph(2) [of j x] by auto
  next
    assume i: "i \<in> set ids \<and> was_held i ops \<and> \<not> was_released i ops"
    then obtain x where x: "S i = Some x"
      using ph(1) [of i] by auto
    then show "i \<in> hr_transaction_id ` set (active_holds ids S)"
      using i ph(2) [OF x] unfolding active_holds_def by force
  qed
  ultimately show ?thesis
    unfolding S_def by blast
qed

definition ex_hold :: hold_record where
  "ex_hold = \<lparr>hr_transaction_id = ''t1'', hr_reason = ''check'', hr_review_required = True, hr_held_at = 5, hr_released_at = None\<rparr>"

theorem hold_lifecycle_witness:
  "\<not> fst (run_hold (OpHold ex_hold) (run_holds [OpHold ex_hold, OpRelease 9 ''t1''] Map.empty)) \<and>
   \<not> fst (run_hold (OpRelease 10 ''t1'') (run_holds [OpHold ex_hold, OpRelease 9 ''t1''] Map.empty)) \<and>
   fst (run_hold (OpRelease 9 ''t1'') (run_holds [OpHold ex_hold] Map.empty))"
proof -
  have f: "list_all fresh_op [OpHold ex_hold, OpRelease 9 ''t1'']" "list_all fresh_op [OpHold ex_hold]"
    by (simp_all add: ex_hold_def)
  have h: "was_held ''t1'' [OpHold ex_hold, OpRelease 9 ''t1'']" "was_held ''t1'' [OpHold ex_hold]"
    by (simp_all add: was_held_def ex_hold_def)
  have "was_released ''t1'' ([OpHold ex_hold] @ [OpRelease 9 ''t1''])"
    using h by (simp only: was_released_snoc) simp
  moreover have "\<not> was_released ''t1'' ([] @ [OpHold ex_hold])"
    by (simp only: was_released_snoc) (simp add: was_released_def)
  ultimately show ?thesis
    using hold_lifecycle [OF f(1), of ex_hold 10 "''t1''" "[]"] hold_lifecycle [OF f(2), of ex_hold 9 "''t1''" "[]"] h
    by (simp add: ex_hold_def)
qed

section \<open>The batch worker loses no job\<close>

primrec screen_all :: "'w screener \<Rightarrow> screen_tx list \<Rightarrow> 'w \<Rightarrow> screening_result list \<times> 'w" where
  "screen_all sc [] w = ([], w)"
| "screen_all sc (tx # txs) w =
     (let (r, w1) = sc tx Batch w; (rs, w2) = screen_all sc txs w1 in (r # rs, w2))"

lemma screen_all_snoc:
  "screen_all sc txs w = (rs, w1) \<Longrightarrow> sc tx Batch w1 = (r, w2) \<Longrightarrow> screen_all sc (txs @ [tx]) w = (rs @ [r], w2)"
  by (induction txs arbitrary: w rs) (auto split: prod.splits)

text \<open>The results delivered are those of the jobs, and every screened job with a receiver has its result.\<close>

definition answers_ok :: "screening_result list \<Rightarrow> nat \<Rightarrow> nat list \<Rightarrow> (nat \<rightharpoonup> screening_result) \<Rightarrow> bool" where
  "answers_ok rs m waiting sent \<longleftrightarrow>
     (\<forall>j r. sent j = Some r \<longrightarrow> j < length rs \<and> r = rs ! j) \<and>
     (\<forall>j \<in> set waiting. j < m \<and> (j < length rs \<longrightarrow> sent j = Some (rs ! j)))"

lemma answers_ok_submit: "answers_ok rs m waiting sent \<Longrightarrow> length rs \<le> m \<Longrightarrow> answers_ok rs (Suc m) (m # waiting) sent"
proof -
  assume a: "answers_ok rs m waiting sent" and m: "length rs \<le> m"
  have "j < Suc m \<and> (j < length rs \<longrightarrow> sent j = Some (rs ! j))" if "j \<in> set (m # waiting)" for j
  proof (cases "j = m")
    case True
    then show ?thesis
      using m by simp
  next
    case False
    then have "j \<in> set waiting"
      using that by simp
    then have "j < m \<and> (j < length rs \<longrightarrow> sent j = Some (rs ! j))"
      using a unfolding answers_ok_def by blast
    then show ?thesis
      by (simp add: less_SucI)
  qed
  then show "answers_ok rs (Suc m) (m # waiting) sent"
    using a unfolding answers_ok_def by blast
qed

lemma answers_ok_answer:
  "answers_ok rs m waiting sent \<Longrightarrow>
   answers_ok (rs @ [r]) m waiting (if length rs \<in> set waiting then sent(length rs \<mapsto> r) else sent)"
  (is "_ \<Longrightarrow> answers_ok _ _ _ ?sent")
proof -
  assume a: "answers_ok rs m waiting sent"
  have old: "sent j = Some x \<Longrightarrow> j < length rs \<and> x = rs ! j"
    "j \<in> set waiting \<Longrightarrow> j < m" "j \<in> set waiting \<Longrightarrow> j < length rs \<Longrightarrow> sent j = Some (rs ! j)" for j x
    using a unfolding answers_ok_def by blast+
  define sent' where "sent' = ?sent"
  have "j < length (rs @ [r]) \<and> x = (rs @ [r]) ! j" if "sent' j = Some x" for j x
    using that old(1) [of j x] by (cases "j = length rs") (auto simp: sent'_def nth_append split: if_splits)
  moreover have "sent' j = Some ((rs @ [r]) ! j)" if "j \<in> set waiting" "j < length (rs @ [r])" for j
    using that old(3) [of j] by (cases "j = length rs") (auto simp: sent'_def nth_append)
  ultimately have "answers_ok (rs @ [r]) m waiting sent'"
    using old(2) unfolding answers_ok_def by blast
  then show "answers_ok (rs @ [r]) m waiting ?sent"
    unfolding sent'_def .
qed

lemma answers_ok_drop: "answers_ok rs m waiting sent \<Longrightarrow> set waiting' \<subseteq> set waiting \<Longrightarrow> answers_ok rs m waiting' sent"
  unfolding answers_ok_def by blast

definition batch_inv :: "'w screener \<Rightarrow> nat \<Rightarrow> 'w \<Rightarrow> 'w batch_state \<Rightarrow> bool" where
  "batch_inv sc capacity w0 B \<longleftrightarrow>
     length (bw_screened B) \<le> length (bw_submitted B) \<and>
     screen_all sc (take (length (bw_screened B)) (bw_submitted B)) w0 = (bw_screened B, bw_world B) \<and>
     (\<not> bw_aborted B \<longrightarrow>
        bw_queue B = map (\<lambda>j. (j, bw_submitted B ! j)) [length (bw_screened B)..<length (bw_submitted B)]) \<and>
     (bw_aborted B \<longrightarrow> \<not> bw_running B) \<and>
     (\<not> bw_running B \<longrightarrow> bw_queue B = [] \<and> (bw_aborted B \<or> bw_senders B = 0)) \<and>
     length (bw_queue B) \<le> capacity \<and>
     answers_ok (bw_screened B) (length (bw_submitted B)) (bw_open B) (bw_delivered B)"

lemma batch_invI:
  assumes "length (bw_screened B) \<le> length (bw_submitted B)"
    and "screen_all sc (take (length (bw_screened B)) (bw_submitted B)) w0 = (bw_screened B, bw_world B)"
    and "bw_running B" "\<not> bw_aborted B"
    and "bw_queue B = map (\<lambda>j. (j, bw_submitted B ! j)) [length (bw_screened B)..<length (bw_submitted B)]"
    and "length (bw_queue B) \<le> capacity"
    and "answers_ok (bw_screened B) (length (bw_submitted B)) (bw_open B) (bw_delivered B)"
  shows "batch_inv sc capacity w0 B"
  using assms unfolding batch_inv_def by blast

lemma batch_inv_new: "batch_worker_new capacity w = Some B \<Longrightarrow> batch_inv sc capacity w B"
  by (auto simp: batch_worker_new_def batch_inv_def answers_ok_def split: if_splits)

lemma batch_inv_submit:
  assumes i: "batch_inv sc capacity w0 B" and s: "batch_submit capacity tx B = Some (r, B')"
  shows "batch_inv sc capacity w0 B'"
proof (cases "bw_running B")
  case False
  then show ?thesis
    using assms by (simp add: batch_submit_def)
next
  case True
  define n m where "n = length (bw_screened B)" and "m = length (bw_submitted B)"
  have B': "B' = B\<lparr>bw_queue := bw_queue B @ [(m, tx)], bw_open := m # bw_open B, bw_submitted := bw_submitted B @ [tx]\<rparr>"
    and q: "length (bw_queue B) < capacity"
    using True s by (simp_all add: batch_submit_def Let_def m_def not_le split: if_splits)
  have nm: "n \<le> m" "\<not> bw_aborted B" "bw_queue B = map (\<lambda>j. (j, bw_submitted B ! j)) [n..<m]"
    using i True by (simp_all add: batch_inv_def n_def m_def)
  have queue: "bw_queue B @ [(m, tx)] = map (\<lambda>j. (j, (bw_submitted B @ [tx]) ! j)) [n..<Suc m]"
    using nm by (simp add: nth_append m_def)
  have old: "screen_all sc (take n (bw_submitted B)) w0 = (bw_screened B, bw_world B)"
    "answers_ok (bw_screened B) m (bw_open B) (bw_delivered B)"
    using i by (simp_all add: batch_inv_def n_def m_def)
  show ?thesis
  proof (rule batch_invI)
    show "screen_all sc (take (length (bw_screened B')) (bw_submitted B')) w0 = (bw_screened B', bw_world B')"
      using old(1) nm(1) by (simp add: B' n_def m_def)
    show "bw_queue B' = map (\<lambda>j. (j, bw_submitted B' ! j)) [length (bw_screened B')..<length (bw_submitted B')]"
      using queue by (simp add: B' n_def m_def del: upt_Suc)
    show "answers_ok (bw_screened B') (length (bw_submitted B')) (bw_open B') (bw_delivered B')"
      using answers_ok_submit [OF old(2)] nm(1) by (simp add: B' n_def m_def)
  qed (use True nm(1,2) q in \<open>simp_all add: B' n_def m_def\<close>)
qed

lemma batch_inv_turn:
  assumes i: "batch_inv sc capacity w0 B" and t: "batch_turn sc B = Some B'"
  shows "batch_inv sc capacity w0 B'"
proof (cases "bw_queue B")
  case Nil
  then have "B' = B\<lparr>bw_running := False\<rparr>" "bw_senders B = 0"
    using t by (auto simp: batch_turn_def split: if_splits)
  then show ?thesis
    using i Nil by (simp add: batch_inv_def)
next
  case (Cons job rest)
  obtain j tx where job: "job = (j, tx)"
    by (cases job)
  obtain r w1 where sc: "sc tx Batch (bw_world B) = (r, w1)"
    by (cases "sc tx Batch (bw_world B)")
  define n m where "n = length (bw_screened B)" and "m = length (bw_submitted B)"
  have run: "bw_running B" "\<not> bw_aborted B"
    using t i by (auto simp: batch_turn_def batch_inv_def split: if_splits)
  have q: "bw_queue B = map (\<lambda>j. (j, bw_submitted B ! j)) [n..<m]"
    using i run by (simp add: batch_inv_def n_def m_def)
  have nm: "n < m"
    using q Cons by (cases "n < m") auto
  have head: "j = n" "tx = bw_submitted B ! n" "rest = map (\<lambda>j. (j, bw_submitted B ! j)) [Suc n..<m]"
    using q Cons job nm by (simp_all add: upt_conv_Cons)
  have screened: "screen_all sc (take (Suc n) (bw_submitted B)) w0 = (bw_screened B @ [r], w1)"
    using head nm i sc screen_all_snoc [of sc "take n (bw_submitted B)" w0 "bw_screened B" "bw_world B" tx r w1]
    by (simp add: batch_inv_def n_def m_def take_Suc_conv_app_nth)
  have B': "B' = B\<lparr>bw_queue := rest, bw_world := w1, bw_screened := bw_screened B @ [r],
      bw_delivered := (if n \<in> set (bw_open B) then (bw_delivered B)(n \<mapsto> r) else bw_delivered B)\<rparr>"
    using t run Cons job sc head(1) by (simp add: batch_turn_def)
  have "answers_ok (bw_screened B) m (bw_open B) (bw_delivered B)"
    using i by (simp add: batch_inv_def m_def)
  moreover have "bw_delivered B' = (if length (bw_screened B) \<in> set (bw_open B)
      then (bw_delivered B)(length (bw_screened B) \<mapsto> r) else bw_delivered B)"
    by (simp add: B' n_def)
  ultimately have "answers_ok (bw_screened B @ [r]) m (bw_open B) (bw_delivered B')"
    using answers_ok_answer by (simp only:)
  moreover have "length rest \<le> capacity"
    using i Cons by (simp add: batch_inv_def)
  ultimately show ?thesis
    using run nm screened head(3) by (intro batch_invI) (simp_all add: B' n_def m_def)
qed

lemma batch_inv_step: "batch_step sc capacity B B' \<Longrightarrow> batch_inv sc capacity w0 B \<Longrightarrow> batch_inv sc capacity w0 B'"
proof (induction rule: batch_step.induct)
  case (bw_submit B tx r B')
  then show ?case
    by (auto dest: batch_inv_submit)
next
  case (bw_turn B B')
  then show ?case
    by (auto dest: batch_inv_turn)
next
  case (bw_clone B)
  then show ?case
    by (simp add: batch_inv_def)
next
  case (bw_drop_sender B)
  then show ?case
    by (simp add: batch_inv_def)
next
  case (bw_drop_receiver B j)
  then show ?case
    using answers_ok_drop [of "bw_screened B" "length (bw_submitted B)" "bw_open B" "bw_delivered B" "removeAll j (bw_open B)"]
    by (simp add: batch_inv_def)
next
  case (bw_abort B)
  then show ?case
    by (simp add: batch_inv_def)
qed

lemma batch_inv_reachable:
  "(batch_step sc capacity)\<^sup>*\<^sup>* B B' \<Longrightarrow> batch_inv sc capacity w0 B \<Longrightarrow> batch_inv sc capacity w0 B'"
  by (induction rule: rtranclp_induct) (auto dest: batch_inv_step)

text \<open>
  C25. The batch worker screens every submitted transaction once, in the order of submission: in every reachable state,
  the results are those of screening a prefix of the submitted transactions one after the other in batch mode;
  a caller that has not dropped its receiver has exactly the result of its own transaction once that is
  screened; the channel never exceeds its capacity; and a worker that ended without being aborted has screened
  everything and no sender is left.
\<close>

theorem batch_worker_complete:
  assumes "batch_worker_new capacity w0 = Some B0" "(batch_step sc capacity)\<^sup>*\<^sup>* B0 B"
  shows "(\<exists>n \<le> length (bw_submitted B). screen_all sc (take n (bw_submitted B)) w0 = (bw_screened B, bw_world B)) \<and>
    (\<forall>j r. bw_delivered B j = Some r \<longrightarrow> j < length (bw_screened B) \<and> r = bw_screened B ! j) \<and>
    (\<forall>j < length (bw_screened B). j \<in> set (bw_open B) \<longrightarrow> bw_delivered B j = Some (bw_screened B ! j)) \<and>
    length (bw_queue B) \<le> capacity \<and>
    (\<not> bw_running B \<and> \<not> bw_aborted B \<longrightarrow>
       bw_senders B = 0 \<and> screen_all sc (bw_submitted B) w0 = (bw_screened B, bw_world B))"
proof -
  have i: "batch_inv sc capacity w0 B"
    using batch_inv_reachable [OF assms(2) batch_inv_new [OF assms(1)]] .
  have all: "length (bw_screened B) = length (bw_submitted B) \<and> bw_senders B = 0" if "\<not> bw_running B" "\<not> bw_aborted B"
    using i that by (auto simp: batch_inv_def)
  show ?thesis
  proof (intro conjI)
    show "\<exists>n \<le> length (bw_submitted B). screen_all sc (take n (bw_submitted B)) w0 = (bw_screened B, bw_world B)"
      using i unfolding batch_inv_def by blast
    show "\<not> bw_running B \<and> \<not> bw_aborted B \<longrightarrow>
        bw_senders B = 0 \<and> screen_all sc (bw_submitted B) w0 = (bw_screened B, bw_world B)"
      using i all by (auto simp: batch_inv_def)
    show "\<forall>j r. bw_delivered B j = Some r \<longrightarrow> j < length (bw_screened B) \<and> r = bw_screened B ! j"
      "\<forall>j < length (bw_screened B). j \<in> set (bw_open B) \<longrightarrow> bw_delivered B j = Some (bw_screened B ! j)"
      using i unfolding batch_inv_def answers_ok_def by blast+
    show "length (bw_queue B) \<le> capacity"
      using i unfolding batch_inv_def by blast
  qed
qed

definition ex_screener :: "unit screener" where
  "ex_screener tx mode w = (mock_screen mock_screener_new tx mode, w)"

theorem batch_worker_complete_witness:
  "\<exists>B0 B. batch_worker_new 4 () = Some B0 \<and> (batch_step ex_screener 4)\<^sup>*\<^sup>* B0 B \<and> \<not> bw_running B \<and> \<not> bw_aborted B \<and>
     bw_submitted B = [ex_tx] \<and> bw_delivered B 0 = Some Clear \<and>
     screen_all ex_screener (bw_submitted B) () = (bw_screened B, bw_world B)"
proof -
  define B0 :: "unit batch_state" where "B0 = the (batch_worker_new 4 ())"
  have b0: "batch_worker_new 4 () = Some B0"
    by (simp add: B0_def batch_worker_new_def)
  have clear: "ex_screener ex_tx Batch () = (Clear, ())"
    by (simp add: ex_screener_def mock_screen_def mock_screener_new_def mock_with_thresholds_def ex_tx_def
        tx_with_metadata_def screen_tx_new_def DEFAULT_FLAG_THRESHOLD_def DEFAULT_REJECT_THRESHOLD_def word_le_nat_alt)
  define B1 where "B1 = B0\<lparr>bw_queue := [(0, ex_tx)], bw_open := [0], bw_submitted := [ex_tx]\<rparr>"
  define B2 where "B2 = B1\<lparr>bw_queue := [], bw_screened := [Clear], bw_delivered := [0 \<mapsto> Clear]\<rparr>"
  define B3 where "B3 = B2\<lparr>bw_senders := 0\<rparr>"
  define B4 where "B4 = B3\<lparr>bw_running := False\<rparr>"
  note ds = B0_def B1_def B2_def B3_def B4_def batch_worker_new_def
  have "batch_step ex_screener 4 B0 B1"
    by (rule bw_submit [of _ 4 ex_tx "Inr 0"]) (simp_all add: ds batch_submit_def)
  moreover have "batch_step ex_screener 4 B1 B2"
    by (rule bw_turn) (simp add: ds batch_turn_def clear)
  moreover have "batch_step ex_screener 4 B2 (B2\<lparr>bw_senders := bw_senders B2 - 1\<rparr>)"
    by (rule bw_drop_sender) (simp add: ds)
  then have "batch_step ex_screener 4 B2 B3"
    by (simp add: ds)
  moreover have "batch_step ex_screener 4 B3 B4"
    by (rule bw_turn) (simp add: ds batch_turn_def)
  ultimately have r: "(batch_step ex_screener 4)\<^sup>*\<^sup>* B0 B4"
    by (meson converse_rtranclp_into_rtranclp rtranclp.rtrancl_refl)
  have f: "\<not> bw_running B4" "\<not> bw_aborted B4" "bw_submitted B4 = [ex_tx]" "bw_delivered B4 0 = Some Clear"
    by (simp_all add: ds)
  then show ?thesis
    using batch_worker_complete [OF b0 r] b0 r by blast
qed

end
