(* ===== verification/Blz_Sar.thy ===== *)
theory Blz_Sar
  imports Blz_Screening
begin

text \<open>
  Suspicious activity reports (\<^verbatim>\<open>libs/screening/src/sar.rs\<close>): the report, its XML form, and a reference reader that
  recovers every field from the XML. The date format of the crate \<^verbatim>\<open>chrono\<close> is the argument \<open>fmt\<close>.
\<close>

section \<open>Reports and their XML form\<close>

datatype suspicious_activity_type = MoneyLaundering | Structuring | Fraud | TerroristFinancing | OtherActivity

fun fincen_code :: "suspicious_activity_type \<Rightarrow> string" where
  "fincen_code MoneyLaundering = ''A''"
| "fincen_code Structuring = ''B''"
| "fincen_code Fraud = ''C''"
| "fincen_code TerroristFinancing = ''D''"
| "fincen_code OtherActivity = ''Z''"

fun activity_description :: "suspicious_activity_type \<Rightarrow> string" where
  "activity_description MoneyLaundering = ''Money Laundering''"
| "activity_description Structuring = ''Structuring''"
| "activity_description Fraud = ''Fraud''"
| "activity_description TerroristFinancing = ''Terrorist Financing''"
| "activity_description OtherActivity = ''Other Suspicious Activity''"

record sar_report =
  sr_filing_institution :: string
  sr_subject_id :: string
  sr_amount :: u64
  sr_currency :: string
  sr_suspicious_activity_type :: suspicious_activity_type
  sr_narrative :: string
  sr_activity_date :: int
  sr_filing_date :: int
  sr_transaction_id :: string

definition from_transaction :: "int \<Rightarrow> screen_tx \<Rightarrow> string \<Rightarrow> suspicious_activity_type \<Rightarrow> string \<Rightarrow> sar_report" where
  "from_transaction now tx filing_institution ty narrative =
     \<lparr>sr_filing_institution = filing_institution, sr_subject_id = tx_sender_id tx, sr_amount = tx_amount tx,
      sr_currency = tx_currency tx, sr_suspicious_activity_type = ty, sr_narrative = narrative,
      sr_activity_date = tx_timestamp tx, sr_filing_date = now, sr_transaction_id = tx_transaction_id tx\<rparr>"

definition escape_char :: "char \<Rightarrow> string" where
  "escape_char c =
     (if c = CHR ''&'' then ''&amp;'' else if c = CHR ''<'' then ''&lt;'' else if c = CHR ''>'' then ''&gt;''
      else if c = CHR 0x22 then ''&quot;'' else if c = CHR 0x27 then ''&apos;'' else [c])"

definition escape_xml :: "string \<Rightarrow> string" where
  "escape_xml s = concat (map escape_char s)"

text \<open>\<^verbatim>\<open>str::replace\<close> with a pattern that is not empty.\<close>

fun str_replace :: "string \<Rightarrow> string \<Rightarrow> string \<Rightarrow> string" where
  "str_replace pat rep [] = []"
| "str_replace pat rep (c # cs) =
     (if take (length pat) (c # cs) = pat then rep @ str_replace pat rep (drop (length pat - 1) cs)
      else c # str_replace pat rep cs)"

definition safe_narrative :: "string \<Rightarrow> string" where
  "safe_narrative s = str_replace '']]>'' '']]]]><![CDATA[>'' s"

text \<open>The fixed text between the fields; each piece after the first begins with the markup that ends the field before it.\<close>

definition dq :: string where
  "dq = [CHR 0x22]"

definition nl :: string where
  "nl = [CHR 0x0A]"

definition x_institution :: string where
  "x_institution = ''<?xml version='' @ dq @ ''1.0'' @ dq @ '' encoding='' @ dq @ ''UTF-8'' @ dq @ ''?>'' @ nl @
     ''<SuspiciousActivityReport xmlns='' @ dq @ ''urn:fincen:sar:2.0'' @ dq @ ''>'' @ nl @ ''  <FilingInstitution>''"

definition x_filing_date :: string where
  "x_filing_date = ''</FilingInstitution>'' @ nl @ ''  <FilingDate>''"

definition x_activity_date :: string where
  "x_activity_date = ''</FilingDate>'' @ nl @ ''  <ActivityDate>''"

definition x_transaction :: string where
  "x_transaction = ''</ActivityDate>'' @ nl @ ''  <TransactionIdentifier>''"

definition x_subject :: string where
  "x_subject = ''</TransactionIdentifier>'' @ nl @ ''  <Subject>'' @ nl @ ''    <Identifier>''"

definition x_currency :: string where
  "x_currency = ''</Identifier>'' @ nl @ ''  </Subject>'' @ nl @ ''  <Amount currency='' @ dq"

definition x_amount :: string where
  "x_amount = dq @ ''>''"

definition x_code :: string where
  "x_code = ''</Amount>'' @ nl @ ''  <SuspiciousActivity code='' @ dq"

definition x_description :: string where
  "x_description = dq @ ''>''"

definition x_narrative :: string where
  "x_narrative = ''</SuspiciousActivity>'' @ nl @ ''  <Narrative>''"

definition x_end :: string where
  "x_end = ''</Narrative>'' @ nl @ ''</SuspiciousActivityReport>''"

definition sar_to_xml :: "(int \<Rightarrow> string) \<Rightarrow> sar_report \<Rightarrow> (screening_error, string) result" where
  "sar_to_xml fmt r =
     Inr (x_institution @ escape_xml (sr_filing_institution r) @ x_filing_date @ fmt (sr_filing_date r) @
       x_activity_date @ fmt (sr_activity_date r) @ x_transaction @ escape_xml (sr_transaction_id r) @
       x_subject @ escape_xml (sr_subject_id r) @ x_currency @ escape_xml (sr_currency r) @
       x_amount @ show_nat (unat (sr_amount r)) @ x_code @ fincen_code (sr_suspicious_activity_type r) @
       x_description @ activity_description (sr_suspicious_activity_type r) @
       x_narrative @ ''<![CDATA['' @ safe_narrative (sr_narrative r) @ '']]>'' @ x_end)"

section \<open>A reference reader\<close>

fun xml_unescape :: "string \<Rightarrow> string" where
  "xml_unescape [] = []"
| "xml_unescape (c # cs) =
     (if c = CHR ''&''
      then if take 4 cs = ''amp;'' then CHR ''&'' # xml_unescape (drop 4 cs)
           else if take 3 cs = ''lt;'' then CHR ''<'' # xml_unescape (drop 3 cs)
           else if take 3 cs = ''gt;'' then CHR ''>'' # xml_unescape (drop 3 cs)
           else if take 5 cs = ''quot;'' then CHR 0x22 # xml_unescape (drop 5 cs)
           else if take 5 cs = ''apos;'' then CHR 0x27 # xml_unescape (drop 5 cs)
           else c # xml_unescape cs
      else c # xml_unescape cs)"

text \<open>The text of a CDATA section up to its first end mark, and a sequence of adjacent sections.\<close>

fun cdata_text :: "string \<Rightarrow> (string \<times> string) option" where
  "cdata_text [] = None"
| "cdata_text (c # cs) =
     (if take 3 (c # cs) = '']]>'' then Some ([], drop 2 cs)
      else map_option (\<lambda>(t, rest). (c # t, rest)) (cdata_text cs))"

lemma cdata_text_shorter: "cdata_text s = Some (t, rest) \<Longrightarrow> length rest < length s"
proof (induction s arbitrary: t rest)
  case (Cons c s)
  show ?case
  proof (cases "take 3 (c # s) = '']]>''")
    case True
    then show ?thesis
      using Cons.prems by auto
  next
    case False
    then obtain t' where "cdata_text s = Some (t', rest)"
      using Cons.prems by (auto split: prod.splits)
    then show ?thesis
      using Cons.IH by fastforce
  qed
qed simp

function read_cdata :: "string \<Rightarrow> (string \<times> string) option" where
  "read_cdata s =
     (if take 9 s = ''<![CDATA[''
      then case cdata_text (drop 9 s) of
             None \<Rightarrow> None
           | Some (t, rest) \<Rightarrow> map_option (\<lambda>(t', rest'). (t @ t', rest')) (read_cdata rest)
      else Some ([], s))"
  by pat_completeness auto
termination
  by (relation "measure length") (auto dest!: cdata_text_shorter)

declare read_cdata.simps [simp del]

definition expect :: "string \<Rightarrow> string \<Rightarrow> string option" where
  "expect lit s = (if take (length lit) s = lit then Some (drop (length lit) s) else None)"

text \<open>The text up to the given character, after a literal.\<close>

definition field_until :: "string \<Rightarrow> char \<Rightarrow> string \<Rightarrow> (string \<times> string) option" where
  "field_until lit c s = map_option (\<lambda>r. (takeWhile (\<lambda>x. x \<noteq> c) r, dropWhile (\<lambda>x. x \<noteq> c) r)) (expect lit s)"

text \<open>All fields of a document, dates as text, and nothing after its end.\<close>

definition read_sar ::
  "string \<Rightarrow> (string \<times> string \<times> string \<times> string \<times> string \<times> string \<times> string \<times> string \<times> string) option" where
  "read_sar s =
     Option.bind (field_until x_institution CHR ''<'' s) (\<lambda>(institution, s).
     Option.bind (field_until x_filing_date CHR ''<'' s) (\<lambda>(filing_date, s).
     Option.bind (field_until x_activity_date CHR ''<'' s) (\<lambda>(activity_date, s).
     Option.bind (field_until x_transaction CHR ''<'' s) (\<lambda>(transaction_id, s).
     Option.bind (field_until x_subject CHR ''<'' s) (\<lambda>(subject_id, s).
     Option.bind (field_until x_currency CHR 0x22 s) (\<lambda>(currency, s).
     Option.bind (field_until x_amount CHR ''<'' s) (\<lambda>(amount, s).
     Option.bind (field_until x_code CHR 0x22 s) (\<lambda>(code, s).
     Option.bind (field_until x_description CHR ''<'' s) (\<lambda>(_, s).
     Option.bind (expect x_narrative s) (\<lambda>s.
     Option.bind (read_cdata s) (\<lambda>(narrative, s).
       if s = x_end
       then Some (xml_unescape institution, filing_date, activity_date, xml_unescape transaction_id,
                  xml_unescape subject_id, xml_unescape currency, amount, code, narrative)
       else None)))))))))))"

section \<open>Escaping is inverted\<close>

lemma unescape_escape: "xml_unescape (escape_xml s) = s"
proof (induction s)
  case (Cons c s)
  have "xml_unescape (escape_char c @ r) = c # xml_unescape r" for r
    by (simp add: escape_char_def)
  then show ?case
    using Cons by (simp add: escape_xml_def)
qed (simp add: escape_xml_def)

lemma set_escape_xml: "CHR ''<'' \<notin> set (escape_xml s)" "CHR 0x22 \<notin> set (escape_xml s)"
proof -
  have "CHR ''<'' \<notin> set (escape_char c)" "CHR 0x22 \<notin> set (escape_char c)" for c
    by (simp_all add: escape_char_def)
  then show "CHR ''<'' \<notin> set (escape_xml s)" "CHR 0x22 \<notin> set (escape_xml s)"
    unfolding escape_xml_def by auto
qed

lemma expect_append [simp]: "expect lit (lit @ s) = Some s"
  by (simp add: expect_def)

lemma field_until_append:
  assumes "c \<notin> set xs" "ys = c # zs"
  shows "field_until lit c (lit @ xs @ ys) = Some (xs, ys)"
proof -
  have "\<forall>x \<in> set xs. x \<noteq> c"
    using assms(1) by blast
  then show ?thesis
    using assms(2) by (simp add: field_until_def takeWhile_append2 dropWhile_append2)
qed

text \<open>No end mark of a CDATA section straddles an escaped narrative.\<close>

lemma safe_narrative_simps:
  "safe_narrative [] = []"
  "safe_narrative ('']]>'' @ s) = '']]]]><![CDATA[>'' @ safe_narrative s"
  "take 3 (c # s) \<noteq> '']]>'' \<Longrightarrow> safe_narrative (c # s) = c # safe_narrative s"
  by (auto simp: safe_narrative_def eval_nat_numeral)

lemma no_end_mark:
  assumes "take 3 (c # s) \<noteq> '']]>''"
  shows "take 3 (c # safe_narrative s @ '']]>'' @ r) \<noteq> '']]>''"
proof
  assume "take 3 (c # safe_narrative s @ '']]>'' @ r) = '']]>''"
  then have c: "c = CHR '']''" and tk: "take 2 (safe_narrative s @ '']]>'' @ r) = '']>''"
    by (simp_all add: eval_nat_numeral)
  show False
  proof (cases s)
    case Nil
    then show ?thesis
      using tk by (simp add: safe_narrative_simps eval_nat_numeral)
  next
    case (Cons d ds)
    show ?thesis
    proof (cases "take 3 s = '']]>''")
      case True
      then obtain u where "s = '']]>'' @ u"
        by (metis append_take_drop_id)
      then show ?thesis
        using tk by (simp add: safe_narrative_simps [simplified] eval_nat_numeral)
    next
      case False
      then have sn: "safe_narrative s = d # safe_narrative ds"
        using Cons safe_narrative_simps(3) by simp
      then have d: "d = CHR '']''" and e: "take 1 (safe_narrative ds @ '']]>'' @ r) = ''>''"
        using tk by (simp_all add: eval_nat_numeral)
      show ?thesis
      proof (cases ds)
        case Nil
        then show ?thesis
          using e by (simp add: safe_narrative_simps)
      next
        case (Cons f fs)
        show ?thesis
        proof (cases "take 3 ds = '']]>''")
          case True
          then obtain u where "ds = '']]>'' @ u"
            by (metis append_take_drop_id)
          then show ?thesis
            using e by (simp add: safe_narrative_simps [simplified])
        next
          case False
          then have "f = CHR ''>''"
            using e Cons safe_narrative_simps(3) by simp
          then show ?thesis
            using assms c d \<open>s = d # ds\<close> Cons by (simp add: eval_nat_numeral)
        qed
      qed
    qed
  qed
qed

text \<open>Reading from inside a section.\<close>

definition read_inside :: "string \<Rightarrow> (string \<times> string) option" where
  "read_inside s =
     (case cdata_text s of
        None \<Rightarrow> None
      | Some (t, rest) \<Rightarrow> map_option (\<lambda>(t', rest'). (t @ t', rest')) (read_cdata rest))"

lemma read_inside_Cons:
  "take 3 (c # s) \<noteq> '']]>'' \<Longrightarrow> read_inside s = Some (t, rest) \<Longrightarrow> read_inside (c # s) = Some (c # t, rest)"
  by (auto simp: read_inside_def split: option.splits prod.splits)

lemma read_cdata_open: "read_cdata (''<![CDATA['' @ s) = read_inside s"
  by (subst read_cdata.simps) (simp add: read_inside_def)

lemma read_inside_end: "read_inside ('']]>'' @ s) = read_cdata s"
  by (simp add: read_inside_def option.map_id)

lemma read_safe_narrative:
  assumes "take 9 rest \<noteq> ''<![CDATA[''"
  shows "read_inside (safe_narrative s @ '']]>'' @ rest) = Some (s, rest)"
proof (induction s rule: length_induct)
  case (1 s)
  show ?case
  proof (cases s)
    case Nil
    have "read_inside ('']]>'' @ rest) = Some ([], rest)"
      using assms by (simp only: read_inside_end) (subst read_cdata.simps, simp)
    then show ?thesis
      using Nil by (simp add: safe_narrative_simps)
  next
    case (Cons c cs)
    show ?thesis
    proof (cases "take 3 s = '']]>''")
      case True
      then obtain u where u: "s = '']]>'' @ u"
        by (metis append_take_drop_id)
      define r where "r = safe_narrative u @ '']]>'' @ rest"
      have "read_inside r = Some (u, rest)"
        using 1 u unfolding r_def by simp
      then have "read_inside ('']]>'' @ ''<![CDATA['' @ ''>'' @ r) = Some (''>'' @ u, rest)"
        by (simp only: read_inside_end read_cdata_open) (simp add: read_inside_Cons)
      then have "read_inside ('']'' @ '']'' @ '']]>'' @ ''<![CDATA['' @ ''>'' @ r) = Some ('']]>'' @ u, rest)"
        by (simp add: read_inside_Cons eval_nat_numeral)
      then show ?thesis
        unfolding u r_def safe_narrative_simps(2) by simp
    next
      case False
      then have "take 3 (c # safe_narrative cs @ '']]>'' @ rest) \<noteq> '']]>''"
        using Cons no_end_mark by simp
      moreover have "read_inside (safe_narrative cs @ '']]>'' @ rest) = Some (cs, rest)"
        using 1 Cons by simp
      ultimately have "read_inside (c # safe_narrative cs @ '']]>'' @ rest) = Some (c # cs, rest)"
        by (rule read_inside_Cons)
      then show ?thesis
        using False Cons safe_narrative_simps(3) by simp
    qed
  qed
qed

text \<open>Every piece of fixed text begins with the character that ends the field before it.\<close>

lemma piece_heads:
  "x_filing_date @ s = CHR ''<'' # drop 1 x_filing_date @ s" "x_activity_date @ s = CHR ''<'' # drop 1 x_activity_date @ s"
  "x_transaction @ s = CHR ''<'' # drop 1 x_transaction @ s" "x_subject @ s = CHR ''<'' # drop 1 x_subject @ s"
  "x_currency @ s = CHR ''<'' # drop 1 x_currency @ s" "x_amount @ s = CHR 0x22 # drop 1 x_amount @ s"
  "x_code @ s = CHR ''<'' # drop 1 x_code @ s" "x_description @ s = CHR 0x22 # drop 1 x_description @ s"
  "x_narrative @ s = CHR ''<'' # drop 1 x_narrative @ s"
  by (simp_all add: x_filing_date_def x_activity_date_def x_transaction_def x_subject_def x_currency_def x_amount_def
      x_code_def x_description_def x_narrative_def dq_def)

lemma no_markup:
  "CHR ''<'' \<notin> set (show_nat n)" "CHR 0x22 \<notin> set (fincen_code ty)" "CHR ''<'' \<notin> set (activity_description ty)"
proof -
  have "CHR ''<'' \<notin> digit_char ` {..<10}"
  proof
    assume "CHR ''<'' \<in> digit_char ` {..<10}"
    then obtain d where "d < 10" "CHR ''<'' = digit_char d"
      by auto
    then have "char_digit CHR ''<'' = Some d"
      using char_digit_digit_char by simp
    then show False
      by (simp add: char_digit_def)
  qed
  then show "CHR ''<'' \<notin> set (show_nat n)"
    using set_show_nat by blast
  show "CHR 0x22 \<notin> set (fincen_code ty)" "CHR ''<'' \<notin> set (activity_description ty)"
    by (cases ty; simp)+
qed

text \<open>
  C26. A report is recovered from its XML: for every report, whatever its texts contain, a reader that knows the
  layout, undoes the five predefined entities and joins CDATA sections gets back the institution, the
  identifiers, the currency, the amount, the activity code and the narrative exactly; no text can end an
  element, an attribute or the narrative early. Of the date format only the absence of markup is used.
\<close>

theorem sar_report_recovered:
  assumes "\<And>d. CHR ''<'' \<notin> set (fmt d)"
  shows "\<exists>xml. sar_to_xml fmt r = Inr xml \<and>
    read_sar xml = Some (sr_filing_institution r, fmt (sr_filing_date r), fmt (sr_activity_date r), sr_transaction_id r,
      sr_subject_id r, sr_currency r, show_nat (unat (sr_amount r)), fincen_code (sr_suspicious_activity_type r), sr_narrative r)"
proof -
  have cd: "read_cdata (''<![CDATA['' @ safe_narrative s @ '']]>'' @ x_end) = Some (s, x_end)" for s
    using read_safe_narrative [of x_end s] by (simp only: read_cdata_open) (simp add: x_end_def)
  note fields = field_until_append [OF set_escape_xml(1) piece_heads(1)] field_until_append [OF assms piece_heads(2)]
    field_until_append [OF assms piece_heads(3)] field_until_append [OF set_escape_xml(1) piece_heads(4)]
    field_until_append [OF set_escape_xml(1) piece_heads(5)] field_until_append [OF set_escape_xml(2) piece_heads(6)]
    field_until_append [OF no_markup(1) piece_heads(7)] field_until_append [OF no_markup(2) piece_heads(8)]
    field_until_append [OF no_markup(3) piece_heads(9)]
  show ?thesis
    unfolding sar_to_xml_def
    by (intro exI conjI, rule refl)
      (simp only: read_sar_def fields cd expect_append unescape_escape bind.bind_lunit prod.case if_True simp_thms)
qed

theorem sar_report_recovered_witness:
  "\<exists>xml. sar_to_xml (\<lambda>_. ''2026-01-01T00:00:00Z'') (from_transaction 0 ex_tx ''A&B'' Fraud ''x]]>y'') = Inr xml \<and>
     read_sar xml = Some (''A&B'', ''2026-01-01T00:00:00Z'', ''2026-01-01T00:00:00Z'', ''t1'', ''alice'', ''USD'', show_nat 10050, ''C'', ''x]]>y'')"
proof -
  have "CHR ''<'' \<notin> set ''2026-01-01T00:00:00Z''"
    by simp
  from sar_report_recovered [OF this, of "from_transaction 0 ex_tx ''A&B'' Fraud ''x]]>y''"] show ?thesis
    by (simp add: from_transaction_def ex_tx_def tx_with_metadata_def screen_tx_new_def)
qed

end
