(* ===== verification/Blz_Compliance.thy ===== *)
theory Blz_Compliance
  imports Blz_Prelude
begin

text \<open>
  Technology risk management (\<^verbatim>\<open>libs/mas_trm/src\<close>): data residency (\<^verbatim>\<open>region.rs\<close>, \<^verbatim>\<open>residency.rs\<close>), retention of records
  (\<^verbatim>\<open>retention.rs\<close>), the risk matrix (\<^verbatim>\<open>risk.rs\<close>) and recovery targets (\<^verbatim>\<open>bcp.rs\<close>). Instants are integers (nanoseconds);
  the calendar addition of the crate \<^verbatim>\<open>chrono\<close> is the argument \<open>add_months\<close>, whose result is \<open>None\<close> where it panics.
\<close>

section \<open>Residency (region.rs, residency.rs)\<close>

datatype region = Singapore | UnitedStates | Europe | Unknown

definition region_is_known :: "region \<Rightarrow> bool" where
  "region_is_known r \<longleftrightarrow> r \<noteq> Unknown"

datatype data_classification = Public | Internal | Confidential | PersonalData | SensitivePersonalData

fun region_debug :: "region \<Rightarrow> string" where
  "region_debug Singapore = ''Singapore''"
| "region_debug UnitedStates = ''UnitedStates''"
| "region_debug Europe = ''Europe''"
| "region_debug Unknown = ''Unknown''"

fun classification_debug :: "data_classification \<Rightarrow> string" where
  "classification_debug Public = ''Public''"
| "classification_debug Internal = ''Internal''"
| "classification_debug Confidential = ''Confidential''"
| "classification_debug PersonalData = ''PersonalData''"
| "classification_debug SensitivePersonalData = ''SensitivePersonalData''"

record residency_rule =
  rr_classification :: data_classification
  rr_allowed_regions :: "region list"

datatype residency_outcome = Permitted | Denied string

definition is_permitted :: "residency_outcome \<Rightarrow> bool" where
  "is_permitted c \<longleftrightarrow> c = Permitted"

type_synonym residency_policy = "residency_rule list"

definition mas_compliant :: residency_policy where
  "mas_compliant =
     [\<lparr>rr_classification = SensitivePersonalData, rr_allowed_regions = [Singapore]\<rparr>,
      \<lparr>rr_classification = PersonalData, rr_allowed_regions = [Singapore]\<rparr>,
      \<lparr>rr_classification = Confidential, rr_allowed_regions = [Singapore, UnitedStates]\<rparr>,
      \<lparr>rr_classification = Internal, rr_allowed_regions = [Singapore, UnitedStates, Europe]\<rparr>,
      \<lparr>rr_classification = Public, rr_allowed_regions = [Singapore, UnitedStates, Europe]\<rparr>]"

fun residency_check :: "residency_policy \<Rightarrow> data_classification \<Rightarrow> region \<Rightarrow> residency_outcome" where
  "residency_check [] classification target =
     Denied (''no residency rule configured for '' @ classification_debug classification)"
| "residency_check (rule # rules) classification target =
     (if rr_classification rule = classification
      then if target \<in> set (rr_allowed_regions rule) then Permitted
           else Denied (classification_debug classification @ '' data may not reside in '' @ region_debug target)
      else residency_check rules classification target)"

definition add_rule :: "residency_rule \<Rightarrow> residency_policy \<Rightarrow> residency_policy" where
  "add_rule rule p = p @ [rule]"

section \<open>Retention (retention.rs)\<close>

datatype retention_class = TransactionRecord | KycRecord | AuditLog | SarReport | SystemLog | ConsentRecord

fun retention_years :: "retention_class \<Rightarrow> nat" where
  "retention_years TransactionRecord = 5"
| "retention_years KycRecord = 5"
| "retention_years AuditLog = 5"
| "retention_years SarReport = 5"
| "retention_years SystemLog = 1"
| "retention_years ConsentRecord = 2"

record retention_record =
  rt_id :: string
  rt_classification :: retention_class
  rt_region :: region
  rt_transaction_date :: int
  rt_sar_filed_date :: "int option"

definition retention_anchor :: "retention_record \<Rightarrow> int" where
  "retention_anchor r =
     (case rt_classification r of
        SarReport \<Rightarrow> (case rt_sar_filed_date r of None \<Rightarrow> rt_transaction_date r | Some d \<Rightarrow> d)
      | _ \<Rightarrow> rt_transaction_date r)"

definition purge_after :: "(nat \<Rightarrow> int \<Rightarrow> int option) \<Rightarrow> retention_record \<Rightarrow> int option" where
  "purge_after add_months r = add_months (retention_years (rt_classification r) * 12) (retention_anchor r)"

definition is_eligible_for_purge :: "(nat \<Rightarrow> int \<Rightarrow> int option) \<Rightarrow> int \<Rightarrow> retention_record \<Rightarrow> bool option" where
  "is_eligible_for_purge add_months now r = map_option (\<lambda>d. now \<ge> d) (purge_after add_months r)"

text \<open>\<^verbatim>\<open>num_days\<close> truncates towards zero.\<close>

definition nanos_per_day :: int where
  "nanos_per_day = 86400000000000"

definition num_days :: "int \<Rightarrow> int" where
  "num_days d = (if d \<ge> 0 then d div nanos_per_day else - ((- d) div nanos_per_day))"

definition days_until_purge :: "(nat \<Rightarrow> int \<Rightarrow> int option) \<Rightarrow> int \<Rightarrow> retention_record \<Rightarrow> int option" where
  "days_until_purge add_months now r = map_option (\<lambda>d. num_days (d - now)) (purge_after add_months r)"

section \<open>Risk assessment (risk.rs)\<close>

datatype likelihood = Rare | Unlikely | Possible | Likely | AlmostCertain

datatype impact = Negligible | Minor | Moderate | Major | Catastrophic

fun likelihood_value :: "likelihood \<Rightarrow> u8" where
  "likelihood_value Rare = 1"
| "likelihood_value Unlikely = 2"
| "likelihood_value Possible = 3"
| "likelihood_value Likely = 4"
| "likelihood_value AlmostCertain = 5"

fun impact_value :: "impact \<Rightarrow> u8" where
  "impact_value Negligible = 1"
| "impact_value Minor = 2"
| "impact_value Moderate = 3"
| "impact_value Major = 4"
| "impact_value Catastrophic = 5"

datatype risk_score = RiskScore u8

definition risk_score_new :: "likelihood \<Rightarrow> impact \<Rightarrow> risk_score" where
  "risk_score_new l i = RiskScore (likelihood_value l * impact_value i)"

fun risk_raw :: "risk_score \<Rightarrow> u8" where
  "risk_raw (RiskScore n) = n"

datatype risk_rating = RatingLow | RatingMedium | RatingHigh | RatingCritical

fun risk_rating_of :: "risk_score \<Rightarrow> risk_rating" where
  "risk_rating_of (RiskScore n) =
     (if 1 \<le> n \<and> n \<le> 4 then RatingLow else if 5 \<le> n \<and> n \<le> 9 then RatingMedium
      else if 10 \<le> n \<and> n \<le> 16 then RatingHigh else RatingCritical)"

datatype treatment_strategy = Accept | Mitigate | TransferRisk | Avoid

record treatment_plan =
  tp_strategy :: treatment_strategy
  tp_description :: string
  tp_owner :: string
  tp_target_date :: int

record risk_assessment =
  ra_id :: string
  ra_title :: string
  ra_category :: string
  ra_inherent_score :: risk_score
  ra_treatment :: treatment_plan
  ra_residual_score :: risk_score
  ra_reviewer :: string
  ra_reviewed_at :: int

definition is_acceptable :: "risk_assessment \<Rightarrow> bool" where
  "is_acceptable a \<longleftrightarrow> risk_rating_of (ra_residual_score a) \<in> {RatingLow, RatingMedium}"

section \<open>Recovery targets (bcp.rs)\<close>

datatype system_criticality = Low | Medium | High | Critical

fun max_rto_hours :: "system_criticality \<Rightarrow> nat" where
  "max_rto_hours Critical = 4"
| "max_rto_hours High = 8"
| "max_rto_hours Medium = 24"
| "max_rto_hours Low = 72"

fun max_rpo_hours :: "system_criticality \<Rightarrow> nat" where
  "max_rpo_hours Critical = 4"
| "max_rpo_hours High = 8"
| "max_rpo_hours Medium = 24"
| "max_rpo_hours Low = 72"

record bcp_target =
  bt_system_name :: string
  bt_criticality :: system_criticality
  bt_rto_hours :: nat
  bt_rpo_hours :: nat
  bt_mtpd_hours :: nat

definition is_mas_compliant :: "bcp_target \<Rightarrow> bool" where
  "is_mas_compliant t \<longleftrightarrow>
     bt_rto_hours t \<le> max_rto_hours (bt_criticality t) \<and> bt_rpo_hours t \<le> max_rpo_hours (bt_criticality t)"

definition compliance_gap :: "bcp_target \<Rightarrow> string option" where
  "compliance_gap t =
     (if is_mas_compliant t then None
      else Some (str_join ''; ''
        ((if bt_rto_hours t > max_rto_hours (bt_criticality t)
          then [''RTO '' @ show_nat (bt_rto_hours t) @ ''h exceeds MAS limit '' @ show_nat (max_rto_hours (bt_criticality t)) @ ''h'']
          else []) @
         (if bt_rpo_hours t > max_rpo_hours (bt_criticality t)
          then [''RPO '' @ show_nat (bt_rpo_hours t) @ ''h exceeds MAS limit '' @ show_nat (max_rpo_hours (bt_criticality t)) @ ''h'']
          else []))))"

record bcp_assessment =
  ba_targets :: "bcp_target list"
  ba_last_tested :: int
  ba_next_test_due :: int

definition all_compliant :: "bcp_assessment \<Rightarrow> bool" where
  "all_compliant a \<longleftrightarrow> list_all is_mas_compliant (ba_targets a)"

definition non_compliant :: "bcp_assessment \<Rightarrow> bcp_target list" where
  "non_compliant a = filter (\<lambda>t. \<not> is_mas_compliant t) (ba_targets a)"

definition is_test_overdue :: "int \<Rightarrow> bcp_assessment \<Rightarrow> bool" where
  "is_test_overdue now a \<longleftrightarrow> now > ba_next_test_due a"

section \<open>Residency fails closed\<close>

text \<open>The table of the policy's documentation.\<close>

fun permitted_regions :: "data_classification \<Rightarrow> region set" where
  "permitted_regions SensitivePersonalData = {Singapore}"
| "permitted_regions PersonalData = {Singapore}"
| "permitted_regions Confidential = {Singapore, UnitedStates}"
| "permitted_regions Internal = {Singapore, UnitedStates, Europe}"
| "permitted_regions Public = {Singapore, UnitedStates, Europe}"

lemma fold_add_rule: "fold add_rule rules p = p @ rules"
  by (induction rules arbitrary: p) (auto simp: add_rule_def)

lemma residency_check_append:
  "c \<in> rr_classification ` set p \<Longrightarrow> residency_check (p @ q) c t = residency_check p c t"
  by (induction p) auto


section \<open>Retention deadlines\<close>

text \<open>Calendar addition: it moves forward and preserves the order.\<close>

definition calendar_months :: "(nat \<Rightarrow> int \<Rightarrow> int option) \<Rightarrow> bool" where
  "calendar_months add_months \<longleftrightarrow>
     (\<forall>m d e. add_months m d = Some e \<longrightarrow> d \<le> e) \<and>
     (\<forall>m d d' e e'. add_months m d = Some e \<longrightarrow> add_months m d' = Some e' \<longrightarrow> d \<le> d' \<longrightarrow> e \<le> e')"

lemma num_days_bounds: "0 < num_days d \<Longrightarrow> nanos_per_day \<le> d" "d \<le> 0 \<Longrightarrow> num_days d \<le> 0"
  by (auto simp: num_days_def nanos_per_day_def pos_imp_zdiv_pos_iff pos_imp_zdiv_nonneg_iff split: if_splits)

text \<open>
  Records are kept for their period: a record may be purged only once its deadline has come, which is never
  before the event; while days remain it may not be purged, and once it may be, none remain. For a suspicious
  activity report, recording a filing date after the transaction never brings the deadline forward, so
  without that date the report may be purged earlier.
\<close>

theorem retention_deadline:
  assumes "calendar_months add_months" "purge_after add_months r = Some d"
  shows "retention_anchor r \<le> d \<and> is_eligible_for_purge add_months now r = Some (now \<ge> d) \<and>
    (\<exists>k. days_until_purge add_months now r = Some k \<and> (0 < k \<longrightarrow> now < d) \<and> (now \<ge> d \<longrightarrow> k \<le> 0)) \<and>
    (rt_classification r = SarReport \<and> rt_sar_filed_date r = None \<and> rt_transaction_date r \<le> filed \<and>
       purge_after add_months (r\<lparr>rt_sar_filed_date := Some filed\<rparr>) = Some d' \<longrightarrow> d \<le> d')"
proof -
  have "retention_anchor r \<le> d"
    using assms unfolding calendar_months_def purge_after_def by blast
  moreover have "is_eligible_for_purge add_months now r = Some (now \<ge> d)"
    using assms(2) by (simp add: is_eligible_for_purge_def)
  moreover have "days_until_purge add_months now r = Some (num_days (d - now))"
    using assms(2) by (simp add: days_until_purge_def)
  moreover have "0 < num_days (d - now) \<Longrightarrow> now < d" "now \<ge> d \<Longrightarrow> num_days (d - now) \<le> 0"
    using num_days_bounds [of "d - now"] by (auto simp: nanos_per_day_def)
  moreover have "d \<le> d'" if "rt_classification r = SarReport" "rt_sar_filed_date r = None" "rt_transaction_date r \<le> filed"
    "purge_after add_months (r\<lparr>rt_sar_filed_date := Some filed\<rparr>) = Some d'"
  proof -
    have "add_months 60 (rt_transaction_date r) = Some d" "add_months 60 filed = Some d'"
      using assms(2) that by (simp_all add: purge_after_def retention_anchor_def)
    then show ?thesis
      using assms(1) that(3) unfolding calendar_months_def by blast
  qed
  ultimately show ?thesis
    by blast
qed

definition ex_record :: retention_record where
  "ex_record = \<lparr>rt_id = ''s1'', rt_classification = SarReport, rt_region = Singapore, rt_transaction_date = 10, rt_sar_filed_date = None\<rparr>"

theorem retention_deadline_witness:
  "is_eligible_for_purge (\<lambda>m d. Some (d + int m)) 70 ex_record = Some True \<and>
   is_eligible_for_purge (\<lambda>m d. Some (d + int m)) 70 (ex_record\<lparr>rt_sar_filed_date := Some 40\<rparr>) = Some False"
proof -
  have c: "calendar_months (\<lambda>m d. Some (d + int m))"
    by (simp add: calendar_months_def)
  have p: "purge_after (\<lambda>m d. Some (d + int m)) ex_record = Some 70"
    "purge_after (\<lambda>m d. Some (d + int m)) (ex_record\<lparr>rt_sar_filed_date := Some 40\<rparr>) = Some 100"
    by (simp_all add: purge_after_def retention_anchor_def ex_record_def)
  show ?thesis
    using retention_deadline [OF c p(1), of 70 40 100] retention_deadline [OF c p(2), of 70 0 0] by simp
qed

section \<open>The risk matrix\<close>

instantiation risk_rating :: linorder
begin

fun rating_rank :: "risk_rating \<Rightarrow> nat" where
  "rating_rank RatingLow = 0"
| "rating_rank RatingMedium = 1"
| "rating_rank RatingHigh = 2"
| "rating_rank RatingCritical = 3"

definition less_eq_risk_rating :: "risk_rating \<Rightarrow> risk_rating \<Rightarrow> bool" where
  "a \<le> b \<longleftrightarrow> rating_rank a \<le> rating_rank b"

definition less_risk_rating :: "risk_rating \<Rightarrow> risk_rating \<Rightarrow> bool" where
  "a < b \<longleftrightarrow> rating_rank a < rating_rank b"

instance
proof
  fix a b :: risk_rating
  show "a \<le> b \<Longrightarrow> b \<le> a \<Longrightarrow> a = b"
    by (cases a; cases b) (auto simp: less_eq_risk_rating_def)
qed (auto simp: less_eq_risk_rating_def less_risk_rating_def)

end

text \<open>
  The matrix is sound: scores lie between 1 and 25, a higher likelihood or impact never lowers the rating, and an
  assessment is acceptable exactly when its residual score is at most nine.
\<close>

lemma risk_matrix:
  shows "1 \<le> risk_raw (risk_score_new l i) \<and> risk_raw (risk_score_new l i) \<le> 25"
    and "likelihood_value l \<le> likelihood_value l' \<Longrightarrow> impact_value i \<le> impact_value i' \<Longrightarrow>
      risk_rating_of (risk_score_new l i) \<le> risk_rating_of (risk_score_new l' i')"
    and "ra_residual_score a = risk_score_new l i \<Longrightarrow> is_acceptable a \<longleftrightarrow> risk_raw (risk_score_new l i) \<le> 9"
proof -
  show "1 \<le> risk_raw (risk_score_new l i) \<and> risk_raw (risk_score_new l i) \<le> 25"
    by (cases l; cases i) (simp_all add: risk_score_new_def)
  show "likelihood_value l \<le> likelihood_value l' \<Longrightarrow> impact_value i \<le> impact_value i' \<Longrightarrow>
      risk_rating_of (risk_score_new l i) \<le> risk_rating_of (risk_score_new l' i')"
    by (cases l; cases i; cases l'; cases i') (simp_all add: risk_score_new_def less_eq_risk_rating_def word_le_nat_alt)
  show "ra_residual_score a = risk_score_new l i \<Longrightarrow> is_acceptable a \<longleftrightarrow> risk_raw (risk_score_new l i) \<le> 9"
    by (cases l; cases i) (simp_all add: risk_score_new_def is_acceptable_def)
qed

lemma compliance_gap_iff: "compliance_gap t = None \<longleftrightarrow> is_mas_compliant t"
  by (simp add: compliance_gap_def)

lemma non_compliant_empty: "non_compliant a = [] \<longleftrightarrow> all_compliant a"
  by (auto simp: non_compliant_def all_compliant_def filter_empty_conv list_all_iff)

end
