(* ===== verification/Spec2Isabelle.thy ===== *)
theory Spec2Isabelle
  imports Blz_Timestamp Blz_InMemory Blz_TigerBeetle Blz_Sharded Blz_Metrics Blz_Positions Blz_Risk Blz_Transport Blz_Admission Blz_Audit Blz_Sharding Blz_EngineClient Blz_Banking Blz_Aeron Blz_Datagram Blz_Sar Blz_Compliance
begin

text \<open>
  Verification of BLAZIL, a transaction engine in Rust with services in Go.

  \<^bold>\<open>The program.\<close> A payment enters through the payments service (\<^verbatim>\<open>services/payments\<close>), which authorizes
  and routes it and submits it over TCP to the engine. The transport server (\<^verbatim>\<open>core/transport\<close>) decodes the
  request into an event and publishes it to a ring buffer. A pipeline of handlers (\<^verbatim>\<open>core/engine\<close>) validates the
  event, checks its risk, posts it to a ledger in batches and publishes the result, for which the
  connection waits. The ledger (\<^verbatim>\<open>core/ledger\<close>) is in memory or a TigerBeetle cluster. Accounts are spread over
  shards (\<^verbatim>\<open>core/engine/src/sharded_pipeline.rs\<close> inside a node, \<^verbatim>\<open>libs/sharding\<close> between nodes). Beside this path
  stand the trading service (\<^verbatim>\<open>services/trading\<close>), the banking service (\<^verbatim>\<open>services/banking\<close>), the risk engine
  (\<^verbatim>\<open>core/risk\<close>), the audit log (\<^verbatim>\<open>libs/audit\<close>), the screening of transactions by outside providers
  (\<^verbatim>\<open>libs/screening\<close>) and the rules of technology-risk compliance (\<^verbatim>\<open>libs/mas_trm\<close>).

  \<^bold>\<open>Modelling conventions.\<close> A struct is a record and an enum a datatype, with the names of the source. A
  function that changes state takes the state and returns it changed; \<^verbatim>\<open>Result\<close> is a sum with the error on the
  left; a panic, or a wait without end, is \<open>None\<close>. Unsigned integers that are stored, compared or masked are
  words; \<^verbatim>\<open>i64\<close> is \<^typ>\<open>int\<close> with \<open>wrap_i64\<close> written out; \<^verbatim>\<open>usize\<close> is \<^typ>\<open>nat\<close>. Clock readings, fresh identifiers
  and what other threads do in the meantime are arguments. Where threads interleave, a step relation has one
  rule per atomic access. Code outside the repository (decimal arithmetic, MessagePack, JSON, SHA-256, gRPC,
  Postgres, the TigerBeetle cluster) is an argument; the laws a theorem needs of it are named hypotheses, and
  each such theorem has a witness with a concrete instance (\<open>ref_externs\<close> for the decimal type).

  \<^bold>\<open>The theories.\<close>
  \<^item> \<open>Blz_Prelude\<close>: machine integers, \<^verbatim>\<open>Result\<close> combinators, decimal text, byte encodings, lists and strings.
  \<^item> \<open>Blz_Common\<close>, \<open>Blz_Timestamp\<close>, \<open>Blz_Decimal\<close>, \<open>Blz_Amount\<close> (\<^verbatim>\<open>core/common/src\<close>): errors, identifiers, calendar,
    decimals as a parameter with laws, amounts. Shown: the calendar agrees with stepping day by day;
    amounts add, subtract and read back exactly.
  \<^item> \<open>Blz_Convert\<close>, \<open>Blz_Ledger\<close>, \<open>Blz_InMemory\<close>, \<open>Blz_TigerBeetle\<close> (\<^verbatim>\<open>core/ledger/src\<close>): minor units, accounts and
    transfers, the in-memory ledger and the client of the cluster. Shown: debits equal credits over every
    history; a transfer is posted exactly or not at all; every transfer of a batch gets its own verdict;
    conversions read back. The locale \<open>ledger_client\<close> is the contract of both clients.
  \<^item> \<open>Blz_Event\<close>, \<open>Blz_Ring\<close>, \<open>Blz_Pipeline\<close>, \<open>Blz_Builder\<close>, \<open>Blz_Handlers\<close>, \<open>Blz_LedgerHandler\<close>, \<open>Blz_Sharded\<close>,
    \<open>Blz_Metrics\<close> (\<^verbatim>\<open>core/engine/src\<close>): events and flags, ring buffers and the result ring, one producer and any
    number of workers as a step relation, the builder, the handlers, batching with retries, shards and
    counters. Shown: workers see what was published, in order and once; one worker misses nothing; no
    event that reaches the ledger handler is lost; retries and back-pressure are bounded; results of shards
    are not mixed up. The locales \<open>slot_ring\<close> and \<open>event_handler\<close> are the contracts of rings and handlers.
  \<^item> \<open>Blz_OrderBook\<close>, \<open>Blz_Matching\<close>, \<open>Blz_Orders\<close>, \<open>Blz_Positions\<close> (\<^verbatim>\<open>services/trading/internal\<close>): the book over a heap of
    orders, matching, the order service, positions and settlement. Shown: matching is price-time priority;
    the service never crosses the book and never fails internally; settlement is exact and zero-sum.
  \<^item> \<open>Blz_Risk\<close> (\<^verbatim>\<open>core/risk/src\<close>): limits, positions, the order check. Shown: executed orders respect the limits.
  \<^item> \<open>Blz_Transport\<close>, \<open>Blz_Admission\<close> (\<^verbatim>\<open>core/transport/src\<close>): frames, requests and the connection loop; the token bucket
    and the accept loop under interference. Shown: one response per request, in order; the rate and
    connection limits hold under every interleaving.
  \<^item> \<open>Blz_Aeron\<close>, \<open>Blz_Datagram\<close> (\<^verbatim>\<open>core/transport/src\<close>): priorities and their streams, the Aeron serve loop and the UDP server
    as step relations with the engine, packet and frame parsers, the back-pressure guard. Shown: a
    prioritised poll never lets lower traffic displace higher; every response answers its own request, and
    a commit is reported only from its own sequence; the offer loop returns once its deadline has passed.
  \<^item> \<open>Blz_Audit\<close> (\<^verbatim>\<open>libs/audit/src\<close>): the hash-chained log. Shown: a changed log does not verify, unless two inputs collide;
    concurrent recording loses nothing.
  \<^item> \<open>Blz_Sharding\<close> (\<^verbatim>\<open>libs/sharding\<close>): jump hash, node ring, balancer, rebalancer, cross-shard coordinator. Shown: the hash is
    total, in range and consistent; a key is attempted at most once.
  \<^item> \<open>Blz_PayDomain\<close>, \<open>Blz_Payments\<close>, \<open>Blz_EngineClient\<close> (\<^verbatim>\<open>services/payments\<close>): money, rules, stores, the processor, the clients
    of the engine. Shown: requests are idempotent, only authorized local payments are submitted, settled
    means committed, and over the wire a commit is reported only for a transfer the pipeline committed. The
    locale \<open>payment_stores\<close> is the contract of the in-memory and the Postgres stores.
  \<^item> \<open>Blz_Banking\<close> (\<^verbatim>\<open>services/banking\<close>): accounts, balances, history, interest. Shown: balances are the replayed
    history; the Postgres accounts refine the in-memory ones; interest is accurate.
  \<^item> \<open>Blz_Float\<close>: doubles as reals with a rounding function, the laws of double precision, fixed-point text.
  \<^item> \<open>Blz_Screening\<close>, \<open>Blz_Sar\<close> (\<^verbatim>\<open>libs/screening/src\<close>): the three providers, the deadline gate, holds, the batch worker and
    the reports of suspicious activity. Shown: no provider passes a transaction without its own answer
    (below the threshold, or completed and neither severe nor high); retries and polls are bounded; a hold
    is placed once and released once; the worker screens in order and gives every caller its own result; a
    report reads back from its XML. The locale \<open>screening_api\<close> is the contract of the providers.
  \<^item> \<open>Blz_Compliance\<close> (\<^verbatim>\<open>libs/mas_trm/src\<close>): residency, retention, the risk matrix, continuity targets. Shown: residency
    fails closed; a record is purged only from its deadline on, which is never before its date.

  \<^bold>\<open>Bounds and fuel.\<close> Loops are recursive functions with termination proofs. \<open>jump_loop\<close>, \<open>match_loop\<close> and
  \<open>offer_from\<close> may in principle not end and return \<open>None\<close> then; the theorems show when they return. The
  theorem on the Aeron server assumes that the requests in flight fit the slots of the loop, which the loop
  does not enforce; without it two requests can share a slot. Where a theorem bounds amounts or sequence
  numbers, the bound is the one at which the 64-bit or 96-bit arithmetic of the code would wrap.

  \<^bold>\<open>Not modelled.\<close> Memory ordering weaker than sequential consistency; thread pinning and priorities; log output
  and tracing; NEON and prefetch variants; start-up, configuration files and signal handling of the
  servers; the loops of AF_XDP, io_uring and RDMA around kernel rings and the Aeron media driver, which are
  calls into C libraries and the kernel; the crypto and gateway services and the clients of identity,
  discovery, metering, policy and secret services; machine-learning inference and data loading, whose
  results are defined by third-party tensor libraries; the media service around third-party speech engines; generated protobuf code; benchmarks
  and command-line tools.
\<close>

end
